(* ===== verification/OtNxp_Prelude.thy ===== *)
theory OtNxp_Prelude
  imports Main "HOL-Library.Word" "HOL-Library.Monad_Syntax"
begin

text \<open>
  Shared vocabulary of the development: the machine integers of the C sources, the OpenThread
  error codes the platform layer returns, byte memory with explicit bounds, and the little-endian
  layout of a 16-bit field.

  A C function that may stop on an \<^verbatim>\<open>assert\<close>, read or write outside an object, or loop forever
  is modelled with an \<open>option\<close> result: \<open>None\<close> means "does not return normally", so a theorem of
  the shape \<open>f x = Some y\<close> states at once that the call returns, that no assertion fires and that
  every access stays inside its buffer.
\<close>

unbundle bit_operations_syntax

section \<open>Types\<close>

type_synonym u8 = "8 word"
type_synonym u16 = "16 word"
type_synonym u32 = "32 word"
type_synonym u64 = "64 word"
type_synonym bytes = "u8 list"

datatype otError =
    OT_ERROR_NONE
  | OT_ERROR_FAILED
  | OT_ERROR_NO_BUFS
  | OT_ERROR_BUSY
  | OT_ERROR_INVALID_ARGS
  | OT_ERROR_NOT_FOUND
  | OT_ERROR_INVALID_STATE
  | OT_ERROR_NO_ADDRESS
  | OT_ERROR_NO_ACK
  | OT_ERROR_ABORT
  | OT_ERROR_CHANNEL_ACCESS_FAILURE
  | OT_ERROR_NOT_IMPLEMENTED
  | OT_ERROR_ALREADY

named_theorems mem_simps \<open>reading and writing byte memory that is split into known pieces\<close>
named_theorems u16_simps \<open>16-bit arithmetic that does not wrap\<close>

section \<open>Byte memory\<close>

text \<open>
  \<open>rd_bytes off n m\<close> is \<^verbatim>\<open>memcpy(dst, m + off, n)\<close>, \<open>wr_bytes off xs m\<close> is
  \<^verbatim>\<open>memcpy(m + off, xs, |xs|)\<close>; both are \<open>None\<close> when the range leaves the object. \<open>move_bytes\<close>
  is \<^verbatim>\<open>memmove\<close> inside one object and \<open>set_bytes\<close> is \<^verbatim>\<open>memset\<close>.
\<close>

definition rd_bytes :: "nat \<Rightarrow> nat \<Rightarrow> 'a list \<Rightarrow> 'a list option" where
  "rd_bytes off n m = (if off + n \<le> length m then Some (take n (drop off m)) else None)"

definition wr_bytes :: "nat \<Rightarrow> 'a list \<Rightarrow> 'a list \<Rightarrow> 'a list option" where
  "wr_bytes off xs m =
     (if off + length xs \<le> length m
      then Some (take off m @ xs @ drop (off + length xs) m) else None)"

definition move_bytes :: "nat \<Rightarrow> nat \<Rightarrow> nat \<Rightarrow> 'a list \<Rightarrow> 'a list option" where
  "move_bytes dst src n m = Option.bind (rd_bytes src n m) (\<lambda>xs. wr_bytes dst xs m)"

definition set_bytes :: "nat \<Rightarrow> 'a \<Rightarrow> nat \<Rightarrow> 'a list \<Rightarrow> 'a list option" where
  "set_bytes off x n m = wr_bytes off (replicate n x) m"

lemma rd_bytes_append [mem_simps]:
  "off = length a \<Longrightarrow> n = length b \<Longrightarrow> rd_bytes off n (a @ b @ c) = Some b"
  by (simp add: rd_bytes_def)

lemma wr_bytes_append [mem_simps]:
  "off = length a \<Longrightarrow> length xs = length b \<Longrightarrow> wr_bytes off xs (a @ b @ c) = Some (a @ xs @ c)"
  by (simp add: wr_bytes_def)

lemma move_bytes_down [mem_simps]:
  "dst = length a \<Longrightarrow> src = length a + length b \<Longrightarrow> n = length c \<Longrightarrow>
   move_bytes dst src n (a @ b @ c @ d) = Some (a @ c @ drop (length c) (b @ c) @ d)"
  by (simp add: move_bytes_def rd_bytes_def wr_bytes_def)

lemma wr_bytes_length: "wr_bytes off xs m = Some m' \<Longrightarrow> length m' = length m"
  by (auto simp: wr_bytes_def split: if_splits)

lemma move_bytes_length: "move_bytes dst src n m = Some m' \<Longrightarrow> length m' = length m"
  by (auto simp: move_bytes_def dest: wr_bytes_length split: bind_splits)

lemma set_bytes_length: "set_bytes off x n m = Some m' \<Longrightarrow> length m' = length m"
  by (auto simp: set_bytes_def dest: wr_bytes_length)

lemma rd_bytes_Some_iff: "rd_bytes off n m = Some xs \<longleftrightarrow> off + n \<le> length m \<and> xs = take n (drop off m)"
  by (auto simp: rd_bytes_def)

section \<open>Sixteen-bit fields, little endian\<close>

definition u16_bytes :: "u16 \<Rightarrow> bytes" where
  "u16_bytes w = [ucast w, ucast (drop_bit 8 w)]"

definition bytes_u16 :: "u8 \<Rightarrow> u8 \<Rightarrow> u16" where
  "bytes_u16 lo hi = ucast lo OR push_bit 8 (ucast hi)"

definition rd_u16 :: "nat \<Rightarrow> bytes \<Rightarrow> u16 option" where
  "rd_u16 off m = Option.bind (rd_bytes off 2 m) (\<lambda>xs. Some (bytes_u16 (xs ! 0) (xs ! 1)))"

lemma length_u16_bytes [simp]: "length (u16_bytes w) = 2"
  by (simp add: u16_bytes_def)

lemma bytes_u16_u16_bytes [simp]: "bytes_u16 (ucast w) (ucast (drop_bit 8 w)) = w"
proof (rule bit_word_eqI)
  fix n assume "n < LENGTH(16)"
  then show "bit (bytes_u16 (ucast w) (ucast (drop_bit 8 w))) n = bit w n"
    by (auto simp: bytes_u16_def bit_simps)
qed

lemma rd_u16_append [mem_simps]: "off = length a \<Longrightarrow> rd_u16 off (a @ u16_bytes w @ c) = Some w"
  by (simp add: rd_u16_def rd_bytes_def) (simp add: u16_bytes_def)

section \<open>Sixteen-bit arithmetic without wrap-around\<close>

lemma unat_u16_less: "unat (w :: u16) < 65536"
  using unsigned_less [of w] by simp

lemma unat_of_nat_u16 [u16_simps]: "n < 65536 \<Longrightarrow> unat (of_nat n :: u16) = n"
  by (simp add: unat_of_nat)

lemma unat_add_u16 [u16_simps]: "unat (a :: u16) + unat b < 65536 \<Longrightarrow> unat (a + b) = unat a + unat b"
  by (simp add: unat_word_ariths)

lemma unat_sub_u16 [u16_simps]: "(b :: u16) \<le> a \<Longrightarrow> unat (a - b) = unat a - unat b"
  by (simp add: unat_sub)

lemma u16_less_iff [u16_simps]: "(a :: u16) < b \<longleftrightarrow> unat a < unat b"
  by (simp add: word_less_nat_alt)

lemma u16_le_iff [u16_simps]: "(a :: u16) \<le> b \<longleftrightarrow> unat a \<le> unat b"
  by (simp add: word_le_nat_alt)

lemma u16_eq_of_nat: "unat (w :: u16) = n \<Longrightarrow> w = of_nat n"
  by auto

lemma of_nat_u16_add: "(of_nat a :: u16) + of_nat b = of_nat (a + b)"
  by simp

end
