(* ===== verification/Block_Codec.thy ===== *)
theory Block_Codec
  imports OtNxp_Prelude
begin

text \<open>
  The record layout shared by every settings backend. Both \<^verbatim>\<open>struct settingsBlock\<close>
  (\<^verbatim>\<open>src/common/ram_storage.h\<close>, followed by its data) and the tag/length/value entries of
  \<^verbatim>\<open>otSettingsBuffer_t\<close> (\<^verbatim>\<open>flash_nvm.c\<close>, \<^verbatim>\<open>flash_fsa.c\<close>, \<^verbatim>\<open>flash_littlefs.c\<close> and
  \<^verbatim>\<open>mcxw72_nbu/settings.c\<close>) are a 16-bit key, a 16-bit length and that many bytes. The theory holds
  the encoder of a list of blocks, an executable decoder, the proof that they are inverse to each
  other, and the abstract view of a block list: for each key, its values in order.
\<close>

section \<open>Blocks and their encoding\<close>

type_synonym block = "u16 \<times> bytes"

definition hdr_bytes :: "u16 \<Rightarrow> u16 \<Rightarrow> bytes" where
  "hdr_bytes k l = u16_bytes k @ u16_bytes l"

definition enc_block :: "block \<Rightarrow> bytes" where
  "enc_block b = hdr_bytes (fst b) (of_nat (length (snd b))) @ snd b"

definition enc :: "block list \<Rightarrow> bytes" where
  "enc bs = concat (map enc_block bs)"

definition wf_blocks :: "block list \<Rightarrow> bool" where
  "wf_blocks bs \<longleftrightarrow> list_all (\<lambda>b. length (snd b) < 65536) bs"

definition rd_hdr :: "nat \<Rightarrow> bytes \<Rightarrow> (u16 \<times> u16) option" where
  "rd_hdr off m = do { k \<leftarrow> rd_u16 off m; l \<leftarrow> rd_u16 (off + 2) m; Some (k, l) }"

fun dec_fuel :: "nat \<Rightarrow> bytes \<Rightarrow> block list option" where
  "dec_fuel n [] = Some []"
| "dec_fuel 0 (x # xs) = None"
| "dec_fuel (Suc n) (x # xs) =
     do { (k, l) \<leftarrow> rd_hdr 0 (x # xs);
          v \<leftarrow> rd_bytes 4 (unat l) (x # xs);
          bs \<leftarrow> dec_fuel n (drop (4 + unat l) (x # xs));
          Some ((k, v) # bs) }"

text \<open>Each block takes at least four bytes, so as many steps as there are bytes suffice.\<close>

definition dec :: "bytes \<Rightarrow> block list option" where
  "dec xs = dec_fuel (length xs) xs"

lemma length_hdr_bytes [simp]: "length (hdr_bytes k l) = 4"
  by (simp add: hdr_bytes_def)

lemma length_enc_block [simp]: "length (enc_block b) = 4 + length (snd b)"
  by (simp add: enc_block_def)

lemma enc_simps [simp]:
  "enc [] = []" "enc (b # bs) = enc_block b @ enc bs" "enc (bs @ cs) = enc bs @ enc cs"
  by (simp_all add: enc_def)

lemma wf_blocks_simps [simp]:
  "wf_blocks []"
  "wf_blocks (b # bs) \<longleftrightarrow> length (snd b) < 65536 \<and> wf_blocks bs"
  "wf_blocks (bs @ cs) \<longleftrightarrow> wf_blocks bs \<and> wf_blocks cs"
  by (auto simp: wf_blocks_def)

lemma enc_Nil_iff [simp]: "enc bs = [] \<longleftrightarrow> bs = []"
  by (cases bs) (auto simp: enc_block_def hdr_bytes_def u16_bytes_def)

lemma enc_empty_length: "length (enc bs) = 0 \<longleftrightarrow> bs = []"
  by simp

lemma wf_blocks_of_length: "length (enc bs) < 65536 \<Longrightarrow> wf_blocks bs"
  by (induction bs) auto

lemma rd_hdr_append [mem_simps]:
  "off = length a \<Longrightarrow> rd_hdr off (a @ hdr_bytes k l @ c) = Some (k, l)"
  using rd_u16_append [of "off + 2" "a @ u16_bytes k" l c]
  by (simp add: rd_hdr_def hdr_bytes_def rd_u16_append)

lemma rd_hdr_enc_block [mem_simps]:
  "off = length a \<Longrightarrow> rd_hdr off (a @ enc_block (k, v) @ c) = Some (k, of_nat (length v))"
  by (simp add: enc_block_def rd_hdr_append)

lemma rd_value_enc_block [mem_simps]:
  "off = length a + 4 \<Longrightarrow> n = length v \<Longrightarrow> rd_bytes off n (a @ enc_block (k, v) @ c) = Some v"
  using rd_bytes_append [of off "a @ hdr_bytes k (of_nat (length v))" n v c]
  by (simp add: enc_block_def)

lemma wr_value_enc_block [mem_simps]:
  "off = length a + 4 \<Longrightarrow> length w = length v \<Longrightarrow>
   wr_bytes off w (a @ enc_block (k, v) @ c) = Some (a @ enc_block (k, w) @ c)"
  using wr_bytes_append [of off "a @ hdr_bytes k (of_nat (length v))" w v c]
  by (simp add: enc_block_def)

section \<open>The decoder inverts the encoder\<close>

lemma dec_fuel_enc: "wf_blocks bs \<Longrightarrow> length (enc bs) \<le> n \<Longrightarrow> dec_fuel n (enc bs) = Some bs"
proof (induction bs arbitrary: n)
  case Nil
  then show ?case by simp
next
  case (Cons b bs)
  obtain k v where b: "b = (k, v)" by force
  obtain m where n: "n = Suc m" using Cons.prems by (cases n) auto
  obtain x xs where e: "enc (b # bs) = x # xs"
    by (cases "enc (b # bs)") (simp_all del: enc_simps)
  have hdr: "rd_hdr 0 (enc (b # bs)) = Some (k, of_nat (length v))"
    using rd_hdr_enc_block [of 0 "[]" k v "enc bs"] by (simp add: b)
  have val: "rd_bytes 4 (length v) (enc (b # bs)) = Some v"
    using rd_value_enc_block [of 4 "[]" "length v" v k "enc bs"] by (simp add: b)
  have rest: "drop (4 + length v) (enc (b # bs)) = enc bs" by (simp add: b)
  have "dec_fuel m (enc bs) = Some bs" using Cons n by simp
  moreover have "unat (of_nat (length v) :: u16) = length v"
    using Cons.prems by (simp add: b u16_simps)
  ultimately show ?case using hdr val rest unfolding n e by (simp add: b)
qed

lemma dec_enc: "wf_blocks bs \<Longrightarrow> dec (enc bs) = Some bs"
  by (simp add: dec_def dec_fuel_enc)

lemma rd_hdr_prefix:
  assumes "rd_hdr 0 xs = Some (k, l)"
  shows "take 4 xs = hdr_bytes k l" and "4 \<le> length xs"
proof -
  from assms have len: "4 \<le> length xs"
    by (auto simp: rd_hdr_def rd_u16_def rd_bytes_def split: if_splits)
  then obtain a b c d ys where xs: "xs = a # b # c # d # ys"
    by (auto simp: Suc_le_length_iff numeral_eq_Suc)
  have split_hi: "ucast (drop_bit 8 (bytes_u16 p q)) = q" and split_lo: "ucast (bytes_u16 p q) = p" for p q
    by (rule bit_word_eqI; auto simp: bytes_u16_def bit_simps dest: bit_imp_le_length)+
  from assms have "k = bytes_u16 a b" "l = bytes_u16 c d"
    by (auto simp: xs rd_hdr_def rd_u16_def rd_bytes_def split: if_splits)
  then show "take 4 xs = hdr_bytes k l"
    by (simp add: xs hdr_bytes_def u16_bytes_def split_hi split_lo)
  show "4 \<le> length xs" by (rule len)
qed

lemma dec_fuel_sound: "dec_fuel n xs = Some bs \<Longrightarrow> xs = enc bs \<and> wf_blocks bs"
proof (induction n xs arbitrary: bs rule: dec_fuel.induct)
  case (3 n x xs)
  let ?xs = "x # xs"
  from "3.prems" obtain k l v cs where hdr: "rd_hdr 0 ?xs = Some (k, l)"
    and val: "rd_bytes 4 (unat l) ?xs = Some v"
    and rest: "dec_fuel n (drop (4 + unat l) ?xs) = Some cs" and bs: "bs = (k, v) # cs"
    by (auto split: bind_splits)
  have IH: "drop (4 + unat l) ?xs = enc cs \<and> wf_blocks cs"
    by (rule "3.IH" [OF hdr refl val rest])
  have v: "v = take (unat l) (drop 4 ?xs)" and len: "length v = unat l"
    using val by (auto simp: rd_bytes_Some_iff)
  have "?xs = take 4 ?xs @ take (unat l) (drop 4 ?xs) @ drop (4 + unat l) ?xs"
    using append_take_drop_id [of 4 ?xs] append_take_drop_id [of "unat l" "drop 4 ?xs"]
    by (simp only: drop_drop add.commute)
  also have "\<dots> = enc_block (k, v) @ enc cs"
    using rd_hdr_prefix(1) [OF hdr] v len IH by (simp add: enc_block_def)
  finally show ?case using IH len unat_u16_less [of l] by (simp add: bs)
qed auto

lemma dec_sound: "dec xs = Some bs \<Longrightarrow> xs = enc bs \<and> wf_blocks bs"
  unfolding dec_def by (rule dec_fuel_sound)

lemma dec_iff: "dec xs = Some bs \<longleftrightarrow> xs = enc bs \<and> wf_blocks bs"
  using dec_sound dec_enc by blast

section \<open>The values of a key\<close>

definition vals :: "block list \<Rightarrow> u16 \<Rightarrow> bytes list" where
  "vals bs k = map snd (filter (\<lambda>b. fst b = k) bs)"

lemma vals_simps [simp]:
  "vals [] k = []"
  "vals (b # bs) k = (if fst b = k then snd b # vals bs k else vals bs k)"
  "vals (bs @ cs) k = vals bs k @ vals cs k"
  by (simp_all add: vals_def)

lemma vals_Nil_iff: "vals bs k = [] \<longleftrightarrow> k \<notin> fst ` set bs"
  by (induction bs) auto

lemma vals_neq [simp]: "\<forall>b \<in> set bs. fst b \<noteq> k \<Longrightarrow> vals bs k = []"
  by (induction bs) auto

lemma vals_eq [simp]: "\<forall>b \<in> set bs. fst b = k \<Longrightarrow> vals bs k = map snd bs"
  by (induction bs) auto

lemma vals_filter_neq [simp]:
  "vals (filter (\<lambda>b. fst b \<noteq> k) bs) = (vals bs)(k := [])"
  by (rule ext) (induction bs; auto)

end
