(* ===== verification/Settings_Spec.thy ===== *)
theory Settings_Spec
  imports Block_Codec
begin

text \<open>
  The contract of the OpenThread settings interface (\<^verbatim>\<open>otPlatSettingsGet\<close>, \<^verbatim>\<open>Add\<close>, \<^verbatim>\<open>Set\<close>,
  \<^verbatim>\<open>Delete\<close>, \<^verbatim>\<open>Wipe\<close>) that the backends share: an abstract store that maps a key to the list of its
  values, a relation giving the outcomes each call may have, and the locale \<open>settings_store\<close> with
  the laws a backend has to meet. Consequences for a client (read back after a write, isolation of
  keys, refinement of whole call sequences) are proved once in the locale and reach each backend
  through its interpretation.
\<close>

section \<open>Abstract store\<close>

type_synonym store = "u16 \<Rightarrow> bytes list"

datatype settings_cmd = CAdd u16 bytes | CSet u16 bytes | CDelete u16 int | CWipe

text \<open>
  The outcomes of a call. A \<open>CSet\<close> on a key that holds at most one value leaves
  exactly the new value; where several values share the key, the backends differ and the contract
  only promises that the new value is among them. A failed \<open>CSet\<close> touches no other key.

  Every backend deletes the first value of a key at index 0 and all its values at index -1. What a delete at
  another index does depends on the backend, and the mode of the contract says it exactly: the buffer of
  \<^verbatim>\<open>ram_storage.c\<close> ignores it (\<open>FirstOrAll\<close>), the TLV buffers remove the value at that index, and all values of the
  key when there is none (\<open>EveryIndex\<close>).
\<close>

datatype delete_mode = FirstOrAll | EveryIndex

definition without :: "int \<Rightarrow> 'a list \<Rightarrow> 'a list" where
  "without i xs = (if 0 \<le> i \<and> i < int (length xs) then take (nat i) xs @ drop (Suc (nat i)) xs else [])"

lemma without_simps [simp]: "without (- 1) xs = []" "xs \<noteq> [] \<Longrightarrow> without 0 xs = tl xs"
  by (simp_all add: without_def drop_Suc)

inductive settings_step :: "delete_mode \<Rightarrow> store \<Rightarrow> settings_cmd \<Rightarrow> otError \<Rightarrow> store \<Rightarrow> bool" for mode where
  add_ok: "settings_step mode \<sigma> (CAdd k v) OT_ERROR_NONE (\<sigma>(k := \<sigma> k @ [v]))"
| add_full: "settings_step mode \<sigma> (CAdd k v) OT_ERROR_NO_BUFS \<sigma>"
| set_ok: "v \<in> set vs \<Longrightarrow> length (\<sigma> k) \<le> 1 \<longrightarrow> vs = [v] \<Longrightarrow>
     settings_step mode \<sigma> (CSet k v) OT_ERROR_NONE (\<sigma>(k := vs))"
| set_full: "settings_step mode \<sigma> (CSet k v) OT_ERROR_NO_BUFS (\<sigma>(k := vs))"
| delete_all: "\<sigma> k \<noteq> [] \<Longrightarrow> settings_step mode \<sigma> (CDelete k (-1)) OT_ERROR_NONE (\<sigma>(k := []))"
| delete_first: "\<sigma> k \<noteq> [] \<Longrightarrow> settings_step mode \<sigma> (CDelete k 0) OT_ERROR_NONE (\<sigma>(k := tl (\<sigma> k)))"
| delete_at: "mode = EveryIndex \<Longrightarrow> \<sigma> k \<noteq> [] \<Longrightarrow> i \<noteq> -1 \<Longrightarrow> i \<noteq> 0 \<Longrightarrow>
     settings_step mode \<sigma> (CDelete k i) OT_ERROR_NONE (\<sigma>(k := without i (\<sigma> k)))"
| delete_ignored: "mode = FirstOrAll \<Longrightarrow> i \<noteq> -1 \<Longrightarrow> i \<noteq> 0 \<Longrightarrow> settings_step mode \<sigma> (CDelete k i) OT_ERROR_NOT_FOUND \<sigma>"
| delete_none: "\<sigma> k = [] \<Longrightarrow> settings_step mode \<sigma> (CDelete k i) OT_ERROR_NOT_FOUND \<sigma>"
| wipe: "settings_step mode \<sigma> CWipe OT_ERROR_NONE (\<lambda>_. [])"

inductive_cases step_addE: "settings_step mode \<sigma> (CAdd k v) e \<tau>"
inductive_cases step_setE: "settings_step mode \<sigma> (CSet k v) e \<tau>"
inductive_cases step_deleteE: "settings_step mode \<sigma> (CDelete k i) e \<tau>"
inductive_cases step_wipeE: "settings_step mode \<sigma> CWipe e \<tau>"

lemmas settings_stepEs = step_addE step_setE step_deleteE step_wipeE

lemma delete_at_stepI: "\<sigma> k \<noteq> [] \<Longrightarrow> settings_step EveryIndex \<sigma> (CDelete k i) OT_ERROR_NONE (\<sigma>(k := without i (\<sigma> k)))"
  using settings_step.delete_at [of EveryIndex \<sigma> k i] settings_step.delete_all [of \<sigma> k EveryIndex]
    settings_step.delete_first [of \<sigma> k EveryIndex]
  by (cases "i = -1 \<or> i = 0") auto

text \<open>A whole call sequence, with the codes it returned.\<close>

inductive settings_run :: "delete_mode \<Rightarrow> store \<Rightarrow> settings_cmd list \<Rightarrow> otError list \<Rightarrow> store \<Rightarrow> bool" for mode where
  run_Nil: "settings_run mode \<sigma> [] [] \<sigma>"
| run_Cons: "settings_step mode \<sigma> c e \<tau> \<Longrightarrow> settings_run mode \<tau> cs es \<upsilon> \<Longrightarrow> settings_run mode \<sigma> (c # cs) (e # es) \<upsilon>"

fun cmd_keys :: "settings_cmd \<Rightarrow> u16 set" where
  "cmd_keys (CAdd k v) = {k}"
| "cmd_keys (CSet k v) = {k}"
| "cmd_keys (CDelete k i) = {k}"
| "cmd_keys CWipe = UNIV"

fun cmd_ok :: "settings_cmd \<Rightarrow> bool" where
  "cmd_ok (CAdd k v) = (length v + 4 < 65536)"
| "cmd_ok (CSet k v) = (length v + 4 < 65536)"
| "cmd_ok (CDelete k i) = True"
| "cmd_ok CWipe = True"

lemma settings_step_frame: "settings_step mode \<sigma> c e \<tau> \<Longrightarrow> k \<notin> cmd_keys c \<Longrightarrow> \<tau> k = \<sigma> k"
  by (induction rule: settings_step.induct) auto

lemma settings_run_frame:
  "settings_run mode \<sigma> cs es \<tau> \<Longrightarrow> \<forall>c \<in> set cs. k \<notin> cmd_keys c \<Longrightarrow> \<tau> k = \<sigma> k"
  by (induction rule: settings_run.induct) (auto simp: settings_step_frame)

section \<open>Running commands on a backend\<close>

fun exec_cmd ::
  "('s \<Rightarrow> u16 \<Rightarrow> bytes \<Rightarrow> u16 \<Rightarrow> (otError \<times> 's) option) \<Rightarrow>
   ('s \<Rightarrow> u16 \<Rightarrow> bytes \<Rightarrow> u16 \<Rightarrow> (otError \<times> 's) option) \<Rightarrow>
   ('s \<Rightarrow> u16 \<Rightarrow> int \<Rightarrow> (otError \<times> 's) option) \<Rightarrow> ('s \<Rightarrow> 's option) \<Rightarrow>
   's \<Rightarrow> settings_cmd \<Rightarrow> (otError \<times> 's) option" where
  "exec_cmd add put del wip s (CAdd k v) = add s k v (of_nat (length v))"
| "exec_cmd add put del wip s (CSet k v) = put s k v (of_nat (length v))"
| "exec_cmd add put del wip s (CDelete k i) = del s k i"
| "exec_cmd add put del wip s CWipe = map_option (Pair OT_ERROR_NONE) (wip s)"

fun exec_cmds ::
  "('s \<Rightarrow> settings_cmd \<Rightarrow> (otError \<times> 's) option) \<Rightarrow> 's \<Rightarrow> settings_cmd list \<Rightarrow>
   (otError list \<times> 's) option" where
  "exec_cmds ex s [] = Some ([], s)"
| "exec_cmds ex s (c # cs) =
     do { (e, s1) \<leftarrow> ex s c; (es, s2) \<leftarrow> exec_cmds ex s1 cs; Some (e # es, s2) }"

section \<open>The interface\<close>

locale settings_store =
  fixes mode :: delete_mode
    and inv :: "'s \<Rightarrow> bool"
    and abs :: "'s \<Rightarrow> store"
    and get :: "'s \<Rightarrow> u16 \<Rightarrow> int \<Rightarrow> bytes option \<Rightarrow> u16 option \<Rightarrow>
                (otError \<times> bytes option \<times> u16 option) option"
    and add :: "'s \<Rightarrow> u16 \<Rightarrow> bytes \<Rightarrow> u16 \<Rightarrow> (otError \<times> 's) option"
    and put :: "'s \<Rightarrow> u16 \<Rightarrow> bytes \<Rightarrow> u16 \<Rightarrow> (otError \<times> 's) option"
    and del :: "'s \<Rightarrow> u16 \<Rightarrow> int \<Rightarrow> (otError \<times> 's) option"
    and wip :: "'s \<Rightarrow> 's option"
  assumes get_hit: "inv s \<Longrightarrow> i < length (abs s k) \<Longrightarrow> abs s k ! i = v \<Longrightarrow>
      length v \<le> length dst \<Longrightarrow> length v \<le> unat cap \<Longrightarrow>
      get s k (int i) (Some dst) (Some cap) =
        Some (OT_ERROR_NONE, Some (v @ drop (length v) dst), Some (of_nat (length v)))"
    and get_miss: "inv s \<Longrightarrow> length (abs s k) \<le> i \<Longrightarrow>
      \<exists>n. get s k (int i) out len = Some (OT_ERROR_NOT_FOUND, out, n)"
    and add_step: "inv s \<Longrightarrow> length v = unat l \<Longrightarrow> length v + 4 < 65536 \<Longrightarrow>
      \<exists>e t. add s k v l = Some (e, t) \<and> inv t \<and> settings_step mode (abs s) (CAdd k v) e (abs t)"
    and put_step: "inv s \<Longrightarrow> length v = unat l \<Longrightarrow> length v + 4 < 65536 \<Longrightarrow>
      \<exists>e t. put s k v l = Some (e, t) \<and> inv t \<and> settings_step mode (abs s) (CSet k v) e (abs t)"
    and del_step: "inv s \<Longrightarrow> \<exists>e t. del s k j = Some (e, t) \<and> inv t \<and> settings_step mode (abs s) (CDelete k j) e (abs t)"
    and wip_step: "inv s \<Longrightarrow> \<exists>t. wip s = Some t \<and> inv t \<and> abs t = (\<lambda>_. [])"
begin

lemma exec_step:
  assumes "inv s" and "cmd_ok c"
  shows "\<exists>e t. exec_cmd add put del wip s c = Some (e, t) \<and> inv t \<and> settings_step mode (abs s) c e (abs t)"
proof (cases c)
  case (CAdd k v)
  then show ?thesis using assms add_step [of s v "of_nat (length v)" k] by (simp add: u16_simps)
next
  case (CSet k v)
  then show ?thesis using assms put_step [of s v "of_nat (length v)" k] by (simp add: u16_simps)
next
  case (CDelete k i)
  then show ?thesis using assms del_step [of s k i] by simp
next
  case CWipe
  then show ?thesis using assms wip_step [of s] by (auto intro: settings_step.wipe)
qed

lemma run_refines:
  "inv s \<Longrightarrow> list_all cmd_ok cs \<Longrightarrow>
   \<exists>es t. exec_cmds (exec_cmd add put del wip) s cs = Some (es, t) \<and> inv t \<and>
          settings_run mode (abs s) cs es (abs t)"
proof (induction cs arbitrary: s)
  case Nil
  then show ?case by (auto intro: settings_run.intros)
next
  case (Cons c cs)
  then obtain e s1 where 1: "exec_cmd add put del wip s c = Some (e, s1)" "inv s1"
    "settings_step mode (abs s) c e (abs s1)"
    using exec_step by force
  from Cons obtain es t where 2: "exec_cmds (exec_cmd add put del wip) s1 cs = Some (es, t)" "inv t"
    "settings_run mode (abs s1) cs es (abs t)"
    using 1 by force
  from 1 2 show ?case by (auto intro: settings_run.intros)
qed

lemma run_isolates:
  assumes "inv s" and "list_all cmd_ok cs" and "\<forall>c \<in> set cs. k \<notin> cmd_keys c"
    and "exec_cmds (exec_cmd add put del wip) s cs = Some (es, t)"
  shows "abs t k = abs s k"
  using run_refines [OF assms(1,2)] assms(3,4) by (auto dest: settings_run_frame)

lemma put_then_get:
  assumes "inv s" and "length v = unat l" and "length v + 4 < 65536" and "length (abs s k) \<le> 1"
    and "put s k v l = Some (OT_ERROR_NONE, t)" and "length v \<le> length dst" and "length v \<le> unat cap"
  shows "get t k 0 (Some dst) (Some cap) = Some (OT_ERROR_NONE, Some (v @ drop (length v) dst), Some l)"
proof -
  from put_step [OF assms(1,2,3), of k] assms(4,5) have t: "inv t" "abs t k = [v]"
    by (auto elim: step_setE)
  have "of_nat (length v) = l" using assms(2) by simp
  with get_hit [OF t(1), of 0 k v dst cap] t(2) assms(6,7) show ?thesis by simp
qed

lemma add_then_get:
  assumes "inv s" and "length v = unat l" and "length v + 4 < 65536"
    and "add s k v l = Some (OT_ERROR_NONE, t)" and "length v \<le> length dst" and "length v \<le> unat cap"
  shows "get t k (int (length (abs s k))) (Some dst) (Some cap) =
    Some (OT_ERROR_NONE, Some (v @ drop (length v) dst), Some l)"
proof -
  from add_step [OF assms(1,2,3), of k] assms(4) have t: "inv t" "abs t k = abs s k @ [v]"
    by (auto elim: step_addE)
  have "of_nat (length v) = l" using assms(2) by simp
  with get_hit [OF t(1), of "length (abs s k)" k v dst cap] t(2) assms(5,6) show ?thesis by simp
qed

lemma delete_then_get:
  assumes "inv s" and "del s k (-1) = Some (e, t)"
  shows "\<exists>n. get t k 0 out len = Some (OT_ERROR_NOT_FOUND, out, n)"
proof -
  from del_step [OF assms(1), of k "-1"] assms(2) have "inv t" "abs t k = []"
    by (auto elim: step_deleteE)
  then show ?thesis using get_miss [of t k 0 out len] by simp
qed

end

text \<open>A backend that can delete the value at any valid index.\<close>

locale indexed_settings_store = settings_store EveryIndex inv abs get add put del wip
  for inv abs get add put del wip
begin

lemma del_at:
  assumes "inv s" and "i < length (abs s k)"
  shows "\<exists>t. del s k (int i) = Some (OT_ERROR_NONE, t) \<and> inv t \<and>
    abs t = (abs s)(k := take i (abs s k) @ drop (Suc i) (abs s k))"
  using del_step [OF assms(1), of k "int i"] assms(2)
  by (auto elim!: step_deleteE simp: without_def drop_Suc)

lemma delete_shifts:
  assumes "inv s" and "i < length (abs s k)" and "del s k (int i) = Some (e, t)"
    and "j < length (abs s k) - 1"
  shows "abs t k ! j = abs s k ! (if j < i then j else Suc j)"
  using del_at [OF assms(1,2)] assms(2-) by (auto simp: nth_append)

end

end
