(* ===== verification/Ram_Storage.thy ===== *)
theory Ram_Storage
  imports Settings_Spec
begin

text \<open>
  \<^verbatim>\<open>src/common/ram_storage.c\<close>: the RAM buffer that keeps settings as a sequence of
  \<^verbatim>\<open>settingsBlock\<close> records. The cursor \<open>i\<close>, the block lengths and the header fields are 16-bit, as
  in the source, so the additions wrap where the source's do; a buffer pointer is \<open>None\<close> for
  \<^verbatim>\<open>NULL\<close>. The loops are \<^theory_text>\<open>partial_function (option)\<close>, because on a buffer that is not a
  sequence of blocks the 16-bit cursor can wrap and run forever; on well-formed buffers the
  theorems show that every call returns.
\<close>

section \<open>State\<close>

datatype rsError = RS_ERROR_NONE | RS_ERROR_NOT_FOUND | RS_ERROR_NO_BUFS | RS_ERROR_PDM_ENC

record ramBufferHeader =
  hLength :: u16
  maxLength :: u16
  extendedSearch :: bool
  backendRegionSize :: u16

record ramBufferDescriptor =
  header :: ramBufferHeader
  buffer :: "bytes option"

definition ramStorageEnsureBlockConsistency ::
  "ramBufferDescriptor \<Rightarrow> u16 \<Rightarrow> rsError \<times> ramBufferDescriptor" where
  "ramStorageEnsureBlockConsistency pBuffer aValueLength = (RS_ERROR_NONE, pBuffer)"

section \<open>Operations\<close>

definition ramStorageAdd ::
  "ramBufferDescriptor \<Rightarrow> u16 \<Rightarrow> bytes \<Rightarrow> u16 \<Rightarrow> (rsError \<times> ramBufferDescriptor) option" where
  "ramStorageAdd pBuffer aKey aValue aValueLength =
     (let newBlockLength = 4 + aValueLength in
      if buffer pBuffer = None then None
      else if \<not> unat (hLength (header pBuffer)) + unat newBlockLength \<le> unat (maxLength (header pBuffer))
      then Some (RS_ERROR_NO_BUFS, pBuffer)
      else if \<not> extendedSearch (header pBuffer) \<and>
              \<not> unat (hLength (header pBuffer)) + unat newBlockLength
                  < unat (backendRegionSize (header pBuffer))
      then Some (RS_ERROR_NO_BUFS, pBuffer)
      else (case ramStorageEnsureBlockConsistency pBuffer aValueLength of (error, pBuffer) \<Rightarrow>
        if error \<noteq> RS_ERROR_NONE then Some (error, pBuffer)
        else do {
          buf \<leftarrow> buffer pBuffer;
          buf1 \<leftarrow> wr_bytes (unat (hLength (header pBuffer))) (hdr_bytes aKey aValueLength) buf;
          xs \<leftarrow> rd_bytes 0 (unat aValueLength) aValue;
          buf2 \<leftarrow> wr_bytes (unat (hLength (header pBuffer)) + 4) xs buf1;
          Some (RS_ERROR_NONE,
            pBuffer\<lparr>buffer := Some buf2,
                    header := (header pBuffer)\<lparr>hLength := hLength (header pBuffer) + newBlockLength\<rparr>\<rparr>)
        }))"

definition ramGetValue ::
  "bytes \<Rightarrow> nat \<Rightarrow> u16 \<Rightarrow> bytes option \<Rightarrow> u16 option \<Rightarrow> (rsError \<times> bytes option \<times> u16) option" where
  "ramGetValue buf off len aValue aValueLength =
     (case (aValue, aValueLength) of
        (Some dst, Some cap) \<Rightarrow>
          (let readLength = (if len > cap then cap else len) in
           do { xs \<leftarrow> rd_bytes off (unat readLength) buf;
                dst1 \<leftarrow> wr_bytes 0 xs dst;
                Some (RS_ERROR_NONE, Some dst1, len) })
      | _ \<Rightarrow> Some (RS_ERROR_NONE, aValue, len))"

partial_function (option) ramGetLoop ::
  "bytes \<Rightarrow> u16 \<Rightarrow> u16 \<Rightarrow> int \<Rightarrow> bytes option \<Rightarrow> u16 option \<Rightarrow> u16 \<Rightarrow> int \<Rightarrow>
   (rsError \<times> bytes option \<times> u16) option" where
  "ramGetLoop buf len aKey aIndex aValue aValueLength i currentIndex =
     (if i < len then
        (case rd_hdr (unat i) buf of
           None \<Rightarrow> None
         | Some currentBlock \<Rightarrow>
             (if aKey = fst currentBlock \<and> currentIndex = aIndex
              then ramGetValue buf (unat i + 4) (snd currentBlock) aValue aValueLength
              else ramGetLoop buf len aKey aIndex aValue aValueLength
                     (i + (4 + snd currentBlock))
                     (if aKey = fst currentBlock then currentIndex + 1 else currentIndex)))
      else Some (RS_ERROR_NOT_FOUND, aValue, 0))"

definition ramStorageGet ::
  "ramBufferDescriptor \<Rightarrow> u16 \<Rightarrow> int \<Rightarrow> bytes option \<Rightarrow> u16 option \<Rightarrow>
   (rsError \<times> bytes option \<times> u16 option) option" where
  "ramStorageGet pBuffer aKey aIndex aValue aValueLength =
     do { buf \<leftarrow> buffer pBuffer;
          (error, aValue1, valueLength) \<leftarrow>
            ramGetLoop buf (hLength (header pBuffer)) aKey aIndex aValue aValueLength 0 0;
          Some (error, aValue1, map_option (\<lambda>_. valueLength) aValueLength) }"

definition ramRemoveBlock :: "bytes \<Rightarrow> u16 \<Rightarrow> u16 \<Rightarrow> u16 \<Rightarrow> (bytes \<times> u16) option" where
  "ramRemoveBlock buf len i currentBlockLength =
     (let nextBlockStart = i + currentBlockLength in
      do { buf1 \<leftarrow> (if nextBlockStart < len
                     then move_bytes (unat i) (unat nextBlockStart) (unat len - unat nextBlockStart) buf
                     else Some buf);
           if len \<ge> currentBlockLength then Some (buf1, len - currentBlockLength) else None })"

partial_function (option) ramDeleteLoop ::
  "u16 \<Rightarrow> int \<Rightarrow> bytes \<Rightarrow> u16 \<Rightarrow> u16 \<Rightarrow> int \<Rightarrow> rsError \<Rightarrow> (rsError \<times> bytes \<times> u16) option" where
  "ramDeleteLoop aKey aIndex buf len i currentIndex error =
     (if i < len then
        (case rd_hdr (unat i) buf of
           None \<Rightarrow> None
         | Some currentBlock \<Rightarrow>
             (if aKey = fst currentBlock \<and> (currentIndex = aIndex \<or> aIndex = -1) then
                (case ramRemoveBlock buf len i (4 + snd currentBlock) of
                   None \<Rightarrow> None
                 | Some r \<Rightarrow>
                     (if aIndex \<noteq> -1 then Some (RS_ERROR_NONE, fst r, snd r)
                      else ramDeleteLoop aKey aIndex (fst r) (snd r) i (currentIndex + 1) RS_ERROR_NONE))
              else ramDeleteLoop aKey aIndex buf len (i + (4 + snd currentBlock)) currentIndex error))
      else Some (error, buf, len))"

definition ramStorageDelete ::
  "ramBufferDescriptor \<Rightarrow> u16 \<Rightarrow> int \<Rightarrow> (rsError \<times> ramBufferDescriptor) option" where
  "ramStorageDelete pBuffer aKey aIndex =
     do { buf \<leftarrow> buffer pBuffer;
          (error, buf1, len1) \<leftarrow>
            ramDeleteLoop aKey aIndex buf (hLength (header pBuffer)) 0 0 RS_ERROR_NOT_FOUND;
          Some (error, pBuffer\<lparr>buffer := Some buf1, header := (header pBuffer)\<lparr>hLength := len1\<rparr>\<rparr>) }"

partial_function (option) ramSetLoop ::
  "ramBufferDescriptor \<Rightarrow> bytes \<Rightarrow> u16 \<Rightarrow> bytes \<Rightarrow> u16 \<Rightarrow> u16 \<Rightarrow> (bool \<times> ramBufferDescriptor) option" where
  "ramSetLoop pBuffer buf aKey aValue aValueLength i =
     (if i < hLength (header pBuffer) then
        (case rd_hdr (unat i) buf of
           None \<Rightarrow> None
         | Some currentBlock \<Rightarrow>
             (if aKey = fst currentBlock then
                (if snd currentBlock \<noteq> aValueLength
                 then map_option (\<lambda>r. (False, snd r)) (ramStorageDelete pBuffer aKey (-1))
                 else do { xs \<leftarrow> rd_bytes 0 (unat aValueLength) aValue;
                           buf1 \<leftarrow> wr_bytes (unat i + 4) xs buf;
                           Some (True, pBuffer\<lparr>buffer := Some buf1\<rparr>) })
              else ramSetLoop pBuffer buf aKey aValue aValueLength (i + (4 + snd currentBlock))))
      else Some (False, pBuffer))"

definition ramStorageSet ::
  "ramBufferDescriptor \<Rightarrow> u16 \<Rightarrow> bytes \<Rightarrow> u16 \<Rightarrow> (rsError \<times> ramBufferDescriptor) option" where
  "ramStorageSet pBuffer aKey aValue aValueLength =
     do { buf \<leftarrow> buffer pBuffer;
          (alreadyExists, pBuffer1) \<leftarrow> ramSetLoop pBuffer buf aKey aValue aValueLength 0;
          if alreadyExists then Some (RS_ERROR_NONE, pBuffer1)
          else ramStorageAdd pBuffer1 aKey aValue aValueLength }"

section \<open>Invariant and abstraction\<close>

text \<open>
  The used part of the buffer is a sequence of whole blocks and the allocation is exactly
  \<open>maxLength\<close> bytes. \<open>ram_inv\<close> is executable: it runs the decoder on the used part.
\<close>

definition ram_blocks :: "ramBufferDescriptor \<Rightarrow> block list option" where
  "ram_blocks d = Option.bind (buffer d) (\<lambda>buf. dec (take (unat (hLength (header d))) buf))"

definition ram_inv :: "ramBufferDescriptor \<Rightarrow> bool" where
  "ram_inv d \<longleftrightarrow> ram_blocks d \<noteq> None \<and> hLength (header d) \<le> maxLength (header d) \<and>
     map_option length (buffer d) = Some (unat (maxLength (header d)))"

definition ram_abs :: "ramBufferDescriptor \<Rightarrow> store" where
  "ram_abs d = vals (the (ram_blocks d))"

definition ram_holds :: "ramBufferDescriptor \<Rightarrow> block list \<Rightarrow> bytes \<Rightarrow> bool" where
  "ram_holds d bs junk \<longleftrightarrow> buffer d = Some (enc bs @ junk) \<and> unat (hLength (header d)) = length (enc bs) \<and>
     unat (maxLength (header d)) = length (enc bs) + length junk"

lemma ram_holds_wf: "ram_holds d bs junk \<Longrightarrow> wf_blocks bs \<and> length (enc bs) < 65536"
  using unat_u16_less [of "hLength (header d)"] by (auto simp: ram_holds_def intro: wf_blocks_of_length)

lemma ram_holds_abs: "ram_holds d bs junk \<Longrightarrow> ram_blocks d = Some bs \<and> ram_abs d = vals bs \<and> ram_inv d"
  using ram_holds_wf [of d bs junk]
  by (auto simp: ram_holds_def ram_blocks_def ram_abs_def ram_inv_def dec_enc u16_simps)

lemma ram_inv_holds:
  assumes "ram_inv d"
  obtains bs junk where "ram_holds d bs junk"
proof -
  from assms obtain buf bs where b: "buffer d = Some buf" "dec (take (unat (hLength (header d))) buf) = Some bs"
    "length buf = unat (maxLength (header d))" "unat (hLength (header d)) \<le> length buf"
    by (auto simp: ram_inv_def ram_blocks_def u16_simps split: bind_splits)
  then have e: "take (unat (hLength (header d))) buf = enc bs" by (auto dest: dec_sound)
  have "buf = enc bs @ drop (unat (hLength (header d))) buf" by (simp flip: e)
  moreover have "unat (hLength (header d)) = length (enc bs)" using b by (simp flip: e)
  ultimately have "ram_holds d bs (drop (unat (hLength (header d))) buf)"
    using b by (simp add: ram_holds_def)
  then show ?thesis by (rule that)
qed

section \<open>One step of the cursor\<close>

lemma cursor_read:
  "unat i = length (enc pre) \<Longrightarrow>
   rd_hdr (unat i) (enc (pre @ (k, v) # post) @ rest) = Some (k, of_nat (length v))"
  using rd_hdr_enc_block [of "unat i" "enc pre" k v "enc post @ rest"] by simp

lemma cursor_block_length:
  "length (enc (pre @ (k, v) # post)) < 65536 \<Longrightarrow> unat (4 + of_nat (length v) :: u16) = 4 + length v"
  by (simp add: unat_add_u16 unat_of_nat_u16)

lemma cursor_advance:
  fixes i :: u16
  assumes "unat i = length (enc pre)" and "length (enc (pre @ (k, v) # post)) < 65536"
  shows "unat (i + (4 + of_nat (length v))) = length (enc (pre @ [(k, v)]))"
  using assms cursor_block_length [OF assms(2)] by (simp add: unat_add_u16)

lemma cursor_less:
  fixes i len :: u16
  assumes "unat i = length (enc pre)" and "unat len = length (enc (pre @ post))"
  shows "i < len \<longleftrightarrow> post \<noteq> []"
  using assms enc_empty_length [of post] by (auto simp: u16_less_iff)

lemmas cursor_simps = cursor_read cursor_block_length cursor_advance cursor_less

section \<open>Reading\<close>

text \<open>What a hit hands back: at most \<open>cap\<close> bytes are copied, the full length is reported.\<close>

definition ram_deliver :: "bytes \<Rightarrow> bytes option \<Rightarrow> u16 option \<Rightarrow> (rsError \<times> bytes option \<times> u16) option" where
  "ram_deliver v aValue aValueLength =
     (case (aValue, aValueLength) of
        (Some dst, Some cap) \<Rightarrow>
          do { d \<leftarrow> wr_bytes 0 (take (unat cap) v) dst; Some (RS_ERROR_NONE, Some d, of_nat (length v)) }
      | _ \<Rightarrow> Some (RS_ERROR_NONE, aValue, of_nat (length v)))"

definition ram_lookup ::
  "bytes list \<Rightarrow> int \<Rightarrow> bytes option \<Rightarrow> u16 option \<Rightarrow> (rsError \<times> bytes option \<times> u16) option" where
  "ram_lookup vs i aValue aValueLength =
     (if 0 \<le> i \<and> nat i < length vs then ram_deliver (vs ! nat i) aValue aValueLength
      else Some (RS_ERROR_NOT_FOUND, aValue, 0))"

lemma ram_lookup_simps [simp]:
  "ram_lookup [] i aValue aValueLength = Some (RS_ERROR_NOT_FOUND, aValue, 0)"
  "ram_lookup (v # vs) 0 aValue aValueLength = ram_deliver v aValue aValueLength"
  "i \<noteq> 0 \<Longrightarrow> ram_lookup (v # vs) i aValue aValueLength = ram_lookup vs (i - 1) aValue aValueLength"
  by (auto simp: ram_lookup_def nth_Cons' nat_diff_distrib')

lemma ramGetValue_block:
  assumes "length v < 65536" "off = length a + 4"
  shows "ramGetValue (a @ enc_block (k, v) @ c) off (of_nat (length v)) aValue aValueLength =
     ram_deliver v aValue aValueLength"
proof -
  have "rd_bytes off (unat (if of_nat (length v) > cap then cap else of_nat (length v)))
      (a @ enc_block (k, v) @ c) = Some (take (unat cap) v)" for cap :: u16
    using assms by (auto simp: rd_bytes_def enc_block_def u16_simps)
  then show ?thesis
    by (auto simp: ramGetValue_def ram_deliver_def Let_def split: option.splits)
qed

lemma ramGetLoop_blocks:
  fixes i len :: u16
  assumes "unat i = length (enc pre)" and "unat len = length (enc (pre @ post))"
  shows "ramGetLoop (enc (pre @ post) @ junk) len aKey aIndex aValue aValueLength i c =
         ram_lookup (vals post aKey) (aIndex - c) aValue aValueLength"
  using assms
proof (induction post arbitrary: pre i c)
  case Nil
  then show ?case by (subst ramGetLoop.simps) (simp add: u16_less_iff)
next
  case (Cons b post)
  obtain k v where b: "b = (k, v)" by force
  let ?buf = "enc (pre @ (k, v) # post) @ junk"
  have small: "length (enc (pre @ (k, v) # post)) < 65536"
    using Cons.prems(2) unat_u16_less [of len] by (simp add: b)
  have less: "i < len" using cursor_less [OF Cons.prems] by simp
  have hdr: "rd_hdr (unat i) ?buf = Some (k, of_nat (length v))"
    using cursor_read [OF Cons.prems(1)] by simp
  have IH: "ramGetLoop ?buf len aKey aIndex aValue aValueLength (i + (4 + of_nat (length v))) c' =
      ram_lookup (vals post aKey) (aIndex - c') aValue aValueLength" for c'
    using Cons.IH [OF cursor_advance [OF Cons.prems(1) small], of c'] Cons.prems(2) by (simp add: b)
  have val: "ramGetValue ?buf (unat i + 4) (of_nat (length v)) aValue aValueLength =
      ram_deliver v aValue aValueLength"
    using ramGetValue_block [of v _ "enc pre" k "enc post @ junk" aValue aValueLength] small Cons.prems(1)
    by simp
  show ?case
    unfolding b ramGetLoop.simps [of ?buf len aKey aIndex aValue aValueLength i c]
    using less hdr val IH by (cases "k = aKey"; cases "c = aIndex") (simp_all add: algebra_simps)
qed

lemma ramStorageGet_holds:
  assumes "ram_holds d bs junk"
  shows "ramStorageGet d aKey aIndex aValue aValueLength =
    map_option (\<lambda>(e, a, n). (e, a, map_option (\<lambda>_. n) aValueLength))
      (ram_lookup (vals bs aKey) aIndex aValue aValueLength)"
  using ramGetLoop_blocks [of 0 "[]" "hLength (header d)" bs junk aKey aIndex aValue aValueLength 0] assms
  by (simp add: ramStorageGet_def ram_holds_def map_conv_bind_option split_def comp_def)

section \<open>Deleting\<close>

fun del_first :: "u16 \<Rightarrow> block list \<Rightarrow> block list" where
  "del_first k [] = []"
| "del_first k (b # bs) = (if fst b = k then bs else b # del_first k bs)"

lemma vals_del_first [simp]: "vals (del_first k bs) = (vals bs)(k := tl (vals bs k))"
  by (rule ext) (induction bs; auto)

lemma ramRemoveBlock_block:
  fixes i len c :: u16
  assumes i: "unat i = length (enc pre)" and len: "unat len = length (enc (pre @ b # post))"
    and c: "unat c = 4 + length (snd b)"
  obtains junk1 len1 where "length junk1 = length junk + 4 + length (snd b)"
    and "unat len1 = length (enc (pre @ post))"
    and "ramRemoveBlock (enc (pre @ b # post) @ junk) len i c = Some (enc (pre @ post) @ junk1, len1)"
proof -
  have next_eq: "unat (i + c) = length (enc pre) + 4 + length (snd b)"
    using i c len unat_u16_less [of len] by (simp add: unat_add_u16)
  have le: "c \<le> len" using c len by (simp add: u16_le_iff)
  have len1: "unat (len - c) = length (enc (pre @ post))" using c len by (simp add: unat_sub_u16 [OF le])
  show thesis
  proof (cases "post = []")
    case True
    then have "\<not> i + c < len" using next_eq len by (simp add: u16_less_iff)
    then have "ramRemoveBlock (enc (pre @ b # post) @ junk) len i c =
        Some (enc (pre @ post) @ enc_block b @ junk, len - c)"
      unfolding ramRemoveBlock_def Let_def using le True by simp
    with len1 show thesis by (intro that [of "enc_block b @ junk" "len - c"]) simp_all
  next
    case False
    then have lt: "i + c < len" using next_eq len enc_empty_length [of post] by (simp add: u16_less_iff)
    let ?junk = "drop (length (enc post)) (enc_block b @ enc post) @ junk"
    have "move_bytes (unat i) (unat (i + c)) (unat len - unat (i + c)) (enc (pre @ b # post) @ junk) =
        Some (enc (pre @ post) @ ?junk)"
      using move_bytes_down [of "unat i" "enc pre" "unat (i + c)" "enc_block b" _ "enc post" junk]
      by (simp add: i len next_eq)
    then have "ramRemoveBlock (enc (pre @ b # post) @ junk) len i c = Some (enc (pre @ post) @ ?junk, len - c)"
      unfolding ramRemoveBlock_def Let_def using lt le by simp
    with len1 show thesis by (intro that [of ?junk "len - c"]) simp_all
  qed
qed

lemma ramDeleteLoop_all:
  fixes i len :: u16
  assumes "unat i = length (enc pre)" and "unat len = length (enc (pre @ post))"
  shows "\<exists>junk1 len1. length (enc (pre @ filter (\<lambda>b. fst b \<noteq> k) post) @ junk1) = length (enc (pre @ post) @ junk) \<and>
     unat len1 = length (enc (pre @ filter (\<lambda>b. fst b \<noteq> k) post)) \<and>
     ramDeleteLoop k (-1) (enc (pre @ post) @ junk) len i c e =
     Some (if vals post k = [] then e else RS_ERROR_NONE,
           enc (pre @ filter (\<lambda>b. fst b \<noteq> k) post) @ junk1, len1)"
  using assms
proof (induction post arbitrary: pre i len c e junk)
  case Nil
  then show ?case by (subst ramDeleteLoop.simps) (simp add: u16_less_iff)
next
  case (Cons b post)
  obtain k' v where b: "b = (k', v)" by force
  let ?buf = "enc (pre @ (k', v) # post) @ junk"
  have small: "length (enc (pre @ (k', v) # post)) < 65536"
    using Cons.prems(2) unat_u16_less [of len] by (simp add: b)
  have less: "i < len" using cursor_less [OF Cons.prems] by simp
  have hdr: "rd_hdr (unat i) ?buf = Some (k', of_nat (length v))"
    using cursor_read [OF Cons.prems(1)] by simp
  note step = ramDeleteLoop.simps [of k "-1" ?buf len i c e]
  show ?case
  proof (cases "k' = k")
    case True
    obtain j len1 where j: "length j = length junk + 4 + length v" "unat len1 = length (enc (pre @ post))"
      "ramRemoveBlock ?buf len i (4 + of_nat (length v)) = Some (enc (pre @ post) @ j, len1)"
      using ramRemoveBlock_block [OF Cons.prems, of "4 + of_nat (length v)" junk]
        cursor_block_length [OF small] by (auto simp: b)
    show ?thesis
      unfolding b step using Cons.IH [OF Cons.prems(1) j(2), of j "c + 1" RS_ERROR_NONE] less hdr j True
      by auto
  next
    case False
    then show ?thesis
      unfolding b step using less hdr
        Cons.IH [OF cursor_advance [OF Cons.prems(1) small], of len junk c e] Cons.prems(2) by (simp add: b)
  qed
qed

lemma ramDeleteLoop_first:
  fixes i len :: u16
  assumes "unat i = length (enc pre)" and "unat len = length (enc (pre @ post))"
  shows "\<exists>junk1 len1. length (enc (pre @ del_first k post) @ junk1) = length (enc (pre @ post) @ junk) \<and>
     unat len1 = length (enc (pre @ del_first k post)) \<and>
     ramDeleteLoop k 0 (enc (pre @ post) @ junk) len i 0 RS_ERROR_NOT_FOUND =
     Some (if vals post k = [] then RS_ERROR_NOT_FOUND else RS_ERROR_NONE,
           enc (pre @ del_first k post) @ junk1, len1)"
  using assms
proof (induction post arbitrary: pre i)
  case Nil
  then show ?case by (subst ramDeleteLoop.simps) (simp add: u16_less_iff)
next
  case (Cons b post)
  obtain k' v where b: "b = (k', v)" by force
  let ?buf = "enc (pre @ (k', v) # post) @ junk"
  have small: "length (enc (pre @ (k', v) # post)) < 65536"
    using Cons.prems(2) unat_u16_less [of len] by (simp add: b)
  have less: "i < len" using cursor_less [OF Cons.prems] by simp
  have hdr: "rd_hdr (unat i) ?buf = Some (k', of_nat (length v))"
    using cursor_read [OF Cons.prems(1)] by simp
  note step = ramDeleteLoop.simps [of k 0 ?buf len i 0 RS_ERROR_NOT_FOUND]
  show ?case
  proof (cases "k' = k")
    case True
    obtain j len1 where j: "length j = length junk + 4 + length v" "unat len1 = length (enc (pre @ post))"
      "ramRemoveBlock ?buf len i (4 + of_nat (length v)) = Some (enc (pre @ post) @ j, len1)"
      using ramRemoveBlock_block [OF Cons.prems, of "4 + of_nat (length v)" junk]
        cursor_block_length [OF small] by (auto simp: b)
    then show ?thesis unfolding b step using less hdr True by auto
  next
    case False
    then show ?thesis
      unfolding b step using less hdr
        Cons.IH [OF cursor_advance [OF Cons.prems(1) small]] Cons.prems(2) by (simp add: b)
  qed
qed

text \<open>
  The counter \<open>currentIndex\<close> only moves when a block is removed, so an index other than \<open>0\<close> and
  \<open>-1\<close> is never reached.
\<close>

lemma ramDeleteLoop_other:
  fixes i len :: u16
  assumes "unat i = length (enc pre)" and "unat len = length (enc (pre @ post))"
    and idx: "aIndex \<noteq> -1" "aIndex \<noteq> 0"
  shows "ramDeleteLoop k aIndex (enc (pre @ post) @ junk) len i 0 RS_ERROR_NOT_FOUND =
     Some (RS_ERROR_NOT_FOUND, enc (pre @ post) @ junk, len)"
  using assms(1,2)
proof (induction post arbitrary: pre i)
  case Nil
  then show ?case by (subst ramDeleteLoop.simps) (simp add: u16_less_iff)
next
  case (Cons b post)
  obtain k' v where b: "b = (k', v)" by force
  let ?buf = "enc (pre @ (k', v) # post) @ junk"
  have small: "length (enc (pre @ (k', v) # post)) < 65536"
    using Cons.prems(2) unat_u16_less [of len] by (simp add: b)
  have less: "i < len" using cursor_less [OF Cons.prems] by simp
  have hdr: "rd_hdr (unat i) ?buf = Some (k', of_nat (length v))"
    using cursor_read [OF Cons.prems(1)] by simp
  show ?case
    unfolding b ramDeleteLoop.simps [of k aIndex ?buf len i 0 RS_ERROR_NOT_FOUND]
    using less hdr idx Cons.IH [OF cursor_advance [OF Cons.prems(1) small]] Cons.prems(2) by (simp add: b)
qed

lemma ram_holds_update:
  assumes "ram_holds d bs junk" and "length (enc cs @ junk1) = length (enc bs @ junk)"
    and "unat len1 = length (enc cs)"
  shows "ram_holds (d\<lparr>buffer := Some (enc cs @ junk1), header := (header d)\<lparr>hLength := len1\<rparr>\<rparr>) cs junk1"
  using assms by (simp add: ram_holds_def)

lemma ramStorageDelete_all:
  assumes "ram_holds d bs junk"
  shows "\<exists>junk1 d1. ramStorageDelete d k (-1) =
      Some (if vals bs k = [] then RS_ERROR_NOT_FOUND else RS_ERROR_NONE, d1) \<and>
    ram_holds d1 (filter (\<lambda>b. fst b \<noteq> k) bs) junk1"
proof -
  from assms have "unat (hLength (header d)) = length (enc ([] @ bs))" by (simp add: ram_holds_def)
  from ramDeleteLoop_all [OF _ this, of 0 k junk 0 RS_ERROR_NOT_FOUND] obtain j len1 where
    "length (enc (filter (\<lambda>b. fst b \<noteq> k) bs) @ j) = length (enc bs @ junk)"
    "unat len1 = length (enc (filter (\<lambda>b. fst b \<noteq> k) bs))"
    "ramDeleteLoop k (-1) (enc bs @ junk) (hLength (header d)) 0 0 RS_ERROR_NOT_FOUND =
      Some (if vals bs k = [] then RS_ERROR_NOT_FOUND else RS_ERROR_NONE,
        enc (filter (\<lambda>b. fst b \<noteq> k) bs) @ j, len1)"
    by auto
  with assms ram_holds_update [OF assms this(1,2)] show ?thesis
    by (intro exI [of _ j]) (simp add: ramStorageDelete_def ram_holds_def)
qed

lemma ramStorageDelete_first:
  assumes "ram_holds d bs junk"
  shows "\<exists>junk1 d1. ramStorageDelete d k 0 =
      Some (if vals bs k = [] then RS_ERROR_NOT_FOUND else RS_ERROR_NONE, d1) \<and>
    ram_holds d1 (del_first k bs) junk1"
proof -
  from assms have "unat (hLength (header d)) = length (enc ([] @ bs))" by (simp add: ram_holds_def)
  from ramDeleteLoop_first [OF _ this, of 0 k junk] obtain j len1 where
    "length (enc (del_first k bs) @ j) = length (enc bs @ junk)" "unat len1 = length (enc (del_first k bs))"
    "ramDeleteLoop k 0 (enc bs @ junk) (hLength (header d)) 0 0 RS_ERROR_NOT_FOUND =
      Some (if vals bs k = [] then RS_ERROR_NOT_FOUND else RS_ERROR_NONE, enc (del_first k bs) @ j, len1)"
    by auto
  with assms ram_holds_update [OF assms this(1,2)] show ?thesis
    by (intro exI [of _ j]) (simp add: ramStorageDelete_def ram_holds_def)
qed

lemma ramStorageDelete_other:
  assumes "ram_holds d bs junk" and "aIndex \<noteq> -1" and "aIndex \<noteq> 0"
  shows "ramStorageDelete d k aIndex = Some (RS_ERROR_NOT_FOUND, d)"
  using ramDeleteLoop_other [of 0 "[]" "hLength (header d)" bs aIndex k junk] assms
  by (simp add: ramStorageDelete_def ram_holds_def)

section \<open>Adding and setting\<close>

lemma new_block_length:
  fixes l :: u16
  shows "length v = unat l \<Longrightarrow> length v + 4 < 65536 \<Longrightarrow> unat (4 + l) = 4 + length v"
  using unat_add_u16 [of 4 l] by simp

definition ram_room :: "ramBufferDescriptor \<Rightarrow> nat \<Rightarrow> bool" where
  "ram_room d n \<longleftrightarrow> n \<le> unat (maxLength (header d)) \<and>
     (extendedSearch (header d) \<or> n < unat (backendRegionSize (header d)))"

lemma ramStorageAdd_ok:
  assumes h: "ram_holds d bs junk" and v: "length v = unat l" "length v + 4 < 65536"
    and room: "ram_room d (length (enc bs) + (4 + length v))"
  shows "\<exists>junk1 d1. ramStorageAdd d k v l = Some (RS_ERROR_NONE, d1) \<and> ram_holds d1 (bs @ [(k, v)]) junk1"
proof -
  note nb = new_block_length [OF v]
  have l: "of_nat (length v) = l" using v by simp
  define j1 where "j1 = drop (4 + length v) junk"
  have len: "unat (hLength (header d)) = length (enc bs)" and buf: "buffer d = Some (enc bs @ junk)"
    and junk_len: "4 + length v \<le> length junk"
    using h room by (simp_all add: ram_holds_def ram_room_def)
  obtain p q where junk: "junk = p @ q @ j1" "length p = 4" "length q = length v"
  proof
    show "junk = take 4 junk @ take (length v) (drop 4 junk) @ j1"
      using append_take_drop_id [of 4 junk] append_take_drop_id [of "length v" "drop 4 junk"]
      by (simp add: j1_def add.commute)
  qed (use junk_len in simp_all)
  have w1: "wr_bytes (length (enc bs)) (hdr_bytes k l) (enc bs @ junk) = Some (enc bs @ hdr_bytes k l @ q @ j1)"
    using wr_bytes_append [of "length (enc bs)" "enc bs" "hdr_bytes k l" p "q @ j1"] junk by simp
  have w2: "wr_bytes (length (enc bs) + 4) v (enc bs @ hdr_bytes k l @ q @ j1) = Some (enc (bs @ [(k, v)]) @ j1)"
    using wr_bytes_append [of "length (enc bs) + 4" "enc bs @ hdr_bytes k l" v q j1] junk l
    by (simp add: enc_block_def)
  have r: "rd_bytes 0 (unat l) v = Some v" using v by (simp add: rd_bytes_def)
  have ok: "ramStorageAdd d k v l = Some (RS_ERROR_NONE, d\<lparr>buffer := Some (enc (bs @ [(k, v)]) @ j1),
      header := (header d)\<lparr>hLength := hLength (header d) + (4 + l)\<rparr>\<rparr>)"
    unfolding ramStorageAdd_def Let_def ramStorageEnsureBlockConsistency_def
    using room w1 w2 r by (simp add: len buf nb ram_room_def)
  have "unat (hLength (header d) + (4 + l)) = length (enc (bs @ [(k, v)]))"
    using len nb room unat_u16_less [of "maxLength (header d)"]
      unat_add_u16 [of "hLength (header d)" "4 + l"] by (simp add: ram_room_def)
  moreover have "length (enc (bs @ [(k, v)]) @ j1) = length (enc bs @ junk)" using junk by simp
  ultimately show ?thesis using ok ram_holds_update [OF h] by blast
qed

lemma ramStorageAdd_full:
  assumes h: "ram_holds d bs junk" and v: "length v = unat l" "length v + 4 < 65536"
    and full: "\<not> ram_room d (length (enc bs) + (4 + length v))"
  shows "ramStorageAdd d k v l = Some (RS_ERROR_NO_BUFS, d)"
  using h full new_block_length [OF v] by (auto simp: ramStorageAdd_def Let_def ram_holds_def ram_room_def)

lemma ramSetLoop_blocks:
  fixes i :: u16
  assumes h: "ram_holds d (pre @ post) junk" and i: "unat i = length (enc pre)" and v: "length v = unat l"
    and "\<forall>b \<in> set pre. fst b \<noteq> k"
  shows "ramSetLoop d (enc (pre @ post) @ junk) k v l i =
    (case dropWhile (\<lambda>b. fst b \<noteq> k) post of
       [] \<Rightarrow> Some (False, d)
     | b # post1 \<Rightarrow>
         if length (snd b) \<noteq> length v then map_option (\<lambda>r. (False, snd r)) (ramStorageDelete d k (-1))
         else Some (True, d\<lparr>buffer := Some (enc (pre @ takeWhile (\<lambda>b. fst b \<noteq> k) post @ (k, v) # post1) @ junk)\<rparr>))"
  using h i assms(4)
proof (induction post arbitrary: pre i)
  case Nil
  then show ?case by (subst ramSetLoop.simps) (simp add: u16_less_iff ram_holds_def)
next
  case (Cons b post)
  obtain k' w where b: "b = (k', w)" by force
  let ?buf = "enc (pre @ (k', w) # post) @ junk"
  have small: "length (enc (pre @ (k', w) # post)) < 65536"
    using ram_holds_wf [OF Cons.prems(1)] by (simp add: b)
  have less: "i < hLength (header d)"
    using cursor_less [OF Cons.prems(2), of "hLength (header d)" "b # post"] Cons.prems(1)
    by (simp add: ram_holds_def)
  have hdr: "rd_hdr (unat i) ?buf = Some (k', of_nat (length w))"
    using cursor_read [OF Cons.prems(2)] by simp
  have same: "of_nat (length w) = l \<longleftrightarrow> length w = length v"
    using v small unat_of_nat_u16 [of "length w"] by auto
  note step = ramSetLoop.simps [of d ?buf k v l i]
  show ?case
  proof (cases "k' = k")
    case True
    have "wr_bytes (unat i + 4) v ?buf = Some (enc (pre @ (k, v) # post) @ junk)" if "length w = length v"
      using wr_value_enc_block [of "unat i + 4" "enc pre" v w k "enc post @ junk"] that True Cons.prems(2)
      by simp
    then show ?thesis
      unfolding b step using less hdr same True v by (simp add: rd_bytes_def)
  next
    case False
    have "ram_holds d ((pre @ [(k', w)]) @ post) junk" using Cons.prems(1) by (simp add: b)
    from Cons.IH [OF this cursor_advance [OF Cons.prems(2) small]] Cons.prems(3) False less hdr
    show ?thesis unfolding b step
      by (cases "dropWhile (\<lambda>b. fst b \<noteq> k) post") (simp_all del: dropWhile_eq_Nil_conv)
  qed
qed

text \<open>
  The outcome of a set. When the first block with the key has the new value's length it is
  overwritten and later values of the key stay; otherwise all values of the key are removed first
  and the new one is appended, so that running out of room then leaves the key with no value.
\<close>

definition ram_set_vals :: "bytes list \<Rightarrow> bytes \<Rightarrow> bytes list" where
  "ram_set_vals vs v = (case vs of [] \<Rightarrow> [v] | w # ws \<Rightarrow> if length w = length v then v # ws else [v])"

lemma dropWhile_vals: "dropWhile (\<lambda>b. fst b \<noteq> k) bs = b # post \<Longrightarrow>
   bs = takeWhile (\<lambda>b. fst b \<noteq> k) bs @ b # post \<and> fst b = k \<and> vals (takeWhile (\<lambda>b. fst b \<noteq> k) bs) k = []"
proof -
  assume d: "dropWhile (\<lambda>b. fst b \<noteq> k) bs = b # post"
  then have "bs = takeWhile (\<lambda>b. fst b \<noteq> k) bs @ b # post" by (metis takeWhile_dropWhile_id)
  moreover have "fst b = k" using hd_dropWhile [of "\<lambda>b. fst b \<noteq> k" bs] d by fastforce
  moreover have "vals (takeWhile (\<lambda>b. fst b \<noteq> k) bs) k = []"
    by (rule vals_neq) (auto dest: set_takeWhileD)
  ultimately show ?thesis by blast
qed

lemma vals_replace:
  "vals pre k = [] \<Longrightarrow> fst b = k \<Longrightarrow>
   vals (pre @ (k, v) # post) = (vals (pre @ b # post))(k := v # vals post k)"
  by (rule ext) auto

lemma ramStorageAdd_vals:
  assumes h: "ram_holds d bs junk" and v: "length v = unat l" "length v + 4 < 65536"
  shows "\<exists>e d1 bs1 junk1. ramStorageAdd d k v l = Some (e, d1) \<and> ram_holds d1 bs1 junk1 \<and>
    (e = RS_ERROR_NONE \<and> vals bs1 = (vals bs)(k := vals bs k @ [v]) \<or> e = RS_ERROR_NO_BUFS \<and> d1 = d \<and> bs1 = bs)"
proof (cases "ram_room d (length (enc bs) + (4 + length v))")
  case True
  from ramStorageAdd_ok [OF h v True, of k] obtain j d1 where
    "ramStorageAdd d k v l = Some (RS_ERROR_NONE, d1)" "ram_holds d1 (bs @ [(k, v)]) j" by blast
  then show ?thesis by (intro exI [of _ RS_ERROR_NONE] exI [of _ d1] exI [of _ "bs @ [(k, v)]"] exI [of _ j]) auto
next
  case False
  from ramStorageAdd_full [OF h v False] h show ?thesis by blast
qed

lemma ramStorageSet_vals:
  assumes h: "ram_holds d bs junk" and v: "length v = unat l" "length v + 4 < 65536"
  shows "\<exists>e d1 bs1 junk1. ramStorageSet d k v l = Some (e, d1) \<and> ram_holds d1 bs1 junk1 \<and>
    (e = RS_ERROR_NONE \<and> vals bs1 = (vals bs)(k := ram_set_vals (vals bs k) v) \<or>
     e = RS_ERROR_NO_BUFS \<and> vals bs1 = (vals bs)(k := []))"
proof -
  have buf: "buffer d = Some (enc bs @ junk)" using h by (simp add: ram_holds_def)
  have loop: "ramSetLoop d (enc bs @ junk) k v l 0 =
    (case dropWhile (\<lambda>b. fst b \<noteq> k) bs of
       [] \<Rightarrow> Some (False, d)
     | b # post1 \<Rightarrow>
         if length (snd b) \<noteq> length v then map_option (\<lambda>r. (False, snd r)) (ramStorageDelete d k (-1))
         else Some (True, d\<lparr>buffer := Some (enc (takeWhile (\<lambda>b. fst b \<noteq> k) bs @ (k, v) # post1) @ junk)\<rparr>))"
    using ramSetLoop_blocks [of d "[]" bs junk 0 v l k] h v unfolding append_Nil by simp
  show ?thesis
  proof (cases "dropWhile (\<lambda>b. fst b \<noteq> k) bs")
    case Nil
    then have "vals bs k = []" by simp
    then show ?thesis
      using ramStorageAdd_vals [OF h v, of k] loop Nil
      by (force simp: ramStorageSet_def buf ram_set_vals_def fun_upd_idem)
  next
    case (Cons b post)
    define pre where "pre = takeWhile (\<lambda>b. fst b \<noteq> k) bs"
    have bs: "bs = pre @ b # post" "fst b = k" "vals pre k = []"
      using dropWhile_vals [OF Cons] by (simp_all add: pre_def)
    have vk: "vals bs k = snd b # vals post k" by (simp add: bs)
    show ?thesis
    proof (cases "length (snd b) = length v")
      case True
      let ?bs1 = "pre @ (k, v) # post"
      have "ram_holds (d\<lparr>buffer := Some (enc ?bs1 @ junk)\<rparr>) ?bs1 junk"
        using h True by (simp add: ram_holds_def bs(1))
      moreover have "vals ?bs1 = (vals bs)(k := v # vals post k)"
        using vals_replace [OF bs(3,2), of v post] by (simp only: bs(1))
      ultimately show ?thesis
        using loop Cons True vk by (force simp: ramStorageSet_def buf ram_set_vals_def pre_def)
    next
      case False
      from ramStorageDelete_all [OF h, of k] obtain d1 e1 junk1 where del:
        "ramStorageDelete d k (-1) = Some (e1, d1)" "ram_holds d1 (filter (\<lambda>b. fst b \<noteq> k) bs) junk1"
        by auto
      from ramStorageAdd_vals [OF del(2) v, of k] loop Cons False vk del(1) show ?thesis
        by (force simp: ramStorageSet_def buf ram_set_vals_def)
    qed
  qed
qed

section \<open>The settings interface over the RAM buffer\<close>

definition mapRamStorageStatus :: "rsError \<Rightarrow> otError" where
  "mapRamStorageStatus rsStatus =
     (case rsStatus of
        RS_ERROR_NONE \<Rightarrow> OT_ERROR_NONE
      | RS_ERROR_NOT_FOUND \<Rightarrow> OT_ERROR_NOT_FOUND
      | _ \<Rightarrow> OT_ERROR_NO_BUFS)"

definition ramWipe :: "ramBufferDescriptor \<Rightarrow> ramBufferDescriptor option" where
  "ramWipe d = do { buf \<leftarrow> buffer d;
                    buf1 \<leftarrow> set_bytes 0 0 (unat (maxLength (header d))) buf;
                    Some (d\<lparr>buffer := Some buf1, header := (header d)\<lparr>hLength := 0\<rparr>\<rparr>) }"

abbreviation ram_result :: "(rsError \<times> 'a) option \<Rightarrow> (otError \<times> 'a) option" where
  "ram_result r \<equiv> map_option (map_prod mapRamStorageStatus id) r"

lemma mapRamStorageStatus_simps [simp]:
  "mapRamStorageStatus RS_ERROR_NONE = OT_ERROR_NONE"
  "mapRamStorageStatus RS_ERROR_NOT_FOUND = OT_ERROR_NOT_FOUND"
  "mapRamStorageStatus RS_ERROR_NO_BUFS = OT_ERROR_NO_BUFS"
  by (simp_all add: mapRamStorageStatus_def)

lemma mapRamStorageStatus_NONE [simp]: "mapRamStorageStatus e = OT_ERROR_NONE \<longleftrightarrow> e = RS_ERROR_NONE"
  by (cases e) (simp_all add: mapRamStorageStatus_def)

lemma ramWipe_holds:
  assumes "ram_holds d bs junk"
  shows "\<exists>d1 junk1. ramWipe d = Some d1 \<and> ram_holds d1 [] junk1"
  using assms by (auto simp: ramWipe_def ram_holds_def set_bytes_def wr_bytes_def)

lemma set_stepI:
  "e = RS_ERROR_NONE \<and> \<tau> = \<sigma>(k := ram_set_vals (\<sigma> k) v) \<or> e = RS_ERROR_NO_BUFS \<and> \<tau> = \<sigma>(k := []) \<Longrightarrow>
   settings_step FirstOrAll \<sigma> (CSet k v) (mapRamStorageStatus e) \<tau>"
  by (auto intro!: settings_step.intros simp: ram_set_vals_def split: list.splits)

lemma delete_stepI:
  "j = -1 \<and> \<tau> = \<sigma>(k := []) \<or> j = 0 \<and> \<tau> = \<sigma>(k := tl (\<sigma> k)) \<Longrightarrow>
   settings_step FirstOrAll \<sigma> (CDelete k j) (if \<sigma> k = [] then OT_ERROR_NOT_FOUND else OT_ERROR_NONE) \<tau>"
  by (cases "\<sigma> k = []") (auto intro: settings_step.intros simp: fun_upd_idem)

interpretation ram: settings_store FirstOrAll ram_inv ram_abs
  "\<lambda>d k i a n. ram_result (ramStorageGet d k i a n)"
  "\<lambda>d k v l. ram_result (ramStorageAdd d k v l)"
  "\<lambda>d k v l. ram_result (ramStorageSet d k v l)"
  "\<lambda>d k i. ram_result (ramStorageDelete d k i)" ramWipe
proof (unfold_locales, goal_cases)
  case (1 s i k v dst cap)
  then obtain bs junk where h: "ram_holds s bs junk" by (blast elim: ram_inv_holds)
  with 1 ram_holds_abs [OF h] show ?case
    by (simp add: ramStorageGet_holds [OF h] ram_lookup_def ram_deliver_def wr_bytes_def)
next
  case (2 s k i out len)
  then obtain bs junk where h: "ram_holds s bs junk" by (blast elim: ram_inv_holds)
  with 2 ram_holds_abs [OF h] show ?case by (simp add: ramStorageGet_holds [OF h] ram_lookup_def)
next
  case (3 s v l k)
  then obtain bs junk where h: "ram_holds s bs junk" by (blast elim: ram_inv_holds)
  from ramStorageAdd_vals [OF h 3(2,3), of k] ram_holds_abs [OF h] show ?case
    by (fastforce dest: ram_holds_abs intro: settings_step.intros)
next
  case (4 s v l k)
  then obtain bs junk where h: "ram_holds s bs junk" by (blast elim: ram_inv_holds)
  from ramStorageSet_vals [OF h 4(2,3), of k] obtain e d1 bs1 junk1 where
    "ramStorageSet s k v l = Some (e, d1)" "ram_holds d1 bs1 junk1"
    "settings_step FirstOrAll (vals bs) (CSet k v) (mapRamStorageStatus e) (vals bs1)"
    using set_stepI by blast
  with ram_holds_abs [OF h] show ?case by (auto dest: ram_holds_abs)
next
  case (5 s k j)
  then obtain bs junk where h: "ram_holds s bs junk" by (blast elim: ram_inv_holds)
  show ?case
  proof (cases "j = -1 \<or> j = 0")
    case False
    then show ?thesis
      using ramStorageDelete_other [OF h, of j k] 5 settings_step.delete_ignored [of FirstOrAll j "ram_abs s" k] by auto
  next
    case True
    from True ramStorageDelete_all [OF h, of k] ramStorageDelete_first [OF h, of k]
    obtain d1 bs1 junk1 where
      "ramStorageDelete s k j = Some (if vals bs k = [] then RS_ERROR_NOT_FOUND else RS_ERROR_NONE, d1)"
      "ram_holds d1 bs1 junk1"
      "j = -1 \<and> vals bs1 = (vals bs)(k := []) \<or> j = 0 \<and> vals bs1 = (vals bs)(k := tl (vals bs k))"
      by (metis vals_del_first vals_filter_neq)
    with ram_holds_abs [OF h] delete_stepI [of j "vals bs1" "vals bs" k] show ?thesis
      by (auto dest!: ram_holds_abs)
  qed
next
  case (6 s)
  then obtain bs junk where h: "ram_holds s bs junk" by (blast elim: ram_inv_holds)
  from ramWipe_holds [OF h] show ?case by (auto dest!: ram_holds_abs simp: fun_eq_iff)
qed

section \<open>Properties\<close>

definition ram_exec :: "ramBufferDescriptor \<Rightarrow> settings_cmd \<Rightarrow> (otError \<times> ramBufferDescriptor) option" where
  "ram_exec = exec_cmd
     (\<lambda>d k v l. ram_result (ramStorageAdd d k v l)) (\<lambda>d k v l. ram_result (ramStorageSet d k v l))
     (\<lambda>d k i. ram_result (ramStorageDelete d k i)) ramWipe"

text \<open>A small buffer used by the witnesses: 32 bytes holding two values of key 1 and one of key 2.\<close>

definition ram_sample :: ramBufferDescriptor where
  "ram_sample = \<lparr>header = \<lparr>hLength = 17, maxLength = 32, extendedSearch = True, backendRegionSize = 64\<rparr>,
     buffer = Some (enc [(1, [10, 11]), (2, [20]), (1, [12, 13])] @ replicate 15 0)\<rparr>"

lemmas ram_eval = ram_sample_def ramStorageSet_def ramStorageDelete_def ramStorageAdd_def ramRemoveBlock_def
  ramStorageEnsureBlockConsistency_def ramSetLoop.simps ramDeleteLoop.simps enc_def enc_block_def hdr_bytes_def
  u16_bytes_def bytes_u16_def rd_hdr_def rd_u16_def rd_bytes_def wr_bytes_def move_bytes_def Let_def

lemma ram_sample_holds: "ram_holds ram_sample [(1, [10, 11]), (2, [20]), (1, [12, 13])] (replicate 15 0)"
  by (simp add: ram_sample_def ram_holds_def)

lemmas ram_sample_abs = ram_holds_abs [OF ram_sample_holds]

text \<open>
  C1. Every sequence of add, set, delete and wipe calls, with values shorter than 65532 bytes, on a
  well-formed RAM buffer returns, keeps the buffer well formed, never leaves the allocation, and
  has the outcomes the abstract settings store allows, call by call: a delete removes the first value of the key at
  index 0 and all its values at index -1, and at any other index it changes nothing.
\<close>

theorem ram_calls_refine_store:
  assumes "ram_inv d" and "list_all cmd_ok cs"
  shows "\<exists>es d1. exec_cmds ram_exec d cs = Some (es, d1) \<and> ram_inv d1 \<and>
                 settings_run FirstOrAll (ram_abs d) cs es (ram_abs d1)"
  unfolding ram_exec_def by (rule ram.run_refines [OF assms])

theorem ram_calls_refine_store_witness:
  "ram_inv ram_sample \<and> list_all cmd_ok [CAdd 3 [30], CDelete 1 0, CDelete 1 7] \<and>
   (\<exists>es d1. exec_cmds ram_exec ram_sample [CAdd 3 [30], CDelete 1 0, CDelete 1 7] = Some (es, d1) \<and> ram_inv d1 \<and>
      settings_run FirstOrAll (ram_abs ram_sample) [CAdd 3 [30], CDelete 1 0, CDelete 1 7] es (ram_abs d1))"
proof -
  have h: "ram_inv ram_sample" "list_all cmd_ok [CAdd 3 [30], CDelete 1 0, CDelete 1 7]" using ram_sample_abs by auto
  from h ram_calls_refine_store [OF h] show ?thesis by blast
qed

text \<open>
  A get on a well-formed RAM buffer returns and reads exactly the value at the given index
  among the values of the key: it copies at most the caller's capacity and reports the full length;
  every other index, negative ones included, gives \<open>RS_ERROR_NOT_FOUND\<close>, length 0 and leaves the
  caller's buffer alone.
\<close>

theorem ramStorageGet_correct:
  assumes "ram_inv d" and "unat cap \<le> length dst"
  shows "ramStorageGet d k i (Some dst) (Some cap) =
    (if 0 \<le> i \<and> i < int (length (ram_abs d k))
     then let v = ram_abs d k ! nat i; n = min (length v) (unat cap) in
          Some (RS_ERROR_NONE, Some (take n v @ drop n dst), Some (of_nat (length v)))
     else Some (RS_ERROR_NOT_FOUND, Some dst, Some 0))"
proof -
  from assms(1) obtain bs junk where h: "ram_holds d bs junk" by (blast elim: ram_inv_holds)
  show ?thesis
    using assms(2) ram_holds_abs [OF h] unfolding ramStorageGet_holds [OF h] ram_lookup_def ram_deliver_def
    by (auto simp: wr_bytes_def Let_def zless_nat_eq_int_zless nat_less_iff min_def)
qed

theorem ramStorageGet_correct_witness:
  "ram_inv ram_sample \<and>
   ramStorageGet ram_sample 1 1 (Some [0, 0, 0]) (Some 3) = Some (RS_ERROR_NONE, Some [12, 13, 0], Some 2)"
proof -
  have h: "ram_inv ram_sample" "unat (3 :: u16) \<le> length [0, 0, 0 :: u8]" using ram_sample_abs by auto
  from h ramStorageGet_correct [OF h, of 1 1] ram_sample_abs show ?thesis by (simp add: Let_def)
qed

text \<open>
  A successful set on a key that holds at most one value is read back by the next get, byte for
  byte and with its length.
\<close>

theorem ram_set_then_get:
  assumes "ram_inv d" and "length v = unat l" and "length v + 4 < 65536" and "length (ram_abs d k) \<le> 1"
    and "ramStorageSet d k v l = Some (RS_ERROR_NONE, d1)"
    and "length v \<le> length dst" and "length v \<le> unat cap"
  shows "ramStorageGet d1 k 0 (Some dst) (Some cap) =
    Some (RS_ERROR_NONE, Some (v @ drop (length v) dst), Some l)"
proof -
  have "ram_result (ramStorageGet d1 k 0 (Some dst) (Some cap)) =
      Some (OT_ERROR_NONE, Some (v @ drop (length v) dst), Some l)"
    by (rule ram.put_then_get [OF assms(1-4) _ assms(6,7)]) (simp add: assms(5))
  then show ?thesis by auto
qed

theorem ram_set_then_get_witness:
  "\<exists>d1. ramStorageSet ram_sample 2 [21] 1 = Some (RS_ERROR_NONE, d1) \<and>
        ramStorageGet d1 2 0 (Some [0, 0]) (Some 2) = Some (RS_ERROR_NONE, Some [21, 0], Some 1)"
proof -
  have "map_option fst (ramStorageSet ram_sample 2 [21] 1) = Some RS_ERROR_NONE"
    by (simp add: ram_eval)
  then obtain d1 where d1: "ramStorageSet ram_sample 2 [21] 1 = Some (RS_ERROR_NONE, d1)" by auto
  with ram_set_then_get [of ram_sample "[21]" 1 2 d1 "[0, 0]" 2] ram_sample_abs show ?thesis by simp
qed

text \<open>
  Deleting with an index other than 0 and -1 never removes anything: the call reports
  \<open>RS_ERROR_NOT_FOUND\<close> and leaves the descriptor unchanged, even when the key has a value at that
  index.
\<close>

theorem ramStorageDelete_ignores_index:
  assumes "ram_inv d" and "i \<noteq> -1" and "i \<noteq> 0"
  shows "ramStorageDelete d k i = Some (RS_ERROR_NOT_FOUND, d)"
  using assms by (blast elim: ram_inv_holds intro: ramStorageDelete_other)

theorem ramStorageDelete_ignores_index_witness:
  "ram_abs ram_sample 1 = [[10, 11], [12, 13]] \<and>
   ramStorageDelete ram_sample 1 1 = Some (RS_ERROR_NOT_FOUND, ram_sample)"
proof -
  have h: "ram_inv ram_sample" "(1 :: int) \<noteq> -1" "(1 :: int) \<noteq> 0" using ram_sample_abs by auto
  from ramStorageDelete_ignores_index [OF h, of 1] ram_sample_abs show ?thesis by simp
qed

text \<open>
  The 16-bit sum of header size and value length wraps for values of 65532 bytes and more, so
  the room check of the add passes on a buffer that cannot hold the value, and the copy then leaves
  the allocation.
\<close>

theorem ramStorageAdd_length_wraps:
  assumes "ram_inv d" and "65532 \<le> unat l" and "length v = unat l" and "extendedSearch (header d)"
    and "unat (hLength (header d)) + (unat l - 65532) \<le> unat (maxLength (header d))"
  shows "ramStorageAdd d k v l = None"
proof -
  from assms(1) obtain bs junk where h: "ram_holds d bs junk" by (blast elim: ram_inv_holds)
  have buf: "buffer d = Some (enc bs @ junk)" "length (enc bs @ junk) < 65536"
    using h unat_u16_less [of "maxLength (header d)"] by (simp_all add: ram_holds_def)
  have "unat (4 + l) = (4 + unat l) mod 65536" by (simp add: unat_word_ariths)
  then have nb: "unat (4 + l) = unat l - 65532"
    using assms(2) unat_u16_less [of l] by (simp add: mod_if)
  have "wr_bytes (unat (hLength (header d)) + 4) v m = None" if "length m < 65536" for m
    using that assms(2,3) by (simp add: wr_bytes_def)
  then show ?thesis
    unfolding ramStorageAdd_def Let_def ramStorageEnsureBlockConsistency_def
    using assms(3,4,5) buf by (auto simp: nb rd_bytes_def dest: wr_bytes_length split: bind_splits)
qed

theorem ramStorageAdd_length_wraps_witness:
  "ram_inv ram_sample \<and> ramStorageAdd ram_sample 7 (replicate 65533 0) 65533 = None"
proof -
  have h: "ram_inv ram_sample" "65532 \<le> unat (65533 :: u16)" "length (replicate 65533 (0 :: u8)) = unat (65533 :: u16)"
    "extendedSearch (header ram_sample)"
    "unat (hLength (header ram_sample)) + (unat (65533 :: u16) - 65532) \<le> unat (maxLength (header ram_sample))"
    using ram_sample_abs by (simp_all add: ram_sample_def)
  from h(1) ramStorageAdd_length_wraps [OF h] show ?thesis by blast
qed

text \<open>
  C39. A set that runs out of room has already removed the old values: it reports
  \<open>RS_ERROR_NO_BUFS\<close> and the key is left with no value, every other key keeping its values.
\<close>

theorem ramStorageSet_failure_drops_key:
  assumes "ram_inv d" and "length v = unat l" and "length v + 4 < 65536"
    and "ramStorageSet d k v l = Some (RS_ERROR_NO_BUFS, d1)"
  shows "ram_inv d1 \<and> ram_abs d1 = (ram_abs d)(k := [])"
proof -
  from assms(1) obtain bs junk where h: "ram_holds d bs junk" by (blast elim: ram_inv_holds)
  from ramStorageSet_vals [OF h assms(2,3), of k] assms(4) ram_holds_abs [OF h] show ?thesis
    by (auto dest!: ram_holds_abs)
qed

theorem ramStorageSet_failure_drops_key_witness:
  "\<exists>d1. ramStorageSet ram_sample 2 (replicate 30 5) 30 = Some (RS_ERROR_NO_BUFS, d1) \<and>
        ram_abs ram_sample 2 = [[20]] \<and> ram_abs d1 2 = []"
proof -
  have "map_option fst (ramStorageSet ram_sample 2 (replicate 30 5) 30) = Some RS_ERROR_NO_BUFS"
    by (simp add: ram_eval)
  then obtain d1 where "ramStorageSet ram_sample 2 (replicate 30 5) 30 = Some (RS_ERROR_NO_BUFS, d1)" by auto
  with ramStorageSet_failure_drops_key [of ram_sample "replicate 30 5" 30 2 d1] ram_sample_abs
  show ?thesis by simp
qed

end
