(* ===== verification/Settings_Tlv.thy ===== *)
theory Settings_Tlv
  imports Settings_Spec
begin

text \<open>
  The tag/length/value buffer \<^verbatim>\<open>otSettingsBuffer\<close> that \<^verbatim>\<open>src/common/flash_nvm.c\<close>,
  \<^verbatim>\<open>flash_fsa.c\<close>, \<^verbatim>\<open>flash_littlefs.c\<close> and \<^verbatim>\<open>src/mcxw/mcxw72_nbu/settings.c\<close> keep in RAM: its
  record, \<^verbatim>\<open>moveData\<close> with its two byte loops, and the search-and-edit part of get, add, set and
  delete, which is the same text in the four files. Pointers into the buffer are offsets; an assertion
  that fires or an access outside the 1024 bytes is \<open>None\<close>. The handlers with their save calls are in
  the theories of the four backends.
\<close>

section \<open>State\<close>

definition OT_SETTINGS_BUFFER_SIZE :: nat where
  "OT_SETTINGS_BUFFER_SIZE = 1024"

definition TLV_HEADER_SIZE :: nat where
  "TLV_HEADER_SIZE = 4"

lemmas tlv_consts [simp] = OT_SETTINGS_BUFFER_SIZE_def TLV_HEADER_SIZE_def

record otSettingsBuffer_t =
  recordLen :: u16
  recordFreeLen :: u16
  tlvBuffer :: bytes

section \<open>Operations\<close>

text \<open>
  The two loops of \<^verbatim>\<open>moveData\<close>. In \<open>moveUpLoop\<close>, \<open>r\<close> and \<open>w\<close> are one past the reader and the
  writer, since the reader ends one below \<open>pSrc\<close>.
\<close>

function moveUpLoop :: "nat \<Rightarrow> nat \<Rightarrow> nat \<Rightarrow> bytes \<Rightarrow> bytes option" where
  "moveUpLoop pSrc r w buf =
     (if pSrc < r then
        (if r \<le> length buf \<and> 0 < w \<and> w \<le> length buf
         then moveUpLoop pSrc (r - 1) (w - 1) (buf[w - 1 := buf ! (r - 1)])
         else None)
      else Some buf)"
  by pat_completeness auto

termination moveUpLoop
  by (relation "measure (\<lambda>(pSrc, r, w, buf). r)") auto

function moveDownLoop :: "nat \<Rightarrow> nat \<Rightarrow> nat \<Rightarrow> bytes \<Rightarrow> bytes option" where
  "moveDownLoop end r w buf =
     (if r < end then
        (if r < length buf \<and> w < length buf
         then moveDownLoop end (r + 1) (w + 1) (buf[w := buf ! r])
         else None)
      else Some buf)"
  by pat_completeness auto

termination moveDownLoop
  by (relation "measure (\<lambda>(end, r, w, buf). end - r)") auto

definition moveData :: "otSettingsBuffer_t \<Rightarrow> nat \<Rightarrow> nat \<Rightarrow> otSettingsBuffer_t option" where
  "moveData b pSrc pDst =
     (if \<not> pSrc < OT_SETTINGS_BUFFER_SIZE \<or> \<not> pDst < OT_SETTINGS_BUFFER_SIZE then None
      else do {
        b1 \<leftarrow> (if pDst > pSrc then
                 do { buf1 \<leftarrow> moveUpLoop pSrc (unat (recordLen b)) (unat (recordLen b) + (pDst - pSrc)) (tlvBuffer b);
                      Some (b\<lparr>tlvBuffer := buf1, recordLen := recordLen b + of_nat (pDst - pSrc)\<rparr>) }
               else if pDst < pSrc then
                 do { buf1 \<leftarrow> moveDownLoop (unat (recordLen b)) pSrc pDst (tlvBuffer b);
                      let len1 = recordLen b - of_nat (pSrc - pDst);
                      buf2 \<leftarrow> set_bytes (unat len1) 0 (pSrc - pDst) buf1;
                      Some (b\<lparr>tlvBuffer := buf2, recordLen := len1\<rparr>) }
               else Some b);
        Some (b1\<lparr>recordFreeLen := of_nat OT_SETTINGS_BUFFER_SIZE - recordLen b1\<rparr>) })"

text \<open>The copy of \<^verbatim>\<open>otPlatSettingsGet\<close>: \<^verbatim>\<open>*aValueLength\<close> is overwritten before it is compared.\<close>

definition tlvGetValue ::
  "bytes \<Rightarrow> nat \<Rightarrow> u16 \<Rightarrow> bytes option \<Rightarrow> u16 option \<Rightarrow> (bytes option \<times> u16 option) option" where
  "tlvGetValue buf p len aValue aValueLength =
     (case aValueLength of
        None \<Rightarrow> Some (aValue, None)
      | Some _ \<Rightarrow>
          (let newLength = len in
           case aValue of
             None \<Rightarrow> Some (None, Some newLength)
           | Some dst \<Rightarrow>
               (if newLength \<ge> len
                then do { xs \<leftarrow> rd_bytes (p + TLV_HEADER_SIZE) (unat len) buf;
                          dst1 \<leftarrow> wr_bytes 0 xs dst;
                          Some (Some dst1, Some newLength) }
                else Some (Some dst, Some newLength))))"

function tlvGetLoop ::
  "otSettingsBuffer_t \<Rightarrow> u16 \<Rightarrow> int \<Rightarrow> bytes option \<Rightarrow> u16 option \<Rightarrow> nat \<Rightarrow> int \<Rightarrow>
   (otError \<times> bytes option \<times> u16 option) option" where
  "tlvGetLoop b aKey aIndex aValue aValueLength p nbKeyFound =
     (if p < unat (recordLen b) then
        (case rd_hdr p (tlvBuffer b) of
           None \<Rightarrow> None
         | Some (tag, len) \<Rightarrow>
             (if tag = aKey \<and> nbKeyFound = aIndex
              then map_option (Pair OT_ERROR_NONE) (tlvGetValue (tlvBuffer b) p len aValue aValueLength)
              else tlvGetLoop b aKey aIndex aValue aValueLength (p + TLV_HEADER_SIZE + unat len)
                     (if tag = aKey then nbKeyFound + 1 else nbKeyFound)))
      else Some (OT_ERROR_NOT_FOUND, aValue, aValueLength))"
  by pat_completeness auto

termination tlvGetLoop
  by (relation "measure (\<lambda>(b, _, _, _, _, p, _). unat (recordLen b) - p)") auto

definition tlvGet ::
  "otSettingsBuffer_t \<Rightarrow> u16 \<Rightarrow> int \<Rightarrow> bytes option \<Rightarrow> u16 option \<Rightarrow>
   (otError \<times> bytes option \<times> u16 option) option" where
  "tlvGet b aKey aIndex aValue aValueLength = tlvGetLoop b aKey aIndex aValue aValueLength 0 0"

text \<open>Writing one entry: the key, the length and the value, one after the other.\<close>

definition tlvWriteEntry :: "nat \<Rightarrow> u16 \<Rightarrow> bytes \<Rightarrow> u16 \<Rightarrow> bytes \<Rightarrow> bytes option" where
  "tlvWriteEntry p aKey aValue aValueLength buf =
     do { buf1 \<leftarrow> wr_bytes p (u16_bytes aKey) buf;
          buf2 \<leftarrow> wr_bytes (p + 2) (u16_bytes aValueLength) buf1;
          xs \<leftarrow> rd_bytes 0 (unat aValueLength) aValue;
          wr_bytes (p + 4) xs buf2 }"

function tlvAddLoop :: "otSettingsBuffer_t \<Rightarrow> u16 \<Rightarrow> nat \<Rightarrow> bool \<Rightarrow> (nat \<times> bool) option" where
  "tlvAddLoop b aKey p tagFound =
     (if p < unat (recordLen b) then
        (case rd_hdr p (tlvBuffer b) of
           None \<Rightarrow> None
         | Some (tag, len) \<Rightarrow>
             (if tag = aKey then tlvAddLoop b aKey (p + TLV_HEADER_SIZE + unat len) True
              else if tagFound then Some (p, True)
              else tlvAddLoop b aKey (p + TLV_HEADER_SIZE + unat len) tagFound))
      else Some (p, False))"
  by pat_completeness auto

termination tlvAddLoop
  by (relation "measure (\<lambda>(b, _, p, _). unat (recordLen b) - p)") auto

definition tlvAdd ::
  "otSettingsBuffer_t \<Rightarrow> u16 \<Rightarrow> bytes \<Rightarrow> u16 \<Rightarrow> (otError \<times> otSettingsBuffer_t) option" where
  "tlvAdd b aKey aValue aValueLength =
     (if unat (recordFreeLen b) \<ge> TLV_HEADER_SIZE + unat aValueLength then
        do { (p, moveRequired) \<leftarrow> tlvAddLoop b aKey 0 False;
             b1 \<leftarrow> (if moveRequired then moveData b p (p + TLV_HEADER_SIZE + unat aValueLength)
                     else (let len1 = recordLen b + (4 + aValueLength) in
                           Some (b\<lparr>recordLen := len1, recordFreeLen := of_nat OT_SETTINGS_BUFFER_SIZE - len1\<rparr>)));
             buf2 \<leftarrow> tlvWriteEntry p aKey aValue aValueLength (tlvBuffer b1);
             Some (OT_ERROR_NONE, b1\<lparr>tlvBuffer := buf2\<rparr>) }
      else Some (OT_ERROR_NO_BUFS, b))"

function tlvSetLoop ::
  "otSettingsBuffer_t \<Rightarrow> u16 \<Rightarrow> nat \<Rightarrow> nat option \<Rightarrow> (nat \<times> nat option \<times> bool) option" where
  "tlvSetLoop b aKey p ptagFoundOffset =
     (if p < unat (recordLen b) then
        (case rd_hdr p (tlvBuffer b) of
           None \<Rightarrow> None
         | Some (tag, len) \<Rightarrow>
             (if tag = aKey then tlvSetLoop b aKey (p + TLV_HEADER_SIZE + unat len) (Some p)
              else if ptagFoundOffset \<noteq> None then Some (p, ptagFoundOffset, True)
              else tlvSetLoop b aKey (p + TLV_HEADER_SIZE + unat len) ptagFoundOffset))
      else Some (p, ptagFoundOffset, False))"
  by pat_completeness auto

termination tlvSetLoop
  by (relation "measure (\<lambda>(b, _, p, _). unat (recordLen b) - p)") auto

definition tlvSet ::
  "otSettingsBuffer_t \<Rightarrow> u16 \<Rightarrow> bytes \<Rightarrow> u16 \<Rightarrow> (otError \<times> otSettingsBuffer_t) option" where
  "tlvSet b aKey aValue aValueLength =
     do { (p, ptagFoundOffset, moveRequired) \<leftarrow> tlvSetLoop b aKey 0 None;
          let bytesToRemove = (case ptagFoundOffset of Some q \<Rightarrow> p - q | None \<Rightarrow> 0);
          if unat (recordFreeLen b) + bytesToRemove \<ge> TLV_HEADER_SIZE + unat aValueLength then
            do { b1 \<leftarrow> (if moveRequired
                         then moveData b p (the ptagFoundOffset + TLV_HEADER_SIZE + unat aValueLength)
                         else (let len1 = recordLen b - of_nat bytesToRemove + (4 + aValueLength) in
                               Some (b\<lparr>recordLen := len1, recordFreeLen := of_nat OT_SETTINGS_BUFFER_SIZE - len1\<rparr>)));
                 let q = (case ptagFoundOffset of Some q \<Rightarrow> q | None \<Rightarrow> p);
                 buf2 \<leftarrow> tlvWriteEntry q aKey aValue aValueLength (tlvBuffer b1);
                 Some (OT_ERROR_NONE, b1\<lparr>tlvBuffer := buf2\<rparr>) }
          else Some (OT_ERROR_NO_BUFS, b) }"

function tlvDeleteLoop ::
  "otSettingsBuffer_t \<Rightarrow> u16 \<Rightarrow> int \<Rightarrow> nat \<Rightarrow> int \<Rightarrow> nat option \<Rightarrow> (nat option \<times> nat option) option" where
  "tlvDeleteLoop b aKey aIndex p nbKeyFound pStart =
     (if p < unat (recordLen b) then
        (case rd_hdr p (tlvBuffer b) of
           None \<Rightarrow> None
         | Some (tag, len) \<Rightarrow>
             (if tag = aKey then
                (let pStart1 = (if pStart = None then Some p else pStart) in
                 if aIndex = nbKeyFound then Some (Some p, Some (p + TLV_HEADER_SIZE + unat len))
                 else tlvDeleteLoop b aKey aIndex (p + TLV_HEADER_SIZE + unat len) (nbKeyFound + 1) pStart1)
              else if pStart \<noteq> None then Some (pStart, Some p)
              else tlvDeleteLoop b aKey aIndex (p + TLV_HEADER_SIZE + unat len) nbKeyFound pStart))
      else Some (pStart, None))"
  by pat_completeness auto

termination tlvDeleteLoop
  by (relation "measure (\<lambda>(b, _, _, p, _, _). unat (recordLen b) - p)") auto

definition tlvDelete :: "otSettingsBuffer_t \<Rightarrow> u16 \<Rightarrow> int \<Rightarrow> (otError \<times> otSettingsBuffer_t) option" where
  "tlvDelete b aKey aIndex =
     do { (pStart, pEnd) \<leftarrow> tlvDeleteLoop b aKey aIndex 0 0 None;
          case pStart of
            None \<Rightarrow> Some (OT_ERROR_NOT_FOUND, b)
          | Some s \<Rightarrow>
              do { b1 \<leftarrow> (if pEnd = None \<or> the pEnd \<ge> unat (recordLen b)
                           then do { let n = unat (recordLen b) - s;
                                     buf1 \<leftarrow> set_bytes s 0 n (tlvBuffer b);
                                     let len1 = recordLen b - of_nat n;
                                     Some (b\<lparr>tlvBuffer := buf1, recordLen := len1,
                                             recordFreeLen := of_nat OT_SETTINGS_BUFFER_SIZE - len1\<rparr>) }
                           else moveData b (the pEnd) s);
                   Some (OT_ERROR_NONE, b1) } }"

definition tlvWipe :: "otSettingsBuffer_t \<Rightarrow> otSettingsBuffer_t" where
  "tlvWipe b =
     (let b0 = \<lparr>recordLen = 0, recordFreeLen = 0, tlvBuffer = replicate OT_SETTINGS_BUFFER_SIZE 0\<rparr> in
      b0\<lparr>recordFreeLen := of_nat OT_SETTINGS_BUFFER_SIZE - recordLen b0\<rparr>)"

declare moveUpLoop.simps [simp del] moveDownLoop.simps [simp del] tlvGetLoop.simps [simp del]
  tlvAddLoop.simps [simp del] tlvSetLoop.simps [simp del] tlvDeleteLoop.simps [simp del]


section \<open>Entries of a key stand together\<close>

fun grouped :: "block list \<Rightarrow> bool" where
  "grouped [] = True"
| "grouped (b # bs) = (grouped bs \<and> (bs = [] \<or> fst (hd bs) = fst b \<or> fst b \<notin> fst ` set bs))"

lemma grouped_append_disjoint:
  "fst ` set xs \<inter> fst ` set ys = {} \<Longrightarrow> grouped (xs @ ys) \<longleftrightarrow> grouped xs \<and> grouped ys"
proof (induction xs)
  case (Cons b xs)
  then have IH: "grouped (xs @ ys) \<longleftrightarrow> grouped xs \<and> grouped ys" and b: "fst b \<notin> fst ` set ys" by auto
  have "ys \<noteq> [] \<Longrightarrow> fst (hd ys) \<noteq> fst b" using b by (cases ys) auto
  then show ?case using IH b by (cases xs) auto
qed simp

lemma grouped_same_key: "\<forall>b \<in> set run. fst b = k \<Longrightarrow> grouped run"
  by (induction run) (auto dest: hd_in_set)

lemma grouped_around:
  "grouped (pre @ run @ post) \<Longrightarrow> run \<noteq> [] \<Longrightarrow> \<forall>b \<in> set run. fst b = k \<Longrightarrow> k \<notin> fst ` set pre \<Longrightarrow>
   fst ` set pre \<inter> fst ` set post = {}"
proof (induction pre)
  case (Cons b pre)
  show ?case
  proof (cases pre)
    case Nil
    have "fst (hd (run @ post)) = k" using Cons.prems by (cases run) auto
    then show ?thesis using Cons.prems Nil by (auto simp: image_iff)
  next
    case (Cons c pre')
    have IH: "fst ` set pre \<inter> fst ` set post = {}" using Cons.IH Cons.prems by simp
    show ?thesis using IH Cons.prems Cons by (auto simp: image_iff)
  qed
qed simp

lemma grouped_after:
  "grouped (run @ post) \<Longrightarrow> run \<noteq> [] \<Longrightarrow> \<forall>b \<in> set run. fst b = k \<Longrightarrow>
   (post \<noteq> [] \<Longrightarrow> fst (hd post) \<noteq> k) \<Longrightarrow> k \<notin> fst ` set post"
proof (induction run)
  case (Cons b run)
  then show ?case by (cases "run = []"; cases "post = []") auto
qed simp

text \<open>The position of a key: what precedes its entries, its entries, and what follows.\<close>

definition splits_at :: "u16 \<Rightarrow> block list \<Rightarrow> block list \<Rightarrow> block list \<Rightarrow> bool" where
  "splits_at k pre run post \<longleftrightarrow>
     (\<forall>b \<in> set run. fst b = k) \<and> k \<notin> fst ` set pre \<and> k \<notin> fst ` set post \<and>
     fst ` set pre \<inter> fst ` set post = {} \<and> (run = [] \<longrightarrow> post = [])"

lemma grouped_replace:
  assumes "splits_at k pre run post" and "grouped (pre @ run @ post)" and "\<forall>b \<in> set run'. fst b = k"
  shows "grouped (pre @ run' @ post)"
proof -
  have dis: "fst ` set pre \<inter> fst ` set (rn @ post) = {}" "fst ` set rn \<inter> fst ` set post = {}"
    if "\<forall>b \<in> set rn. fst b = k" for rn
  proof -
    have "fst ` set rn \<subseteq> {k}" using that by auto
    then show "fst ` set pre \<inter> fst ` set (rn @ post) = {}" "fst ` set rn \<inter> fst ` set post = {}"
      using assms(1) unfolding splits_at_def set_append image_Un by blast+
  qed
  have "grouped pre \<and> grouped post"
    using assms(2) dis [of run] assms(1) by (simp add: grouped_append_disjoint splits_at_def)
  then show ?thesis
    using dis [OF assms(3)] grouped_same_key [OF assms(3)] by (simp add: grouped_append_disjoint)
qed

lemma grouped_split:
  assumes "grouped bs"
  obtains pre run post where "bs = pre @ run @ post" and "splits_at k pre run post"
proof -
  define pre where "pre = takeWhile (\<lambda>b. fst b \<noteq> k) bs"
  define tl0 where "tl0 = dropWhile (\<lambda>b. fst b \<noteq> k) bs"
  define run where "run = takeWhile (\<lambda>b. fst b = k) tl0"
  define post where "post = dropWhile (\<lambda>b. fst b = k) tl0"
  have bs: "bs = pre @ run @ post" by (simp add: pre_def run_def post_def tl0_def)
  have k: "k \<notin> fst ` set pre" "\<forall>b \<in> set run. fst b = k"
    by (auto simp: pre_def run_def dest: set_takeWhileD)
  have hd: "run = [] \<Longrightarrow> post = []"
  proof (cases tl0)
    case (Cons c cs)
    then have "fst c = k" using hd_dropWhile [of "\<lambda>b. fst b \<noteq> k" bs] by (simp add: tl0_def)
    then show "run = [] \<Longrightarrow> post = []" by (simp add: run_def Cons)
  qed (simp add: post_def)
  have post_hd: "post \<noteq> [] \<Longrightarrow> fst (hd post) \<noteq> k" unfolding post_def by (rule hd_dropWhile)
  have gr: "grouped (run @ post)" if "grouped (pr @ run @ post)" for pr
    using that by (induction pr) auto
  have "k \<notin> fst ` set post"
    using grouped_after [of run post k] gr [of pre] assms bs k(2) post_hd hd by (cases "run = []") auto
  moreover have "fst ` set pre \<inter> fst ` set post = {}"
    using grouped_around [of pre run post k] assms bs k hd by (cases "run = []") auto
  ultimately have "splits_at k pre run post" using k hd by (auto simp: splits_at_def)
  with bs show ?thesis by (rule that)
qed

lemma splits_at_vals:
  assumes "splits_at k pre run post" and "\<forall>b \<in> set run'. fst b = k"
  shows "vals (pre @ run' @ post) = (vals (pre @ run @ post))(k := map snd run')"
proof -
  have "vals pre k = []" "vals post k = []" using assms(1) by (simp_all add: splits_at_def vals_Nil_iff)
  moreover have "vals rn x = []" if "\<forall>b \<in> set rn. fst b = k" "x \<noteq> k" for rn x
    using that by (simp add: vals_Nil_iff)
  ultimately show ?thesis using assms by (auto simp: splits_at_def fun_eq_iff)
qed

lemma splits_at_vals_key: "splits_at k pre run post \<Longrightarrow> vals (pre @ run @ post) k = map snd run"
  by (simp add: splits_at_def vals_Nil_iff [THEN iffD2])

section \<open>The byte loops are memmove\<close>

definition shifted :: "nat \<Rightarrow> nat \<Rightarrow> nat \<Rightarrow> bytes \<Rightarrow> bytes" where
  "shifted dst src n m = map (\<lambda>i. if dst \<le> i \<and> i < dst + n then m ! (src + (i - dst)) else m ! i) [0..<length m]"

lemma move_bytes_shifted:
  assumes "dst + n \<le> length m" and "src + n \<le> length m"
  shows "move_bytes dst src n m = Some (shifted dst src n m)"
proof -
  have "take dst m @ take n (drop src m) @ drop (dst + n) m = shifted dst src n m"
    using assms by (intro nth_equalityI) (auto simp: shifted_def nth_append)
  then show ?thesis using assms by (simp add: move_bytes_def rd_bytes_def wr_bytes_def)
qed

lemma moveUpLoop_move:
  "pSrc \<le> r \<Longrightarrow> r \<le> w \<Longrightarrow> w \<le> length buf \<Longrightarrow>
   moveUpLoop pSrc r w buf = move_bytes (w - (r - pSrc)) pSrc (r - pSrc) buf"
proof (induction pSrc r w buf rule: moveUpLoop.induct)
  case (1 pSrc r w buf)
  show ?case
  proof (cases "pSrc < r")
    case False
    then show ?thesis using "1.prems"
      by (simp add: moveUpLoop.simps move_bytes_def rd_bytes_def wr_bytes_def)
  next
    case True
    let ?buf = "buf[w - 1 := buf ! (r - 1)]"
    have "moveUpLoop pSrc r w buf = moveUpLoop pSrc (r - 1) (w - 1) ?buf"
      using True "1.prems" by (subst moveUpLoop.simps) simp
    also have "\<dots> = Some (shifted (w - 1 - (r - 1 - pSrc)) pSrc (r - 1 - pSrc) ?buf)"
      using 1 True by (subst move_bytes_shifted [symmetric]) simp_all
    also have "shifted (w - 1 - (r - 1 - pSrc)) pSrc (r - 1 - pSrc) ?buf =
        shifted (w - (r - pSrc)) pSrc (r - pSrc) buf"
      unfolding shifted_def length_list_update
    proof (rule map_cong [OF refl])
      fix i assume "i \<in> set [0..<length buf]"
      then show "(if w - 1 - (r - 1 - pSrc) \<le> i \<and> i < w - 1 - (r - 1 - pSrc) + (r - 1 - pSrc)
          then ?buf ! (pSrc + (i - (w - 1 - (r - 1 - pSrc)))) else ?buf ! i) =
        (if w - (r - pSrc) \<le> i \<and> i < w - (r - pSrc) + (r - pSrc) then buf ! (pSrc + (i - (w - (r - pSrc)))) else buf ! i)"
        using True "1.prems" by (cases "i = w - 1") (auto simp: nth_list_update)
    qed
    finally show ?thesis using "1.prems" by (simp add: move_bytes_shifted)
  qed
qed

lemma moveDownLoop_move:
  "w \<le> r \<Longrightarrow> r \<le> end \<Longrightarrow> end \<le> length buf \<Longrightarrow>
   moveDownLoop end r w buf = move_bytes w r (end - r) buf"
proof (induction "end" r w buf rule: moveDownLoop.induct)
  case (1 "end" r w buf)
  show ?case
  proof (cases "r < end")
    case False
    then show ?thesis using "1.prems"
      by (simp add: moveDownLoop.simps move_bytes_def rd_bytes_def wr_bytes_def)
  next
    case True
    let ?buf = "buf[w := buf ! r]"
    have "moveDownLoop end r w buf = moveDownLoop end (r + 1) (w + 1) ?buf"
      using True "1.prems" by (subst moveDownLoop.simps) simp
    also have "\<dots> = Some (shifted (w + 1) (r + 1) (end - (r + 1)) ?buf)"
      using 1 True by (subst move_bytes_shifted [symmetric]) simp_all
    also have "shifted (w + 1) (r + 1) (end - (r + 1)) ?buf = shifted w r (end - r) buf"
      unfolding shifted_def length_list_update
    proof (rule map_cong [OF refl])
      fix i assume "i \<in> set [0..<length buf]"
      then show "(if w + 1 \<le> i \<and> i < w + 1 + (end - (r + 1)) then ?buf ! (r + 1 + (i - (w + 1))) else ?buf ! i) =
        (if w \<le> i \<and> i < w + (end - r) then buf ! (r + (i - w)) else buf ! i)"
        using True "1.prems" by (cases "i = w") (auto simp: nth_list_update intro!: arg_cong [of _ _ "(!) buf"])
    qed
    finally show ?thesis using "1.prems" by (simp add: move_bytes_shifted)
  qed
qed

section \<open>Invariant and abstraction\<close>

definition tlv_blocks :: "otSettingsBuffer_t \<Rightarrow> block list option" where
  "tlv_blocks b = dec (take (unat (recordLen b)) (tlvBuffer b))"

definition tlv_inv :: "otSettingsBuffer_t \<Rightarrow> bool" where
  "tlv_inv b \<longleftrightarrow> length (tlvBuffer b) = OT_SETTINGS_BUFFER_SIZE \<and>
     unat (recordLen b) + unat (recordFreeLen b) = OT_SETTINGS_BUFFER_SIZE \<and>
     (case tlv_blocks b of Some bs \<Rightarrow> grouped bs | None \<Rightarrow> False)"

definition tlv_abs :: "otSettingsBuffer_t \<Rightarrow> store" where
  "tlv_abs b = vals (the (tlv_blocks b))"

text \<open>The buffer cut into its entries and the unused rest; \<open>tlv_used\<close> leaves out the free length.\<close>

definition tlv_used :: "otSettingsBuffer_t \<Rightarrow> bytes \<Rightarrow> bytes \<Rightarrow> bool" where
  "tlv_used b used junk \<longleftrightarrow> tlvBuffer b = used @ junk \<and> unat (recordLen b) = length used \<and>
     unat (recordFreeLen b) = length junk \<and> length used + length junk = 1024"

definition tlv_holds :: "otSettingsBuffer_t \<Rightarrow> block list \<Rightarrow> bytes \<Rightarrow> bool" where
  "tlv_holds b bs junk \<longleftrightarrow> tlv_used b (enc bs) junk \<and> grouped bs"

lemma tlv_holds_abs:
  assumes "tlv_holds b bs junk"
  shows "tlv_blocks b = Some bs" and "tlv_abs b = vals bs" and "tlv_inv b"
proof -
  have "wf_blocks bs" using assms by (intro wf_blocks_of_length) (simp add: tlv_holds_def tlv_used_def)
  then show *: "tlv_blocks b = Some bs"
    using assms by (simp add: tlv_blocks_def tlv_holds_def tlv_used_def dec_enc)
  show "tlv_abs b = vals bs" by (simp add: tlv_abs_def *)
  show "tlv_inv b" using assms by (simp add: tlv_inv_def * tlv_holds_def tlv_used_def)
qed

lemma tlv_inv_holds:
  assumes "tlv_inv b"
  obtains bs junk where "tlv_holds b bs junk"
proof -
  from assms obtain bs where bs: "tlv_blocks b = Some bs" "grouped bs"
    by (auto simp: tlv_inv_def split: option.splits)
  then have e: "take (unat (recordLen b)) (tlvBuffer b) = enc bs" by (auto simp: tlv_blocks_def dest: dec_sound)
  have "tlvBuffer b = enc bs @ drop (unat (recordLen b)) (tlvBuffer b)" by (simp flip: e)
  moreover have "unat (recordLen b) = length (enc bs)" using assms by (simp add: tlv_inv_def flip: e)
  ultimately have "tlv_holds b bs (drop (unat (recordLen b)) (tlvBuffer b))"
    using assms bs(2) by (auto simp: tlv_holds_def tlv_used_def tlv_inv_def)
  then show ?thesis by (rule that)
qed

section \<open>Making room\<close>

lemma unat_free_len: "unat w \<le> 1024 \<Longrightarrow> unat (1024 - w :: u16) = 1024 - unat w"
  by (simp add: unat_sub_u16 u16_le_iff)

lemma unat_add_of_nat: "unat (w :: u16) + n < 65536 \<Longrightarrow> unat (w + of_nat n) = unat w + n"
  by (simp add: unat_add_u16 unat_of_nat_u16)

lemma unat_sub_of_nat: "n \<le> unat (w :: u16) \<Longrightarrow> unat (w - of_nat n) = unat w - n"
  using unat_u16_less [of w] by (simp add: unat_sub_u16 unat_of_nat_u16 u16_le_iff)

lemma ex3I: "P a b c \<Longrightarrow> \<exists>x y z. P x y z"
  by blast

text \<open>
  \<^verbatim>\<open>moveData\<close> replaces the bytes \<open>old\<close> before the tail by a gap of \<open>n\<close> bytes and adjusts both
  lengths; no byte outside the buffer is touched and no assertion fires.
\<close>

text \<open>The two loops on a buffer in pieces: the tail \<open>post\<close> moves up over \<open>junk\<close>, or down over \<open>gone\<close>.\<close>

lemma moveUpLoop_tail:
  assumes "d \<le> length junk" and "len = length pre + length post"
  shows "\<exists>x. moveUpLoop (length pre) len (len + d) (pre @ post @ junk) = Some (pre @ x @ post @ drop d junk) \<and> length x = d"
proof -
  have "moveUpLoop (length pre) len (len + d) (pre @ post @ junk) = move_bytes (length pre + d) (length pre) (length post) (pre @ post @ junk)"
    using moveUpLoop_move [of "length pre" len "len + d" "pre @ post @ junk"] assms by (simp add: add_ac)
  also have "\<dots> = Some (pre @ take d (post @ junk) @ post @ drop d junk)"
    using assms(1) by (simp add: move_bytes_def rd_bytes_def wr_bytes_def add_ac)
  finally show ?thesis using assms(1) by (intro exI [of _ "take d (post @ junk)"]) simp
qed

lemma moveDownLoop_tail:
  assumes "gone \<noteq> []" and "len = length pre + length gone + length post"
  shows "\<exists>z. moveDownLoop len (length pre + length gone) (length pre) (pre @ gone @ post @ junk) = Some (pre @ post @ z @ junk) \<and>
    length z = length gone"
proof -
  have "moveDownLoop len (length pre + length gone) (length pre) (pre @ gone @ post @ junk) =
    move_bytes (length pre) (length pre + length gone) (length post) (pre @ gone @ post @ junk)"
    using moveDownLoop_move [of "length pre" "length pre + length gone" len "pre @ gone @ post @ junk"] assms by simp
  also have "\<dots> = Some (pre @ post @ drop (length post) (gone @ post) @ junk)"
    by (simp add: move_bytes_down)
  finally show ?thesis by (intro exI [of _ "drop (length post) (gone @ post)"]) simp
qed

lemma moveData_resize:
  assumes "tlv_used b (pre @ old @ post) junk" and "post \<noteq> []" and "length pre + n + length post \<le> 1024"
  shows "\<exists>b1 gap junk1. moveData b (length pre + length old) (length pre + n) = Some b1 \<and> length gap = n \<and>
           tlv_used b1 (pre @ gap @ post) junk1"
proof -
  let ?src = "length pre + length old" and ?dst = "length pre + n" and ?len = "unat (recordLen b)"
  have buf: "tlvBuffer b = pre @ old @ post @ junk" and len: "?len = ?src + length post"
    and tot: "?src + length post + length junk = 1024" and free: "unat (recordFreeLen b) = length junk"
    using assms(1) by (simp_all add: tlv_used_def)
  have guard: "?src < 1024" "?dst < 1024" using assms(2,3) tot by (cases post; simp)+
  consider (up) "?src < ?dst" | (down) "?dst < ?src" | (same) "?dst = ?src" by linarith
  then show ?thesis
  proof cases
    case up
    define d where "d = ?dst - ?src"
    have d: "?dst = ?src + d" "0 < d" "d \<le> length junk" using up assms(3) tot by (simp_all add: d_def)
    obtain x where "moveUpLoop ?src ?len (?len + d) (tlvBuffer b) = Some (pre @ (old @ x) @ post @ drop d junk)" "length x = d"
      using moveUpLoop_tail [OF d(3), of ?len "pre @ old" post] len by (auto simp: buf)
    then show ?thesis
      using up guard d len tot assms(3)
      by (intro ex3I [of _ "b\<lparr>tlvBuffer := pre @ (old @ x) @ post @ drop d junk,
            recordLen := recordLen b + of_nat d, recordFreeLen := 1024 - (recordLen b + of_nat d)\<rparr>" "old @ x" "drop d junk"])
        (simp add: moveData_def tlv_used_def unat_add_of_nat unat_free_len flip: d_def)
  next
    case down
    define d where "d = ?src - ?dst"
    have d: "?src = ?dst + d" "0 < d" "n + d = length old" using down by (simp_all add: d_def)
    have split: "tlvBuffer b = (pre @ take n old) @ drop n old @ post @ junk"
      by (simp add: buf flip: append_assoc [of "take n old"])
    have gone: "drop n old \<noteq> []" "length (pre @ take n old) = ?dst" "?dst + length (drop n old) = ?src" using d by simp_all
    obtain z where loop: "moveDownLoop ?len ?src ?dst (tlvBuffer b) = Some (pre @ take n old @ post @ z @ junk)" "length z = d"
      using moveDownLoop_tail [OF gone(1), of ?len "pre @ take n old" post junk] len gone(2,3) d(3) unfolding split by auto
    have sd: "?src - ?dst = d" "length old - n = d" using d by simp_all
    have len1: "unat (recordLen b - of_nat d) = ?dst + length post"
      using len d by (simp add: unat_sub_of_nat)
    have "set_bytes (?dst + length post) 0 d (pre @ take n old @ post @ z @ junk) =
      Some (pre @ take n old @ post @ replicate d 0 @ junk)"
      using d(3) loop(2) wr_bytes_append [of "?dst + length post" "pre @ take n old @ post" "replicate d 0" z junk]
      by (simp add: set_bytes_def)
    then show ?thesis
      using down guard d(2,3) len tot assms(3) loop len1
      by (intro ex3I [of _ "b\<lparr>tlvBuffer := pre @ take n old @ post @ replicate d 0 @ junk,
            recordLen := recordLen b - of_nat d, recordFreeLen := 1024 - (recordLen b - of_nat d)\<rparr>" "take n old" "replicate d 0 @ junk"])
        (simp add: moveData_def tlv_used_def unat_free_len Let_def sd del: of_nat_diff)
  next
    case same
    then show ?thesis
      using guard len tot buf free
      by (intro ex3I [of _ "b\<lparr>recordFreeLen := 1024 - recordLen b\<rparr>" old junk])
        (simp add: moveData_def tlv_used_def unat_free_len)
  qed
qed

lemma tlv_resize:
  assumes "tlv_used b (pre @ old @ post) junk" and "n \<le> length old + length junk"
    and "post = [] \<Longrightarrow> unat len1 = length pre + n"
  shows "\<exists>b1 gap junk1.
    (if post \<noteq> [] then moveData b (length pre + length old) (length pre + n)
     else Some (b\<lparr>recordLen := len1, recordFreeLen := 1024 - len1\<rparr>)) = Some b1 \<and>
    length gap = n \<and> tlv_used b1 (pre @ gap @ post) junk1"
proof (cases "post = []")
  case True
  obtain gap junk1 where "old @ junk = gap @ junk1" "length gap = n"
    using assms(2) that [of "take n (old @ junk)" "drop n (old @ junk)"] by (simp del: take_append drop_append)
  moreover from this have "length old + length junk = n + length junk1" by (metis length_append)
  ultimately show ?thesis
    using True assms by (intro ex3I [of _ "b\<lparr>recordLen := len1, recordFreeLen := 1024 - len1\<rparr>" gap junk1])
      (auto simp: tlv_used_def unat_free_len)
next
  case False
  then show ?thesis using moveData_resize [OF assms(1), of n] assms(1,2) by (simp add: tlv_used_def)
qed

lemma tlvWriteEntry_gap:
  assumes "length gap = 4 + length v" and "length v = unat l"
  shows "tlvWriteEntry (length pre) k v l (pre @ gap @ rest) = Some (pre @ enc_block (k, v) @ rest)"
proof -
  have l: "of_nat (length v) = l" using assms(2) by simp
  obtain g1 g2 g3 where g: "gap = g1 @ g2 @ g3" "length g1 = 2" "length g2 = 2" "length g3 = length v"
    using assms(1) by (intro that [of "take 2 gap" "take 2 (drop 2 gap)" "drop 4 gap"])
      (simp_all add: append_take_drop_id [of 2 "drop 2 gap", simplified, unfolded drop_drop])
  show ?thesis
    using wr_bytes_append [of "length pre" pre "u16_bytes k" g1 "g2 @ g3 @ rest"]
      wr_bytes_append [of "length pre + 2" "pre @ u16_bytes k" "u16_bytes l" g2 "g3 @ rest"]
      wr_bytes_append [of "length pre + 4" "pre @ u16_bytes k @ u16_bytes l" v g3 rest]
    by (simp add: tlvWriteEntry_def g rd_bytes_def assms(2) [symmetric] enc_block_def hdr_bytes_def l)
qed

lemma tlv_used_write:
  assumes "tlv_used b (pre @ gap @ post) junk" and "length gap = 4 + length v" and "length v = unat l"
  shows "\<exists>buf. tlvWriteEntry (length pre) k v l (tlvBuffer b) = Some buf \<and>
           tlv_used (b\<lparr>tlvBuffer := buf\<rparr>) (pre @ enc_block (k, v) @ post) junk"
  using assms tlvWriteEntry_gap [OF assms(2,3), of pre k "post @ junk"] by (auto simp: tlv_used_def)


section \<open>Walking the entries\<close>

lemma entry_at:
  assumes "tlv_used b (enc (pre @ (k, v) # post)) junk" and "p = length (enc pre)"
  shows "p < unat (recordLen b)" and "rd_hdr p (tlvBuffer b) = Some (k, of_nat (length v))"
    and "unat (of_nat (length v) :: u16) = length v"
    and "p + TLV_HEADER_SIZE + length v = length (enc (pre @ [(k, v)]))"
  using assms rd_hdr_enc_block [of p "enc pre" k v "enc post @ junk"]
  by (simp_all add: tlv_used_def unat_of_nat_u16)

lemma entries_end: "tlv_used b (enc pre) junk \<Longrightarrow> \<not> length (enc pre) < unat (recordLen b)"
  by (simp add: tlv_used_def)

text \<open>What a hit hands back: the whole value, whatever the caller's capacity was.\<close>

definition tlv_deliver ::
  "bytes \<Rightarrow> bytes option \<Rightarrow> u16 option \<Rightarrow> (otError \<times> bytes option \<times> u16 option) option" where
  "tlv_deliver v aValue aValueLength =
     (case (aValue, aValueLength) of
        (_, None) \<Rightarrow> Some (OT_ERROR_NONE, aValue, None)
      | (None, Some _) \<Rightarrow> Some (OT_ERROR_NONE, None, Some (of_nat (length v)))
      | (Some dst, Some _) \<Rightarrow>
          do { d \<leftarrow> wr_bytes 0 v dst; Some (OT_ERROR_NONE, Some d, Some (of_nat (length v))) })"

definition tlv_lookup ::
  "bytes list \<Rightarrow> int \<Rightarrow> bytes option \<Rightarrow> u16 option \<Rightarrow> (otError \<times> bytes option \<times> u16 option) option" where
  "tlv_lookup vs i aValue aValueLength =
     (if 0 \<le> i \<and> nat i < length vs then tlv_deliver (vs ! nat i) aValue aValueLength
      else Some (OT_ERROR_NOT_FOUND, aValue, aValueLength))"

lemma tlv_lookup_simps [simp]:
  "tlv_lookup [] i aValue aValueLength = Some (OT_ERROR_NOT_FOUND, aValue, aValueLength)"
  "tlv_lookup (v # vs) 0 aValue aValueLength = tlv_deliver v aValue aValueLength"
  "i \<noteq> 0 \<Longrightarrow> tlv_lookup (v # vs) i aValue aValueLength = tlv_lookup vs (i - 1) aValue aValueLength"
  by (auto simp: tlv_lookup_def nth_Cons' nat_diff_distrib')

lemma tlvGetValue_entry:
  assumes "tlv_used b (enc (pre @ (k, v) # post)) junk" and "p = length (enc pre)"
  shows "map_option (Pair OT_ERROR_NONE) (tlvGetValue (tlvBuffer b) p (of_nat (length v)) aValue aValueLength) =
    tlv_deliver v aValue aValueLength"
proof -
  have "rd_bytes (p + TLV_HEADER_SIZE) (unat (of_nat (length v) :: u16)) (tlvBuffer b) = Some v"
    using assms rd_value_enc_block [of "p + 4" "enc pre" "length v" v k "enc post @ junk"] entry_at(3) [OF assms]
    by (simp add: tlv_used_def)
  then show ?thesis
    by (cases "wr_bytes 0 v (the aValue)")
      (auto simp: tlvGetValue_def tlv_deliver_def Let_def split: option.splits)
qed

lemma tlvGetLoop_entries:
  assumes "tlv_used b (enc (pre @ post)) junk" and "p = length (enc pre)"
  shows "tlvGetLoop b aKey aIndex aValue aValueLength p c =
         tlv_lookup (vals post aKey) (aIndex - c) aValue aValueLength"
  using assms
proof (induction post arbitrary: pre p c)
  case Nil
  then show ?case using entries_end [of b pre] by (subst tlvGetLoop.simps) simp
next
  case (Cons e post)
  obtain k v where e: "e = (k, v)" by force
  note here = entry_at [OF Cons.prems(1) [unfolded e] Cons.prems(2)]
  have IH: "tlvGetLoop b aKey aIndex aValue aValueLength (p + TLV_HEADER_SIZE + length v) c' =
      tlv_lookup (vals post aKey) (aIndex - c') aValue aValueLength" for c'
    using Cons.IH [of "pre @ [e]" "p + TLV_HEADER_SIZE + length v" c'] Cons.prems here(4) by (simp add: e)
  show ?case
    unfolding tlvGetLoop.simps [of b aKey aIndex aValue aValueLength p c]
    using here(1-3) IH tlvGetValue_entry [OF Cons.prems(1) [unfolded e] Cons.prems(2)]
    by (simp add: e diff_diff_eq)
qed

lemma tlvGet_holds:
  "tlv_holds b bs junk \<Longrightarrow> tlvGet b aKey aIndex aValue aValueLength = tlv_lookup (vals bs aKey) aIndex aValue aValueLength"
  using tlvGetLoop_entries [of b "[]" bs junk 0] by (simp add: tlvGet_def tlv_holds_def)

text \<open>The three searches pass over the entries of other keys and over the run of the key.\<close>

lemma tlvAddLoop_skip:
  "tlv_used b (enc (pre @ mid @ post)) junk \<Longrightarrow> k \<notin> fst ` set mid \<Longrightarrow>
   tlvAddLoop b k (length (enc pre)) False = tlvAddLoop b k (length (enc (pre @ mid))) False"
proof (induction mid arbitrary: pre)
  case (Cons e mid)
  obtain k' v where e: "e = (k', v)" by force
  note here = entry_at [of b pre k' v "mid @ post" junk, OF _ refl]
  have "tlvAddLoop b k (length (enc pre)) False = tlvAddLoop b k (length (enc (pre @ [e]))) False"
    using here Cons.prems by (subst tlvAddLoop.simps) (auto simp: e add.assoc)
  with Cons.IH [of "pre @ [e]"] Cons.prems show ?case by simp
qed simp

lemma tlvAddLoop_run:
  "tlv_used b (enc (pre @ run @ post)) junk \<Longrightarrow> \<forall>e \<in> set run. fst e = k \<Longrightarrow>
   tlvAddLoop b k (length (enc pre)) t = tlvAddLoop b k (length (enc (pre @ run))) (t \<or> run \<noteq> [])"
proof (induction run arbitrary: pre t)
  case (Cons e run)
  obtain v where e: "e = (k, v)" using Cons.prems(2) by (cases e) auto
  note here = entry_at [of b pre k v "run @ post" junk, OF _ refl]
  have "tlvAddLoop b k (length (enc pre)) t = tlvAddLoop b k (length (enc (pre @ [e]))) True"
    using here Cons.prems by (subst tlvAddLoop.simps) (auto simp: e add.assoc)
  with Cons.IH [of "pre @ [e]" True] Cons.prems show ?case by simp
qed simp

lemma tlvAddLoop_split:
  assumes "tlv_used b (enc (pre @ run @ post)) junk" and "splits_at k pre run post"
  shows "tlvAddLoop b k 0 False = Some (length (enc (pre @ run)), post \<noteq> [])"
proof -
  have "tlvAddLoop b k 0 False = tlvAddLoop b k (length (enc (pre @ run))) (run \<noteq> [])"
    using tlvAddLoop_skip [of b "[]" pre "run @ post" junk k] tlvAddLoop_run [of b pre run post junk k False] assms
    by (simp add: splits_at_def)
  also have "\<dots> = Some (length (enc (pre @ run)), post \<noteq> [])"
  proof (cases post)
    case Nil
    then show ?thesis using entries_end [of b "pre @ run" junk] assms(1) by (subst tlvAddLoop.simps) simp
  next
    case (Cons e post')
    obtain k' v where e: "e = (k', v)" by force
    then show ?thesis
      using entry_at [of b "pre @ run" k' v post' junk, OF _ refl] assms Cons
      by (subst tlvAddLoop.simps) (auto simp: splits_at_def)
  qed
  finally show ?thesis .
qed


lemma tlvSetLoop_skip:
  "tlv_used b (enc (pre @ mid @ post)) junk \<Longrightarrow> k \<notin> fst ` set mid \<Longrightarrow>
   tlvSetLoop b k (length (enc pre)) None = tlvSetLoop b k (length (enc (pre @ mid))) None"
proof (induction mid arbitrary: pre)
  case (Cons e mid)
  obtain k' v where e: "e = (k', v)" by force
  note here = entry_at [of b pre k' v "mid @ post" junk, OF _ refl]
  have "tlvSetLoop b k (length (enc pre)) None = tlvSetLoop b k (length (enc (pre @ [e]))) None"
    using here Cons.prems by (subst tlvSetLoop.simps) (auto simp: e add.assoc)
  with Cons.IH [of "pre @ [e]"] Cons.prems show ?case by simp
qed simp

lemma tlvSetLoop_run:
  "tlv_used b (enc (pre @ run @ post)) junk \<Longrightarrow> \<forall>e \<in> set run. fst e = k \<Longrightarrow>
   tlvSetLoop b k (length (enc pre)) t =
   tlvSetLoop b k (length (enc (pre @ run))) (if run = [] then t else Some (length (enc (pre @ butlast run))))"
proof (induction run arbitrary: pre t)
  case (Cons e run)
  obtain v where e: "e = (k, v)" using Cons.prems(2) by (cases e) auto
  note here = entry_at [of b pre k v "run @ post" junk, OF _ refl]
  have "tlvSetLoop b k (length (enc pre)) t = tlvSetLoop b k (length (enc (pre @ [e]))) (Some (length (enc pre)))"
    using here Cons.prems by (subst tlvSetLoop.simps) (auto simp: e add.assoc)
  also have "\<dots> = tlvSetLoop b k (length (enc ((pre @ [e]) @ run)))
      (if run = [] then Some (length (enc pre)) else Some (length (enc ((pre @ [e]) @ butlast run))))"
    by (rule Cons.IH) (use Cons.prems in simp_all)
  finally show ?case by simp
qed simp

lemma tlvSetLoop_split:
  assumes "tlv_used b (enc (pre @ run @ post)) junk" and "splits_at k pre run post"
  shows "tlvSetLoop b k 0 None =
    Some (length (enc (pre @ run)), if run = [] then None else Some (length (enc (pre @ butlast run))), post \<noteq> [])"
proof -
  have "tlvSetLoop b k 0 None = tlvSetLoop b k (length (enc (pre @ run)))
      (if run = [] then None else Some (length (enc (pre @ butlast run))))"
    using tlvSetLoop_skip [of b "[]" pre "run @ post" junk k] tlvSetLoop_run [of b pre run post junk k None] assms
    by (simp add: splits_at_def)
  also have "\<dots> = Some (length (enc (pre @ run)),
      if run = [] then None else Some (length (enc (pre @ butlast run))), post \<noteq> [])"
  proof (cases post)
    case Nil
    then show ?thesis using entries_end [of b "pre @ run" junk] assms(1) by (subst tlvSetLoop.simps) simp
  next
    case (Cons e post')
    obtain k' v where e: "e = (k', v)" by force
    have "k' \<noteq> k" "run \<noteq> []" using assms(2) Cons e by (auto simp: splits_at_def)
    then show ?thesis
      using entry_at(1,2) [of b "pre @ run" k' v post' junk, OF _ refl] assms(1) Cons e
      by (subst tlvSetLoop.simps) simp
  qed
  finally show ?thesis .
qed

lemma tlvDeleteLoop_skip:
  "tlv_used b (enc (pre @ mid @ post)) junk \<Longrightarrow> k \<notin> fst ` set mid \<Longrightarrow>
   tlvDeleteLoop b k i (length (enc pre)) c None = tlvDeleteLoop b k i (length (enc (pre @ mid))) c None"
proof (induction mid arbitrary: pre)
  case (Cons e mid)
  obtain k' v where e: "e = (k', v)" by force
  note here = entry_at [of b pre k' v "mid @ post" junk, OF _ refl]
  have "tlvDeleteLoop b k i (length (enc pre)) c None = tlvDeleteLoop b k i (length (enc (pre @ [e]))) c None"
    using here Cons.prems by (subst tlvDeleteLoop.simps) (auto simp: e add.assoc)
  with Cons.IH [of "pre @ [e]"] Cons.prems show ?case by simp
qed simp

text \<open>The run is left by a hit on the index, by the next key, or by the end of the entries.\<close>

lemma tlvDeleteLoop_run:
  assumes "tlv_used b (enc (pre @ run @ post)) junk" and "\<forall>e \<in> set run. fst e = k"
    and "k \<notin> fst ` set post" and "run = [] \<Longrightarrow> t \<noteq> None \<or> post = []"
  shows "tlvDeleteLoop b k i (length (enc pre)) c t =
    (if c \<le> i \<and> i < c + int (length run)
     then Some (Some (length (enc (pre @ take (nat (i - c)) run))), Some (length (enc (pre @ take (Suc (nat (i - c))) run))))
     else Some (if t = None \<and> run \<noteq> [] then Some (length (enc pre)) else t,
                if post = [] then None else Some (length (enc (pre @ run)))))"
  using assms
proof (induction run arbitrary: pre c t)
  case Nil
  show ?case
  proof (cases post)
    case Nil
    then show ?thesis using Nil.prems entries_end [of b pre junk] by (subst tlvDeleteLoop.simps) simp
  next
    case (Cons e post')
    obtain k' v where e: "e = (k', v)" by force
    then show ?thesis
      using entry_at [of b pre k' v post' junk, OF _ refl] Nil.prems Cons
      by (subst tlvDeleteLoop.simps) auto
  qed
next
  case (Cons e run)
  obtain v where e: "e = (k, v)" using Cons.prems(2) by (cases e) auto
  note here = entry_at [of b pre k v "run @ post" junk, OF _ refl]
  show ?case
  proof (cases "i = c")
    case True
    then show ?thesis using here Cons.prems by (subst tlvDeleteLoop.simps) (simp add: e add.assoc)
  next
    case False
    have "tlvDeleteLoop b k i (length (enc pre)) c t =
        tlvDeleteLoop b k i (length (enc (pre @ [e]))) (c + 1) (if t = None then Some (length (enc pre)) else t)"
      using here Cons.prems False by (subst tlvDeleteLoop.simps) (auto simp: e add.assoc Let_def)
    moreover have "nat (i - c) = Suc (nat (i - (c + 1)))" if "c + 1 \<le> i" using that by simp
    moreover have "(c \<le> i \<and> i < c + int (length (e # run))) = (c + 1 \<le> i \<and> i < c + 1 + int (length run))"
      using False by auto
    ultimately show ?thesis
      using Cons.IH [of "pre @ [e]" "if t = None then Some (length (enc pre)) else t" "c + 1"] Cons.prems
      by simp
  qed
qed

lemma tlvDeleteLoop_split:
  assumes "tlv_used b (enc (pre @ run @ post)) junk" and "splits_at k pre run post"
  shows "tlvDeleteLoop b k i 0 0 None =
    (if 0 \<le> i \<and> i < int (length run)
     then Some (Some (length (enc (pre @ take (nat i) run))), Some (length (enc (pre @ take (Suc (nat i)) run))))
     else Some (if run \<noteq> [] then Some (length (enc pre)) else None,
                if post = [] then None else Some (length (enc (pre @ run)))))"
  using tlvDeleteLoop_skip [of b "[]" pre "run @ post" junk k i 0] tlvDeleteLoop_run [of b pre run post junk k None i 0] assms
  by (simp add: splits_at_def)


section \<open>Operations on the entries\<close>

lemma tlvAdd_split:
  assumes "tlv_holds b (pre @ run @ post) junk" and "splits_at k pre run post" and "length v = unat l"
  shows "if 4 + length v \<le> length junk
    then \<exists>b1 junk1. tlvAdd b k v l = Some (OT_ERROR_NONE, b1) \<and> tlv_holds b1 (pre @ (run @ [(k, v)]) @ post) junk1
    else tlvAdd b k v l = Some (OT_ERROR_NO_BUFS, b)"
proof (cases "4 + length v \<le> length junk")
  case False
  with assms show ?thesis by (simp add: tlvAdd_def tlv_holds_def tlv_used_def)
next
  case room: True
  have used: "tlv_used b (enc (pre @ run @ post)) junk" using assms(1) by (simp add: tlv_holds_def)
  have gr: "grouped (pre @ (run @ [(k, v)]) @ post)"
    using grouped_replace [OF assms(2), of "run @ [(k, v)]"] assms by (simp add: tlv_holds_def splits_at_def)
  note loop = tlvAddLoop_split [OF used assms(2)]
  have "unat (recordLen b + (4 + l)) = length (enc (pre @ run)) + (4 + length v)" if "post = []"
    using assms(3) room used that by (simp add: tlv_used_def unat_add_u16)
  with tlv_resize [of b "enc (pre @ run)" "[]" "enc post" junk "4 + length v" "recordLen b + (4 + l)"] used room
obtain b1 gap junk1 where b1:
    "(if post \<noteq> [] then moveData b (length (enc (pre @ run))) (length (enc (pre @ run)) + (4 + length v))
      else Some (b\<lparr>recordLen := recordLen b + (4 + l), recordFreeLen := 1024 - (recordLen b + (4 + l))\<rparr>)) = Some b1"
    "length gap = 4 + length v" "tlv_used b1 (enc (pre @ run) @ gap @ enc post) junk1" by (cases "post = []") auto
  from tlv_used_write [OF b1(3,2) assms(3), of k] obtain buf where
    "tlvWriteEntry (length (enc (pre @ run))) k v l (tlvBuffer b1) = Some buf"
    "tlv_used (b1\<lparr>tlvBuffer := buf\<rparr>) (enc (pre @ run) @ enc_block (k, v) @ enc post) junk1" by blast
  then show ?thesis
    using room b1(1) loop gr used assms(3)
    by (cases "post = []") (auto simp: tlvAdd_def tlv_holds_def tlv_used_def Let_def add.assoc)
qed


lemma tlvSet_split:
  assumes "tlv_holds b (pre @ run @ post) junk" and "splits_at k pre run post" and "length v = unat l"
  shows "if 4 + length v \<le> length junk + length (enc (drop (length run - 1) run))
    then \<exists>b1 junk1. tlvSet b k v l = Some (OT_ERROR_NONE, b1) \<and> tlv_holds b1 (pre @ (butlast run @ [(k, v)]) @ post) junk1
    else tlvSet b k v l = Some (OT_ERROR_NO_BUFS, b)"
proof -
  define old where "old = drop (length run - 1) run"
  have run: "run = butlast run @ old"
    unfolding old_def butlast_conv_take by (rule append_take_drop_id [symmetric])
  have old_Nil: "old = [] \<longleftrightarrow> run = []" by (cases run) (auto simp: old_def)
  have used: "tlv_used b (enc (pre @ run @ post)) junk" using assms(1) by (simp add: tlv_holds_def)
  let ?p = "length (enc (pre @ run))" and ?q = "length (enc (pre @ butlast run))"
  have pq: "?p = ?q + length (enc old)" by (subst run) simp
  note loop = tlvSetLoop_split [OF used assms(2)]
  show ?thesis
  proof (cases "4 + length v \<le> length junk + length (enc old)")
    case False
    then show ?thesis
      unfolding old_def [symmetric] using loop pq used assms(3) old_Nil by (auto simp: tlvSet_def tlv_used_def)
  next
    case room: True
    have used': "tlv_used b (enc (pre @ butlast run) @ enc old @ enc post) junk"
      using used by (subst (asm) run) simp
    have gr: "grouped (pre @ (butlast run @ [(k, v)]) @ post)"
      using grouped_replace [OF assms(2), of "butlast run @ [(k, v)]"] assms
      by (auto simp: tlv_holds_def splits_at_def dest: in_set_butlastD)
    define len1 where "len1 = recordLen b - of_nat (length (enc old)) + (4 + l)"
    have "unat len1 = ?q + (4 + length v)" if "post = []"
      using assms(3) room used' that unfolding len1_def tlv_used_def
      by (simp add: unat_add_u16 unat_sub_of_nat)
    with tlv_resize [OF used', of "4 + length v" len1] room obtain b1 gap junk1 where b1:
      "(if post \<noteq> [] then moveData b ?p (?q + (4 + length v))
        else Some (b\<lparr>recordLen := len1, recordFreeLen := 1024 - len1\<rparr>)) = Some b1"
      "length gap = 4 + length v" "tlv_used b1 (enc (pre @ butlast run) @ gap @ enc post) junk1"
      unfolding pq by (cases "post = []") auto
    from tlv_used_write [OF b1(3,2) assms(3), of k] obtain buf where buf:
      "tlvWriteEntry ?q k v l (tlvBuffer b1) = Some buf"
      "tlv_used (b1\<lparr>tlvBuffer := buf\<rparr>) (enc (pre @ butlast run) @ enc_block (k, v) @ enc post) junk1" by blast
    have "tlvSet b k v l = Some (OT_ERROR_NONE, b1\<lparr>tlvBuffer := buf\<rparr>)"
      using room b1(1) buf(1) loop used assms(3) pq old_Nil assms(2)
      by (cases "run = []"; cases "post = []")
        (auto simp: tlvSet_def tlv_used_def Let_def add.assoc len1_def splits_at_def)
    then show ?thesis
      unfolding old_def [symmetric] using room buf(2) gr by (auto simp: tlv_holds_def)
  qed
qed

lemma tlvDelete_cut:
  assumes "tlv_used b (pre @ old @ post) junk" and "old \<noteq> []"
    and "tlvDeleteLoop b k i 0 0 None = Some (Some (length pre), e)"
    and "e = (if post = [] then e else Some (length pre + length old))" and "post = [] \<Longrightarrow> e = None \<or> the e = length pre + length old"
  shows "\<exists>b1 junk1. tlvDelete b k i = Some (OT_ERROR_NONE, b1) \<and> tlv_used b1 (pre @ post) junk1"
proof (cases "post = []")
  case True
  have "unat (recordLen b - of_nat (length old)) = length pre"
    using assms(1) True by (simp add: tlv_used_def unat_sub_of_nat)
  moreover have "set_bytes (length pre) 0 (length old) (pre @ old @ junk) = Some (pre @ replicate (length old) 0 @ junk)"
    by (simp add: set_bytes_def wr_bytes_def)
  ultimately show ?thesis
    using True assms unfolding tlvDelete_def
    by (auto simp: tlv_used_def Let_def unat_free_len)
next
  case False
  then have "e = Some (length pre + length old)" using assms(4) by simp
  with moveData_resize [OF assms(1) False, of 0] assms(1,3) False show ?thesis
    by (auto simp: tlvDelete_def tlv_used_def)
qed


text \<open>A delete removes the value at a valid index, and the whole run for every other index.\<close>

lemma set_without: "set (without i xs) \<subseteq> set xs"
  by (auto simp: without_def dest: in_set_takeD in_set_dropD)

lemma map_without: "map f (without i xs) = without i (map f xs)"
  by (simp add: without_def take_map drop_map)

lemma tlvDelete_split:
  assumes "tlv_holds b (pre @ run @ post) junk" and "splits_at k pre run post"
  shows "if run = [] then tlvDelete b k i = Some (OT_ERROR_NOT_FOUND, b)
    else \<exists>b1 junk1. tlvDelete b k i = Some (OT_ERROR_NONE, b1) \<and> tlv_holds b1 (pre @ without i run @ post) junk1"
proof (cases "run = []")
  case True
  then show ?thesis
    using tlvDeleteLoop_split [of b pre run post junk k i] assms by (auto simp: tlvDelete_def tlv_holds_def)
next
  case False
  have used: "tlv_used b (enc (pre @ run @ post)) junk" using assms(1) by (simp add: tlv_holds_def)
  note loop = tlvDeleteLoop_split [OF used assms(2), of i]
  have gr: "grouped (pre @ without i run @ post)"
    using grouped_replace [OF assms(2), of "without i run"] assms set_without [of i run]
    by (auto simp: tlv_holds_def splits_at_def)
  have "\<exists>b1 junk1. tlvDelete b k i = Some (OT_ERROR_NONE, b1) \<and> tlv_used b1 (enc (pre @ without i run @ post)) junk1"
  proof (cases "0 \<le> i \<and> i < int (length run)")
    case True
    define n where "n = nat i"
    have n: "n < length run" "i = int n" using True by (auto simp: n_def)
    have run: "run = take n run @ run ! n # drop (Suc n) run" using n(1) by (rule id_take_nth_drop)
    have take_Suc: "take (Suc n) run = take n run @ [run ! n]" using n(1) by (rule take_Suc_conv_app_nth)
    have used': "tlv_used b (enc (pre @ take n run) @ enc_block (run ! n) @ enc (drop (Suc n) run @ post)) junk"
      using used arg_cong [OF run, of enc] by simp
    have "tlvDeleteLoop b k i 0 0 None =
        Some (Some (length (enc (pre @ take n run))), Some (length (enc (pre @ take n run)) + length (enc_block (run ! n))))"
      using loop True by (simp add: n_def take_Suc [unfolded n_def])
    with tlvDelete_cut [OF used' _ this] show ?thesis
      using True by (simp add: n_def without_def enc_block_def hdr_bytes_def u16_bytes_def)
  next
    case other: False
    have "enc run \<noteq> []" using False by simp
    then show ?thesis
      using tlvDelete_cut [of b "enc pre" "enc run" "enc post" junk k i "if post = [] then None else Some (length (enc (pre @ run)))"]
        used loop other False by (auto simp: without_def)
  qed
  then show ?thesis using False gr by (auto simp: tlv_holds_def)
qed

lemma tlvWipe_holds: "tlv_holds (tlvWipe b) [] (replicate 1024 0)"
  by (simp add: tlvWipe_def tlv_holds_def tlv_used_def)

section \<open>The settings interface over the buffer\<close>

lemma tlv_split:
  assumes "tlv_inv b"
  obtains pre run post junk where "tlv_holds b (pre @ run @ post) junk" and "splits_at k pre run post"
  using assms by (metis tlv_inv_holds tlv_holds_def grouped_split)

lemma tlv_vals:
  assumes "tlv_holds b (pre @ run @ post) junk" and "splits_at k pre run post"
    and "tlv_holds b1 (pre @ run1 @ post) junk1" and "\<forall>e \<in> set run1. fst e = k"
  shows "tlv_inv b1" and "tlv_abs b1 = (tlv_abs b)(k := map snd run1)" and "tlv_abs b k = map snd run"
  using assms tlv_holds_abs [OF assms(1)] tlv_holds_abs [OF assms(3)] splits_at_vals [OF assms(2,4)]
    splits_at_vals_key [OF assms(2)] by simp_all

lemma tlvAdd_step:
  assumes "tlv_inv b" and "length v = unat l"
  shows "\<exists>e t. tlvAdd b k v l = Some (e, t) \<and> tlv_inv t \<and> settings_step mode (tlv_abs b) (CAdd k v) e (tlv_abs t)"
proof -
  obtain pre run post junk where h: "tlv_holds b (pre @ run @ post) junk" "splits_at k pre run post"
    by (rule tlv_split [OF assms(1)])
  from tlvAdd_split [OF h assms(2)] consider
      (ok) b1 junk1 where "tlvAdd b k v l = Some (OT_ERROR_NONE, b1)" "tlv_holds b1 (pre @ (run @ [(k, v)]) @ post) junk1"
    | (full) "tlvAdd b k v l = Some (OT_ERROR_NO_BUFS, b)"
    by (auto split: if_splits)
  then show ?thesis
  proof cases
    case ok
    have "\<forall>e \<in> set (run @ [(k, v)]). fst e = k" using h(2) by (auto simp: splits_at_def)
    note post = tlv_vals [OF h ok(2) this]
    have "tlv_abs b1 = (tlv_abs b)(k := tlv_abs b k @ [v])" using post by simp
    then show ?thesis using ok(1) post(1) by (auto intro: settings_step.intros)
  next
    case full
    then show ?thesis using assms(1) by (auto intro: settings_step.intros)
  qed
qed

lemma tlvSet_step:
  assumes "tlv_inv b" and "length v = unat l"
  shows "if 4 + length v \<le> unat (recordFreeLen b) + (if tlv_abs b k = [] then 0 else 4 + length (last (tlv_abs b k)))
    then \<exists>t. tlvSet b k v l = Some (OT_ERROR_NONE, t) \<and> tlv_inv t \<and>
             tlv_abs t = (tlv_abs b)(k := butlast (tlv_abs b k) @ [v])
    else tlvSet b k v l = Some (OT_ERROR_NO_BUFS, b)" (is "if ?room then ?ok else ?full")
proof -
  obtain pre run post junk where h: "tlv_holds b (pre @ run @ post) junk" "splits_at k pre run post"
    by (rule tlv_split [OF assms(1)])
  have run: "\<forall>e \<in> set run. fst e = k" using h(2) by (simp add: splits_at_def)
  have vk: "tlv_abs b k = map snd run" by (rule tlv_vals(3) [OF h h(1) run])
  have "length (enc (drop (length run - 1) run)) = (if run = [] then 0 else 4 + length (snd (last run)))"
    by (cases run rule: rev_cases) simp_all
  moreover have "unat (recordFreeLen b) = length junk" using h(1) by (simp add: tlv_holds_def tlv_used_def)
  ultimately have room: "?room \<longleftrightarrow> 4 + length v \<le> length junk + length (enc (drop (length run - 1) run))"
    by (simp add: vk last_map)
  show ?thesis
  proof (cases ?room)
    case True
    then obtain b1 junk1 where ok: "tlvSet b k v l = Some (OT_ERROR_NONE, b1)"
      "tlv_holds b1 (pre @ (butlast run @ [(k, v)]) @ post) junk1"
      using tlvSet_split [OF h assms(2)] unfolding room by auto
    have "\<forall>e \<in> set (butlast run @ [(k, v)]). fst e = k" using run by (auto dest: in_set_butlastD)
    from tlv_vals [OF h ok(2) this] ok(1) True show ?thesis by (simp add: map_butlast)
  next
    case False
    then show ?thesis using tlvSet_split [OF h assms(2)] unfolding room by simp
  qed
qed

lemma tlvDelete_step:
  assumes "tlv_inv b"
  shows "if tlv_abs b k = [] then tlvDelete b k i = Some (OT_ERROR_NOT_FOUND, b)
    else \<exists>t. tlvDelete b k i = Some (OT_ERROR_NONE, t) \<and> tlv_inv t \<and>
             tlv_abs t = (tlv_abs b)(k := without i (tlv_abs b k))"
proof -
  obtain pre run post junk where h: "tlv_holds b (pre @ run @ post) junk" "splits_at k pre run post"
    by (rule tlv_split [OF assms(1)])
  have run: "\<forall>e \<in> set run. fst e = k" using h(2) by (simp add: splits_at_def)
  then have dr: "\<forall>e \<in> set (without i run). fst e = k" using set_without [of i run] by blast
  have vk: "tlv_abs b k = map snd run" by (rule tlv_vals(3) [OF h h(1) run])
  show ?thesis
  proof (cases "run = []")
    case True
    then show ?thesis using tlvDelete_split [OF h, of i] by (simp add: vk)
  next
    case False
    then obtain b1 junk1 where "tlvDelete b k i = Some (OT_ERROR_NONE, b1)"
      "tlv_holds b1 (pre @ without i run @ post) junk1" using tlvDelete_split [OF h, of i] by auto
    with tlv_vals [OF h _ dr] False show ?thesis by (auto simp: vk map_without)
  qed
qed

interpretation tlv: indexed_settings_store tlv_inv tlv_abs tlvGet tlvAdd tlvSet tlvDelete "\<lambda>b. Some (tlvWipe b)"
proof (unfold_locales, goal_cases)
  case (1 s i k v dst cap)
  then obtain bs junk where h: "tlv_holds s bs junk" by (blast elim: tlv_inv_holds)
  with 1 tlv_holds_abs [OF h] show ?case
    by (simp add: tlvGet_holds [OF h] tlv_lookup_def tlv_deliver_def wr_bytes_def)
next
  case (2 s k i out len)
  then obtain bs junk where h: "tlv_holds s bs junk" by (blast elim: tlv_inv_holds)
  with 2 tlv_holds_abs [OF h] show ?case by (simp add: tlvGet_holds [OF h] tlv_lookup_def)
next
  case (3 s v l k)
  then show ?case by (blast intro: tlvAdd_step)
next
  case (4 s v l k)
  from tlvSet_step [OF 4(1,2), of k] 4(1) obtain e t where t: "tlvSet s k v l = Some (e, t)" "tlv_inv t"
    "e = OT_ERROR_NONE \<and> tlv_abs t = (tlv_abs s)(k := butlast (tlv_abs s k) @ [v]) \<or> e = OT_ERROR_NO_BUFS \<and> t = s"
    by (auto split: if_splits)
  from t(3) have "settings_step EveryIndex (tlv_abs s) (CSet k v) e (tlv_abs t)"
  proof
    assume "e = OT_ERROR_NONE \<and> tlv_abs t = (tlv_abs s)(k := butlast (tlv_abs s k) @ [v])"
    moreover have "length (tlv_abs s k) \<le> 1 \<Longrightarrow> butlast (tlv_abs s k) = []" by (cases "tlv_abs s k") auto
    ultimately show ?thesis by (auto intro!: settings_step.intros)
  next
    assume "e = OT_ERROR_NO_BUFS \<and> t = s"
    then show ?thesis using settings_step.set_full [of EveryIndex "tlv_abs s" k v "tlv_abs s k"] by simp
  qed
  with t show ?case by blast
next
  case (5 s k j)
  from tlvDelete_step [OF 5(1), of k j] delete_at_stepI [of "tlv_abs s" k j] 5 show ?case
    by (auto intro: settings_step.delete_none split: if_splits)
next
  case (6 s)
  show ?case using tlv_holds_abs [OF tlvWipe_holds, of s] by (auto simp: fun_eq_iff)
qed

section \<open>Backends built on the buffer\<close>

text \<open>
  A backend keeps the buffer in a larger state; each handler does to the buffer what the routines
  above do and returns their code. That is enough to inherit the whole interface.
\<close>

locale tlv_backend =
  fixes buf :: "'s \<Rightarrow> otSettingsBuffer_t"
    and get :: "'s \<Rightarrow> u16 \<Rightarrow> int \<Rightarrow> bytes option \<Rightarrow> u16 option \<Rightarrow> (otError \<times> bytes option \<times> u16 option) option"
    and add :: "'s \<Rightarrow> u16 \<Rightarrow> bytes \<Rightarrow> u16 \<Rightarrow> (otError \<times> 's) option"
    and put :: "'s \<Rightarrow> u16 \<Rightarrow> bytes \<Rightarrow> u16 \<Rightarrow> (otError \<times> 's) option"
    and del :: "'s \<Rightarrow> u16 \<Rightarrow> int \<Rightarrow> (otError \<times> 's) option"
    and wip :: "'s \<Rightarrow> 's option"
  assumes get_buf: "get s k i out len = tlvGet (buf s) k i out len"
    and add_buf: "map_option (map_prod id buf) (add s k v l) = tlvAdd (buf s) k v l"
    and put_buf: "map_option (map_prod id buf) (put s k v l) = tlvSet (buf s) k v l"
    and del_buf: "map_option (map_prod id buf) (del s k i) = tlvDelete (buf s) k i"
    and wip_buf: "map_option buf (wip s) = Some (tlvWipe (buf s))"
begin

lemma lift_result:
  assumes "map_option (map_prod id buf) r = q" and "\<exists>e b. q = Some (e, b) \<and> P e b"
  shows "\<exists>e t. r = Some (e, t) \<and> P e (buf t)"
  using assms by (cases r) auto

end

sublocale tlv_backend \<subseteq> indexed_settings_store "\<lambda>s. tlv_inv (buf s)" "\<lambda>s. tlv_abs (buf s)" get add put del wip
proof (unfold_locales, goal_cases)
  case (1 s i k v dst cap)
  then show ?case by (simp add: get_buf tlv.get_hit)
next
  case (2 s k i out len)
  then show ?case by (simp add: get_buf tlv.get_miss)
next
  case (3 s v l k)
  from lift_result [OF add_buf tlv.add_step [OF 3]] show ?case by simp
next
  case (4 s v l k)
  from lift_result [OF put_buf tlv.put_step [OF 4]] show ?case by simp
next
  case (5 s k j)
  from lift_result [OF del_buf tlv.del_step [OF 5]] show ?case by simp
next
  case (6 s)
  from wip_buf [of s] tlv_holds_abs [OF tlvWipe_holds, of "buf s"] show ?case by (auto simp: fun_eq_iff)
qed

section \<open>Properties\<close>

text \<open>A buffer used by the witnesses: two values of key 1, then one of key 2.\<close>

definition tlv_zeros :: "nat \<Rightarrow> bytes" where
  "tlv_zeros n = replicate n 0"

lemma length_tlv_zeros [simp]: "length (tlv_zeros n) = n"
  by (simp add: tlv_zeros_def)

definition tlv_sample :: otSettingsBuffer_t where
  "tlv_sample = \<lparr>recordLen = 17, recordFreeLen = 1007,
     tlvBuffer = enc [(1, [10, 11]), (1, [12, 13]), (2, [20])] @ tlv_zeros 1007\<rparr>"

lemma tlv_sample_holds: "tlv_holds tlv_sample [(1, [10, 11]), (1, [12, 13]), (2, [20])] (tlv_zeros 1007)"
  by (simp add: tlv_sample_def tlv_holds_def tlv_used_def)

lemmas tlv_sample_abs = tlv_holds_abs [OF tlv_sample_holds]

text \<open>
  C34. The byte loops of \<^verbatim>\<open>moveData\<close> are a memmove of the tail that starts at \<open>pSrc\<close> to \<open>pDst\<close>:
  whenever the moved tail fits, the call returns with no assertion fired, keeps everything below both
  offsets, and leaves both length fields consistent.
\<close>

theorem moveData_is_memmove:
  assumes "length (tlvBuffer b) = 1024" and "unat (recordLen b) + unat (recordFreeLen b) = 1024"
    and "pSrc < unat (recordLen b)" and "unat (recordLen b) + pDst \<le> 1024 + pSrc"
  shows "\<exists>b1. moveData b pSrc pDst = Some b1 \<and> length (tlvBuffer b1) = 1024 \<and>
    unat (recordLen b1) = unat (recordLen b) + pDst - pSrc \<and> unat (recordLen b1) + unat (recordFreeLen b1) = 1024 \<and>
    take (min pSrc pDst) (tlvBuffer b1) = take (min pSrc pDst) (tlvBuffer b) \<and>
    drop pDst (take (unat (recordLen b1)) (tlvBuffer b1)) = drop pSrc (take (unat (recordLen b)) (tlvBuffer b))"
proof -
  define used where "used = take (unat (recordLen b)) (tlvBuffer b)"
  define m where "m = min pSrc pDst"
  define pre where "pre = take m used"
  define old where "old = drop m (take pSrc used)"
  define post where "post = drop pSrc used"
  have len: "length used = unat (recordLen b)" using assms(1,2) by (simp add: used_def)
  have m: "m \<le> pSrc" "m \<le> pDst" "length pre = m" "length old = pSrc - m" "length post = length used - pSrc"
    using assms(3) len by (simp_all add: m_def pre_def old_def post_def)
  have "pre @ old = take pSrc used"
    using append_take_drop_id [of m "take pSrc used"] m(1) by (simp add: pre_def old_def min_absorb1)
  then have cut: "used = pre @ old @ post"
    unfolding post_def append_assoc [symmetric] by simp
  have u: "tlv_used b (pre @ old @ post) (drop (unat (recordLen b)) (tlvBuffer b))"
    using assms(1,2) len unfolding cut [symmetric] by (auto simp: tlv_used_def used_def)
  have ne: "post \<noteq> []" using assms(3) len by (simp add: post_def)
  have fits: "length pre + (pDst - m) + length post \<le> 1024" using assms(3,4) len m by linarith
  have offs: "length pre + length old = pSrc" "length pre + (pDst - m) = pDst" using m by linarith+
  obtain b1 gap junk1 where b1: "moveData b pSrc pDst = Some b1" "length gap = pDst - m"
    "tlv_used b1 (pre @ gap @ post) junk1"
    using moveData_resize [OF u ne fits] unfolding offs by blast
  have "take m (tlvBuffer b1) = take m (tlvBuffer b)"
    using b1(3) m(1,3) assms(3) by (simp add: tlv_used_def pre_def used_def min_absorb1)
  moreover have "drop pDst (take (unat (recordLen b1)) (tlvBuffer b1)) = post"
    using b1(2,3) m by (simp add: tlv_used_def)
  moreover have "unat (recordLen b1) = length pre + (pDst - m) + length post"
    "unat (recordLen b1) + unat (recordFreeLen b1) = 1024" "length (tlvBuffer b1) = 1024"
    using b1(2,3) by (simp_all add: tlv_used_def)
  moreover from this(1) have "unat (recordLen b1) = unat (recordLen b) + pDst - pSrc"
    unfolding offs(2) m(5) len using assms(3) by linarith
  ultimately show ?thesis
    using b1(1) unfolding used_def [symmetric] m_def [symmetric] post_def [symmetric] by blast
qed

theorem moveData_is_memmove_witness:
  "\<exists>b1. moveData tlv_sample 12 6 = Some b1 \<and> unat (recordLen b1) = 11"
proof -
  have "length (tlvBuffer tlv_sample) = 1024" "unat (recordLen tlv_sample) + unat (recordFreeLen tlv_sample) = 1024"
    "12 < unat (recordLen tlv_sample)" "unat (recordLen tlv_sample) + 6 \<le> 1024 + 12"
    by (simp_all add: tlv_sample_def)
  from moveData_is_memmove [OF this] show ?thesis by (auto simp: tlv_sample_def)
qed

text \<open>
  A get that hits copies the whole stored value whatever capacity the caller passed in, because
  the length is overwritten before it is compared: with a destination shorter than the value the
  copy leaves the caller's buffer.
\<close>

theorem tlvGet_ignores_capacity:
  assumes "tlv_inv b" and "i < length (tlv_abs b k)" and "length dst < length (tlv_abs b k ! i)"
  shows "tlvGet b k (int i) (Some dst) (Some cap) = None"
proof -
  from assms(1) obtain bs junk where h: "tlv_holds b bs junk" by (blast elim: tlv_inv_holds)
  from assms tlv_holds_abs [OF h] show ?thesis
    by (simp add: tlvGet_holds [OF h] tlv_lookup_def tlv_deliver_def wr_bytes_def)
qed

theorem tlvGet_ignores_capacity_witness:
  "tlv_inv tlv_sample \<and> tlvGet tlv_sample 1 (int 1) (Some [0]) (Some 1) = None"
proof -
  have h: "tlv_inv tlv_sample" "1 < length (tlv_abs tlv_sample 1)"
    "length [0 :: u8] < length (tlv_abs tlv_sample 1 ! 1)" using tlv_sample_abs by simp_all
  from h(1) tlvGet_ignores_capacity [OF h, of 1] show ?thesis by simp
qed

text \<open>
  A delete on a key that has values always succeeds: a valid index removes that value and keeps
  the order of the others; any other index (-1, but also an index past the last value) removes every
  value of the key. Other keys are untouched and the buffer stays well formed.
\<close>

theorem tlvDelete_effect:
  assumes "tlv_inv b" and "tlv_abs b k \<noteq> []"
  shows "\<exists>b1. tlvDelete b k i = Some (OT_ERROR_NONE, b1) \<and> tlv_inv b1 \<and>
    tlv_abs b1 = (tlv_abs b)(k := if 0 \<le> i \<and> i < int (length (tlv_abs b k))
      then take (nat i) (tlv_abs b k) @ drop (Suc (nat i)) (tlv_abs b k) else [])"
  using tlvDelete_step [OF assms(1), of k i] assms(2) by (simp add: without_def)

theorem tlvDelete_effect_witness:
  "tlv_abs tlv_sample 1 = [[10, 11], [12, 13]] \<and>
   (\<exists>b1. tlvDelete tlv_sample 1 7 = Some (OT_ERROR_NONE, b1) \<and> tlv_abs b1 1 = [])"
proof -
  have "tlv_inv tlv_sample" "tlv_abs tlv_sample 1 \<noteq> []" using tlv_sample_abs by simp_all
  from tlvDelete_effect [OF this, of 7] tlv_sample_abs show ?thesis by auto
qed

text \<open>
  C35. A set succeeds exactly when the new entry fits into the free space plus the entry of the last
  value of the key. It then replaces that last value (appends one when the key has none) and keeps the
  earlier values of the key; otherwise it returns \<open>OT_ERROR_NO_BUFS\<close> and changes nothing.
\<close>

theorem tlvSet_effect:
  assumes "tlv_inv b" and "length v = unat l"
  shows "if 4 + length v \<le> unat (recordFreeLen b) + (if tlv_abs b k = [] then 0 else 4 + length (last (tlv_abs b k)))
    then \<exists>b1. tlvSet b k v l = Some (OT_ERROR_NONE, b1) \<and> tlv_inv b1 \<and>
              tlv_abs b1 = (tlv_abs b)(k := butlast (tlv_abs b k) @ [v])
    else tlvSet b k v l = Some (OT_ERROR_NO_BUFS, b)"
  by (rule tlvSet_step [OF assms])

theorem tlvSet_effect_witness:
  "\<exists>b1. tlvSet tlv_sample 1 [14] 1 = Some (OT_ERROR_NONE, b1) \<and> tlv_abs b1 1 = [[10, 11], [14]]"
proof -
  have "tlv_inv tlv_sample" "length [14 :: u8] = unat (1 :: u16)" using tlv_sample_abs by simp_all
  from tlvSet_effect [OF this, of 1] tlv_sample_abs show ?thesis by (auto simp: tlv_sample_def)
qed
end
