(* ===== verification/Settings_Persist.thy ===== *)
theory Settings_Persist
  imports Settings_Tlv
begin

text \<open>
  How the buffer reaches flash. The file system (\<^verbatim>\<open>fwk_filesystem.h\<close>, \<^verbatim>\<open>fwk_fs_abstraction.h\<close>)
  is not part of the repository: it is the record \<open>fs_api\<close> of the calls the sources make, and
  \<open>fs_documented\<close> states what they rely on. The second half is the write-behind protocol between the
  task that runs the settings handlers and the idle task that writes the buffer out: a step relation
  that interleaves both, with the locale \<open>write_behind\<close> for what the handlers promise.
\<close>

section \<open>The file system, a parameter\<close>

record 'f fs_api =
  FS_Init :: "'f \<Rightarrow> 'f"
  FS_DeInit :: "'f \<Rightarrow> 'f"
  FS_ReadBufferFromFile :: "'f \<Rightarrow> string \<Rightarrow> nat \<Rightarrow> int \<times> bytes"
  FS_WriteBufferToFile :: "'f \<Rightarrow> string \<Rightarrow> bytes \<Rightarrow> int \<times> 'f"
  FS_DeleteFile :: "'f \<Rightarrow> string \<Rightarrow> int \<times> 'f"

definition ot_setting_file_name :: string where
  "ot_setting_file_name = ''ot_settings''"

text \<open>
  \<open>content f n\<close> is the file \<open>n\<close>: a write that does not report an error stores the bytes, a delete
  removes the file, a read returns what is stored (nothing for an absent file) when it fits, and
  mounting changes no file.
\<close>

definition fs_documented :: "'f fs_api \<Rightarrow> ('f \<Rightarrow> string \<Rightarrow> bytes option) \<Rightarrow> bool" where
  "fs_documented api content \<longleftrightarrow>
     (\<forall>f n xs. 0 \<le> fst (FS_WriteBufferToFile api f n xs) \<longrightarrow>
               content (snd (FS_WriteBufferToFile api f n xs)) n = Some xs) \<and>
     (\<forall>f n. content (snd (FS_DeleteFile api f n)) n = None) \<and>
     (\<forall>f n k xs. content f n = Some xs \<longrightarrow> length xs \<le> k \<longrightarrow>
               FS_ReadBufferFromFile api f n k = (int (length xs), xs)) \<and>
     (\<forall>f n k. content f n = None \<longrightarrow> FS_ReadBufferFromFile api f n k = (0, [])) \<and>
     (\<forall>f n. content (FS_Init api f) n = content f n)"

text \<open>A file system that always succeeds, for the witnesses: a list of named files.\<close>

definition ram_fs :: "(string \<rightharpoonup> bytes) fs_api" where
  "ram_fs = \<lparr>FS_Init = (\<lambda>f. f), FS_DeInit = (\<lambda>f. f),
     FS_ReadBufferFromFile = (\<lambda>f n k. case f n of None \<Rightarrow> (0, []) | Some xs \<Rightarrow> (int (length xs), xs)),
     FS_WriteBufferToFile = (\<lambda>f n xs. (int (length xs), f(n \<mapsto> xs))),
     FS_DeleteFile = (\<lambda>f n. (0, f(n := None)))\<rparr>"

lemma ram_fs_documented: "fs_documented ram_fs (\<lambda>f. f)"
  by (simp add: fs_documented_def ram_fs_def)

section \<open>The bytes to store\<close>

definition used_bytes :: "otSettingsBuffer_t \<Rightarrow> bytes" where
  "used_bytes b = take (unat (recordLen b)) (tlvBuffer b)"

definition stored_bytes :: "bytes option \<Rightarrow> bytes" where
  "stored_bytes c = (case c of None \<Rightarrow> [] | Some xs \<Rightarrow> xs)"

lemma tlv_inv_used: "tlv_inv b \<Longrightarrow> length (used_bytes b) = unat (recordLen b) \<and> unat (recordLen b) \<le> 1024"
  by (auto simp: tlv_inv_def used_bytes_def)

text \<open>What the handlers keep of the settings is in the used bytes alone.\<close>

lemma tlv_reload:
  assumes "tlv_inv b" and "length buf = 1024" and "take (unat (recordLen b)) buf = used_bytes b"
    and "unat len = unat (recordLen b)"
  shows "tlv_inv \<lparr>recordLen = len, recordFreeLen = 1024 - len, tlvBuffer = buf\<rparr>"
    and "tlv_abs \<lparr>recordLen = len, recordFreeLen = 1024 - len, tlvBuffer = buf\<rparr> = tlv_abs b"
proof -
  have "tlv_blocks \<lparr>recordLen = len, recordFreeLen = 1024 - len, tlvBuffer = buf\<rparr> = tlv_blocks b"
    using assms(3,4) by (simp add: tlv_blocks_def used_bytes_def)
  then show "tlv_inv \<lparr>recordLen = len, recordFreeLen = 1024 - len, tlvBuffer = buf\<rparr>"
    "tlv_abs \<lparr>recordLen = len, recordFreeLen = 1024 - len, tlvBuffer = buf\<rparr> = tlv_abs b"
    using assms tlv_inv_used [OF assms(1)] by (auto simp: tlv_inv_def tlv_abs_def unat_free_len)
qed

lemma tlv_error_unchanged:
  "tlvAdd b k v l = Some (e, b1) \<Longrightarrow> e \<noteq> OT_ERROR_NONE \<Longrightarrow> b1 = b"
  "tlvSet b k v l = Some (e, b1) \<Longrightarrow> e \<noteq> OT_ERROR_NONE \<Longrightarrow> b1 = b"
  "tlvDelete b k i = Some (e, b1) \<Longrightarrow> e \<noteq> OT_ERROR_NONE \<Longrightarrow> b1 = b"
  by (auto simp: tlvAdd_def tlvSet_def tlvDelete_def Let_def split: bind_splits if_splits prod.splits option.splits)

section \<open>Write-behind\<close>

text \<open>
  \<^verbatim>\<open>otPlatSaveSettingsIdle\<close> runs in the idle task in three pieces that other tasks may run between: it
  clears the flag, copies the buffer under the mutex, and writes the copy. The handlers hold the mutex
  and are single steps.
\<close>

datatype idle_pc = AtRest | Cleared | Copied

inductive wb_step ::
  "('s \<Rightarrow> settings_cmd \<Rightarrow> (otError \<times> 's) option) \<Rightarrow> ('s \<Rightarrow> bool) \<Rightarrow> ('s \<Rightarrow> 's) \<Rightarrow> ('s \<Rightarrow> 's option) \<Rightarrow>
   ('s \<Rightarrow> 's) \<Rightarrow> idle_pc \<times> 's \<Rightarrow> idle_pc \<times> 's \<Rightarrow> bool"
  for cmd dirty clear copy flush where
  wb_cmd: "cmd s c = Some (e, t) \<Longrightarrow> wb_step cmd dirty clear copy flush (pc, s) (pc, t)"
| wb_clear: "dirty s \<Longrightarrow> wb_step cmd dirty clear copy flush (AtRest, s) (Cleared, clear s)"
| wb_copy: "copy s = Some t \<Longrightarrow> wb_step cmd dirty clear copy flush (Cleared, s) (Copied, t)"
| wb_flush: "wb_step cmd dirty clear copy flush (Copied, s) (AtRest, flush s)"

inductive_cases wb_stepE: "wb_step cmd dirty clear copy flush (pc, s) (pc1, t)"

locale write_behind =
  fixes cmd :: "'s \<Rightarrow> settings_cmd \<Rightarrow> (otError \<times> 's) option"
    and dirty :: "'s \<Rightarrow> bool" and clear :: "'s \<Rightarrow> 's" and copy :: "'s \<Rightarrow> 's option" and flush :: "'s \<Rightarrow> 's"
    and used :: "'s \<Rightarrow> bytes" and copied :: "'s \<Rightarrow> bytes" and disk :: "'s \<Rightarrow> 'd"
  assumes cmd_law: "cmd s c = Some (e, t) \<Longrightarrow> copied t = copied s \<and> disk t = disk s \<and>
      (dirty t \<or> \<not> dirty s \<and> used t = used s)"
    and copy_law: "copy s = Some t \<Longrightarrow> copied t = used s \<and> used t = used s \<and> dirty t = dirty s"
    and flush_law: "used (flush s) = used s \<and> dirty (flush s) = dirty s"
begin

text \<open>
  \<open>safe stored\<close> is the invariant, for a view \<open>stored\<close> of the disk: at rest with a clear flag the disk
  holds the settings, and after the copy with a clear flag the copy does.
\<close>

definition safe :: "('d \<Rightarrow> bytes) \<Rightarrow> idle_pc \<times> 's \<Rightarrow> bool" where
  "safe stored x = (case x of (pc, s) \<Rightarrow>
     (pc = AtRest \<longrightarrow> \<not> dirty s \<longrightarrow> stored (disk s) = used s) \<and>
     (pc = Copied \<longrightarrow> \<not> dirty s \<longrightarrow> copied s = used s))"

lemma safe_step:
  assumes "wb_step cmd dirty clear copy flush x y" and "safe stored x"
    and flush: "\<And>s. x = (Copied, s) \<Longrightarrow> stored (disk (flush s)) = copied s"
  shows "safe stored y"
  using assms(1,2) flush
  by (cases rule: wb_step.cases) (auto simp: safe_def flush_law dest: cmd_law copy_law)

lemma safe_reachable:
  assumes "(wb_step cmd dirty clear copy flush)\<^sup>*\<^sup>* x y" and "safe stored x"
    and "\<And>s. stored (disk (flush s)) = copied s"
  shows "safe stored y"
  using assms by (induction rule: rtranclp_induct) (auto intro: safe_step)

end

end
