(* ===== verification/Flash_Nvm.thy ===== *)
theory Flash_Nvm
  imports Settings_Persist
begin

text \<open>
  \<^verbatim>\<open>src/common/flash_nvm.c\<close>: the settings handlers over the RAM buffer, saved by the SDK's NVM module
  as the data set \<^verbatim>\<open>NVM_ID_OT_DATA\<close>, which is mirrored in RAM. The module is the parameter \<open>nv_api\<close>;
  \<open>nv_documented\<close> is what the source relies on. \<open>onIdle\<close> is \<^verbatim>\<open>OT_PLAT_SAVE_NVM_DATA_ON_IDLE\<close>.
\<close>

section \<open>The NVM module, a parameter\<close>

record 'n nv_api =
  NvModuleInit :: "'n \<Rightarrow> 'n"
  NvRestoreDataSet :: "'n \<Rightarrow> otSettingsBuffer_t \<Rightarrow> otSettingsBuffer_t"
  NvSaveOnIdle :: "'n \<Rightarrow> 'n"
  NvSyncSave :: "'n \<Rightarrow> otSettingsBuffer_t \<Rightarrow> 'n"
  NvIdle :: "'n \<Rightarrow> otSettingsBuffer_t \<Rightarrow> 'n"
  NvShutdown :: "'n \<Rightarrow> otSettingsBuffer_t \<Rightarrow> 'n"

text \<open>
  \<open>NvSaveOnIdle\<close> marks the data set, \<open>NvIdle\<close> and \<open>NvShutdown\<close> write a marked one as it then is in RAM,
  \<open>NvSyncSave\<close> writes at once, and \<open>NvRestoreDataSet\<close> fills the RAM from the last write, if any.
\<close>

definition nv_documented :: "'n nv_api \<Rightarrow> ('n \<Rightarrow> bool) \<Rightarrow> ('n \<Rightarrow> otSettingsBuffer_t option) \<Rightarrow> bool" where
  "nv_documented api pending saved \<longleftrightarrow>
     (\<forall>n. pending (NvSaveOnIdle api n)) \<and>
     (\<forall>n b. saved (NvSyncSave api n b) = Some b) \<and>
     (\<forall>n b. saved (NvIdle api n b) = (if pending n then Some b else saved n)) \<and>
     (\<forall>n b. saved (NvShutdown api n b) = (if pending n then Some b else saved n)) \<and>
     (\<forall>n. saved (NvModuleInit api n) = saved n) \<and>
     (\<forall>n b. NvRestoreDataSet api n b = (case saved n of Some b1 \<Rightarrow> b1 | None \<Rightarrow> b))"

text \<open>A module with these laws, for the witnesses: the mark and the last write.\<close>

definition ram_nv :: "(bool \<times> otSettingsBuffer_t option) nv_api" where
  "ram_nv = \<lparr>NvModuleInit = (\<lambda>n. n), NvRestoreDataSet = (\<lambda>n b. case snd n of Some b1 \<Rightarrow> b1 | None \<Rightarrow> b),
     NvSaveOnIdle = (\<lambda>n. (True, snd n)), NvSyncSave = (\<lambda>n b. (False, Some b)),
     NvIdle = (\<lambda>n b. if fst n then (False, Some b) else n), NvShutdown = (\<lambda>n b. if fst n then (False, Some b) else n)\<rparr>"

lemma ram_nv_documented: "nv_documented ram_nv fst snd"
  by (simp add: nv_documented_def ram_nv_def)

section \<open>State and handlers\<close>

record 'n nvm_state =
  nvmBuffer :: otSettingsBuffer_t
  nvmInitialized :: bool
  nvmNv :: 'n

definition nvm_otPlatSettingsInit :: "'n nv_api \<Rightarrow> 'n nvm_state \<Rightarrow> 'n nvm_state" where
  "nvm_otPlatSettingsInit api s =
     (if nvmInitialized s then s
      else (let nv1 = NvModuleInit api (nvmNv s);
                b0 = \<lparr>recordLen = 0, recordFreeLen = 0, tlvBuffer = replicate OT_SETTINGS_BUFFER_SIZE 0\<rparr>;
                b1 = b0\<lparr>recordFreeLen := of_nat OT_SETTINGS_BUFFER_SIZE - recordLen b0\<rparr>
            in s\<lparr>nvmInitialized := True, nvmNv := nv1, nvmBuffer := NvRestoreDataSet api nv1 b1\<rparr>))"

definition nvm_otPlatSettingsGet ::
  "'n nvm_state \<Rightarrow> u16 \<Rightarrow> int \<Rightarrow> bytes option \<Rightarrow> u16 option \<Rightarrow> (otError \<times> bytes option \<times> u16 option) option" where
  "nvm_otPlatSettingsGet s aKey aIndex aValue aValueLength = tlvGet (nvmBuffer s) aKey aIndex aValue aValueLength"

definition nvm_save :: "'n nv_api \<Rightarrow> bool \<Rightarrow> 'n nvm_state \<Rightarrow> 'n nvm_state" where
  "nvm_save api onIdle s =
     (if onIdle then s\<lparr>nvmNv := NvSaveOnIdle api (nvmNv s)\<rparr>
      else s\<lparr>nvmNv := NvSyncSave api (nvmNv s) (nvmBuffer s)\<rparr>)"

definition nvm_otPlatSettingsAdd ::
  "'n nv_api \<Rightarrow> bool \<Rightarrow> 'n nvm_state \<Rightarrow> u16 \<Rightarrow> bytes \<Rightarrow> u16 \<Rightarrow> (otError \<times> 'n nvm_state) option" where
  "nvm_otPlatSettingsAdd api onIdle s aKey aValue aValueLength =
     do { (error, b1) \<leftarrow> tlvAdd (nvmBuffer s) aKey aValue aValueLength;
          if error = OT_ERROR_NONE then Some (error, nvm_save api onIdle (s\<lparr>nvmBuffer := b1\<rparr>))
          else Some (error, s) }"

definition nvm_otPlatSettingsSet ::
  "'n nv_api \<Rightarrow> bool \<Rightarrow> 'n nvm_state \<Rightarrow> u16 \<Rightarrow> bytes \<Rightarrow> u16 \<Rightarrow> (otError \<times> 'n nvm_state) option" where
  "nvm_otPlatSettingsSet api onIdle s aKey aValue aValueLength =
     do { (error, b1) \<leftarrow> tlvSet (nvmBuffer s) aKey aValue aValueLength;
          if error = OT_ERROR_NONE then Some (error, nvm_save api onIdle (s\<lparr>nvmBuffer := b1\<rparr>))
          else Some (error, s) }"

definition nvm_otPlatSettingsDelete ::
  "'n nv_api \<Rightarrow> bool \<Rightarrow> 'n nvm_state \<Rightarrow> u16 \<Rightarrow> int \<Rightarrow> (otError \<times> 'n nvm_state) option" where
  "nvm_otPlatSettingsDelete api onIdle s aKey aIndex =
     do { (error, b1) \<leftarrow> tlvDelete (nvmBuffer s) aKey aIndex;
          if error = OT_ERROR_NONE then Some (error, nvm_save api onIdle (s\<lparr>nvmBuffer := b1\<rparr>))
          else Some (error, s) }"

definition nvm_otPlatSettingsWipe :: "'n nv_api \<Rightarrow> bool \<Rightarrow> 'n nvm_state \<Rightarrow> 'n nvm_state" where
  "nvm_otPlatSettingsWipe api onIdle s =
     (let s1 = nvm_save api onIdle (s\<lparr>nvmBuffer := tlvWipe (nvmBuffer s)\<rparr>)
      in s1\<lparr>nvmNv := NvShutdown api (nvmNv s1) (nvmBuffer s1)\<rparr>)"

definition nvm_otPlatSaveSettingsIdle :: "'n nv_api \<Rightarrow> bool \<Rightarrow> 'n nvm_state \<Rightarrow> 'n nvm_state" where
  "nvm_otPlatSaveSettingsIdle api onIdle s =
     (if nvmInitialized s \<and> onIdle then s\<lparr>nvmNv := NvIdle api (nvmNv s) (nvmBuffer s)\<rparr> else s)"

section \<open>The settings interface\<close>

lemmas nvm_handlers = nvm_otPlatSettingsAdd_def nvm_otPlatSettingsSet_def nvm_otPlatSettingsDelete_def
  nvm_otPlatSettingsWipe_def nvm_otPlatSettingsGet_def nvm_save_def

interpretation nvm: tlv_backend nvmBuffer nvm_otPlatSettingsGet
  "nvm_otPlatSettingsAdd api onIdle" "nvm_otPlatSettingsSet api onIdle" "nvm_otPlatSettingsDelete api onIdle"
  "\<lambda>s. Some (nvm_otPlatSettingsWipe api onIdle s)" for api :: "'n nv_api" and onIdle :: bool
  by unfold_locales
    (auto simp: nvm_handlers Let_def dest: tlv_error_unchanged split: bind_splits intro!: option.map_cong)

definition nvm_exec :: "'n nv_api \<Rightarrow> bool \<Rightarrow> 'n nvm_state \<Rightarrow> settings_cmd \<Rightarrow> (otError \<times> 'n nvm_state) option" where
  "nvm_exec api onIdle = exec_cmd (nvm_otPlatSettingsAdd api onIdle) (nvm_otPlatSettingsSet api onIdle)
     (nvm_otPlatSettingsDelete api onIdle) (\<lambda>s. Some (nvm_otPlatSettingsWipe api onIdle s))"

text \<open>The module has a write of the buffer behind it, or one that the next idle run will do.\<close>

definition nvm_synced :: "('n \<Rightarrow> bool) \<Rightarrow> ('n \<Rightarrow> otSettingsBuffer_t option) \<Rightarrow> 'n nvm_state \<Rightarrow> bool" where
  "nvm_synced pending saved s \<longleftrightarrow> pending (nvmNv s) \<or> saved (nvmNv s) = Some (nvmBuffer s)"

lemma nvm_wipe_saved:
  assumes "nv_documented api pending saved"
  shows "saved (nvmNv (nvm_otPlatSettingsWipe api onIdle s)) = Some (tlvWipe (nvmBuffer s))"
  using assms by (auto simp: nv_documented_def nvm_otPlatSettingsWipe_def nvm_save_def Let_def)

lemma nvm_exec_keeps:
  assumes "nv_documented api pending saved" and "nvm_exec api onIdle s c = Some (e, t)"
  shows "nvmInitialized t = nvmInitialized s \<and> (nvm_synced pending saved t \<or> t = s)"
proof (cases c)
  case CWipe
  then have t: "t = nvm_otPlatSettingsWipe api onIdle s" using assms(2) by (simp add: nvm_exec_def)
  have "nvmInitialized t = nvmInitialized s" "nvmBuffer t = tlvWipe (nvmBuffer s)"
    by (simp_all add: t nvm_otPlatSettingsWipe_def nvm_save_def)
  then show ?thesis using nvm_wipe_saved [OF assms(1), of onIdle s] by (simp add: nvm_synced_def t)
qed (use assms in \<open>auto simp: nvm_exec_def nvm_handlers nvm_synced_def nv_documented_def Let_def
        split: bind_splits if_splits\<close>)

lemma nvm_execs_keep:
  "exec_cmds (nvm_exec api onIdle) s cs = Some (es, t) \<Longrightarrow> nv_documented api pending saved \<Longrightarrow>
   nvm_synced pending saved s \<Longrightarrow> nvmInitialized t = nvmInitialized s \<and> nvm_synced pending saved t"
proof (induction cs arbitrary: s es)
  case (Cons c cs)
  then obtain e s1 es1 where 1: "nvm_exec api onIdle s c = Some (e, s1)"
    "exec_cmds (nvm_exec api onIdle) s1 cs = Some (es1, t)" by (auto split: bind_splits)
  from nvm_exec_keeps [OF Cons.prems(2) 1(1)] Cons.IH [OF 1(2) Cons.prems(2)] Cons.prems(3) show ?case by auto
qed simp

definition nvm_boot :: "'n \<Rightarrow> 'n nvm_state" where
  "nvm_boot n = \<lparr>nvmBuffer = \<lparr>recordLen = 0, recordFreeLen = 0, tlvBuffer = replicate 1024 0\<rparr>,
     nvmInitialized = False, nvmNv = n\<rparr>"

lemma nvm_init_loads:
  assumes "nv_documented api pending saved" and "saved n = Some b"
  shows "nvmBuffer (nvm_otPlatSettingsInit api (nvm_boot n)) = b"
  using assms by (simp add: nvm_otPlatSettingsInit_def nvm_boot_def nv_documented_def Let_def)

section \<open>Properties\<close>

text \<open>
  With the save-on-idle build, any call sequence with values shorter than 65532 bytes, followed by one idle run and a reboot ends with the
  values the calls left.
\<close>

theorem nvm_settings_survive_reboot:
  assumes "nv_documented api pending saved" and "tlv_inv (nvmBuffer s)" and "nvmInitialized s"
    and "nvm_synced pending saved s" and "list_all cmd_ok cs"
  shows "\<exists>es t. exec_cmds (nvm_exec api True) s cs = Some (es, t) \<and>
    settings_run EveryIndex (tlv_abs (nvmBuffer s)) cs es (tlv_abs (nvmBuffer t)) \<and>
    nvmBuffer (nvm_otPlatSettingsInit api (nvm_boot (nvmNv (nvm_otPlatSaveSettingsIdle api True t)))) = nvmBuffer t \<and>
    tlv_inv (nvmBuffer t)"
proof -
  obtain es t where t: "exec_cmds (nvm_exec api True) s cs = Some (es, t)" "tlv_inv (nvmBuffer t)"
    "settings_run EveryIndex (tlv_abs (nvmBuffer s)) cs es (tlv_abs (nvmBuffer t))"
    using nvm.run_refines [OF assms(2,5), of api True] unfolding nvm_exec_def by blast
  from nvm_execs_keep [OF t(1) assms(1,4)] assms(3)
  have "saved (nvmNv (nvm_otPlatSaveSettingsIdle api True t)) = Some (nvmBuffer t)"
    using assms(1) by (auto simp: nvm_otPlatSaveSettingsIdle_def nvm_synced_def nv_documented_def)
  from nvm_init_loads [OF assms(1) this] t show ?thesis by blast
qed

definition nvm_sample :: "(bool \<times> otSettingsBuffer_t option) nvm_state" where
  "nvm_sample = \<lparr>nvmBuffer = tlv_sample, nvmInitialized = True, nvmNv = (False, Some tlv_sample)\<rparr>"

lemma nvm_sample_ok: "tlv_inv (nvmBuffer nvm_sample)" "nvmInitialized nvm_sample" "nvm_synced fst snd nvm_sample"
  using tlv_sample_abs by (simp_all add: nvm_sample_def nvm_synced_def)

theorem nvm_settings_survive_reboot_witness:
  "\<exists>es t. exec_cmds (nvm_exec ram_nv True) nvm_sample [CDelete 1 0, CAdd 9 [1]] = Some (es, t) \<and>
    nvmBuffer (nvm_otPlatSettingsInit ram_nv (nvm_boot (nvmNv (nvm_otPlatSaveSettingsIdle ram_nv True t)))) = nvmBuffer t"
  using nvm_settings_survive_reboot [OF ram_nv_documented nvm_sample_ok, of "[CDelete 1 0, CAdd 9 [1]]"] by auto

text \<open>
  A wipe is durable at once, in both builds: a reboot right after it, with no idle run in between,
  starts with an empty store.
\<close>

theorem nvm_wipe_is_durable:
  assumes "nv_documented api pending saved"
  shows "tlv_abs (nvmBuffer (nvm_otPlatSettingsInit api (nvm_boot (nvmNv (nvm_otPlatSettingsWipe api onIdle s))))) = (\<lambda>_. [])"
  using nvm_init_loads [OF assms nvm_wipe_saved [OF assms]] tlv_holds_abs(2) [OF tlvWipe_holds] by (simp add: fun_eq_iff)

theorem nvm_wipe_is_durable_witness:
  "tlv_abs (nvmBuffer nvm_sample) 1 = [[10, 11], [12, 13]] \<and>
   tlv_abs (nvmBuffer (nvm_otPlatSettingsInit ram_nv (nvm_boot (nvmNv (nvm_otPlatSettingsWipe ram_nv True nvm_sample))))) 1 = []"
  using nvm_wipe_is_durable [OF ram_nv_documented, of True nvm_sample] tlv_sample_abs by (simp add: nvm_sample_def)

end
