(* ===== verification/Flash_Fsa.thy ===== *)
theory Flash_Fsa
  imports Settings_Persist
begin

text \<open>
  \<^verbatim>\<open>src/common/flash_fsa.c\<close>: the settings handlers over the RAM buffer, saved through the file system
  abstraction. \<open>onIdle\<close> is the compile-time switch \<^verbatim>\<open>OT_PLAT_SAVE_NVM_DATA_ON_IDLE\<close>. The mutex is held
  through each handler, so a handler is one step; \<open>fsa_otPlatSaveSettingsIdle\<close> is the composition of the
  three pieces of the idle task, which \<^verbatim>\<open>Settings_Persist\<close> also interleaves with the handlers.
\<close>

section \<open>State and handlers\<close>

record 'f fsa_state =
  fsaBuffer :: otSettingsBuffer_t
  fsaInitialized :: bool
  fsaToSave :: bool
  fsaBufferIdle :: otSettingsBuffer_t
  fsaFs :: 'f

definition fsa_otPlatSettingsInit :: "'f fs_api \<Rightarrow> 'f fsa_state \<Rightarrow> 'f fsa_state option" where
  "fsa_otPlatSettingsInit api s =
     (if fsaInitialized s then Some s
      else do {
        let fs1 = FS_Init api (fsaFs s);
        let zeros = replicate OT_SETTINGS_BUFFER_SIZE 0;
        let (len, xs) = FS_ReadBufferFromFile api fs1 ot_setting_file_name OT_SETTINGS_BUFFER_SIZE;
        buf \<leftarrow> wr_bytes 0 xs zeros;
        if len \<le> int OT_SETTINGS_BUFFER_SIZE \<and> 0 \<le> len then
          Some (s\<lparr>fsaInitialized := True, fsaFs := fs1,
                  fsaBuffer := \<lparr>recordLen = of_int len,
                                recordFreeLen = of_nat OT_SETTINGS_BUFFER_SIZE - of_int len, tlvBuffer = buf\<rparr>\<rparr>)
        else None })"

definition fsa_otPlatSettingsDeinit :: "'f fs_api \<Rightarrow> 'f fsa_state \<Rightarrow> 'f fsa_state" where
  "fsa_otPlatSettingsDeinit api s = s\<lparr>fsaFs := FS_DeInit api (fsaFs s), fsaInitialized := False\<rparr>"

definition fsa_otPlatSettingsGet ::
  "'f fsa_state \<Rightarrow> u16 \<Rightarrow> int \<Rightarrow> bytes option \<Rightarrow> u16 option \<Rightarrow> (otError \<times> bytes option \<times> u16 option) option" where
  "fsa_otPlatSettingsGet s aKey aIndex aValue aValueLength = tlvGet (fsaBuffer s) aKey aIndex aValue aValueLength"

text \<open>The save that add, set and delete end with.\<close>

definition fsa_save :: "'f fs_api \<Rightarrow> bool \<Rightarrow> 'f fsa_state \<Rightarrow> 'f fsa_state" where
  "fsa_save api onIdle s =
     (if onIdle then s\<lparr>fsaToSave := True\<rparr>
      else s\<lparr>fsaFs := snd (FS_WriteBufferToFile api (fsaFs s) ot_setting_file_name (used_bytes (fsaBuffer s)))\<rparr>)"

definition fsa_otPlatSettingsAdd ::
  "'f fs_api \<Rightarrow> bool \<Rightarrow> 'f fsa_state \<Rightarrow> u16 \<Rightarrow> bytes \<Rightarrow> u16 \<Rightarrow> (otError \<times> 'f fsa_state) option" where
  "fsa_otPlatSettingsAdd api onIdle s aKey aValue aValueLength =
     do { (error, b1) \<leftarrow> tlvAdd (fsaBuffer s) aKey aValue aValueLength;
          if error = OT_ERROR_NONE then Some (error, fsa_save api onIdle (s\<lparr>fsaBuffer := b1\<rparr>))
          else Some (error, s) }"

definition fsa_otPlatSettingsSet ::
  "'f fs_api \<Rightarrow> bool \<Rightarrow> 'f fsa_state \<Rightarrow> u16 \<Rightarrow> bytes \<Rightarrow> u16 \<Rightarrow> (otError \<times> 'f fsa_state) option" where
  "fsa_otPlatSettingsSet api onIdle s aKey aValue aValueLength =
     do { (error, b1) \<leftarrow> tlvSet (fsaBuffer s) aKey aValue aValueLength;
          if error = OT_ERROR_NONE then Some (error, fsa_save api onIdle (s\<lparr>fsaBuffer := b1\<rparr>))
          else Some (error, s) }"

definition fsa_otPlatSettingsDelete ::
  "'f fs_api \<Rightarrow> bool \<Rightarrow> 'f fsa_state \<Rightarrow> u16 \<Rightarrow> int \<Rightarrow> (otError \<times> 'f fsa_state) option" where
  "fsa_otPlatSettingsDelete api onIdle s aKey aIndex =
     do { (error, b1) \<leftarrow> tlvDelete (fsaBuffer s) aKey aIndex;
          if error = OT_ERROR_NONE then Some (error, fsa_save api onIdle (s\<lparr>fsaBuffer := b1\<rparr>))
          else Some (error, s) }"

definition fsa_otPlatSettingsWipe :: "'f fs_api \<Rightarrow> bool \<Rightarrow> 'f fsa_state \<Rightarrow> 'f fsa_state" where
  "fsa_otPlatSettingsWipe api onIdle s =
     (let s1 = s\<lparr>fsaBuffer := tlvWipe (fsaBuffer s)\<rparr> in
      if onIdle then s1\<lparr>fsaToSave := True\<rparr>
      else s1\<lparr>fsaFs := snd (FS_DeleteFile api (fsaFs s1) ot_setting_file_name)\<rparr>)"

definition fsa_idleClear :: "'f fsa_state \<Rightarrow> 'f fsa_state" where
  "fsa_idleClear s = s\<lparr>fsaToSave := False\<rparr>"

definition fsa_idleCopy :: "'f fsa_state \<Rightarrow> 'f fsa_state option" where
  "fsa_idleCopy s =
     do { xs \<leftarrow> rd_bytes 0 (unat (recordLen (fsaBuffer s))) (tlvBuffer (fsaBuffer s));
          buf \<leftarrow> wr_bytes 0 xs (tlvBuffer (fsaBufferIdle s));
          Some (s\<lparr>fsaBufferIdle := \<lparr>recordLen = recordLen (fsaBuffer s),
                    recordFreeLen = recordFreeLen (fsaBuffer s), tlvBuffer = buf\<rparr>\<rparr>) }"

definition fsa_idleFlush :: "'f fs_api \<Rightarrow> 'f fsa_state \<Rightarrow> 'f fsa_state" where
  "fsa_idleFlush api s =
     (if recordLen (fsaBufferIdle s) = 0
      then s\<lparr>fsaFs := snd (FS_DeleteFile api (fsaFs s) ot_setting_file_name)\<rparr>
      else s\<lparr>fsaFs := snd (FS_WriteBufferToFile api (fsaFs s) ot_setting_file_name (used_bytes (fsaBufferIdle s)))\<rparr>)"

definition fsa_otPlatSaveSettingsIdle :: "'f fs_api \<Rightarrow> bool \<Rightarrow> 'f fsa_state \<Rightarrow> 'f fsa_state option" where
  "fsa_otPlatSaveSettingsIdle api onIdle s =
     (if onIdle \<and> fsaToSave s
      then map_option (fsa_idleFlush api) (fsa_idleCopy (fsa_idleClear s))
      else Some s)"

section \<open>The settings interface\<close>

lemmas fsa_handlers = fsa_otPlatSettingsAdd_def fsa_otPlatSettingsSet_def fsa_otPlatSettingsDelete_def
  fsa_otPlatSettingsWipe_def fsa_otPlatSettingsGet_def fsa_save_def

interpretation fsa: tlv_backend fsaBuffer fsa_otPlatSettingsGet
  "fsa_otPlatSettingsAdd api onIdle" "fsa_otPlatSettingsSet api onIdle" "fsa_otPlatSettingsDelete api onIdle"
  "\<lambda>s. Some (fsa_otPlatSettingsWipe api onIdle s)" for api :: "'f fs_api" and onIdle :: bool
  by unfold_locales
    (auto simp: fsa_handlers Let_def dest: tlv_error_unchanged split: bind_splits intro!: option.map_cong)

definition fsa_exec :: "'f fs_api \<Rightarrow> bool \<Rightarrow> 'f fsa_state \<Rightarrow> settings_cmd \<Rightarrow> (otError \<times> 'f fsa_state) option" where
  "fsa_exec api onIdle = exec_cmd (fsa_otPlatSettingsAdd api onIdle) (fsa_otPlatSettingsSet api onIdle)
     (fsa_otPlatSettingsDelete api onIdle) (\<lambda>s. Some (fsa_otPlatSettingsWipe api onIdle s))"

abbreviation fsa_stored :: "('f \<Rightarrow> string \<Rightarrow> bytes option) \<Rightarrow> 'f \<Rightarrow> bytes" where
  "fsa_stored content f \<equiv> stored_bytes (content f ot_setting_file_name)"

definition fsa_synced :: "('f \<Rightarrow> string \<Rightarrow> bytes option) \<Rightarrow> 'f fsa_state \<Rightarrow> bool" where
  "fsa_synced content s \<longleftrightarrow> fsaToSave s \<or> fsa_stored content (fsaFs s) = used_bytes (fsaBuffer s)"

lemma fsa_exec_law:
  "fsa_exec api True s c = Some (e, t) \<Longrightarrow>
   fsaBufferIdle t = fsaBufferIdle s \<and> fsaFs t = fsaFs s \<and> (fsaToSave t \<or> t = s)"
  by (cases c)
    (auto simp: fsa_exec_def fsa_handlers Let_def split: bind_splits if_splits)

interpretation fsawb: write_behind "fsa_exec api True" fsaToSave fsa_idleClear fsa_idleCopy "fsa_idleFlush api"
  "\<lambda>s. used_bytes (fsaBuffer s)" "\<lambda>s. used_bytes (fsaBufferIdle s)" fsaFs for api :: "'f fs_api"
proof (unfold_locales, goal_cases)
  case (1 s c e t)
  then show ?case by (auto dest: fsa_exec_law)
next
  case (2 s t)
  then show ?case
    by (auto simp: fsa_idleCopy_def used_bytes_def rd_bytes_def wr_bytes_def split: bind_splits if_splits)
next
  case (3 s)
  show ?case by (simp add: fsa_idleFlush_def)
qed

lemma fsa_flush_stores:
  assumes "fs_documented api content" and "\<forall>f n xs. 0 \<le> fst (FS_WriteBufferToFile api f n xs)"
  shows "fsa_stored content (fsaFs (fsa_idleFlush api s)) = used_bytes (fsaBufferIdle s)"
  using assms by (simp add: fsa_idleFlush_def fs_documented_def stored_bytes_def used_bytes_def)

lemma fsa_idle_stores:
  assumes "fs_documented api content" and "\<forall>f n xs. 0 \<le> fst (FS_WriteBufferToFile api f n xs)"
    and "tlv_inv (fsaBuffer s)" and "length (tlvBuffer (fsaBufferIdle s)) = 1024" and "fsa_synced content s"
  shows "\<exists>u. fsa_otPlatSaveSettingsIdle api True s = Some u \<and> fsaBuffer u = fsaBuffer s \<and> \<not> fsaToSave u \<and>
    fsa_stored content (fsaFs u) = used_bytes (fsaBuffer s)"
proof (cases "fsaToSave s")
  case False
  then show ?thesis using assms(5) by (simp add: fsa_otPlatSaveSettingsIdle_def fsa_synced_def)
next
  case True
  have "rd_bytes 0 (unat (recordLen (fsaBuffer s))) (tlvBuffer (fsaBuffer s)) = Some (used_bytes (fsaBuffer s))"
    using tlv_inv_used [OF assms(3)] assms(3) by (simp add: rd_bytes_def used_bytes_def tlv_inv_def)
  moreover have "\<exists>buf. wr_bytes 0 (used_bytes (fsaBuffer s)) (tlvBuffer (fsaBufferIdle s)) = Some buf"
    using tlv_inv_used [OF assms(3)] assms(4) by (simp add: wr_bytes_def)
  ultimately obtain t where t: "fsa_idleCopy (fsa_idleClear s) = Some t" "fsaBuffer t = fsaBuffer s" "\<not> fsaToSave t"
    by (auto simp: fsa_idleCopy_def fsa_idleClear_def)
  moreover have "used_bytes (fsaBufferIdle t) = used_bytes (fsaBuffer s)"
    using fsawb.copy_law [OF t(1)] by (simp add: fsa_idleClear_def)
  ultimately show ?thesis
    using True fsa_flush_stores [OF assms(1,2), of t]
    by (simp add: fsa_otPlatSaveSettingsIdle_def) (simp add: fsa_idleFlush_def)
qed

lemma fsa_exec_keeps:
  "exec_cmds (fsa_exec api True) s cs = Some (es, t) \<Longrightarrow> fsa_synced content s \<Longrightarrow>
   fsaBufferIdle t = fsaBufferIdle s \<and> fsa_synced content t"
proof (induction cs arbitrary: s es)
  case (Cons c cs)
  then obtain e s1 es1 where 1: "fsa_exec api True s c = Some (e, s1)" "exec_cmds (fsa_exec api True) s1 cs = Some (es1, t)"
    by (auto split: bind_splits)
  from fsa_exec_law [OF 1(1)] Cons.prems(2) have "fsaBufferIdle s1 = fsaBufferIdle s" "fsa_synced content s1"
    by (auto simp: fsa_synced_def)
  with Cons.IH [OF 1(2)] show ?case by simp
qed simp

text \<open>The RAM after a power cycle, before the settings are initialised.\<close>

definition fsa_boot :: "'f \<Rightarrow> 'f fsa_state" where
  "fsa_boot f = \<lparr>fsaBuffer = \<lparr>recordLen = 0, recordFreeLen = 0, tlvBuffer = replicate 1024 0\<rparr>, fsaInitialized = False,
     fsaToSave = False, fsaBufferIdle = \<lparr>recordLen = 0, recordFreeLen = 0, tlvBuffer = replicate 1024 0\<rparr>, fsaFs = f\<rparr>"

lemma fsa_init_loads:
  assumes "fs_documented api content" and "tlv_inv b" and "fsa_stored content f = used_bytes b"
  shows "\<exists>r. fsa_otPlatSettingsInit api (fsa_boot f) = Some r \<and> tlv_inv (fsaBuffer r) \<and>
    tlv_abs (fsaBuffer r) = tlv_abs b \<and> fsaInitialized r \<and> fsa_synced content r"
proof -
  let ?n = "unat (recordLen b)"
  have n: "length (used_bytes b) = ?n" "?n \<le> 1024" using tlv_inv_used [OF assms(2)] by auto
  have fs1: "fsa_stored content (FS_Init api f) = used_bytes b"
    using assms(1,3) by (simp add: fs_documented_def)
  have read: "FS_ReadBufferFromFile api (FS_Init api f) ot_setting_file_name 1024 = (int ?n, used_bytes b)"
  proof (cases "content (FS_Init api f) ot_setting_file_name")
    case None
    then have "used_bytes b = []" using fs1 by (simp add: stored_bytes_def)
    then show ?thesis using assms(1) None n by (simp add: fs_documented_def)
  next
    case (Some xs)
    then have "xs = used_bytes b" using fs1 by (simp add: stored_bytes_def)
    then show ?thesis using assms(1) Some n by (simp add: fs_documented_def)
  qed
  define buf where "buf = used_bytes b @ drop ?n (replicate 1024 0)"
  have wr: "wr_bytes 0 (used_bytes b) (replicate 1024 0) = Some buf" using n by (simp add: wr_bytes_def buf_def)
  have len: "unat (of_int (int ?n) :: u16) = ?n" by simp
  have buf: "length buf = 1024" "take ?n buf = used_bytes b" using n by (simp_all add: buf_def)
  define r where "r = (fsa_boot f)\<lparr>fsaInitialized := True, fsaFs := FS_Init api f,
      fsaBuffer := \<lparr>recordLen = of_int (int ?n), recordFreeLen = 1024 - of_int (int ?n), tlvBuffer = buf\<rparr>\<rparr>"
  have "uint (recordLen b) \<le> 1024" using n(2) uint_nat [of "recordLen b"] by linarith
  then have "fsa_otPlatSettingsInit api (fsa_boot f) = Some r"
    using read wr by (simp add: fsa_otPlatSettingsInit_def fsa_boot_def r_def Let_def del: of_int_of_nat_eq)
  moreover have "fsa_synced content r"
    using fs1 buf by (simp add: r_def fsa_synced_def used_bytes_def)
  ultimately show ?thesis
    using tlv_reload [OF assms(2) buf len] by (intro exI [of _ r]) (simp add: r_def)
qed

section \<open>Properties\<close>

text \<open>
  C2. Settings survive a power cycle: after any sequence of add, set, delete (at any index) and wipe calls with
  values shorter than 65532 bytes, one run of the idle save and a reboot, initialisation returns (no assertion
  fires) with exactly the values the call sequence left, provided the file system behaves as documented and no
  file write fails. The calls have the outcomes of the abstract store; a delete at an index with no value removes
  all values of the key.
\<close>

theorem fsa_settings_survive_reboot:
  assumes "fs_documented api content" and "\<forall>f n xs. 0 \<le> fst (FS_WriteBufferToFile api f n xs)"
    and "tlv_inv (fsaBuffer s)" and "length (tlvBuffer (fsaBufferIdle s)) = 1024" and "fsa_synced content s"
    and "list_all cmd_ok cs"
  shows "\<exists>es t u r. exec_cmds (fsa_exec api True) s cs = Some (es, t) \<and>
    settings_run EveryIndex (tlv_abs (fsaBuffer s)) cs es (tlv_abs (fsaBuffer t)) \<and>
    fsa_otPlatSaveSettingsIdle api True t = Some u \<and> fsa_otPlatSettingsInit api (fsa_boot (fsaFs u)) = Some r \<and>
    tlv_inv (fsaBuffer r) \<and> tlv_abs (fsaBuffer r) = tlv_abs (fsaBuffer t)"
proof -
  obtain es t where t: "exec_cmds (fsa_exec api True) s cs = Some (es, t)" "tlv_inv (fsaBuffer t)"
    "settings_run EveryIndex (tlv_abs (fsaBuffer s)) cs es (tlv_abs (fsaBuffer t))"
    using fsa.run_refines [OF assms(3,6), of api True] unfolding fsa_exec_def by blast
  have "fsaBufferIdle t = fsaBufferIdle s \<and> fsa_synced content t"
    using fsa_exec_keeps [OF t(1) assms(5)] .
  with fsa_idle_stores [OF assms(1,2) t(2)] assms(4) obtain u where
    u: "fsa_otPlatSaveSettingsIdle api True t = Some u" "fsa_stored content (fsaFs u) = used_bytes (fsaBuffer t)"
    by auto
  from fsa_init_loads [OF assms(1) t(2) u(2)] t u show ?thesis by blast
qed

text \<open>A booted state with an empty file system, for the witnesses.\<close>

definition fsa_sample :: "(string \<rightharpoonup> bytes) fsa_state" where
  "fsa_sample = (fsa_boot Map.empty)\<lparr>fsaInitialized := True, fsaBuffer := tlvWipe tlv_sample\<rparr>"

lemma fsa_sample_ok:
  "tlv_inv (fsaBuffer fsa_sample)" "length (tlvBuffer (fsaBufferIdle fsa_sample)) = 1024"
  "fsa_synced (\<lambda>f. f) fsa_sample" "\<forall>f n xs. 0 \<le> fst (FS_WriteBufferToFile ram_fs f n xs)"
  using tlv_holds_abs(3) [OF tlvWipe_holds, of tlv_sample]
  by (simp_all add: fsa_sample_def fsa_boot_def fsa_synced_def stored_bytes_def used_bytes_def tlvWipe_def ram_fs_def)

theorem fsa_settings_survive_reboot_witness:
  "\<exists>es t u r. exec_cmds (fsa_exec ram_fs True) fsa_sample [CAdd 1 [7], CAdd 1 [8, 9], CDelete 1 1] = Some (es, t) \<and>
    fsa_otPlatSaveSettingsIdle ram_fs True t = Some u \<and> fsa_otPlatSettingsInit ram_fs (fsa_boot (fsaFs u)) = Some r \<and>
    tlv_abs (fsaBuffer r) = tlv_abs (fsaBuffer t)"
proof -
  have "list_all cmd_ok [CAdd 1 [7], CAdd 1 [8, 9], CDelete 1 1]" by simp
  from fsa_settings_survive_reboot [OF ram_fs_documented fsa_sample_ok(4,1,2,3) this] show ?thesis by blast
qed

text \<open>
  C17. As long as every file write succeeds, the idle save loses no update, whatever handlers run between its three
  pieces: in every state the interleaving reaches, when the idle task is at rest and the flag is clear, the file
  holds exactly the used bytes of the buffer. A failed write does lose the update:
  \<open>fsa_failed_write_is_not_retried\<close>.
\<close>

theorem fsa_idle_save_loses_no_update:
  assumes "fs_documented api content" and "\<forall>f n xs. 0 \<le> fst (FS_WriteBufferToFile api f n xs)"
    and "fsa_synced content s"
    and "(wb_step (fsa_exec api True) fsaToSave fsa_idleClear fsa_idleCopy (fsa_idleFlush api))\<^sup>*\<^sup>* (AtRest, s) (AtRest, t)"
    and "\<not> fsaToSave t"
  shows "stored_bytes (content (fsaFs t) ot_setting_file_name) = used_bytes (fsaBuffer t)"
proof -
  have "fsawb.safe (fsa_stored content) (AtRest, s)"
    using assms(3) by (auto simp: fsawb.safe_def fsa_synced_def)
  then have "fsawb.safe (fsa_stored content) (AtRest, t)"
    by (rule fsawb.safe_reachable [OF assms(4)]) (rule fsa_flush_stores [OF assms(1,2)])
  then show ?thesis using assms(5) by (simp add: fsawb.safe_def)
qed

theorem fsa_idle_save_loses_no_update_witness:
  "\<exists>s t. (wb_step (fsa_exec ram_fs True) fsaToSave fsa_idleClear fsa_idleCopy (fsa_idleFlush ram_fs))\<^sup>*\<^sup>* (AtRest, s) (AtRest, t) \<and>
     fsaToSave s \<and> \<not> fsaToSave t \<and> stored_bytes (fsaFs t ot_setting_file_name) = used_bytes (fsaBuffer t)"
proof -
  let ?step = "wb_step (fsa_exec ram_fs True) fsaToSave fsa_idleClear fsa_idleCopy (fsa_idleFlush ram_fs)"
  let ?s = "fsa_sample\<lparr>fsaToSave := True\<rparr>"
  have copy: "fsa_idleCopy (fsa_idleClear ?s) = Some (fsa_sample\<lparr>fsaBufferIdle := tlvWipe tlv_sample\<rparr>)"
    by (simp add: fsa_idleCopy_def fsa_idleClear_def fsa_sample_def fsa_boot_def tlvWipe_def rd_bytes_def wr_bytes_def)
  let ?t = "fsa_idleFlush ram_fs (fsa_sample\<lparr>fsaBufferIdle := tlvWipe tlv_sample\<rparr>)"
  have "?step (AtRest, ?s) (Cleared, fsa_idleClear ?s)" by (rule wb_clear) simp
  moreover have "?step (Cleared, fsa_idleClear ?s) (Copied, fsa_sample\<lparr>fsaBufferIdle := tlvWipe tlv_sample\<rparr>)"
    by (rule wb_copy) (rule copy)
  moreover have "?step (Copied, fsa_sample\<lparr>fsaBufferIdle := tlvWipe tlv_sample\<rparr>) (AtRest, ?t)" by (rule wb_flush)
  ultimately have run: "?step\<^sup>*\<^sup>* (AtRest, ?s) (AtRest, ?t)" by (meson converse_rtranclp_into_rtranclp rtranclp.rtrancl_refl)
  have clean: "\<not> fsaToSave ?t" by (simp add: fsa_idleFlush_def fsa_sample_def fsa_boot_def)
  have "fsa_synced (\<lambda>f. f) ?s" by (simp add: fsa_synced_def)
  from fsa_idle_save_loses_no_update [OF ram_fs_documented fsa_sample_ok(4) this run clean] run clean
  show ?thesis by (intro exI [of _ ?s] exI [of _ ?t]) simp
qed

text \<open>
  The result of the file write is ignored: when the write fails and leaves the file system as it was,
  the idle save still clears the flag, so the next runs do nothing and the settings stay unsaved until
  another handler changes them.
\<close>

theorem fsa_failed_write_is_not_retried:
  assumes "tlv_inv (fsaBuffer s)" and "length (tlvBuffer (fsaBufferIdle s)) = 1024" and "fsaToSave s"
    and "recordLen (fsaBuffer s) \<noteq> 0"
    and "snd (FS_WriteBufferToFile api (fsaFs s) ot_setting_file_name (used_bytes (fsaBuffer s))) = fsaFs s"
  shows "\<exists>u. fsa_otPlatSaveSettingsIdle api True s = Some u \<and> fsaFs u = fsaFs s \<and> fsaBuffer u = fsaBuffer s \<and>
    \<not> fsaToSave u \<and> fsa_otPlatSaveSettingsIdle api True u = Some u"
proof -
  have bounds: "length (used_bytes (fsaBuffer s)) = unat (recordLen (fsaBuffer s))"
    "unat (recordLen (fsaBuffer s)) \<le> 1024" "length (tlvBuffer (fsaBuffer s)) = 1024"
    using tlv_inv_used [OF assms(1)] assms(1) by (auto simp: tlv_inv_def)
  then obtain t where t: "fsa_idleCopy (fsa_idleClear s) = Some t" "fsaBuffer t = fsaBuffer s" "\<not> fsaToSave t"
    "fsaFs t = fsaFs s" "recordLen (fsaBufferIdle t) = recordLen (fsaBuffer s)"
    using assms(2) by (auto simp: fsa_idleCopy_def fsa_idleClear_def rd_bytes_def wr_bytes_def)
  moreover have "used_bytes (fsaBufferIdle t) = used_bytes (fsaBuffer s)"
    using fsawb.copy_law [OF t(1)] by (simp add: fsa_idleClear_def)
  ultimately show ?thesis
    using assms(3,4,5) by (simp add: fsa_otPlatSaveSettingsIdle_def fsa_idleFlush_def)
qed

theorem fsa_failed_write_is_not_retried_witness:
  "\<exists>u. fsa_otPlatSaveSettingsIdle (ram_fs\<lparr>FS_WriteBufferToFile := \<lambda>f n xs. (-1, f)\<rparr>) True
         (fsa_sample\<lparr>fsaToSave := True, fsaBuffer := tlv_sample\<rparr>) = Some u \<and>
       fsaFs u ot_setting_file_name = None \<and> \<not> fsaToSave u"
proof -
  let ?api = "ram_fs\<lparr>FS_WriteBufferToFile := \<lambda>f n xs. (-1, f)\<rparr>"
  let ?s = "fsa_sample\<lparr>fsaToSave := True, fsaBuffer := tlv_sample\<rparr>"
  have h: "tlv_inv (fsaBuffer ?s)" "length (tlvBuffer (fsaBufferIdle ?s)) = 1024" "fsaToSave ?s" "recordLen (fsaBuffer ?s) \<noteq> 0"
    "snd (FS_WriteBufferToFile ?api (fsaFs ?s) ot_setting_file_name (used_bytes (fsaBuffer ?s))) = fsaFs ?s"
    using fsa_sample_ok tlv_sample_abs by (simp_all add: tlv_sample_def)
  from fsa_failed_write_is_not_retried [OF h] show ?thesis
    by (auto simp: fsa_sample_def fsa_boot_def)
qed
end
