(* ===== verification/Flash_Littlefs.thy ===== *)
theory Flash_Littlefs
  imports Flash_Fsa
begin

text \<open>
  \<^verbatim>\<open>src/common/flash_littlefs.c\<close>: the settings handlers saved through LittleFS. The file-scope variables
  are those of \<^verbatim>\<open>flash_fsa.c\<close>, so the state is \<open>fsa_state\<close>; initialisation also hands the file system's
  handle and mutex to the secure storage of the SDK, which is a parameter. The handlers are translated
  from this file and shown to compute the same functions as those of \<^verbatim>\<open>flash_fsa.c\<close>.
\<close>

record 'f lfs_api = "'f fs_api" +
  FS_InitGetHandle :: "'f \<Rightarrow> nat"
  secure_storage_notify_lfs_mutex :: "'f \<Rightarrow> 'f"
  secure_storage_notify_lfs_handler :: "'f \<Rightarrow> nat \<Rightarrow> 'f"

section \<open>Handlers\<close>

definition lfs_otPlatSettingsInit :: "'f lfs_api \<Rightarrow> 'f fsa_state \<Rightarrow> 'f fsa_state option" where
  "lfs_otPlatSettingsInit api s =
     (if fsaInitialized s then Some s
      else do {
        let fs1 = FS_Init api (fsaFs s);
        let lfs_ref = FS_InitGetHandle api fs1;
        let fs2 = secure_storage_notify_lfs_mutex api fs1;
        let fs3 = secure_storage_notify_lfs_handler api fs2 lfs_ref;
        let zeros = replicate OT_SETTINGS_BUFFER_SIZE 0;
        let (len, xs) = FS_ReadBufferFromFile api fs3 ot_setting_file_name OT_SETTINGS_BUFFER_SIZE;
        buf \<leftarrow> wr_bytes 0 xs zeros;
        if len \<le> int OT_SETTINGS_BUFFER_SIZE \<and> 0 \<le> len then
          Some (s\<lparr>fsaInitialized := True, fsaFs := fs3,
                  fsaBuffer := \<lparr>recordLen = of_int len,
                                recordFreeLen = of_nat OT_SETTINGS_BUFFER_SIZE - of_int len, tlvBuffer = buf\<rparr>\<rparr>)
        else None })"

definition lfs_otPlatSettingsDeinit :: "'f lfs_api \<Rightarrow> 'f fsa_state \<Rightarrow> 'f fsa_state" where
  "lfs_otPlatSettingsDeinit api s = s\<lparr>fsaFs := FS_DeInit api (fsaFs s), fsaInitialized := False\<rparr>"

definition lfs_otPlatSettingsGet ::
  "'f fsa_state \<Rightarrow> u16 \<Rightarrow> int \<Rightarrow> bytes option \<Rightarrow> u16 option \<Rightarrow> (otError \<times> bytes option \<times> u16 option) option" where
  "lfs_otPlatSettingsGet s aKey aIndex aValue aValueLength = tlvGet (fsaBuffer s) aKey aIndex aValue aValueLength"

definition lfs_save :: "'f lfs_api \<Rightarrow> bool \<Rightarrow> 'f fsa_state \<Rightarrow> 'f fsa_state" where
  "lfs_save api onIdle s =
     (if onIdle then s\<lparr>fsaToSave := True\<rparr>
      else s\<lparr>fsaFs := snd (FS_WriteBufferToFile api (fsaFs s) ot_setting_file_name (used_bytes (fsaBuffer s)))\<rparr>)"

definition lfs_otPlatSettingsAdd ::
  "'f lfs_api \<Rightarrow> bool \<Rightarrow> 'f fsa_state \<Rightarrow> u16 \<Rightarrow> bytes \<Rightarrow> u16 \<Rightarrow> (otError \<times> 'f fsa_state) option" where
  "lfs_otPlatSettingsAdd api onIdle s aKey aValue aValueLength =
     do { (error, b1) \<leftarrow> tlvAdd (fsaBuffer s) aKey aValue aValueLength;
          if error = OT_ERROR_NONE then Some (error, lfs_save api onIdle (s\<lparr>fsaBuffer := b1\<rparr>))
          else Some (error, s) }"

definition lfs_otPlatSettingsSet ::
  "'f lfs_api \<Rightarrow> bool \<Rightarrow> 'f fsa_state \<Rightarrow> u16 \<Rightarrow> bytes \<Rightarrow> u16 \<Rightarrow> (otError \<times> 'f fsa_state) option" where
  "lfs_otPlatSettingsSet api onIdle s aKey aValue aValueLength =
     do { (error, b1) \<leftarrow> tlvSet (fsaBuffer s) aKey aValue aValueLength;
          if error = OT_ERROR_NONE then Some (error, lfs_save api onIdle (s\<lparr>fsaBuffer := b1\<rparr>))
          else Some (error, s) }"

definition lfs_otPlatSettingsDelete ::
  "'f lfs_api \<Rightarrow> bool \<Rightarrow> 'f fsa_state \<Rightarrow> u16 \<Rightarrow> int \<Rightarrow> (otError \<times> 'f fsa_state) option" where
  "lfs_otPlatSettingsDelete api onIdle s aKey aIndex =
     do { (error, b1) \<leftarrow> tlvDelete (fsaBuffer s) aKey aIndex;
          if error = OT_ERROR_NONE then Some (error, lfs_save api onIdle (s\<lparr>fsaBuffer := b1\<rparr>))
          else Some (error, s) }"

definition lfs_otPlatSettingsWipe :: "'f lfs_api \<Rightarrow> bool \<Rightarrow> 'f fsa_state \<Rightarrow> 'f fsa_state" where
  "lfs_otPlatSettingsWipe api onIdle s =
     (let s1 = s\<lparr>fsaBuffer := tlvWipe (fsaBuffer s)\<rparr> in
      if onIdle then s1\<lparr>fsaToSave := True\<rparr>
      else s1\<lparr>fsaFs := snd (FS_DeleteFile api (fsaFs s1) ot_setting_file_name)\<rparr>)"

definition lfs_otPlatSaveSettingsIdle :: "'f lfs_api \<Rightarrow> bool \<Rightarrow> 'f fsa_state \<Rightarrow> 'f fsa_state option" where
  "lfs_otPlatSaveSettingsIdle api onIdle s =
     (if onIdle \<and> fsaToSave s then
        do { let s1 = s\<lparr>fsaToSave := False\<rparr>;
             xs \<leftarrow> rd_bytes 0 (unat (recordLen (fsaBuffer s1))) (tlvBuffer (fsaBuffer s1));
             buf \<leftarrow> wr_bytes 0 xs (tlvBuffer (fsaBufferIdle s1));
             let s2 = s1\<lparr>fsaBufferIdle := \<lparr>recordLen = recordLen (fsaBuffer s1),
                           recordFreeLen = recordFreeLen (fsaBuffer s1), tlvBuffer = buf\<rparr>\<rparr>;
             if recordLen (fsaBufferIdle s2) = 0
             then Some (s2\<lparr>fsaFs := snd (FS_DeleteFile api (fsaFs s2) ot_setting_file_name)\<rparr>)
             else Some (s2\<lparr>fsaFs := snd (FS_WriteBufferToFile api (fsaFs s2) ot_setting_file_name
                                            (used_bytes (fsaBufferIdle s2)))\<rparr>) }
      else Some s)"

section \<open>The two file-system backends agree\<close>

lemma lfs_save_eq: "lfs_save api onIdle = fsa_save (fs_api.truncate api) onIdle"
  by (rule ext) (simp add: lfs_save_def fsa_save_def fs_api.defs)

lemma lfs_handlers_eq:
  "lfs_otPlatSettingsGet = fsa_otPlatSettingsGet"
  "lfs_otPlatSettingsAdd api onIdle = fsa_otPlatSettingsAdd (fs_api.truncate api) onIdle"
  "lfs_otPlatSettingsSet api onIdle = fsa_otPlatSettingsSet (fs_api.truncate api) onIdle"
  "lfs_otPlatSettingsDelete api onIdle = fsa_otPlatSettingsDelete (fs_api.truncate api) onIdle"
  "lfs_otPlatSettingsWipe api onIdle = fsa_otPlatSettingsWipe (fs_api.truncate api) onIdle"
  unfolding fun_eq_iff lfs_otPlatSettingsGet_def lfs_otPlatSettingsAdd_def lfs_otPlatSettingsSet_def
    lfs_otPlatSettingsDelete_def lfs_otPlatSettingsWipe_def lfs_save_eq fsa_otPlatSettingsGet_def
    fsa_otPlatSettingsAdd_def fsa_otPlatSettingsSet_def fsa_otPlatSettingsDelete_def fsa_otPlatSettingsWipe_def
  by (simp_all add: fs_api.defs Let_def)

lemma lfs_idle_eq: "lfs_otPlatSaveSettingsIdle api onIdle = fsa_otPlatSaveSettingsIdle (fs_api.truncate api) onIdle"
  by (rule ext)
    (simp add: lfs_otPlatSaveSettingsIdle_def fsa_otPlatSaveSettingsIdle_def fsa_idleClear_def fsa_idleCopy_def
      fsa_idleFlush_def fs_api.defs Let_def split: Option.bind_split)

interpretation lfs: tlv_backend fsaBuffer lfs_otPlatSettingsGet
  "lfs_otPlatSettingsAdd api onIdle" "lfs_otPlatSettingsSet api onIdle" "lfs_otPlatSettingsDelete api onIdle"
  "\<lambda>s. Some (lfs_otPlatSettingsWipe api onIdle s)" for api :: "'f lfs_api" and onIdle :: bool
  unfolding lfs_handlers_eq by (rule fsa.tlv_backend_axioms)

text \<open>Mounting and handing the handle over is one mount of the \<^verbatim>\<open>flash_fsa.c\<close> model.\<close>

definition lfs_mount :: "'f lfs_api \<Rightarrow> 'f \<Rightarrow> 'f" where
  "lfs_mount api f = (let fs1 = FS_Init api f in
     secure_storage_notify_lfs_handler api (secure_storage_notify_lfs_mutex api fs1) (FS_InitGetHandle api fs1))"

lemma lfs_init_eq: "lfs_otPlatSettingsInit api = fsa_otPlatSettingsInit ((fs_api.truncate api)\<lparr>FS_Init := lfs_mount api\<rparr>)"
  by (rule ext) (simp add: lfs_otPlatSettingsInit_def fsa_otPlatSettingsInit_def lfs_mount_def fs_api.defs Let_def)

section \<open>Properties\<close>

definition lfs_exec :: "'f lfs_api \<Rightarrow> bool \<Rightarrow> 'f fsa_state \<Rightarrow> settings_cmd \<Rightarrow> (otError \<times> 'f fsa_state) option" where
  "lfs_exec api onIdle = exec_cmd (lfs_otPlatSettingsAdd api onIdle) (lfs_otPlatSettingsSet api onIdle)
     (lfs_otPlatSettingsDelete api onIdle) (\<lambda>s. Some (lfs_otPlatSettingsWipe api onIdle s))"

lemma lfs_exec_eq: "lfs_exec api onIdle = fsa_exec (fs_api.truncate api) onIdle"
  by (simp add: lfs_exec_def fsa_exec_def lfs_handlers_eq)

text \<open>
  The LittleFS backend keeps settings over a power cycle too: any call sequence (values shorter
  than 65532 bytes, no file write failing), one idle save and a reboot whose initialisation also hands the file
  system to the secure storage (which leaves the files alone) end with exactly the values the calls left.
\<close>

theorem lfs_settings_survive_reboot:
  assumes "fs_documented (fs_api.truncate api) content" and "\<forall>f n xs. 0 \<le> fst (FS_WriteBufferToFile api f n xs)"
    and "\<forall>f n. content (lfs_mount api f) n = content f n"
    and "tlv_inv (fsaBuffer s)" and "length (tlvBuffer (fsaBufferIdle s)) = 1024" and "fsa_synced content s"
    and "list_all cmd_ok cs"
  shows "\<exists>es t u r. exec_cmds (lfs_exec api True) s cs = Some (es, t) \<and>
    settings_run EveryIndex (tlv_abs (fsaBuffer s)) cs es (tlv_abs (fsaBuffer t)) \<and>
    lfs_otPlatSaveSettingsIdle api True t = Some u \<and> lfs_otPlatSettingsInit api (fsa_boot (fsaFs u)) = Some r \<and>
    tlv_inv (fsaBuffer r) \<and> tlv_abs (fsaBuffer r) = tlv_abs (fsaBuffer t)"
proof -
  let ?api = "fs_api.truncate api"
  have wr: "\<forall>f n xs. 0 \<le> fst (FS_WriteBufferToFile ?api f n xs)" using assms(2) by (simp add: fs_api.defs)
  have mnt: "fs_documented (?api\<lparr>FS_Init := lfs_mount api\<rparr>) content"
    using assms(1,3) by (simp add: fs_documented_def)
  obtain es t where t: "exec_cmds (lfs_exec api True) s cs = Some (es, t)" "tlv_inv (fsaBuffer t)"
    "settings_run EveryIndex (tlv_abs (fsaBuffer s)) cs es (tlv_abs (fsaBuffer t))"
    using lfs.run_refines [OF assms(4,7), of api True] unfolding lfs_exec_def by blast
  have "fsaBufferIdle t = fsaBufferIdle s \<and> fsa_synced content t"
    using fsa_exec_keeps [OF t(1) [unfolded lfs_exec_eq] assms(6)] .
  with fsa_idle_stores [OF assms(1) wr t(2)] assms(5) obtain u where
    u: "lfs_otPlatSaveSettingsIdle api True t = Some u" "fsa_stored content (fsaFs u) = used_bytes (fsaBuffer t)"
    unfolding lfs_idle_eq by auto
  from fsa_init_loads [OF mnt t(2) u(2)] t u show ?thesis unfolding lfs_init_eq by blast
qed

definition ram_lfs :: "(string \<rightharpoonup> bytes) lfs_api" where
  "ram_lfs = fs_api.extend ram_fs \<lparr>FS_InitGetHandle = (\<lambda>f. 0), secure_storage_notify_lfs_mutex = (\<lambda>f. f),
     secure_storage_notify_lfs_handler = (\<lambda>f h. f)\<rparr>"

theorem lfs_settings_survive_reboot_witness:
  "\<exists>es t u r. exec_cmds (lfs_exec ram_lfs True) fsa_sample [CAdd 1 [7], CDelete 1 0] = Some (es, t) \<and>
    lfs_otPlatSaveSettingsIdle ram_lfs True t = Some u \<and> lfs_otPlatSettingsInit ram_lfs (fsa_boot (fsaFs u)) = Some r \<and>
    tlv_abs (fsaBuffer r) = tlv_abs (fsaBuffer t)"
proof -
  have tr: "fs_api.truncate ram_lfs = ram_fs" by (simp add: ram_lfs_def fs_api.defs)
  have h: "fs_documented (fs_api.truncate ram_lfs) (\<lambda>f. f)" unfolding tr by (rule ram_fs_documented)
  have "\<forall>f n xs. 0 \<le> fst (FS_WriteBufferToFile ram_lfs f n xs)" "\<forall>f n. (\<lambda>f. f) (lfs_mount ram_lfs f) n = f n"
    by (simp_all add: ram_lfs_def fs_api.defs lfs_mount_def ram_fs_def)
  from lfs_settings_survive_reboot [OF h this fsa_sample_ok(1,2,3), of "[CAdd 1 [7], CDelete 1 0]"]
  show ?thesis by auto
qed

end
