(* ===== verification/Nbu_Settings.thy ===== *)
theory Nbu_Settings
  imports Settings_Persist
begin

text \<open>
  \<^verbatim>\<open>src/mcxw/mcxw72_nbu/settings.c\<close> and the services of \<^verbatim>\<open>src/mcxw/mcxw72_nbu/system.c\<close> it uses. The
  radio core has no flash: the settings live in a region shared with the main core, and every change
  is sent to it with a service request, after which the radio core spins on a status byte. The main core
  is the parameter \<open>host_api\<close>: \<open>hostSend\<close> delivers a request, \<open>hostPoll\<close> is what it does to the shared region
  between two reads of the status. The wait is a \<^theory_text>\<open>partial_function (option)\<close>: \<open>None\<close> when no answer ever
  comes.
\<close>

section \<open>Service requests\<close>

definition SVC_CMD_RST :: u8 where "SVC_CMD_RST = 0"
definition SVC_CMD_15_4_ADDR :: u8 where "SVC_CMD_15_4_ADDR = 1"
definition SVC_CMD_NV_LOAD :: u8 where "SVC_CMD_NV_LOAD = 2"
definition SVC_CMD_NV_SAVE :: u8 where "SVC_CMD_NV_SAVE = 3"

text \<open>\<^verbatim>\<open>struct svc_req\<close>, packed: one byte of command and the address, little endian.\<close>

definition svc_req :: "u8 \<Rightarrow> u32 \<Rightarrow> bytes" where
  "svc_req cmd_id addr = cmd_id # map (\<lambda>i. ucast (drop_bit (8 * i) addr)) [0..<4]"

record ot_settings_t =
  ot_settings_buffer :: otSettingsBuffer_t
  status :: u8

record 'h host_api =
  hostSend :: "'h \<Rightarrow> bytes \<Rightarrow> 'h"
  hostPoll :: "'h \<Rightarrow> ot_settings_t \<Rightarrow> ot_settings_t \<times> 'h"

partial_function (option) nbu_wait ::
  "('h \<Rightarrow> ot_settings_t \<Rightarrow> ot_settings_t \<times> 'h) \<Rightarrow> 'h \<Rightarrow> ot_settings_t \<Rightarrow> (ot_settings_t \<times> 'h) option" where
  "nbu_wait poll h s =
     (if status s \<noteq> 0 then Some (s, h) else nbu_wait poll (snd (poll h s)) (fst (poll h s)))"

definition plat_settings_load ::
  "'h host_api \<Rightarrow> u32 \<Rightarrow> ot_settings_t \<Rightarrow> 'h \<Rightarrow> (ot_settings_t \<times> 'h) option" where
  "plat_settings_load api data s h =
     (if data = 0 then Some (s, h)
      else nbu_wait (hostPoll api) (hostSend api h (svc_req SVC_CMD_NV_LOAD data)) (s\<lparr>status := 0\<rparr>))"

definition plat_settings_save ::
  "'h host_api \<Rightarrow> u32 \<Rightarrow> ot_settings_t \<Rightarrow> 'h \<Rightarrow> (ot_settings_t \<times> 'h) option" where
  "plat_settings_save api data s h =
     (if data = 0 then Some (s, h)
      else nbu_wait (hostPoll api) (hostSend api h (svc_req SVC_CMD_NV_SAVE data)) (s\<lparr>status := 0\<rparr>))"

text \<open>A finite number of polls that ends with the status set.\<close>

inductive answers ::
  "('h \<Rightarrow> ot_settings_t \<Rightarrow> ot_settings_t \<times> 'h) \<Rightarrow> 'h \<Rightarrow> ot_settings_t \<Rightarrow> ot_settings_t \<times> 'h \<Rightarrow> bool" for poll where
  answers_now: "status s \<noteq> 0 \<Longrightarrow> answers poll h s (s, h)"
| answers_later: "status s = 0 \<Longrightarrow> answers poll (snd (poll h s)) (fst (poll h s)) r \<Longrightarrow> answers poll h s r"

lemma nbu_wait_answers: "answers poll h s r \<Longrightarrow> nbu_wait poll h s = Some r"
  by (induction rule: answers.induct) (simp_all add: nbu_wait.simps)

lemma answers_nbu_wait: "nbu_wait poll h s = Some r \<Longrightarrow> answers poll h s r"
  by (rule nbu_wait.raw_induct [where P = "\<lambda>poll h s r. answers poll h s r"])
    (auto intro: answers.intros split: if_splits)

section \<open>State and handlers\<close>

record 'h nbu_state =
  nbuShared :: ot_settings_t
  nbuInitialized :: bool
  nbuHost :: 'h

abbreviation nbuBuffer :: "'h nbu_state \<Rightarrow> otSettingsBuffer_t" where
  "nbuBuffer s \<equiv> ot_settings_buffer (nbuShared s)"

definition nbu_setBuffer :: "otSettingsBuffer_t \<Rightarrow> 'h nbu_state \<Rightarrow> 'h nbu_state" where
  "nbu_setBuffer b s = s\<lparr>nbuShared := (nbuShared s)\<lparr>ot_settings_buffer := b\<rparr>\<rparr>"

text \<open>\<^verbatim>\<open>NvSaveOnIdle\<close> and \<^verbatim>\<open>NvSyncSave\<close> are both \<^verbatim>\<open>plat_settings_save\<close> here; \<open>data\<close> is the buffer's address.\<close>

definition nbu_save :: "'h host_api \<Rightarrow> u32 \<Rightarrow> 'h nbu_state \<Rightarrow> 'h nbu_state option" where
  "nbu_save api data s =
     do { (m, h) \<leftarrow> plat_settings_save api data (nbuShared s) (nbuHost s);
          Some (s\<lparr>nbuShared := m, nbuHost := h\<rparr>) }"

definition nbu_otPlatSettingsInit :: "'h host_api \<Rightarrow> u32 \<Rightarrow> 'h nbu_state \<Rightarrow> 'h nbu_state option" where
  "nbu_otPlatSettingsInit api data s =
     (if nbuInitialized s then Some s
      else do {
        let b0 = \<lparr>recordLen = 0, recordFreeLen = 0, tlvBuffer = replicate OT_SETTINGS_BUFFER_SIZE 0\<rparr>;
        let b1 = b0\<lparr>recordFreeLen := of_nat OT_SETTINGS_BUFFER_SIZE - recordLen b0\<rparr>;
        let s1 = nbu_setBuffer b1 (s\<lparr>nbuInitialized := True\<rparr>);
        (m, h) \<leftarrow> plat_settings_load api data (nbuShared s1) (nbuHost s1);
        Some (s1\<lparr>nbuShared := m, nbuHost := h\<rparr>) })"

definition nbu_otPlatSettingsGet ::
  "'h nbu_state \<Rightarrow> u16 \<Rightarrow> int \<Rightarrow> bytes option \<Rightarrow> u16 option \<Rightarrow> (otError \<times> bytes option \<times> u16 option) option" where
  "nbu_otPlatSettingsGet s aKey aIndex aValue aValueLength = tlvGet (nbuBuffer s) aKey aIndex aValue aValueLength"

definition nbu_otPlatSettingsAdd ::
  "'h host_api \<Rightarrow> u32 \<Rightarrow> 'h nbu_state \<Rightarrow> u16 \<Rightarrow> bytes \<Rightarrow> u16 \<Rightarrow> (otError \<times> 'h nbu_state) option" where
  "nbu_otPlatSettingsAdd api data s aKey aValue aValueLength =
     do { (error, b1) \<leftarrow> tlvAdd (nbuBuffer s) aKey aValue aValueLength;
          if error = OT_ERROR_NONE then do { t \<leftarrow> nbu_save api data (nbu_setBuffer b1 s); Some (error, t) }
          else Some (error, s) }"

definition nbu_otPlatSettingsSet ::
  "'h host_api \<Rightarrow> u32 \<Rightarrow> 'h nbu_state \<Rightarrow> u16 \<Rightarrow> bytes \<Rightarrow> u16 \<Rightarrow> (otError \<times> 'h nbu_state) option" where
  "nbu_otPlatSettingsSet api data s aKey aValue aValueLength =
     do { (error, b1) \<leftarrow> tlvSet (nbuBuffer s) aKey aValue aValueLength;
          if error = OT_ERROR_NONE then do { t \<leftarrow> nbu_save api data (nbu_setBuffer b1 s); Some (error, t) }
          else Some (error, s) }"

definition nbu_otPlatSettingsDelete ::
  "'h host_api \<Rightarrow> u32 \<Rightarrow> 'h nbu_state \<Rightarrow> u16 \<Rightarrow> int \<Rightarrow> (otError \<times> 'h nbu_state) option" where
  "nbu_otPlatSettingsDelete api data s aKey aIndex =
     do { (error, b1) \<leftarrow> tlvDelete (nbuBuffer s) aKey aIndex;
          if error = OT_ERROR_NONE then do { t \<leftarrow> nbu_save api data (nbu_setBuffer b1 s); Some (error, t) }
          else Some (error, s) }"

definition nbu_otPlatSettingsWipe :: "'h host_api \<Rightarrow> u32 \<Rightarrow> 'h nbu_state \<Rightarrow> 'h nbu_state option" where
  "nbu_otPlatSettingsWipe api data s = nbu_save api data (nbu_setBuffer (tlvWipe (nbuBuffer s)) s)"

definition nbu_exec :: "'h host_api \<Rightarrow> u32 \<Rightarrow> 'h nbu_state \<Rightarrow> settings_cmd \<Rightarrow> (otError \<times> 'h nbu_state) option" where
  "nbu_exec api data = exec_cmd (nbu_otPlatSettingsAdd api data) (nbu_otPlatSettingsSet api data)
     (nbu_otPlatSettingsDelete api data) (nbu_otPlatSettingsWipe api data)"

section \<open>Sleep counter\<close>

definition plat_lp_allowed :: "u8 \<Rightarrow> bool" where
  "plat_lp_allowed lp_cnt = (lp_cnt = 0)"

definition nbu_PWR_AllowDeviceToSleep :: "u8 \<Rightarrow> u8" where
  "nbu_PWR_AllowDeviceToSleep lp_cnt = (if lp_cnt \<noteq> 0 then lp_cnt - 1 else lp_cnt)"

definition nbu_PWR_DisallowDeviceToSleep :: "u8 \<Rightarrow> u8" where
  "nbu_PWR_DisallowDeviceToSleep lp_cnt = (if lp_cnt \<noteq> 255 then lp_cnt + 1 else lp_cnt)"

section \<open>A main core that serves the requests\<close>

text \<open>
  What the main core promises: it answers each request after finitely many polls; a save keeps the buffer
  as it is in the shared region, a load fills the region with what was kept, if anything.
\<close>

definition host_documented :: "'h host_api \<Rightarrow> u32 \<Rightarrow> ('h \<Rightarrow> otSettingsBuffer_t option) \<Rightarrow> bool" where
  "host_documented api data kept \<longleftrightarrow> data \<noteq> 0 \<and>
     (\<forall>h s. \<exists>s1 h1. answers (hostPoll api) (hostSend api h (svc_req SVC_CMD_NV_SAVE data)) (s\<lparr>status := 0\<rparr>) (s1, h1) \<and>
        ot_settings_buffer s1 = ot_settings_buffer s \<and> kept h1 = Some (ot_settings_buffer s)) \<and>
     (\<forall>h s. \<exists>s1 h1. answers (hostPoll api) (hostSend api h (svc_req SVC_CMD_NV_LOAD data)) (s\<lparr>status := 0\<rparr>) (s1, h1) \<and>
        ot_settings_buffer s1 = (case kept h of Some b \<Rightarrow> b | None \<Rightarrow> ot_settings_buffer s) \<and> kept h1 = kept h)"

lemma nbu_save_keeps:
  assumes "host_documented api data kept"
  shows "\<exists>t. nbu_save api data s = Some t \<and> nbuBuffer t = nbuBuffer s \<and> kept (nbuHost t) = Some (nbuBuffer s)"
proof -
  from assms obtain s1 h1 where "data \<noteq> 0" "ot_settings_buffer s1 = nbuBuffer s" "kept h1 = Some (nbuBuffer s)"
    "answers (hostPoll api) (hostSend api (nbuHost s) (svc_req SVC_CMD_NV_SAVE data)) ((nbuShared s)\<lparr>status := 0\<rparr>) (s1, h1)"
    unfolding host_documented_def by blast
  then show ?thesis by (simp add: nbu_save_def plat_settings_save_def nbu_wait_answers)
qed

definition tlv_exec :: "otSettingsBuffer_t \<Rightarrow> settings_cmd \<Rightarrow> (otError \<times> otSettingsBuffer_t) option" where
  "tlv_exec = exec_cmd tlvAdd tlvSet tlvDelete (\<lambda>b. Some (tlvWipe b))"

text \<open>A handler does to the buffer what the buffer routine does, and the main core has the result.\<close>

lemma nbu_exec_core:
  assumes "host_documented api data kept" and "tlv_exec (nbuBuffer s) c = Some (e, b1)"
    and "kept (nbuHost s) = Some (nbuBuffer s)"
  shows "\<exists>t. nbu_exec api data s c = Some (e, t) \<and> nbuBuffer t = b1 \<and> kept (nbuHost t) = Some b1"
proof -
  obtain t where t: "nbu_save api data (nbu_setBuffer b1 s) = Some t" "nbuBuffer t = b1" "kept (nbuHost t) = Some b1"
    using nbu_save_keeps [OF assms(1), of "nbu_setBuffer b1 s"] by (auto simp: nbu_setBuffer_def)
  show ?thesis
    using assms(2,3) t
    by (cases c; cases "e = OT_ERROR_NONE")
      (auto simp: tlv_exec_def nbu_exec_def nbu_otPlatSettingsAdd_def nbu_otPlatSettingsSet_def
        nbu_otPlatSettingsDelete_def nbu_otPlatSettingsWipe_def dest: tlv_error_unchanged)
qed

lemma nbu_execs_core:
  assumes "host_documented api data kept"
  shows "tlv_inv (nbuBuffer s) \<Longrightarrow> list_all cmd_ok cs \<Longrightarrow> kept (nbuHost s) = Some (nbuBuffer s) \<Longrightarrow>
    \<exists>es t. exec_cmds (nbu_exec api data) s cs = Some (es, t) \<and> tlv_inv (nbuBuffer t) \<and>
      kept (nbuHost t) = Some (nbuBuffer t) \<and> settings_run EveryIndex (tlv_abs (nbuBuffer s)) cs es (tlv_abs (nbuBuffer t))"
proof (induction cs arbitrary: s)
  case Nil
  then show ?case by (auto intro: settings_run.intros)
next
  case (Cons c cs)
  then obtain e b1 where b1: "tlv_exec (nbuBuffer s) c = Some (e, b1)" "tlv_inv b1"
    "settings_step EveryIndex (tlv_abs (nbuBuffer s)) c e (tlv_abs b1)"
    using tlv.exec_step [of "nbuBuffer s" c] unfolding tlv_exec_def by auto
  obtain t where t: "nbu_exec api data s c = Some (e, t)" "nbuBuffer t = b1" "kept (nbuHost t) = Some b1"
    using nbu_exec_core [OF assms b1(1) Cons.prems(3)] by blast
  from Cons.IH [of t] Cons.prems(2) b1(2) t obtain es u where
    "exec_cmds (nbu_exec api data) t cs = Some (es, u)" "tlv_inv (nbuBuffer u)"
    "kept (nbuHost u) = Some (nbuBuffer u)" "settings_run EveryIndex (tlv_abs b1) cs es (tlv_abs (nbuBuffer u))" by auto
  with t(1) b1(3) show ?case by (auto intro: settings_run.intros)
qed

section \<open>Properties\<close>

text \<open>
  A settings request of the radio core returns exactly when the main core answers: the spin on the
  status byte ends if and only if finitely many polls set it, and then with the region as it is at
  that moment.
\<close>

theorem plat_settings_save_returns_iff_answered:
  "plat_settings_save api data s h = Some r \<longleftrightarrow>
   (if data = 0 then r = (s, h)
    else answers (hostPoll api) (hostSend api h (svc_req SVC_CMD_NV_SAVE data)) (s\<lparr>status := 0\<rparr>) r)"
  by (auto simp: plat_settings_save_def dest: answers_nbu_wait nbu_wait_answers)

text \<open>
  C38. The radio core writes through: with a main core that serves its requests, every sequence of add, set, delete
  (at any index) and wipe calls with values shorter than 65532 bytes returns, has the outcomes of the abstract
  store, and ends with the buffer as the main core's copy, so initialisation after a restart of the radio core
  restores it. A delete at an index with no value removes all values of the key.
\<close>

theorem nbu_settings_write_through:
  assumes "host_documented api data kept" and "tlv_inv (nbuBuffer s)" and "list_all cmd_ok cs"
    and "kept (nbuHost s) = Some (nbuBuffer s)"
  shows "\<exists>es t r. exec_cmds (nbu_exec api data) s cs = Some (es, t) \<and>
    settings_run EveryIndex (tlv_abs (nbuBuffer s)) cs es (tlv_abs (nbuBuffer t)) \<and> kept (nbuHost t) = Some (nbuBuffer t) \<and>
    nbu_otPlatSettingsInit api data (t\<lparr>nbuInitialized := False\<rparr>) = Some r \<and> nbuBuffer r = nbuBuffer t"
proof -
  obtain es t where t: "exec_cmds (nbu_exec api data) s cs = Some (es, t)" "kept (nbuHost t) = Some (nbuBuffer t)"
    "settings_run EveryIndex (tlv_abs (nbuBuffer s)) cs es (tlv_abs (nbuBuffer t))"
    using nbu_execs_core [OF assms(1,2,3,4)] by blast
  let ?b = "\<lparr>recordLen = 0, recordFreeLen = 1024, tlvBuffer = replicate 1024 0\<rparr>"
  let ?m = "(nbuShared t)\<lparr>ot_settings_buffer := ?b\<rparr>"
  obtain s1 h1 where load: "data \<noteq> 0" "ot_settings_buffer s1 = nbuBuffer t"
    "answers (hostPoll api) (hostSend api (nbuHost t) (svc_req SVC_CMD_NV_LOAD data)) (?m\<lparr>status := 0\<rparr>) (s1, h1)"
    using assms(1) t(2) unfolding host_documented_def by (metis option.simps(5))
  then have "\<exists>r. nbu_otPlatSettingsInit api data (t\<lparr>nbuInitialized := False\<rparr>) = Some r \<and> nbuBuffer r = nbuBuffer t"
    by (simp add: nbu_otPlatSettingsInit_def nbu_setBuffer_def plat_settings_load_def nbu_wait_answers Let_def)
  with t show ?thesis by blast
qed

text \<open>A main core that answers at the second poll, for the witnesses: the request it has and what it keeps.\<close>

definition ram_host :: "(u8 \<times> bool \<times> otSettingsBuffer_t option) host_api" where
  "ram_host = \<lparr>hostSend = (\<lambda>h xs. (hd xs, False, snd (snd h))),
     hostPoll = (\<lambda>h s. case h of (cmd, seen, kept) \<Rightarrow>
       if \<not> seen then (s, (cmd, True, kept))
       else if cmd = SVC_CMD_NV_SAVE then (s\<lparr>status := 1\<rparr>, (cmd, True, Some (ot_settings_buffer s)))
       else (s\<lparr>status := 1, ot_settings_buffer := (case kept of Some b \<Rightarrow> b | None \<Rightarrow> ot_settings_buffer s)\<rparr>, h))\<rparr>"

lemma answers_second:
  assumes "status s = 0" "poll h s = (s1, h1)" "status s1 = 0" "poll h1 s1 = (s2, h2)" "status s2 \<noteq> 0"
  shows "answers poll h s (s2, h2)"
  using answers_now [of s2 poll h2] answers_later [of s1 poll h1 "(s2, h2)"] answers_later [of s poll h "(s2, h2)"] assms
  by simp

lemma ram_host_save:
  "answers (hostPoll ram_host) (hostSend ram_host h (svc_req SVC_CMD_NV_SAVE d)) (s\<lparr>status := 0\<rparr>)
     (s\<lparr>status := 1\<rparr>, (SVC_CMD_NV_SAVE, True, Some (ot_settings_buffer s)))"
  by (rule answers_second [where ?s1.0 = "s\<lparr>status := 0\<rparr>" and ?h1.0 = "(SVC_CMD_NV_SAVE, True, snd (snd h))"])
    (simp_all add: ram_host_def svc_req_def)

lemma ram_host_load:
  "answers (hostPoll ram_host) (hostSend ram_host h (svc_req SVC_CMD_NV_LOAD d)) (s\<lparr>status := 0\<rparr>)
     (s\<lparr>status := 1, ot_settings_buffer := (case snd (snd h) of Some b \<Rightarrow> b | None \<Rightarrow> ot_settings_buffer s)\<rparr>,
      (SVC_CMD_NV_LOAD, True, snd (snd h)))"
  by (rule answers_second [where ?s1.0 = "s\<lparr>status := 0\<rparr>" and ?h1.0 = "(SVC_CMD_NV_LOAD, True, snd (snd h))"])
    (simp_all add: ram_host_def svc_req_def SVC_CMD_NV_LOAD_def SVC_CMD_NV_SAVE_def split: option.split)

lemma ram_host_documented: "host_documented ram_host 4 (\<lambda>h. snd (snd h))"
  unfolding host_documented_def
proof (intro conjI allI)
  fix h :: "u8 \<times> bool \<times> otSettingsBuffer_t option" and s
  show "\<exists>s1 h1. answers (hostPoll ram_host) (hostSend ram_host h (svc_req SVC_CMD_NV_SAVE 4)) (s\<lparr>status := 0\<rparr>) (s1, h1) \<and>
      ot_settings_buffer s1 = ot_settings_buffer s \<and> snd (snd h1) = Some (ot_settings_buffer s)"
    using ram_host_save [of h 4 s] by force
  show "\<exists>s1 h1. answers (hostPoll ram_host) (hostSend ram_host h (svc_req SVC_CMD_NV_LOAD 4)) (s\<lparr>status := 0\<rparr>) (s1, h1) \<and>
      ot_settings_buffer s1 = (case snd (snd h) of Some b \<Rightarrow> b | None \<Rightarrow> ot_settings_buffer s) \<and> snd (snd h1) = snd (snd h)"
    using ram_host_load [of h 4 s] by force
qed simp

definition nbu_sample :: "(u8 \<times> bool \<times> otSettingsBuffer_t option) nbu_state" where
  "nbu_sample = \<lparr>nbuShared = \<lparr>ot_settings_buffer = tlv_sample, status = 1\<rparr>, nbuInitialized = True,
     nbuHost = (0, False, Some tlv_sample)\<rparr>"

theorem nbu_settings_write_through_witness:
  "\<exists>es t r. exec_cmds (nbu_exec ram_host 4) nbu_sample [CAdd 3 [30], CDelete 1 1, CDelete 2 5] = Some (es, t) \<and>
    snd (snd (nbuHost t)) = Some (nbuBuffer t) \<and>
    nbu_otPlatSettingsInit ram_host 4 (t\<lparr>nbuInitialized := False\<rparr>) = Some r \<and> nbuBuffer r = nbuBuffer t"
proof -
  have h: "tlv_inv (nbuBuffer nbu_sample)" "list_all cmd_ok [CAdd 3 [30], CDelete 1 1, CDelete 2 5]"
    "snd (snd (nbuHost nbu_sample)) = Some (nbuBuffer nbu_sample)"
    using tlv_sample_abs by (simp_all add: nbu_sample_def)
  from nbu_settings_write_through [OF ram_host_documented h(1,2), OF h(3)] show ?thesis by blast
qed

end
