(* ===== verification/Pdm_Glue.thy ===== *)
theory Pdm_Glue
  imports Ram_Storage
begin

text \<open>
  \<^verbatim>\<open>src/k32w0/platform/pdm_ram_storage_glue.c\<close>: the path between the RAM buffer of \<^verbatim>\<open>ram_storage.c\<close> and the
  PDM, the record store of the chip, in the configuration with dynamic memory, an RTOS and saving in the idle
  task, without encryption. The PDM library, the allocators and the mutexes are fields of the parameter
  \<open>pdm_env\<close>. A RAM buffer descriptor lives at an address in \<open>descs\<close>, because the save queue keeps pointers
  to descriptors whose contents change until the idle task writes them. \<open>None\<close> as a result stands for an
  access outside a buffer, a null pointer or a loop that does not end.
\<close>

section \<open>State and environment\<close>

datatype PDM_teStatus = PDM_E_STATUS_OK | PDM_E_STATUS_NOT_SAVED | PDM_E_STATUS_INTERNAL_ERROR

record tsQueueEntry =
  pvDataBuffer :: nat
  u16IdValue :: u16

text \<open>
  \<open>tryLock p h i\<close> is whether the mutex of the descriptor at \<open>h\<close> is free when the idle task wants to copy
  segment \<open>i\<close>; \<open>otPlatRealloc\<close> is \<open>None\<close> when memory is short.
\<close>

record 'p pdm_env =
  PDM_eSaveRecordData :: "'p \<Rightarrow> u16 \<Rightarrow> bytes \<Rightarrow> PDM_teStatus \<times> 'p"
  PDM_eReadDataFromRecord :: "'p \<Rightarrow> u16 \<Rightarrow> u16 \<Rightarrow> PDM_teStatus \<times> bytes"
  PDM_bDoesDataExist :: "'p \<Rightarrow> u16 \<Rightarrow> u16 option"
  PDM_vDeleteDataRecord :: "'p \<Rightarrow> u16 \<Rightarrow> 'p"
  PDM_GetSegmentBufferSize :: u32
  PDM_Init :: PDM_teStatus
  callocDescr :: "nat option"
  callocBuffer :: "u16 \<Rightarrow> bool"
  mallocSegment :: "u32 \<Rightarrow> bool"
  otPlatRealloc :: "bytes \<Rightarrow> u16 \<Rightarrow> bytes option"
  OSA_MutexCreate :: bool
  tryLock :: "'p \<Rightarrow> nat \<Rightarrow> nat \<Rightarrow> bool"

record 'p pdm_sys =
  pdm :: 'p
  descs :: "nat \<Rightarrow> ramBufferDescriptor option"
  sPdmSegmentSize :: u32
  sSegmentBuffer :: "bytes option"
  asQueue :: "tsQueueEntry list"
  u8QueueWritePtr :: u8
  u8QueueReadPtr :: u8
  asQueueMutex :: bool
  asQueueMutexTaken :: bool

definition MAX_QUEUE_SIZE :: u8 where "MAX_QUEUE_SIZE = 16"
definition PDM_SEGMENT_MARGIN :: u32 where "PDM_SEGMENT_MARGIN = 64"
definition PDM_SEGMENT_SIZE :: "'p pdm_sys \<Rightarrow> u32" where "PDM_SEGMENT_SIZE s = sPdmSegmentSize s - PDM_SEGMENT_MARGIN"
definition kRamBufferReallocSize :: u16 where "kRamBufferReallocSize = 512"
definition kRamBufferMaxAllocSize :: u16 where "kRamBufferMaxAllocSize = 12288"

section \<open>Loading\<close>

partial_function (option) loadLoop ::
  "'p pdm_env \<Rightarrow> 'p \<Rightarrow> nat \<Rightarrow> u16 \<Rightarrow> u16 \<Rightarrow> bytes \<Rightarrow> u16 \<Rightarrow> (PDM_teStatus \<times> bytes \<times> u16) option" where
  "loadLoop env p lim cap i buf len =
     (if unat i < lim then
        (case PDM_eReadDataFromRecord env p i (cap - len) of
           (status, xs) \<Rightarrow>
             (if status = PDM_E_STATUS_OK
              then (case wr_bytes (unat len) xs buf of
                      None \<Rightarrow> None
                    | Some buf1 \<Rightarrow> loadLoop env p lim cap (i + 1) buf1 (len + of_nat (length xs)))
              else Some (status, buf, len)))
      else Some (PDM_E_STATUS_OK, buf, len))"

partial_function (option) deleteRecords :: "'p pdm_env \<Rightarrow> nat \<Rightarrow> u16 \<Rightarrow> 'p \<Rightarrow> 'p option" where
  "deleteRecords env lim i p =
     (if unat i < lim then deleteRecords env lim (i + 1) (PDM_vDeleteDataRecord env p i) else Some p)"

definition loadData ::
  "'p pdm_env \<Rightarrow> u16 \<Rightarrow> u16 \<Rightarrow> ramBufferDescriptor \<Rightarrow> 'p \<Rightarrow> (ramBufferDescriptor \<times> 'p) option" where
  "loadData env nid nbIds handle p =
     do { buf \<leftarrow> buffer handle;
          (status, buf1, len) \<leftarrow> loadLoop env p (unat nid + unat nbIds) (maxLength (header handle)) nid buf 0;
          if status \<noteq> PDM_E_STATUS_OK \<or> len > maxLength (header handle)
          then do { p1 \<leftarrow> deleteRecords env (unat nid + unat nbIds) nid p;
                    Some (handle\<lparr>buffer := Some buf1, header := (header handle)\<lparr>hLength := 0\<rparr>\<rparr>, p1) }
          else Some (handle\<lparr>buffer := Some buf1, header := (header handle)\<lparr>hLength := len\<rparr>\<rparr>, p) }"

definition PDM_RetrieveSegmentSize :: "'p pdm_env \<Rightarrow> 'p pdm_sys \<Rightarrow> bool \<times> 'p pdm_sys" where
  "PDM_RetrieveSegmentSize env s =
     (if sPdmSegmentSize s > PDM_SEGMENT_MARGIN then (True, s)
      else if PDM_GetSegmentBufferSize env \<le> PDM_SEGMENT_MARGIN then (False, s\<lparr>sPdmSegmentSize := 0\<rparr>)
      else (True, s\<lparr>sPdmSegmentSize := PDM_GetSegmentBufferSize env\<rparr>))"

partial_function (option) existLoop ::
  "'p pdm_env \<Rightarrow> 'p \<Rightarrow> u16 \<Rightarrow> bool \<Rightarrow> u16 \<Rightarrow> u16 \<Rightarrow> (u16 \<times> u16) option" where
  "existLoop env p nid ext counter len =
     (case PDM_bDoesDataExist env p (nid + counter) of
        None \<Rightarrow> Some (counter, len)
      | Some l \<Rightarrow> if \<not> ext then Some (counter + 1, len + l) else existLoop env p nid ext (counter + 1) (len + l))"

partial_function (option) growLoop :: "u16 \<Rightarrow> u16 \<Rightarrow> u16 option" where
  "growLoop len cap = (if len > cap then growLoop len (cap + kRamBufferReallocSize) else Some cap)"

definition doesDataExist ::
  "'p pdm_env \<Rightarrow> 'p \<Rightarrow> u16 \<Rightarrow> ramBufferDescriptor \<Rightarrow> (u16 \<times> ramBufferDescriptor) option" where
  "doesDataExist env p nid handle =
     do { (counter, len) \<leftarrow> existLoop env p nid (extendedSearch (header handle)) 0 (hLength (header handle));
          cap \<leftarrow> growLoop len (maxLength (header handle));
          Some (counter, handle\<lparr>header := (header handle)\<lparr>hLength := len, maxLength := cap\<rparr>\<rparr>) }"

text \<open>A failure frees the descriptor again and returns a null pointer.\<close>

definition getRamBuffer ::
  "'p pdm_env \<Rightarrow> u16 \<Rightarrow> u16 \<Rightarrow> bool \<Rightarrow> 'p pdm_sys \<Rightarrow> (nat option \<times> 'p pdm_sys) option" where
  "getRamBuffer env nvmId initialSize ext s =
     (case PDM_RetrieveSegmentSize env s of (ok, s1) \<Rightarrow>
        if \<not> ok then Some (None, s1)
        else (case callocDescr env of
            None \<Rightarrow> Some (None, s1)
          | Some h \<Rightarrow>
              if \<not> OSA_MutexCreate env then Some (None, s1)
              else do {
                let d0 = \<lparr>header = \<lparr>hLength = 0, maxLength = initialSize, extendedSearch = ext,
                                     backendRegionSize = ucast (PDM_SEGMENT_SIZE s1)\<rparr>, buffer = None\<rparr>;
                (nbPdmIds, d1) \<leftarrow> doesDataExist env (pdm s1) nvmId d0;
                if maxLength (header d1) > kRamBufferMaxAllocSize then Some (None, s1)
                else if \<not> callocBuffer env (maxLength (header d1)) then Some (None, s1)
                else do {
                  let d2 = d1\<lparr>buffer := Some (replicate (unat (maxLength (header d1))) 0)\<rparr>;
                  (d3, p) \<leftarrow> (if nbPdmIds > 0 then loadData env nvmId nbPdmIds d2 (pdm s1) else Some (d2, pdm s1));
                  Some (Some h, s1\<lparr>pdm := p, descs := (descs s1)(h \<mapsto> d3)\<rparr>) } }))"

section \<open>Growing the RAM buffer\<close>

partial_function (option) resizeLoop :: "nat \<Rightarrow> bool \<Rightarrow> u16 \<Rightarrow> u16 \<Rightarrow> u16 option" where
  "resizeLoop need ext region allocSize =
     (if unat allocSize < need
      then (if \<not> ext \<and> allocSize + kRamBufferReallocSize > region then Some region
            else resizeLoop need ext region (allocSize + kRamBufferReallocSize))
      else Some allocSize)"

definition ramStorageResize ::
  "'p pdm_env \<Rightarrow> ramBufferDescriptor \<Rightarrow> u16 \<Rightarrow> (rsError \<times> ramBufferDescriptor) option" where
  "ramStorageResize env pBuffer aValueLength =
     (let hdr = header pBuffer; newBlockLength = 4 + aValueLength; need = unat (hLength hdr) + unat newBlockLength in
      if \<not> extendedSearch hdr \<and> maxLength hdr > backendRegionSize hdr then Some (RS_ERROR_NO_BUFS, pBuffer)
      else if unat (maxLength hdr) < need then
        do { allocSize \<leftarrow> resizeLoop need (extendedSearch hdr) (backendRegionSize hdr) (maxLength hdr);
             if allocSize \<le> kRamBufferMaxAllocSize
             then do { buf \<leftarrow> buffer pBuffer;
                       (case otPlatRealloc env buf allocSize of
                          None \<Rightarrow> Some (RS_ERROR_NO_BUFS, pBuffer)
                        | Some ptr \<Rightarrow> Some (RS_ERROR_NONE, pBuffer\<lparr>buffer := Some ptr, header := hdr\<lparr>maxLength := allocSize\<rparr>\<rparr>)) }
             else Some (RS_ERROR_NO_BUFS, pBuffer) }
      else Some (RS_ERROR_NONE, pBuffer))"

section \<open>The save queue\<close>

definition u8IncrementQueuePtr :: "u8 \<Rightarrow> u8" where
  "u8IncrementQueuePtr u8CurrentValue =
     (let u8IncrementedPtr = u8CurrentValue + 1 in if u8IncrementedPtr = MAX_QUEUE_SIZE then 0 else u8IncrementedPtr)"

definition FS_Init :: "'p pdm_env \<Rightarrow> 'p pdm_sys \<Rightarrow> bool \<times> 'p pdm_sys" where
  "FS_Init env s =
     (if sPdmSegmentSize s = 0 then (False, s)
      else if mallocSegment env (PDM_SEGMENT_SIZE s)
      then (True, s\<lparr>sSegmentBuffer := Some (replicate (unat (PDM_SEGMENT_SIZE s)) 0)\<rparr>)
      else (False, s\<lparr>sSegmentBuffer := None\<rparr>))"

definition FS_Deinit :: "'p pdm_sys \<Rightarrow> 'p pdm_sys" where
  "FS_Deinit s = s\<lparr>sSegmentBuffer := None\<rparr>"

text \<open>The search for an identifier between the read and the write pointer.\<close>

partial_function (option) queueSearch :: "tsQueueEntry list \<Rightarrow> u8 \<Rightarrow> u16 \<Rightarrow> u8 \<Rightarrow> bool option" where
  "queueSearch q w nid u8QueuePtr =
     (if u8QueuePtr = w then Some False
      else if \<not> unat u8QueuePtr < length q then None
      else if u16IdValue (q ! unat u8QueuePtr) = nid then Some True
      else queueSearch q w nid (u8IncrementQueuePtr u8QueuePtr))"

definition FS_eSaveRecordDataInIdleTask ::
  "'p pdm_env \<Rightarrow> bool \<Rightarrow> u16 \<Rightarrow> nat \<Rightarrow> 'p pdm_sys \<Rightarrow> (PDM_teStatus \<times> 'p pdm_sys) option" where
  "FS_eSaveRecordDataInIdleTask env inIsr nid h s =
     (if \<not> asQueueMutex s \<and> \<not> OSA_MutexCreate env then Some (PDM_E_STATUS_NOT_SAVED, s)
      else do {
        let s1 = s\<lparr>asQueueMutex := True, asQueueMutexTaken := (if inIsr then asQueueMutexTaken s else True)\<rparr>;
        already_in \<leftarrow> queueSearch (asQueue s1) (u8QueueWritePtr s1) nid (u8QueueReadPtr s1);
        s2 \<leftarrow> (if already_in then Some s1
               else if \<not> unat (u8QueueWritePtr s1) < length (asQueue s1) then None
               else Some (s1\<lparr>asQueue := (asQueue s1)[unat (u8QueueWritePtr s1) := \<lparr>pvDataBuffer = h, u16IdValue = nid\<rparr>],
                             u8QueueWritePtr := u8IncrementQueuePtr (u8QueueWritePtr s1)\<rparr>));
        Some (PDM_E_STATUS_OK, s2\<lparr>asQueueMutexTaken := (if inIsr then asQueueMutexTaken s2 else False)\<rparr>) })"

section \<open>Saving in the idle task\<close>

text \<open>\<open>saveLoop env h nid i n len s\<close> writes the \<open>n\<close> segments from number \<open>i\<close> on, with \<open>len\<close> bytes left.\<close>

fun saveLoop :: "'p pdm_env \<Rightarrow> nat \<Rightarrow> u16 \<Rightarrow> nat \<Rightarrow> nat \<Rightarrow> u16 \<Rightarrow> 'p pdm_sys \<Rightarrow> 'p pdm_sys option" where
  "saveLoop env h nid i 0 len s = Some s"
| "saveLoop env h nid i (Suc n) len s =
     do { let size = (if unat len < unat (PDM_SEGMENT_SIZE s) then len else ucast (PDM_SEGMENT_SIZE s));
          (status, s1) \<leftarrow>
            (if tryLock env (pdm s) h i
             then do { handle \<leftarrow> descs s h;
                       buf \<leftarrow> buffer handle;
                       xs \<leftarrow> rd_bytes (i * unat (PDM_SEGMENT_SIZE s)) (unat size) buf;
                       seg \<leftarrow> sSegmentBuffer s;
                       seg1 \<leftarrow> wr_bytes 0 xs seg;
                       (case PDM_eSaveRecordData env (pdm s) (nid + of_nat i) (take (unat size) seg1) of
                          (st, p) \<Rightarrow> Some (st, s\<lparr>sSegmentBuffer := Some seg1, pdm := p\<rparr>)) }
             else Some (PDM_E_STATUS_INTERNAL_ERROR, s));
          if status \<noteq> PDM_E_STATUS_OK
          then map_option snd (FS_eSaveRecordDataInIdleTask env False nid h s1)
          else saveLoop env h nid (Suc i) n (len - size) s1 }"

definition FS_SaveRecordData :: "'p pdm_env \<Rightarrow> tsQueueEntry \<Rightarrow> 'p pdm_sys \<Rightarrow> 'p pdm_sys option" where
  "FS_SaveRecordData env entry s =
     do { handle \<leftarrow> descs s (pvDataBuffer entry);
          let len = hLength (header handle);
          let segments = (ucast ((ucast len + PDM_SEGMENT_SIZE s - 1) div PDM_SEGMENT_SIZE s) :: u8);
          if PDM_SEGMENT_SIZE s = 0 then None
          else saveLoop env (pvDataBuffer entry) (u16IdValue entry) 0 (unat segments) len s }"

fun idleLoop :: "'p pdm_env \<Rightarrow> nat \<Rightarrow> 'p pdm_sys \<Rightarrow> 'p pdm_sys option" where
  "idleLoop env 0 s = Some s"
| "idleLoop env (Suc n) s =
     (if u8QueueReadPtr s = u8QueueWritePtr s then Some s
      else if \<not> unat (u8QueueReadPtr s) < length (asQueue s) then None
      else do {
        let currentEntry = asQueue s ! unat (u8QueueReadPtr s);
        let s1 = s\<lparr>u8QueueReadPtr := u8IncrementQueuePtr (u8QueueReadPtr s), asQueueMutexTaken := False\<rparr>;
        s2 \<leftarrow> FS_SaveRecordData env currentEntry s1;
        idleLoop env n s2 })"

definition FS_vIdleTask :: "'p pdm_env \<Rightarrow> u8 \<Rightarrow> 'p pdm_sys \<Rightarrow> 'p pdm_sys option" where
  "FS_vIdleTask env u8WritesAllowed s =
     idleLoop env (unat (if u8WritesAllowed > MAX_QUEUE_SIZE then MAX_QUEUE_SIZE else u8WritesAllowed)) s"

definition idleMutexIsTaken :: "'p pdm_sys \<Rightarrow> bool" where
  "idleMutexIsTaken s = asQueueMutexTaken s"

end
