(* ===== verification/Pdm_Queue.thy ===== *)
theory Pdm_Queue
  imports Pdm_Glue
begin

text \<open>
  The save queue of \<^verbatim>\<open>src/k32w0/platform/pdm_ram_storage_glue.c\<close> as a list: sixteen slots, a read and a write
  pointer, one request per identifier.
\<close>

section \<open>The queue as a list\<close>

definition q_inv :: "'p pdm_sys \<Rightarrow> bool" where
  "q_inv s \<longleftrightarrow> length (asQueue s) = 16 \<and> unat (u8QueueReadPtr s) < 16 \<and> unat (u8QueueWritePtr s) < 16"

definition q_count :: "'p pdm_sys \<Rightarrow> nat" where
  "q_count s = (unat (u8QueueWritePtr s) + 16 - unat (u8QueueReadPtr s)) mod 16"

definition q_abs :: "'p pdm_sys \<Rightarrow> tsQueueEntry list" where
  "q_abs s = map (\<lambda>i. asQueue s ! ((unat (u8QueueReadPtr s) + i) mod 16)) [0..<q_count s]"

lemma length_q_abs [simp]: "length (q_abs s) = q_count s"
  by (simp add: q_abs_def)

lemma unat_increment: "unat p < 16 \<Longrightarrow> unat (u8IncrementQueuePtr p) = (unat p + 1) mod 16"
proof -
  assume p: "unat p < 16"
  then have n: "unat (p + 1) = unat p + 1" by (simp add: unat_word_ariths)
  then show ?thesis using p
    by (cases "p + 1 = 16") (auto simp: u8IncrementQueuePtr_def MAX_QUEUE_SIZE_def Let_def word_unat_eq_iff)
qed

lemma q_write_ptr: "q_inv s \<Longrightarrow> unat (u8QueueWritePtr s) = (unat (u8QueueReadPtr s) + q_count s) mod 16"
  by (auto simp: q_inv_def q_count_def mod_if split: if_splits)

lemma q_count_less: "q_count s < 16"
  by (simp add: q_count_def)

lemma q_slot_le:
  assumes "j < 16" and "i \<le> j" and "(r + i) mod 16 = (r + j) mod (16 :: nat)"
  shows "i = j"
proof -
  have "16 dvd (r + j) - (r + i)" using assms(2,3) by (subst mod_eq_dvd_iff_nat [symmetric]) simp_all
  then have "16 dvd j - i" by simp
  moreover have "j - i < 16" using assms(1) by simp
  ultimately show ?thesis using assms(2) nat_dvd_not_less [of "j - i" 16] by auto
qed

lemma q_slot_inj: "i < 16 \<Longrightarrow> j < 16 \<Longrightarrow> (r + i) mod 16 = (r + j) mod (16 :: nat) \<Longrightarrow> i = j"
  using q_slot_le [of j i r] q_slot_le [of i j r] by (cases "i \<le> j") auto

lemma q_span: "r < 16 \<Longrightarrow> ((r + x) mod 16 + 16 - r) mod 16 = x mod (16 :: nat)"
proof -
  assume r: "r < 16"
  then have "((r + x) mod 16 + 16 - r) mod 16 = ((r + x) mod 16 + (16 - r)) mod 16" by simp
  also have "\<dots> = (r + x + (16 - r)) mod 16" by (rule mod_add_left_eq)
  also have "r + x + (16 - r) = x + 16" using r by simp
  finally show ?thesis by simp
qed

lemma queueSearch_abs:
  assumes "q_inv s" and "k \<le> q_count s" and "unat p = (unat (u8QueueReadPtr s) + k) mod 16"
  shows "queueSearch (asQueue s) (u8QueueWritePtr s) nid p = Some (nid \<in> u16IdValue ` set (drop k (q_abs s)))"
  using assms(2,3)
proof (induction "q_count s - k" arbitrary: k p)
  case 0
  then have "unat p = unat (u8QueueWritePtr s)" using q_write_ptr [OF assms(1)] by simp
  then have "p = u8QueueWritePtr s" by (simp add: word_unat_eq_iff)
  then show ?case using 0 by (subst queueSearch.simps) simp
next
  case (Suc m)
  then have k: "k < q_count s" by simp
  have "p \<noteq> u8QueueWritePtr s"
    using q_slot_inj [of k "q_count s" "unat (u8QueueReadPtr s)"] k q_count_less [of s] Suc.prems(2) q_write_ptr [OF assms(1)]
    by auto
  moreover have "unat p < 16" using Suc.prems(2) by simp
  moreover have p1: "unat (u8IncrementQueuePtr p) = (unat (u8QueueReadPtr s) + Suc k) mod 16"
    using unat_increment [OF \<open>unat p < 16\<close>] Suc.prems(2) by (simp add: mod_Suc_eq)
  moreover have "drop k (q_abs s) = asQueue s ! unat p # drop (Suc k) (q_abs s)"
    using k Suc.prems(2) by (simp add: Cons_nth_drop_Suc [symmetric]) (simp add: q_abs_def)
  ultimately show ?case
    using Suc.hyps(1) [of "Suc k" "u8IncrementQueuePtr p"] Suc.hyps(2) k assms(1)
    by (subst queueSearch.simps) (auto simp: q_inv_def)
qed

section \<open>Requests\<close>

definition pdm_ready :: "'p pdm_env \<Rightarrow> 'p pdm_sys \<Rightarrow> bool" where
  "pdm_ready env s \<longleftrightarrow> asQueueMutex s \<or> OSA_MutexCreate env"

text \<open>What a request leaves alone.\<close>

definition same_store :: "'p pdm_sys \<Rightarrow> 'p pdm_sys \<Rightarrow> bool" where
  "same_store s t \<longleftrightarrow> pdm t = pdm s \<and> descs t = descs s \<and> sPdmSegmentSize t = sPdmSegmentSize s \<and>
     sSegmentBuffer t = sSegmentBuffer s"

lemma request_present:
  assumes "q_inv s" and "pdm_ready env s" and "nid \<in> u16IdValue ` set (q_abs s)"
  shows "\<exists>t. FS_eSaveRecordDataInIdleTask env isr nid h s = Some (PDM_E_STATUS_OK, t) \<and> q_inv t \<and> asQueueMutex t \<and>
             q_abs t = q_abs s \<and> same_store s t"
  using queueSearch_abs [OF assms(1), of 0 "u8QueueReadPtr s" nid] assms
  by (auto simp: FS_eSaveRecordDataInIdleTask_def pdm_ready_def q_inv_def q_abs_def q_count_def same_store_def Let_def)

text \<open>A new identifier goes into the slot of the write pointer, also when that makes the pointers meet.\<close>

lemma request_new:
  assumes "q_inv s" and "pdm_ready env s" and "nid \<notin> u16IdValue ` set (q_abs s)"
  shows "\<exists>t. FS_eSaveRecordDataInIdleTask env isr nid h s = Some (PDM_E_STATUS_OK, t) \<and> q_inv t \<and> asQueueMutex t \<and>
             q_abs t = (if q_count s < 15 then q_abs s @ [\<lparr>pvDataBuffer = h, u16IdValue = nid\<rparr>] else []) \<and> same_store s t"
proof -
  let ?w = "u8QueueWritePtr s" and ?r = "unat (u8QueueReadPtr s)"
  define t where "t = s\<lparr>asQueueMutex := True, asQueue := (asQueue s)[unat ?w := \<lparr>pvDataBuffer = h, u16IdValue = nid\<rparr>],
      u8QueueWritePtr := u8IncrementQueuePtr ?w, asQueueMutexTaken := (if isr then asQueueMutexTaken s else False)\<rparr>"
  have ptr: "unat (u8QueueReadPtr s) < 16" "unat ?w < 16" "length (asQueue s) = 16" using assms(1) by (simp_all add: q_inv_def)
  have call: "FS_eSaveRecordDataInIdleTask env isr nid h s = Some (PDM_E_STATUS_OK, t)"
    using queueSearch_abs [OF assms(1), of 0 "u8QueueReadPtr s" nid] assms(2,3) ptr
    by (simp add: FS_eSaveRecordDataInIdleTask_def pdm_ready_def t_def Let_def)
  have w1: "unat (u8IncrementQueuePtr ?w) = (?r + (q_count s + 1)) mod 16"
    using unat_increment [OF ptr(2)] q_write_ptr [OF assms(1)] by (simp add: mod_Suc_eq)
  have inv: "q_inv t" using ptr w1 by (simp add: q_inv_def t_def)
  have cnt: "q_count t = (q_count s + 1) mod 16"
    using w1 q_span [OF ptr(1), of "q_count s + 1"] by (simp add: q_count_def [of t]) (simp add: t_def)
  have "q_abs t = (if q_count s < 15 then q_abs s @ [\<lparr>pvDataBuffer = h, u16IdValue = nid\<rparr>] else [])"
  proof (cases "q_count s < 15")
    case True
    have "asQueue t ! ((?r + i) mod 16) = (if i < q_count s then asQueue s ! ((?r + i) mod 16) else \<lparr>pvDataBuffer = h, u16IdValue = nid\<rparr>)"
      if "i \<le> q_count s" for i
      using that True q_slot_inj [of i "q_count s" ?r] q_write_ptr [OF assms(1)] ptr by (auto simp: t_def nth_list_update)
    then show ?thesis using True cnt by (simp add: q_abs_def t_def)
  next
    case False
    then have "q_count s = 15" using q_count_less [of s] by simp
    then show ?thesis using cnt by (simp add: q_abs_def)
  qed
  moreover have "same_store s t" "asQueueMutex t" by (simp_all add: same_store_def t_def)
  ultimately show ?thesis using call inv by blast
qed

fun pdm_requests :: "'p pdm_env \<Rightarrow> (u16 \<times> nat) list \<Rightarrow> 'p pdm_sys \<Rightarrow> 'p pdm_sys option" where
  "pdm_requests env [] s = Some s"
| "pdm_requests env ((nid, h) # rs) s =
     do { (status, s1) \<leftarrow> FS_eSaveRecordDataInIdleTask env False nid h s; pdm_requests env rs s1 }"

lemma pdm_requests_abs:
  assumes "q_inv s" and "pdm_ready env s" and "distinct (map u16IdValue (q_abs s))"
    and "card (u16IdValue ` set (q_abs s) \<union> fst ` set rs) \<le> 15"
  shows "\<exists>t. pdm_requests env rs s = Some t \<and> q_inv t \<and> pdm_ready env t \<and> same_store s t \<and>
             distinct (map u16IdValue (q_abs t)) \<and> u16IdValue ` set (q_abs t) = u16IdValue ` set (q_abs s) \<union> fst ` set rs"
  using assms
proof (induction rs arbitrary: s)
  case Nil
  then show ?case by (simp add: same_store_def)
next
  case (Cons r rs)
  obtain nid h where r: "r = (nid, h)" by force
  let ?ids = "u16IdValue ` set (q_abs s)"
  have "\<exists>t. FS_eSaveRecordDataInIdleTask env False nid h s = Some (PDM_E_STATUS_OK, t) \<and> q_inv t \<and> asQueueMutex t \<and> same_store s t \<and>
             distinct (map u16IdValue (q_abs t)) \<and> u16IdValue ` set (q_abs t) = insert nid ?ids"
  proof (cases "nid \<in> ?ids")
    case True
    then show ?thesis using request_present [OF Cons.prems(1,2), of nid False h] Cons.prems(3) by auto
  next
    case False
    have "card (insert nid ?ids) \<le> card (?ids \<union> fst ` set (r # rs))" by (rule card_mono) (auto simp: r)
    moreover have "card ?ids = q_count s" using distinct_card [OF Cons.prems(3)] by simp
    ultimately have "q_count s < 15" using False Cons.prems(4) by simp
    then show ?thesis using request_new [OF Cons.prems(1,2) False, of False h] Cons.prems(3) False by auto
  qed
  then obtain t where t: "FS_eSaveRecordDataInIdleTask env False nid h s = Some (PDM_E_STATUS_OK, t)" "q_inv t" "asQueueMutex t" "same_store s t"
    "distinct (map u16IdValue (q_abs t))" "u16IdValue ` set (q_abs t) = insert nid ?ids" by blast
  have "card (u16IdValue ` set (q_abs t) \<union> fst ` set rs) \<le> 15" using Cons.prems(4) t(6) r by simp
  from Cons.IH [OF t(2) _ t(5) this] t(1,3,4,6) r show ?case by (auto simp: pdm_ready_def same_store_def)
qed

section \<open>Properties\<close>

text \<open>
  Save requests for at most fifteen different records are all kept: starting from an empty queue, every
  request returns and the queue ends up with exactly the requested identifiers, each once however often it
  was requested, and the stored records and the RAM buffers are untouched.
\<close>

theorem pdm_queue_keeps_requests:
  assumes "q_inv s" and "q_abs s = []" and "pdm_ready env s" and "card (fst ` set rs) \<le> 15"
  shows "\<exists>t. pdm_requests env rs s = Some t \<and> distinct (map u16IdValue (q_abs t)) \<and>
             u16IdValue ` set (q_abs t) = fst ` set rs \<and> same_store s t"
  using pdm_requests_abs [OF assms(1,3), of rs] assms(2,4) by auto

definition pdm_sample_env :: "(u16 \<Rightarrow> bytes option) pdm_env" where
  "pdm_sample_env =
     \<lparr>PDM_eSaveRecordData = \<lambda>p i xs. (PDM_E_STATUS_OK, p(i \<mapsto> xs)),
      PDM_eReadDataFromRecord = \<lambda>p i n. (case p i of None \<Rightarrow> (PDM_E_STATUS_INTERNAL_ERROR, [])
         | Some xs \<Rightarrow> if length xs \<le> unat n then (PDM_E_STATUS_OK, xs) else (PDM_E_STATUS_INTERNAL_ERROR, [])),
      PDM_bDoesDataExist = \<lambda>p i. map_option (\<lambda>xs. of_nat (length xs)) (p i),
      PDM_vDeleteDataRecord = \<lambda>p i. p(i := None), PDM_GetSegmentBufferSize = 80, PDM_Init = PDM_E_STATUS_OK,
      callocDescr = Some 1, callocBuffer = \<lambda>n. True, mallocSegment = \<lambda>n. True,
      otPlatRealloc = \<lambda>b n. Some (take (unat n) (b @ replicate (unat n) 0)), OSA_MutexCreate = True,
      tryLock = \<lambda>p h i. True\<rparr>"

definition pdm_sample_sys :: "(u16 \<Rightarrow> bytes option) pdm_sys" where
  "pdm_sample_sys = \<lparr>pdm = (\<lambda>_. None), descs = (\<lambda>_. None), sPdmSegmentSize = 80, sSegmentBuffer = Some (replicate 16 0),
     asQueue = replicate 16 \<lparr>pvDataBuffer = 0, u16IdValue = 0\<rparr>, u8QueueWritePtr = 0, u8QueueReadPtr = 0,
     asQueueMutex = False, asQueueMutexTaken = False\<rparr>"

lemma pdm_sample_facts: "q_inv pdm_sample_sys" "q_abs pdm_sample_sys = []" "pdm_ready pdm_sample_env pdm_sample_sys"
  by (simp_all add: q_inv_def q_abs_def q_count_def pdm_ready_def pdm_sample_sys_def pdm_sample_env_def)

theorem pdm_queue_keeps_requests_witness:
  "\<exists>t. pdm_requests pdm_sample_env [(3, 1), (5, 2), (3, 1)] pdm_sample_sys = Some t \<and>
       distinct (map u16IdValue (q_abs t)) \<and> u16IdValue ` set (q_abs t) = {3, 5}"
proof -
  have "card (set (map fst [(3 :: u16, 1 :: nat), (5, 2), (3, 1)])) \<le> length (map fst [(3 :: u16, 1 :: nat), (5, 2), (3, 1)])"
    by (rule card_length)
  then have "card (fst ` set [(3 :: u16, 1 :: nat), (5, 2), (3, 1)]) \<le> 15" by simp
  from pdm_queue_keeps_requests [OF pdm_sample_facts this] show ?thesis by (simp add: insert_commute) blast
qed

text \<open>
  The sixteenth different request empties the queue. With fifteen requests pending, a request for another
  record is accepted with success, the write pointer meets the read pointer, and all sixteen requests are gone,
  although nothing has been written.
\<close>

theorem pdm_queue_sixteenth_request_drops_all:
  assumes "q_inv s" and "length (q_abs s) = 15" and "pdm_ready env s" and "nid \<notin> u16IdValue ` set (q_abs s)"
  shows "\<exists>t. FS_eSaveRecordDataInIdleTask env isr nid h s = Some (PDM_E_STATUS_OK, t) \<and> q_abs t = [] \<and>
             same_store s t \<and> FS_vIdleTask env n t = Some t"
proof -
  from request_new [OF assms(1,3,4), of isr h] assms(2) obtain t where
    t: "FS_eSaveRecordDataInIdleTask env isr nid h s = Some (PDM_E_STATUS_OK, t)" "q_inv t" "q_abs t = []" "same_store s t" by auto
  have "q_count t = 0" using length_q_abs [of t] t(3) by simp
  then have "u8QueueReadPtr t = u8QueueWritePtr t" using q_write_ptr [OF t(2)] t(2) by (simp add: q_inv_def word_unat_eq_iff)
  then have "idleLoop env k t = Some t" for k by (cases k) simp_all
  then show ?thesis using t by (simp add: FS_vIdleTask_def)
qed

definition pdm_full_sample :: "(u16 \<Rightarrow> bytes option) pdm_sys" where
  "pdm_full_sample = pdm_sample_sys\<lparr>asQueue := map (\<lambda>i. \<lparr>pvDataBuffer = i, u16IdValue = of_nat i\<rparr>) [0..<16], u8QueueWritePtr := 15\<rparr>"

lemma pdm_full_sample_abs: "q_abs pdm_full_sample = map (\<lambda>i. \<lparr>pvDataBuffer = i, u16IdValue = of_nat i\<rparr>) [0..<15]"
  by (simp add: q_abs_def q_count_def pdm_full_sample_def pdm_sample_sys_def)

theorem pdm_queue_sixteenth_request_drops_all_witness:
  "length (q_abs pdm_full_sample) = 15 \<and>
   (\<exists>t. FS_eSaveRecordDataInIdleTask pdm_sample_env False 15 15 pdm_full_sample = Some (PDM_E_STATUS_OK, t) \<and> q_abs t = [])"
proof -
  have len: "length (q_abs pdm_full_sample) = 15" by (simp only: pdm_full_sample_abs) simp
  have "(15 :: u16) \<notin> u16IdValue ` set (q_abs pdm_full_sample)"
    unfolding pdm_full_sample_abs by (simp add: upt_rec)
  moreover have "q_inv pdm_full_sample" "pdm_ready pdm_sample_env pdm_full_sample"
    by (simp_all add: q_inv_def pdm_ready_def pdm_full_sample_def pdm_sample_sys_def pdm_sample_env_def)
  ultimately show ?thesis
    using pdm_queue_sixteenth_request_drops_all [of pdm_full_sample pdm_sample_env 15 False 15] len by blast
qed

end
