(* ===== verification/Pdm_Store.thy ===== *)
theory Pdm_Store
  imports Pdm_Queue
begin

text \<open>
  What \<^verbatim>\<open>src/k32w0/platform/pdm_ram_storage_glue.c\<close> writes to the PDM and reads back: a RAM buffer is cut into
  segments that go to consecutive record identifiers, and loading concatenates the records that follow the
  first one.
\<close>

section \<open>The PDM, a parameter\<close>

text \<open>
  \<open>content p i\<close> is record \<open>i\<close>: a save that reports success stores the bytes and touches no other record, a
  read returns the whole record when it fits, and a delete removes one record.
\<close>

definition pdm_documented :: "'p pdm_env \<Rightarrow> ('p \<Rightarrow> u16 \<Rightarrow> bytes option) \<Rightarrow> bool" where
  "pdm_documented env content \<longleftrightarrow>
     (\<forall>p i xs. fst (PDM_eSaveRecordData env p i xs) = PDM_E_STATUS_OK \<longrightarrow>
               content (snd (PDM_eSaveRecordData env p i xs)) = (content p)(i \<mapsto> xs)) \<and>
     (\<forall>p i xs n. content p i = Some xs \<longrightarrow> length xs \<le> unat n \<longrightarrow>
               PDM_eReadDataFromRecord env p i n = (PDM_E_STATUS_OK, xs)) \<and>
     (\<forall>p i. PDM_bDoesDataExist env p i = map_option (\<lambda>xs. of_nat (length xs)) (content p i)) \<and>
     (\<forall>p i. content (PDM_vDeleteDataRecord env p i) = (content p)(i := None))"

text \<open>The idle task gets the mutexes and the PDM accepts the records.\<close>

definition pdm_saves :: "'p pdm_env \<Rightarrow> bool" where
  "pdm_saves env \<longleftrightarrow> (\<forall>p i xs. fst (PDM_eSaveRecordData env p i xs) = PDM_E_STATUS_OK) \<and> (\<forall>p h i. tryLock env p h i)"

text \<open>Memory is available.\<close>

definition pdm_memory :: "'p pdm_env \<Rightarrow> bool" where
  "pdm_memory env \<longleftrightarrow> callocDescr env \<noteq> None \<and> OSA_MutexCreate env \<and> (\<forall>n. callocBuffer env n)"

lemma sample_pdm: "pdm_documented pdm_sample_env (\<lambda>p. p)" "pdm_saves pdm_sample_env" "pdm_memory pdm_sample_env"
  by (simp_all add: pdm_documented_def pdm_saves_def pdm_memory_def pdm_sample_env_def)

section \<open>Saving\<close>

definition chunk :: "nat \<Rightarrow> bytes \<Rightarrow> nat \<Rightarrow> bytes" where
  "chunk n xs j = take n (drop (j * n) xs)"

lemma concat_chunks: "length xs \<le> k * n \<Longrightarrow> concat (map (chunk n xs) [0..<k]) = xs"
proof -
  have "concat (map (chunk n xs) [0..<k]) = take (k * n) xs"
    by (induction k) (simp_all add: chunk_def take_add add.commute [of n])
  then show "length xs \<le> k * n \<Longrightarrow> concat (map (chunk n xs) [0..<k]) = xs" by simp
qed

text \<open>The state after a save differs in the PDM and the staging buffer only.\<close>

definition saved_from :: "'p pdm_sys \<Rightarrow> 'p pdm_sys \<Rightarrow> bool" where
  "saved_from s t \<longleftrightarrow> (\<exists>p b. t = s\<lparr>pdm := p, sSegmentBuffer := b\<rparr> \<and> map_option length b = map_option length (sSegmentBuffer s))"

lemma saved_from_refl [simp]: "saved_from s s"
  unfolding saved_from_def by (rule exI [of _ "pdm s"], rule exI [of _ "sSegmentBuffer s"]) simp

lemma saved_from_trans: "saved_from s t \<Longrightarrow> saved_from t u \<Longrightarrow> saved_from s u"
  unfolding saved_from_def by fastforce

text \<open>One round of the loop saves one chunk.\<close>

lemma saveLoop_round:
  assumes "pdm_documented env content" and "pdm_saves env" and "descs s h = Some d" and "buffer d = Some buf"
    and "unat (PDM_SEGMENT_SIZE s) = S" and "S < 65536" and "map_option length (sSegmentBuffer s) = Some S"
    and "i * S + unat len = N" and "N \<le> length buf"
  shows "\<exists>s1 size. saveLoop env h nid i (Suc n) len s = saveLoop env h nid (Suc i) n (len - size) s1 \<and>
    unat size = min (unat len) S \<and> saved_from s s1 \<and> content (pdm s1) = (content (pdm s))(nid + of_nat i \<mapsto> chunk S (take N buf) i)"
proof -
  obtain seg where seg: "sSegmentBuffer s = Some seg" "length seg = S" using assms(7) by auto
  define size :: u16 where "size = (if unat len < unat (PDM_SEGMENT_SIZE s) then len else ucast (PDM_SEGMENT_SIZE s))"
  have sz: "unat size = min (unat len) S"
    using assms(5,6) by (auto simp: size_def unsigned_ucast_eq take_bit_eq_mod)
  let ?xs = "take (unat size) (drop (i * S) buf)"
  have len_xs: "length ?xs = unat size" using assms(8,9) sz by simp
  have "N - i * S = unat len" using assms(8) by simp
  then have xs: "?xs = chunk S (take N buf) i"
    by (simp add: chunk_def sz drop_take min.commute)
  have rd: "rd_bytes (i * S) (unat size) buf = Some ?xs"
    using assms(8,9) sz by (simp add: rd_bytes_def)
  obtain seg1 where seg1: "wr_bytes 0 ?xs seg = Some seg1" "take (unat size) seg1 = ?xs" "length seg1 = S"
    using seg(2) len_xs sz by (simp add: wr_bytes_def)
  obtain p where p: "PDM_eSaveRecordData env (pdm s) (nid + of_nat i) ?xs = (PDM_E_STATUS_OK, p)"
    using assms(2) by (metis pdm_saves_def prod.collapse)
  have cp: "content p = (content (pdm s))(nid + of_nat i \<mapsto> ?xs)"
    using assms(1) p unfolding pdm_documented_def by (metis fst_conv snd_conv)
  define s1 where "s1 = s\<lparr>sSegmentBuffer := Some seg1, pdm := p\<rparr>"
  have "saveLoop env h nid i (Suc n) len s = saveLoop env h nid (Suc i) n (len - size) s1"
    unfolding saveLoop.simps Let_def size_def [symmetric]
    using assms(2-5) rd seg seg1 p by (simp add: pdm_saves_def s1_def)
  moreover have "saved_from s s1"
    unfolding saved_from_def s1_def by (rule exI [of _ p], rule exI [of _ "Some seg1"]) (use seg seg1(3) in simp)
  ultimately show ?thesis using sz cp xs by (intro exI [of _ s1] exI [of _ size]) (simp add: s1_def)
qed

text \<open>The lengths that are left after a round.\<close>

lemma saveLoop_left:
  assumes "i * S + len = N" and "len \<le> Suc n * S" and "n * S < len" and "left = len - min len S"
  shows "(n \<noteq> 0 \<longrightarrow> Suc i * S + left = N) \<and> left \<le> n * S \<and> (n \<noteq> 0 \<longrightarrow> (n - 1) * S < left)"
proof (cases n)
  case (Suc m)
  then have "S \<le> n * S" by simp
  then have "S < len" using assms(3) by linarith
  then show ?thesis using assms Suc by (simp add: algebra_simps) linarith
qed (use assms in simp)

lemma saved_from_keeps:
  "saved_from s t \<Longrightarrow> descs t = descs s \<and> PDM_SEGMENT_SIZE t = PDM_SEGMENT_SIZE s \<and>
     map_option length (sSegmentBuffer t) = map_option length (sSegmentBuffer s)"
  by (auto simp: saved_from_def PDM_SEGMENT_SIZE_def)

lemma saveLoop_saves:
  assumes "pdm_documented env content" and "pdm_saves env" and "descs s h = Some d" and "buffer d = Some buf"
    and "unat (PDM_SEGMENT_SIZE s) = S" and "S < 65536" and "map_option length (sSegmentBuffer s) = Some S"
    and "n \<noteq> 0 \<longrightarrow> i * S + unat len = N" and "N \<le> length buf" and "unat len \<le> n * S" and "n \<noteq> 0 \<longrightarrow> (n - 1) * S < unat len"
    and "unat nid + i + n \<le> 65536"
  shows "\<exists>t. saveLoop env h nid i n len s = Some t \<and> saved_from s t \<and>
    content (pdm t) = (\<lambda>a. if unat nid + i \<le> unat a \<and> unat a < unat nid + i + n
                           then Some (chunk S (take N buf) (unat a - unat nid)) else content (pdm s) a)"
  using assms(3,5,7,8,10-12)
proof (induction n arbitrary: i len s)
  case 0
  then show ?case by (auto simp: fun_eq_iff)
next
  case (Suc n)
  from saveLoop_round [OF assms(1,2) Suc.prems(1) assms(4) Suc.prems(2) assms(6) Suc.prems(3) _ assms(9), of i len nid n] Suc.prems(4)
  obtain s1 size where run: "saveLoop env h nid i (Suc n) len s = saveLoop env h nid (Suc i) n (len - size) s1"
    and sz: "unat size = min (unat len) S" and s1: "saved_from s s1"
    and c1: "content (pdm s1) = (content (pdm s))(nid + of_nat i \<mapsto> chunk S (take N buf) i)" by auto
  have "unat (len - size) = unat len - min (unat len) S" using sz by (simp add: unat_sub word_le_nat_alt)
  from saveLoop_left [OF _ Suc.prems(5) _ this] Suc.prems(4,6) obtain t where
    t: "saveLoop env h nid (Suc i) n (len - size) s1 = Some t" "saved_from s1 t"
    "content (pdm t) = (\<lambda>a. if unat nid + Suc i \<le> unat a \<and> unat a < unat nid + Suc i + n
                           then Some (chunk S (take N buf) (unat a - unat nid)) else content (pdm s1) a)"
    using Suc.IH [of s1 "Suc i" "len - size"] Suc.prems(1-3,7) saved_from_keeps [OF s1] by auto
  have key: "unat (nid + of_nat i) = unat nid + i" using Suc.prems(7) by (simp add: unat_word_ariths unat_of_nat)
  have eq: "a = nid + of_nat i \<longleftrightarrow> unat a = unat nid + i" for a using key by (simp add: word_unat_eq_iff)
  have "content (pdm t) = (\<lambda>a. if unat nid + i \<le> unat a \<and> unat a < unat nid + i + Suc n
                           then Some (chunk S (take N buf) (unat a - unat nid)) else content (pdm s) a)"
    unfolding t(3) using eq by (auto simp: fun_eq_iff c1)
  moreover have "saved_from s t" by (rule saved_from_trans [OF s1 t(2)])
  ultimately show ?case unfolding run t(1) by (intro exI [of _ t]) simp
qed


definition pdm_segments :: "'p pdm_sys \<Rightarrow> nat \<Rightarrow> nat" where
  "pdm_segments s n = (n + unat (PDM_SEGMENT_SIZE s) - 1) div unat (PDM_SEGMENT_SIZE s)"

lemma segments_bounds:
  assumes "0 < (S :: nat)"
  shows "n \<le> (n + S - 1) div S * S" and "(n + S - 1) div S \<noteq> 0 \<longrightarrow> ((n + S - 1) div S - 1) * S < n"
proof -
  define k where "k = (n + S - 1) div S"
  have "k * S \<le> n + S - 1" "n + S - 1 < k * S + S"
    using div_mult_mod_eq [of "n + S - 1" S] mod_less_divisor [OF assms, of "n + S - 1"] unfolding k_def by linarith+
  then show "n \<le> (n + S - 1) div S * S" "(n + S - 1) div S \<noteq> 0 \<longrightarrow> ((n + S - 1) div S - 1) * S < n"
    using assms unfolding k_def [symmetric] by (cases k; simp add: algebra_simps; linarith)+
qed

lemma segments_single: "n \<le> S \<Longrightarrow> 0 < (S :: nat) \<Longrightarrow> (n + S - 1) div S = (if n = 0 then 0 else 1)"
proof (cases n)
  case (Suc m)
  moreover assume "n \<le> S" "0 < S"
  ultimately have "n + S - 1 = m + S" "m < S" by simp_all
  then show ?thesis using Suc \<open>0 < S\<close> by (simp only: div_add_self2) simp
qed simp

text \<open>What can be saved: a buffer in memory, a staging buffer of one segment, and room for the identifiers.\<close>

definition pdm_savable :: "'p pdm_sys \<Rightarrow> nat \<Rightarrow> u16 \<Rightarrow> bytes \<Rightarrow> bool" where
  "pdm_savable s h nid xs \<longleftrightarrow>
     (\<exists>d buf. descs s h = Some d \<and> buffer d = Some buf \<and> length xs = unat (hLength (header d)) \<and>
              length xs \<le> length buf \<and> xs = take (length xs) buf) \<and>
     0 < unat (PDM_SEGMENT_SIZE s) \<and> unat (PDM_SEGMENT_SIZE s) < 65536 \<and>
     map_option length (sSegmentBuffer s) = Some (unat (PDM_SEGMENT_SIZE s)) \<and>
     pdm_segments s (length xs) < 256 \<and> unat nid + pdm_segments s (length xs) \<le> 65536"

lemma FS_SaveRecordData_saves:
  assumes "pdm_documented env content" and "pdm_saves env" and "pdm_savable s (pvDataBuffer e) nid xs" and "nid = u16IdValue e"
  shows "\<exists>t. FS_SaveRecordData env e s = Some t \<and> saved_from s t \<and>
    content (pdm t) = (\<lambda>a. if unat nid \<le> unat a \<and> unat a < unat nid + pdm_segments s (length xs)
                           then Some (chunk (unat (PDM_SEGMENT_SIZE s)) xs (unat a - unat nid)) else content (pdm s) a)"
proof -
  let ?S = "unat (PDM_SEGMENT_SIZE s)" and ?k = "pdm_segments s (length xs)"
  from assms(3) obtain d buf where d: "descs s (pvDataBuffer e) = Some d" "buffer d = Some buf" "length xs = unat (hLength (header d))"
    "length xs \<le> length buf" "xs = take (length xs) buf" by (auto simp: pdm_savable_def)
  have S: "0 < ?S" "?S < 65536" "map_option length (sSegmentBuffer s) = Some ?S" "?k < 256" "unat nid + ?k \<le> 65536"
    using assms(3) by (auto simp: pdm_savable_def)
  let ?len = "hLength (header d)"
  have "unat (ucast ?len + PDM_SEGMENT_SIZE s - 1 :: u32) = length xs + ?S - 1"
  proof -
    have "unat (ucast ?len :: u32) = length xs" using d(3) unat_u16_less [of ?len] by (simp add: unsigned_ucast_eq take_bit_eq_mod)
    moreover have "length xs < 65536" using d(3) unat_u16_less [of ?len] by simp
    ultimately have "unat (ucast ?len + PDM_SEGMENT_SIZE s :: u32) = length xs + ?S"
      using S(2) by (simp add: unat_word_ariths)
    moreover from this have "1 \<le> (ucast ?len + PDM_SEGMENT_SIZE s :: u32)" using S(1) by (simp add: word_le_nat_alt)
    ultimately show ?thesis by (simp add: unat_sub)
  qed
  then have "unat (ucast ((ucast ?len + PDM_SEGMENT_SIZE s - 1) div PDM_SEGMENT_SIZE s) :: u8) = ?k"
    using S(4) by (simp add: unsigned_ucast_eq take_bit_eq_mod unat_div pdm_segments_def)
  moreover have "PDM_SEGMENT_SIZE s \<noteq> 0" using S(1) by auto
  ultimately have run: "FS_SaveRecordData env e s = saveLoop env (pvDataBuffer e) nid 0 ?k ?len s"
    using d(1) assms(4) by (simp add: FS_SaveRecordData_def Let_def)
  note b = segments_bounds [OF S(1), of "length xs", folded pdm_segments_def]
  have xs: "take (length xs) buf = xs" using d(5) by simp
  from saveLoop_saves [OF assms(1,2) d(1,2) refl S(2,3) _ d(4), where i = 0 and len = ?len and n = ?k and nid = nid, unfolded xs]
  show ?thesis unfolding run using b S(5) d(3) [symmetric] by simp
qed


section \<open>Loading\<close>

lemma growLoop_fits:
  assumes "unat len + 512 \<le> 65536"
  shows "\<exists>c. growLoop len cap = Some c \<and> len \<le> c \<and> (c = cap \<or> unat c < unat len + 512)"
proof (induction "unat len - unat cap" arbitrary: cap rule: less_induct)
  case less
  show ?case
  proof (cases "len > cap")
    case False
    then show ?thesis by (subst growLoop.simps) simp
  next
    case True
    then have cap: "unat cap < unat len" by (simp add: word_less_nat_alt)
    then have n: "unat (cap + kRamBufferReallocSize) = unat cap + 512"
      using assms by (simp add: kRamBufferReallocSize_def unat_word_ariths)
    have "unat len - unat (cap + kRamBufferReallocSize) < unat len - unat cap" using n cap by linarith
    from less [OF this] obtain c where
      c: "growLoop len (cap + kRamBufferReallocSize) = Some c" "len \<le> c"
      "c = cap + kRamBufferReallocSize \<or> unat c < unat len + 512" by blast
    then show ?thesis using True n cap by (subst growLoop.simps) auto
  qed
qed

text \<open>The records \<open>recs\<close> are stored under consecutive identifiers from \<open>nid\<close> on.\<close>

definition stored_at :: "(u16 \<Rightarrow> bytes option) \<Rightarrow> u16 \<Rightarrow> bytes list \<Rightarrow> bool" where
  "stored_at c nid recs \<longleftrightarrow> (\<forall>j < length recs. c (nid + of_nat j) = Some (recs ! j))"

lemma stored_at_Cons: "stored_at c nid (r # recs) \<longleftrightarrow> c nid = Some r \<and> stored_at c (nid + 1) recs"
proof -
  have "nid + of_nat (Suc j) = (nid + 1) + of_nat j" for j :: nat by simp
  then show ?thesis unfolding stored_at_def length_Cons All_less_Suc2 by (simp add: add.assoc del: of_nat_Suc)
qed

lemma existLoop_counts:
  assumes "pdm_documented env content" and "stored_at (content p) (nid + counter) recs"
    and "content p (nid + counter + of_nat (length recs)) = None"
  shows "existLoop env p nid True counter len =
    Some (counter + of_nat (length recs), len + of_nat (length (concat recs)))"
  using assms(2,3)
proof (induction recs arbitrary: counter len)
  case Nil
  then show ?case using assms(1) by (subst existLoop.simps) (simp add: pdm_documented_def)
next
  case (Cons r recs)
  from Cons.prems(1) have r: "content p (nid + counter) = Some r" "stored_at (content p) (nid + (counter + 1)) recs"
    by (simp_all add: stored_at_Cons add.assoc)
  moreover have "content p (nid + (counter + 1) + of_nat (length recs)) = None" using Cons.prems(2) by (simp add: add.assoc)
  ultimately show ?case
    using Cons.IH [of "counter + 1"] assms(1) by (subst existLoop.simps) (simp add: pdm_documented_def add.assoc)
qed

lemma loadLoop_loads:
  assumes "pdm_documented env content" and "stored_at (content p) i recs" and "unat i + length recs = lim" and "lim < 65536"
    and "unat len + length (concat recs) \<le> unat cap" and "length buf = unat cap"
  shows "\<exists>buf1. loadLoop env p lim cap i buf len = Some (PDM_E_STATUS_OK, buf1, len + of_nat (length (concat recs))) \<and>
    length buf1 = length buf \<and>
    take (unat len + length (concat recs)) buf1 = take (unat len) buf @ concat recs"
  using assms(2,3,5,6)
proof (induction recs arbitrary: i buf len)
  case Nil
  then show ?case by (subst loadLoop.simps) simp
next
  case (Cons r recs)
  from Cons.prems(1) have r: "content p i = Some r" "stored_at (content p) (i + 1) recs" by (simp_all add: stored_at_Cons)
  have "unat (cap - len) = unat cap - unat len" using Cons.prems(3) by (simp add: unat_sub word_le_nat_alt)
  then have rd: "PDM_eReadDataFromRecord env p i (cap - len) = (PDM_E_STATUS_OK, r)"
    using assms(1) r(1) Cons.prems(3) by (simp add: pdm_documented_def)
  define buf1 where "buf1 = take (unat len) buf @ r @ drop (unat len + length r) buf"
  have wr: "wr_bytes (unat len) r buf = Some buf1" using Cons.prems(3,4) by (simp add: wr_bytes_def buf1_def)
  have len1: "unat (len + of_nat (length r)) = unat len + length r"
    using Cons.prems(3) unat_u16_less [of cap] by (simp add: unat_word_ariths unat_of_nat)
  have i1: "unat (i + 1) = unat i + 1" using Cons.prems(2) assms(4) by (simp add: unat_word_ariths)
  have buf1: "length buf1 = length buf" using Cons.prems(3,4) by (simp add: buf1_def)
  from Cons.IH [OF r(2), where buf = buf1 and len = "len + of_nat (length r)"] i1 len1 Cons.prems buf1 obtain buf2 where
    "loadLoop env p lim cap (i + 1) buf1 (len + of_nat (length r)) =
       Some (PDM_E_STATUS_OK, buf2, len + of_nat (length r) + of_nat (length (concat recs)))"
    "length buf2 = length buf" "take (unat len + length r + length (concat recs)) buf2 = take (unat len + length r) buf1 @ concat recs"
    by auto
  moreover have "take (unat len + length r) buf1 = take (unat len) buf @ r" using Cons.prems(3,4) by (simp add: buf1_def)
  ultimately show ?case using Cons.prems(2) rd wr by (subst loadLoop.simps) (simp add: add.assoc)
qed


text \<open>The static variables at power-on, over the records that are in flash.\<close>

definition pdm_boot :: "'p \<Rightarrow> 'p pdm_sys" where
  "pdm_boot p = \<lparr>pdm = p, descs = (\<lambda>_. None), sPdmSegmentSize = 0, sSegmentBuffer = None,
     asQueue = replicate 16 \<lparr>pvDataBuffer = 0, u16IdValue = 0\<rparr>, u8QueueWritePtr = 0, u8QueueReadPtr = 0,
     asQueueMutex = False, asQueueMutexTaken = False\<rparr>"

text \<open>A descriptor whose buffer holds the bytes \<open>xs\<close>.\<close>

definition descr_holds :: "ramBufferDescriptor \<Rightarrow> bytes \<Rightarrow> bool" where
  "descr_holds d xs \<longleftrightarrow> unat (hLength (header d)) = length xs \<and> length xs \<le> unat (maxLength (header d)) \<and>
     (\<exists>buf. buffer d = Some buf \<and> length buf = unat (maxLength (header d)) \<and> take (length xs) buf = xs)"

text \<open>No record follows the last one of \<open>recs\<close>, as far as the search looks.\<close>

definition search_ends :: "bool \<Rightarrow> (u16 \<Rightarrow> bytes option) \<Rightarrow> u16 \<Rightarrow> nat \<Rightarrow> bool" where
  "search_ends ext c nid n \<longleftrightarrow> (if ext \<or> n = 0 then c (nid + of_nat n) = None else n = 1)"

lemma existLoop_ends:
  assumes "pdm_documented env content" and "stored_at (content p) nid recs" and "search_ends ext (content p) nid (length recs)"
  shows "existLoop env p nid ext 0 0 = Some (of_nat (length recs), of_nat (length (concat recs)))"
proof (cases "ext")
  case True
  then show ?thesis using existLoop_counts [OF assms(1), of p nid 0 recs 0] assms(2,3) by (simp add: search_ends_def)
next
  case False
  then consider "recs = []" "content p nid = None" | r where "recs = [r]"
    using assms(3) by (cases recs) (auto simp: search_ends_def)
  then show ?thesis
    using assms(1,2) False by cases (subst existLoop.simps; simp add: pdm_documented_def stored_at_Cons)+
qed

lemma getRamBuffer_loads:
  assumes doc: "pdm_documented env content" and mem: "pdm_memory env" "callocDescr env = Some h"
    and seg: "PDM_RetrieveSegmentSize env s = (True, s1)"
    and st: "stored_at (content (pdm s)) nid recs" "search_ends ext (content (pdm s)) nid (length recs)"
    and b: "unat nid + length recs < 65536" "length (concat recs) \<le> 11776" "unat initial \<le> 12288"
  shows "\<exists>d. getRamBuffer env nid initial ext s = Some (Some h, s1\<lparr>descs := (descs s1)(h \<mapsto> d)\<rparr>) \<and>
    descr_holds d (concat recs) \<and> extendedSearch (header d) = ext \<and>
    backendRegionSize (header d) = ucast (PDM_SEGMENT_SIZE s1)"
proof -
  let ?L = "length (concat recs)" and ?n = "length recs"
  have p1: "pdm s1 = pdm s" using seg by (auto simp: PDM_RetrieveSegmentSize_def split: if_splits)
  have L: "unat (of_nat ?L :: u16) = ?L" using b(2) by (simp add: unat_of_nat)
  have n: "unat (of_nat ?n :: u16) = ?n" using b(1) by (simp add: unat_of_nat)
  from growLoop_fits [of "of_nat ?L" initial] L b(2) obtain c where
    c: "growLoop (of_nat ?L) initial = Some c" "of_nat ?L \<le> c" "c = initial \<or> unat c < ?L + 512" by auto
  have cap: "?L \<le> unat c" "\<not> c > kRamBufferMaxAllocSize"
    using c(2,3) L b(2,3) by (auto simp: word_le_nat_alt word_less_nat_alt kRamBufferMaxAllocSize_def)
  define d1 where "d1 = \<lparr>header = \<lparr>hLength = of_nat ?L, maxLength = c, extendedSearch = ext,
     backendRegionSize = ucast (PDM_SEGMENT_SIZE s1)\<rparr>, buffer = Some (replicate (unat c) (0 :: u8))\<rparr>"
  have "\<exists>d. (if of_nat ?n > (0 :: u16) then loadData env nid (of_nat ?n) d1 (pdm s) else Some (d1, pdm s)) = Some (d, pdm s) \<and>
    descr_holds d (concat recs) \<and> extendedSearch (header d) = ext \<and> backendRegionSize (header d) = ucast (PDM_SEGMENT_SIZE s1)"
  proof (cases "recs = []")
    case True
    then show ?thesis by (simp add: d1_def descr_holds_def)
  next
    case False
    then have "of_nat ?n > (0 :: u16)" using n by (simp add: word_less_nat_alt)
    moreover obtain buf1 where "loadLoop env (pdm s) (unat nid + ?n) c nid (replicate (unat c) 0) 0 =
        Some (PDM_E_STATUS_OK, buf1, of_nat ?L)" "length buf1 = unat c" "take ?L buf1 = concat recs"
      using loadLoop_loads [OF doc st(1) refl b(1), of 0 c "replicate (unat c) 0"] cap(1) by auto
    moreover have "\<not> c < of_nat ?L" using c(2) by simp
    ultimately show ?thesis
      using n L cap(1) by (simp add: loadData_def d1_def descr_holds_def)
  qed
  then obtain d where "(if of_nat ?n > (0 :: u16) then loadData env nid (of_nat ?n) d1 (pdm s) else Some (d1, pdm s)) = Some (d, pdm s)"
    and d: "descr_holds d (concat recs)" "extendedSearch (header d) = ext" "backendRegionSize (header d) = ucast (PDM_SEGMENT_SIZE s1)"
    by blast
  then have "getRamBuffer env nid initial ext s = Some (Some h, s1\<lparr>pdm := pdm s, descs := (descs s1)(h \<mapsto> d)\<rparr>)"
    using seg mem existLoop_ends [OF doc st] c(1) cap(2)
    by (auto simp: getRamBuffer_def pdm_memory_def doesDataExist_def p1 Let_def d1_def [symmetric] split: if_splits)
  moreover have "s1\<lparr>pdm := pdm s, descs := (descs s1)(h \<mapsto> d)\<rparr> = s1\<lparr>descs := (descs s1)(h \<mapsto> d)\<rparr>" using p1 by simp
  ultimately show ?thesis using d by auto
qed


section \<open>Saving and loading\<close>

lemma segments_stored:
  fixes nid :: u16
  assumes "unat nid + k \<le> 65536"
    and "c = (\<lambda>a. if unat nid \<le> unat a \<and> unat a < unat nid + k then Some (chunk n xs (unat a - unat nid)) else c0 a)"
  shows "stored_at c nid (map (chunk n xs) [0..<k])"
proof -
  have "unat (nid + of_nat j) = unat nid + j" if "j < k" for j
    using that assms(1) by (simp add: unat_word_ariths unat_of_nat)
  then show ?thesis by (simp add: stored_at_def assms(2))
qed

lemma segments_next:
  fixes nid :: u16
  assumes "unat nid + k < 65536"
    and "c = (\<lambda>a. if unat nid \<le> unat a \<and> unat a < unat nid + k then Some (chunk n xs (unat a - unat nid)) else c0 a)"
    and "k \<le> j" and "unat nid + j < 65536"
  shows "c (nid + of_nat j) = c0 (nid + of_nat j)"
proof -
  have "unat (nid + of_nat j) = unat nid + j" using assms(4) by (simp add: unat_word_ariths unat_of_nat)
  then show ?thesis using assms(3) by (simp add: assms(2))
qed

lemma boot_segment_size:
  "PDM_GetSegmentBufferSize env > PDM_SEGMENT_MARGIN \<Longrightarrow>
   PDM_RetrieveSegmentSize env (pdm_boot p) = (True, (pdm_boot p)\<lparr>sPdmSegmentSize := PDM_GetSegmentBufferSize env\<rparr>)"
  by (simp add: PDM_RetrieveSegmentSize_def pdm_boot_def)

text \<open>
  A save followed by a reboot and a load gives the saved bytes, then whatever records followed before.
\<close>

lemma save_then_load:
  assumes "pdm_documented env content" and "pdm_saves env" and "pdm_memory env" and "callocDescr env = Some h1"
    and "PDM_GetSegmentBufferSize env > PDM_SEGMENT_MARGIN"
    and sv: "pdm_savable s (pvDataBuffer e) (u16IdValue e) xs" and k: "k = pdm_segments s (length xs)"
    and "stored_at (content (pdm s)) (u16IdValue e + of_nat k) rest"
    and ends: "search_ends ext (content (pdm s)) (u16IdValue e) (k + length rest)" and "ext \<or> rest = [] \<and> k = 1"
    and "unat (u16IdValue e) + k + length rest < 65536" and "length xs + length (concat rest) \<le> 11776" and "unat initial \<le> 12288"
  shows "\<exists>t d u. FS_SaveRecordData env e s = Some t \<and>
    getRamBuffer env (u16IdValue e) initial ext (pdm_boot (pdm t)) = Some (Some h1, u) \<and>
    descs u h1 = Some d \<and> descr_holds d (xs @ concat rest)"
proof -
  let ?S = "unat (PDM_SEGMENT_SIZE s)" and ?nid = "u16IdValue e"
  from FS_SaveRecordData_saves [OF assms(1,2) sv refl] obtain t where
    t: "FS_SaveRecordData env e s = Some t" and
    c: "content (pdm t) = (\<lambda>a. if unat ?nid \<le> unat a \<and> unat a < unat ?nid + k then Some (chunk ?S xs (unat a - unat ?nid)) else content (pdm s) a)"
    using k by auto
  let ?recs = "map (chunk ?S xs) [0..<k] @ rest"
  have lt: "unat ?nid + k < 65536" using assms(11) by simp
  note nxt = segments_next [OF lt c]
  have "stored_at (content (pdm t)) ?nid ?recs"
  proof -
    have "content (pdm t) (?nid + of_nat j) = Some (?recs ! j)" if j: "j < k + length rest" for j
    proof (cases "j < k")
      case True
      then show ?thesis using segments_stored [OF _ c] lt by (simp add: stored_at_def nth_append)
    next
      case False
      then obtain i where i: "j = k + i" "i < length rest" using j by (metis add_diff_inverse_nat nat_add_left_cancel_less)
      then have "content (pdm t) (?nid + of_nat j) = content (pdm s) (?nid + of_nat j)" using nxt [of j] assms(11) by simp
      then show ?thesis using assms(8) i by (simp add: stored_at_def nth_append add.assoc)
    qed
    then show ?thesis by (simp add: stored_at_def)
  qed
  moreover have "search_ends ext (content (pdm t)) ?nid (length ?recs)"
    using ends nxt [of "k + length rest"] assms(10,11) by (auto simp: search_ends_def)
  moreover have "concat ?recs = xs @ concat rest"
    using sv segments_bounds(1) [of ?S "length xs"] by (simp add: concat_chunks pdm_savable_def k pdm_segments_def)
  ultimately show ?thesis
    using getRamBuffer_loads [OF assms(1,3,4) boot_segment_size [OF assms(5)], where nid = ?nid and recs = ?recs and ext = ext and initial = initial]
      assms(11-13) t by (fastforce simp: pdm_boot_def)
qed

section \<open>Properties\<close>

text \<open>
  C14. Saving and loading are inverse: a RAM buffer of any number of segments, saved by the idle task and loaded
  after a power cycle, comes back byte for byte, provided the PDM does what it documents, the saves succeed and
  no older record stands behind the last segment.
\<close>

theorem pdm_save_load_roundtrip:
  assumes "pdm_documented env content" and "pdm_saves env" and "pdm_memory env" and "callocDescr env = Some h1"
    and "PDM_GetSegmentBufferSize env > PDM_SEGMENT_MARGIN"
    and "pdm_savable s (pvDataBuffer e) (u16IdValue e) xs" and "k = pdm_segments s (length xs)"
    and "content (pdm s) (u16IdValue e + of_nat k) = None"
    and "unat (u16IdValue e) + k < 65536" and "length xs \<le> 11776" and "unat initial \<le> 12288"
  shows "\<exists>t d u. FS_SaveRecordData env e s = Some t \<and>
    getRamBuffer env (u16IdValue e) initial True (pdm_boot (pdm t)) = Some (Some h1, u) \<and>
    descs u h1 = Some d \<and> descr_holds d xs"
  using save_then_load [OF assms(1-7), of "[]" True initial] assms(8-11) by (simp add: search_ends_def stored_at_def)

definition pdm_save_sample :: "(u16 \<Rightarrow> bytes option) pdm_sys" where
  "pdm_save_sample = pdm_sample_sys\<lparr>descs := [1 \<mapsto>
     \<lparr>header = \<lparr>hLength = 40, maxLength = 64, extendedSearch = True, backendRegionSize = 16\<rparr>,
      buffer = Some (map of_nat [0..<64])\<rparr>]\<rparr>"

lemma pdm_save_sample_savable:
  "pdm_savable pdm_save_sample 1 5 (map of_nat [0..<40])" "pdm_segments pdm_save_sample 40 = 3"
  by (simp_all add: pdm_savable_def pdm_segments_def PDM_SEGMENT_SIZE_def PDM_SEGMENT_MARGIN_def pdm_save_sample_def
      pdm_sample_sys_def take_map)

theorem pdm_save_load_roundtrip_witness:
  "\<exists>t d u. FS_SaveRecordData pdm_sample_env \<lparr>pvDataBuffer = 1, u16IdValue = 5\<rparr> pdm_save_sample = Some t \<and>
    getRamBuffer pdm_sample_env 5 1024 True (pdm_boot (pdm t)) = Some (Some 1, u) \<and>
    descs u 1 = Some d \<and> descr_holds d (map of_nat [0..<40])"
proof -
  have "callocDescr pdm_sample_env = Some 1" "PDM_GetSegmentBufferSize pdm_sample_env > PDM_SEGMENT_MARGIN"
    by (simp_all add: pdm_sample_env_def PDM_SEGMENT_MARGIN_def)
  from pdm_save_load_roundtrip [OF sample_pdm this, of pdm_save_sample "\<lparr>pvDataBuffer = 1, u16IdValue = 5\<rparr>" "map of_nat [0..<40]" 3 1024]
  show ?thesis using pdm_save_sample_savable by (simp add: pdm_save_sample_def pdm_sample_sys_def)
qed

text \<open>
  A buffer that shrinks across a segment boundary brings old data back: the records behind its last segment
  are never deleted, and the next load appends the first of them to the buffer.
\<close>

theorem pdm_stale_segment_is_loaded:
  assumes "pdm_documented env content" and "pdm_saves env" and "pdm_memory env" and "callocDescr env = Some h1"
    and "PDM_GetSegmentBufferSize env > PDM_SEGMENT_MARGIN"
    and "pdm_savable s (pvDataBuffer e) (u16IdValue e) xs" and "k = pdm_segments s (length xs)"
    and "content (pdm s) (u16IdValue e + of_nat k) = Some old" and "content (pdm s) (u16IdValue e + of_nat k + 1) = None"
    and "unat (u16IdValue e) + k + 1 < 65536" and "length xs + length old \<le> 11776" and "unat initial \<le> 12288"
  shows "\<exists>t d u. FS_SaveRecordData env e s = Some t \<and>
    getRamBuffer env (u16IdValue e) initial True (pdm_boot (pdm t)) = Some (Some h1, u) \<and>
    descs u h1 = Some d \<and> descr_holds d (xs @ old)"
proof -
  have "u16IdValue e + of_nat (k + 1) = u16IdValue e + of_nat k + 1" by simp
  then have "search_ends True (content (pdm s)) (u16IdValue e) (k + length [old])"
    using assms(9) unfolding search_ends_def by (simp add: add.assoc del: of_nat_add of_nat_Suc)
  moreover have "stored_at (content (pdm s)) (u16IdValue e + of_nat k) [old]" using assms(8) by (simp add: stored_at_def)
  ultimately show ?thesis using save_then_load [OF assms(1-7), of "[old]" True initial] assms(10-12) by simp
qed

theorem pdm_stale_segment_is_loaded_witness:
  "\<exists>t d u. FS_SaveRecordData pdm_sample_env \<lparr>pvDataBuffer = 1, u16IdValue = 5\<rparr> (pdm_save_sample\<lparr>pdm := [8 \<mapsto> [99, 98]]\<rparr>) = Some t \<and>
    getRamBuffer pdm_sample_env 5 1024 True (pdm_boot (pdm t)) = Some (Some 1, u) \<and>
    descs u 1 = Some d \<and> descr_holds d (map of_nat [0..<40] @ [99, 98])"
proof -
  let ?s = "pdm_save_sample\<lparr>pdm := [8 \<mapsto> [99, 98]]\<rparr>"
  have "callocDescr pdm_sample_env = Some 1" "PDM_GetSegmentBufferSize pdm_sample_env > PDM_SEGMENT_MARGIN"
    by (simp_all add: pdm_sample_env_def PDM_SEGMENT_MARGIN_def)
  moreover have "pdm_savable ?s 1 5 (map of_nat [0..<40])" "pdm_segments ?s 40 = 3"
    using pdm_save_sample_savable by (simp_all add: pdm_savable_def pdm_segments_def PDM_SEGMENT_SIZE_def)
  ultimately show ?thesis
    using pdm_stale_segment_is_loaded [OF sample_pdm, of 1 ?s "\<lparr>pvDataBuffer = 1, u16IdValue = 5\<rparr>" "map of_nat [0..<40]" 3 "[99, 98]" 1024]
    by simp
qed

end
