(* ===== verification/Flash_Pdm.thy ===== *)
theory Flash_Pdm
  imports Pdm_Store
begin

text \<open>
  \<^verbatim>\<open>src/k32w0/platform/flash_pdm.c\<close>: the settings handlers of the k32w0 platform over the RAM buffer and the PDM
  glue, with dynamic memory and saving in the idle task. Every handler runs under the mutex of the RAM buffer
  and is one step here; the flag \<open>pdmMutexTaken\<close> is what it leaves behind. \<open>Get\<close> changes nothing besides: it
  sets and clears that flag in a task, where every handler leaves it clear.
\<close>

section \<open>Handlers\<close>

record 'p flash_pdm =
  sys :: "'p pdm_sys"
  ramDescr :: "nat option"
  pdmMutexTaken :: bool
  settingsInitialized :: bool

definition kNvmIdOTConfigData :: u16 where "kNvmIdOTConfigData = 0x4F00"
definition kRamBufferInitialSize :: u16 where "kRamBufferInitialSize = 1024"

definition theDescr :: "'p flash_pdm \<Rightarrow> (nat \<times> ramBufferDescriptor) option" where
  "theDescr f = do { h \<leftarrow> ramDescr f; d \<leftarrow> descs (sys f) h; Some (h, d) }"

definition setDescr :: "'p flash_pdm \<Rightarrow> nat \<Rightarrow> ramBufferDescriptor \<Rightarrow> 'p flash_pdm" where
  "setDescr f h d = f\<lparr>sys := (sys f)\<lparr>descs := (descs (sys f))(h \<mapsto> d)\<rparr>\<rparr>"

definition unlock :: "bool \<Rightarrow> 'p flash_pdm \<Rightarrow> 'p flash_pdm" where
  "unlock inIsr f = (if inIsr then f else f\<lparr>pdmMutexTaken := False\<rparr>)"

text \<open>An initialisation that fails releases the staging buffer again.\<close>

definition pdm_otPlatSettingsInit :: "'p pdm_env \<Rightarrow> 'p flash_pdm \<Rightarrow> 'p flash_pdm option" where
  "pdm_otPlatSettingsInit env f =
     (case PDM_RetrieveSegmentSize env (sys f) of (ok, s1) \<Rightarrow>
        if \<not> ok then Some (f\<lparr>sys := FS_Deinit s1\<rparr>)
        else if settingsInitialized f then Some (f\<lparr>sys := s1\<rparr>)
        else (case FS_Init env s1 of (ok, s2) \<Rightarrow>
          if \<not> ok then Some (f\<lparr>sys := FS_Deinit s2\<rparr>)
          else if PDM_Init env \<noteq> PDM_E_STATUS_OK then Some (f\<lparr>sys := FS_Deinit s2\<rparr>)
          else do {
            (h, s3) \<leftarrow> getRamBuffer env kNvmIdOTConfigData kRamBufferInitialSize False s2;
            (case h of
               None \<Rightarrow> Some (f\<lparr>sys := FS_Deinit s3, ramDescr := None\<rparr>)
             | Some a \<Rightarrow> do { d \<leftarrow> descs s3 a;
                             if buffer d = None then Some (f\<lparr>sys := FS_Deinit s3, ramDescr := Some a\<rparr>)
                             else Some (f\<lparr>sys := s3, ramDescr := Some a, settingsInitialized := True\<rparr>) }) }))"

definition pdm_otPlatSettingsDeinit :: "'p flash_pdm \<Rightarrow> 'p flash_pdm option" where
  "pdm_otPlatSettingsDeinit f =
     do { (h, d) \<leftarrow> theDescr f;
          Some (f\<lparr>sys := FS_Deinit ((sys f)\<lparr>descs := (descs (sys f))(h := None)\<rparr>), ramDescr := None,
                  pdmMutexTaken := False, settingsInitialized := False\<rparr>) }"

definition pdm_otPlatSettingsGet ::
  "bool \<Rightarrow> 'p flash_pdm \<Rightarrow> u16 \<Rightarrow> int \<Rightarrow> bytes option \<Rightarrow> u16 option \<Rightarrow> (otError \<times> bytes option \<times> u16 option) option" where
  "pdm_otPlatSettingsGet inIsr f aKey aIndex aValue aValueLength =
     do { (h, d) \<leftarrow> theDescr f;
          (ramStatus, v, l) \<leftarrow> ramStorageGet d aKey aIndex aValue aValueLength;
          Some (mapRamStorageStatus ramStatus, v, l) }"

text \<open>The common tail of the handlers that change the buffer: store the descriptor, then request the save.\<close>

definition pdm_saveRecord ::
  "'p pdm_env \<Rightarrow> bool \<Rightarrow> 'p flash_pdm \<Rightarrow> nat \<Rightarrow> rsError \<times> ramBufferDescriptor \<Rightarrow> (otError \<times> 'p flash_pdm) option" where
  "pdm_saveRecord env inIsr f h r =
     (case r of (ramStatus, d) \<Rightarrow>
        if ramStatus \<noteq> RS_ERROR_NONE then Some (mapRamStorageStatus ramStatus, unlock inIsr (setDescr f h d))
        else do {
          (pdmStatus, s) \<leftarrow> FS_eSaveRecordDataInIdleTask env inIsr kNvmIdOTConfigData h (sys (setDescr f h d));
          Some (if pdmStatus = PDM_E_STATUS_OK then OT_ERROR_NONE else OT_ERROR_NO_BUFS,
                unlock inIsr ((setDescr f h d)\<lparr>sys := s\<rparr>)) })"

definition pdm_otPlatSettingsSet ::
  "'p pdm_env \<Rightarrow> bool \<Rightarrow> 'p flash_pdm \<Rightarrow> u16 \<Rightarrow> bytes \<Rightarrow> u16 \<Rightarrow> (otError \<times> 'p flash_pdm) option" where
  "pdm_otPlatSettingsSet env inIsr f aKey aValue aValueLength =
     do { (h, d) \<leftarrow> theDescr f;
          (found, v, l) \<leftarrow> ramStorageGet d aKey 0 None (Some 0);
          lengthOfAlreadyExistingValue \<leftarrow> l;
          (ramStatus, d1) \<leftarrow> (if found = RS_ERROR_NONE \<and> lengthOfAlreadyExistingValue < aValueLength
                              then ramStorageResize env d (aValueLength - lengthOfAlreadyExistingValue)
                              else Some (RS_ERROR_NONE, d));
          if ramStatus \<noteq> RS_ERROR_NONE then Some (mapRamStorageStatus ramStatus, unlock inIsr (setDescr f h d1))
          else do { r \<leftarrow> ramStorageSet d1 aKey aValue aValueLength; pdm_saveRecord env inIsr f h r } }"

definition pdm_otPlatSettingsAdd ::
  "'p pdm_env \<Rightarrow> 'p flash_pdm \<Rightarrow> u16 \<Rightarrow> bytes \<Rightarrow> u16 \<Rightarrow> (otError \<times> 'p flash_pdm) option" where
  "pdm_otPlatSettingsAdd env f aKey aValue aValueLength =
     do { (h, d) \<leftarrow> theDescr f;
          (ramStatus, d1) \<leftarrow> ramStorageResize env d aValueLength;
          if ramStatus \<noteq> RS_ERROR_NONE then Some (mapRamStorageStatus ramStatus, unlock False (setDescr f h d1))
          else do { r \<leftarrow> ramStorageAdd d1 aKey aValue aValueLength; pdm_saveRecord env False f h r } }"

definition pdm_otPlatSettingsDelete ::
  "'p pdm_env \<Rightarrow> 'p flash_pdm \<Rightarrow> u16 \<Rightarrow> int \<Rightarrow> (otError \<times> 'p flash_pdm) option" where
  "pdm_otPlatSettingsDelete env f aKey aIndex =
     do { (h, d) \<leftarrow> theDescr f; r \<leftarrow> ramStorageDelete d aKey aIndex; pdm_saveRecord env False f h r }"

definition pdm_otPlatSettingsWipe :: "'p pdm_env \<Rightarrow> 'p flash_pdm \<Rightarrow> 'p flash_pdm option" where
  "pdm_otPlatSettingsWipe env f =
     do { (h, d) \<leftarrow> theDescr f;
          d1 \<leftarrow> ramWipe d;
          let f1 = setDescr f h d1;
          Some (unlock False (f1\<lparr>sys := (sys f1)\<lparr>pdm := PDM_vDeleteDataRecord env (pdm (sys f1)) kNvmIdOTConfigData\<rparr>\<rparr>)) }"

text \<open>The recalibration of the radio may run in an interrupt and must not touch a buffer that is in use.\<close>

definition should_skip_recal :: "bool \<Rightarrow> 'p flash_pdm \<Rightarrow> bool" where
  "should_skip_recal inIsr f = (inIsr \<and> pdmMutexTaken f \<and> idleMutexIsTaken (sys f))"

text \<open>The calibration data of the radio, under a key that the PDM headers define: the parameter \<open>radioKey\<close>.\<close>

definition bRadioCB_WriteNVM ::
  "'p pdm_env \<Rightarrow> u16 \<Rightarrow> bool \<Rightarrow> 'p flash_pdm \<Rightarrow> bytes \<Rightarrow> u16 \<Rightarrow> (bool \<times> 'p flash_pdm) option" where
  "bRadioCB_WriteNVM env radioKey inIsr f pu8DataBlock u16Len =
     do { (e, f1) \<leftarrow> pdm_otPlatSettingsSet env inIsr f radioKey pu8DataBlock u16Len; Some (e = OT_ERROR_NONE, f1) }"

definition u16RadioCB_ReadNVM :: "u16 \<Rightarrow> bool \<Rightarrow> 'p flash_pdm \<Rightarrow> bytes \<Rightarrow> u16 \<Rightarrow> (u16 \<times> bytes) option" where
  "u16RadioCB_ReadNVM radioKey inIsr f pu8DataBlock u16MaxLen =
     do { (e, v, l) \<leftarrow> pdm_otPlatSettingsGet inIsr f radioKey 0 (Some pu8DataBlock) (Some 0);
          lengthPtr \<leftarrow> l; block \<leftarrow> v; Some (lengthPtr, block) }"


section \<open>The RAM buffer stays within one segment\<close>

text \<open>
  Without extended search the buffer is limited to one segment, so that one record holds all of it.
\<close>

definition one_segment :: "ramBufferDescriptor \<Rightarrow> bool" where
  "one_segment d \<longleftrightarrow> \<not> extendedSearch (header d) \<and> unat (hLength (header d)) \<le> unat (backendRegionSize (header d)) \<and>
     unat (backendRegionSize (header d)) + 512 < 65536"

definition same_limits :: "ramBufferDescriptor \<Rightarrow> ramBufferDescriptor \<Rightarrow> bool" where
  "same_limits d d1 \<longleftrightarrow> extendedSearch (header d1) = extendedSearch (header d) \<and>
     backendRegionSize (header d1) = backendRegionSize (header d)"

lemma same_limits_one_segment:
  "one_segment d \<Longrightarrow> same_limits d d1 \<Longrightarrow> unat (hLength (header d1)) \<le> unat (backendRegionSize (header d)) \<Longrightarrow> one_segment d1"
  by (simp add: one_segment_def same_limits_def)

lemma ramStorageAdd_segment:
  assumes "ramStorageAdd d k v l = Some (e, d1)" and "one_segment d"
  shows "one_segment d1 \<and> same_limits d d1"
proof (cases "e = RS_ERROR_NONE")
  case True
  then have "header d1 = (header d)\<lparr>hLength := hLength (header d) + (4 + l)\<rparr>"
    "unat (hLength (header d)) + unat (4 + l) < unat (backendRegionSize (header d))"
    using assms by (auto simp: ramStorageAdd_def ramStorageEnsureBlockConsistency_def one_segment_def Let_def split: if_splits bind_splits)
  moreover from this(2) have "unat (hLength (header d) + (4 + l)) = unat (hLength (header d)) + unat (4 + l)"
    using unat_u16_less [of "backendRegionSize (header d)"] by (intro unat_add_u16) simp
  ultimately show ?thesis using assms(2) by (simp add: one_segment_def same_limits_def)
next
  case False
  then have "d1 = d"
    using assms by (auto simp: ramStorageAdd_def ramStorageEnsureBlockConsistency_def Let_def split: if_splits bind_splits)
  then show ?thesis using assms(2) by (simp add: same_limits_def)
qed

lemma ramDeleteLoop_shrinks:
  assumes "ramDeleteLoop k j buf len i c e = Some (e1, buf1, len1)"
  shows "len1 \<le> len"
proof -
  have "snd (snd (e1, buf1, len1)) \<le> len"
  proof (rule ramDeleteLoop.raw_induct [OF _ assms, where P = "\<lambda>k j buf len i c e r. snd (snd r) \<le> len"], goal_cases)
    case (1 f k j buf len i c e r)
    have rm: "unat (snd r1) \<le> unat len" if "ramRemoveBlock buf len i n = Some r1" for n r1
      using that by (auto simp: ramRemoveBlock_def Let_def word_le_nat_alt unat_sub split: if_splits bind_splits)
    have IH: "unat (snd (snd r)) \<le> unat len1" if "f k j buf1 len1 i c e = Some r" for k j buf1 len1 i c e r
      using 1(1) [OF that] by (simp add: word_le_nat_alt)
    from 1(2) show ?case unfolding word_le_nat_alt
      by (auto split: if_splits option.splits dest!: IH rm)
  qed
  then show ?thesis by simp
qed

lemma ramStorageDelete_segment:
  assumes "ramStorageDelete d k j = Some (e, d1)" and "one_segment d"
  shows "one_segment d1 \<and> same_limits d d1"
proof -
  from assms(1) obtain len1 where "header d1 = (header d)\<lparr>hLength := len1\<rparr>" "len1 \<le> hLength (header d)"
    by (auto simp: ramStorageDelete_def dest!: ramDeleteLoop_shrinks split: bind_splits)
  then show ?thesis using assms(2) by (auto simp: one_segment_def same_limits_def word_le_nat_alt)
qed


lemma ramSetLoop_segment:
  assumes "ramSetLoop d buf k v l i = Some (b, d1)" and "one_segment d"
  shows "one_segment d1 \<and> same_limits d d1"
proof -
  have "one_segment d \<longrightarrow> one_segment (snd (b, d1)) \<and> same_limits d (snd (b, d1))"
  proof (rule ramSetLoop.raw_induct [OF _ assms(1), where P = "\<lambda>d buf k v l i r. one_segment d \<longrightarrow> one_segment (snd r) \<and> same_limits d (snd r)"], goal_cases)
    case (1 f d buf k v l i r)
    have "one_segment (d\<lparr>buffer := x\<rparr>) = one_segment d" "same_limits d (d\<lparr>buffer := x\<rparr>)" for x
      by (simp_all add: one_segment_def same_limits_def)
    with 1 show ?case
      by (auto split: if_splits option.splits bind_splits dest: ramStorageDelete_segment simp: same_limits_def)
  qed
  then show ?thesis using assms(2) by simp
qed

lemma same_limits_trans: "same_limits a b \<Longrightarrow> same_limits b c \<Longrightarrow> same_limits a c"
  by (simp add: same_limits_def)

lemma ramStorageSet_segment:
  assumes "ramStorageSet d k v l = Some (e, d1)" and "one_segment d"
  shows "one_segment d1 \<and> same_limits d d1"
proof -
  from assms(1) obtain buf b d0 where "ramSetLoop d buf k v l 0 = Some (b, d0)"
    "d1 = d0 \<or> ramStorageAdd d0 k v l = Some (e, d1)"
    by (auto simp: ramStorageSet_def split: if_splits bind_splits)
  then show ?thesis using ramSetLoop_segment [OF _ assms(2)] ramStorageAdd_segment same_limits_trans by blast
qed

section \<open>Growing the buffer\<close>

text \<open>The allocator: a reallocated block has the new size and keeps the old bytes.\<close>

definition realloc_documented :: "'p pdm_env \<Rightarrow> bool" where
  "realloc_documented env \<longleftrightarrow>
     (\<forall>b n c. otPlatRealloc env b n = Some c \<longrightarrow> length b \<le> unat n \<longrightarrow> length c = unat n \<and> take (length b) c = b)"

lemma resizeLoop_limited:
  assumes "unat region + 512 < 65536" and "a \<le> region"
  shows "\<exists>n. resizeLoop need False region a = Some n \<and> a \<le> n \<and> n \<le> region"
  using assms(2)
proof (induction "unat region - unat a" arbitrary: a rule: less_induct)
  case less
  have a512: "unat (a + kRamBufferReallocSize) = unat a + 512"
    using less.prems assms(1) by (simp add: kRamBufferReallocSize_def word_le_nat_alt unat_word_ariths)
  show ?case
  proof (cases "unat a < need \<and> \<not> a + kRamBufferReallocSize > region")
    case False
    then show ?thesis using less.prems by (subst resizeLoop.simps) auto
  next
    case True
    then have le: "a + kRamBufferReallocSize \<le> region" by (simp add: not_less)
    then have "unat region - unat (a + kRamBufferReallocSize) < unat region - unat a"
      using a512 by (simp add: word_le_nat_alt)
    from less.hyps [OF this le] obtain n where
      "resizeLoop need False region (a + kRamBufferReallocSize) = Some n" "a + kRamBufferReallocSize \<le> n" "n \<le> region" by blast
    moreover have "a \<le> n" using calculation(2) a512 by (simp add: word_le_nat_alt)
    ultimately show ?thesis using True by (subst resizeLoop.simps) simp
  qed
qed

lemma ramStorageResize_holds:
  assumes "realloc_documented env" and "one_segment d" and "ram_holds d bs junk"
  shows "\<exists>e d1 junk1. ramStorageResize env d l = Some (e, d1) \<and> ram_holds d1 bs junk1 \<and> one_segment d1 \<and> same_limits d d1 \<and>
    (e = RS_ERROR_NONE \<or> e = RS_ERROR_NO_BUFS)"
proof (cases "maxLength (header d) > backendRegionSize (header d) \<or>
    \<not> unat (maxLength (header d)) < unat (hLength (header d)) + unat (4 + l)")
  case True
  then have "ramStorageResize env d l = Some (RS_ERROR_NO_BUFS, d) \<or> ramStorageResize env d l = Some (RS_ERROR_NONE, d)"
    using assms(2) by (auto simp: ramStorageResize_def one_segment_def Let_def)
  then show ?thesis using assms(2,3) by (auto simp: same_limits_def)
next
  case False
  let ?h = "header d"
  from resizeLoop_limited [of "backendRegionSize ?h" "maxLength ?h"] False assms(2) obtain n where
    n: "resizeLoop (unat (hLength ?h) + unat (4 + l)) False (backendRegionSize ?h) (maxLength ?h) = Some n"
      "maxLength ?h \<le> n"
    unfolding one_segment_def by (metis not_less)
  have buf: "buffer d = Some (enc bs @ junk)" "length (enc bs @ junk) = unat (maxLength ?h)"
    "unat (hLength ?h) = length (enc bs)" using assms(3) by (simp_all add: ram_holds_def)
  show ?thesis
  proof (cases "n \<le> kRamBufferMaxAllocSize \<and> otPlatRealloc env (enc bs @ junk) n \<noteq> None")
    case True
    then obtain c where c: "otPlatRealloc env (enc bs @ junk) n = Some c" by blast
    have "length (enc bs @ junk) \<le> unat n" using buf(2) n(2) by (simp only: word_le_nat_alt)
    with assms(1) c have "length c = unat n" "take (length (enc bs @ junk)) c = enc bs @ junk"
      unfolding realloc_documented_def by blast+
    moreover define rest where "rest = drop (length (enc bs @ junk)) c"
    ultimately have "c = enc bs @ junk @ rest" "length c = unat n" by (metis append.assoc append_take_drop_id)+
    then have "ram_holds (d\<lparr>buffer := Some c, header := ?h\<lparr>maxLength := n\<rparr>\<rparr>) bs (junk @ rest)"
      using buf(3) by (simp add: ram_holds_def)
    moreover have "ramStorageResize env d l = Some (RS_ERROR_NONE, d\<lparr>buffer := Some c, header := ?h\<lparr>maxLength := n\<rparr>\<rparr>)"
      using False True assms(2) n(1) buf(1) c by (simp add: ramStorageResize_def one_segment_def Let_def)
    moreover have "one_segment (d\<lparr>buffer := Some c, header := ?h\<lparr>maxLength := n\<rparr>\<rparr>)"
      "same_limits d (d\<lparr>buffer := Some c, header := ?h\<lparr>maxLength := n\<rparr>\<rparr>)"
      using assms(2) by (simp_all add: one_segment_def same_limits_def)
    ultimately show ?thesis by blast
  next
    case False2: False
    then have "ramStorageResize env d l = Some (RS_ERROR_NO_BUFS, d)"
      using False assms(2) n(1) buf(1) by (auto simp: ramStorageResize_def one_segment_def Let_def)
    then show ?thesis using assms(2,3) by (auto simp: same_limits_def)
  qed
qed


section \<open>Invariant and abstraction\<close>

definition otRequest :: "nat \<Rightarrow> tsQueueEntry" where
  "otRequest h = \<lparr>pvDataBuffer = h, u16IdValue = kNvmIdOTConfigData\<rparr>"

definition fp_at :: "'p pdm_env \<Rightarrow> 'p flash_pdm \<Rightarrow> nat \<Rightarrow> ramBufferDescriptor \<Rightarrow> bool" where
  "fp_at env f h d \<longleftrightarrow> realloc_documented env \<and> pdm_ready env (sys f) \<and> q_inv (sys f) \<and> theDescr f = Some (h, d) \<and>
     ram_inv d \<and> one_segment d \<and> unat (backendRegionSize (header d)) = unat (PDM_SEGMENT_SIZE (sys f)) \<and>
     (q_abs (sys f) = [] \<or> q_abs (sys f) = [otRequest h])"

definition fp_inv :: "'p pdm_env \<Rightarrow> 'p flash_pdm \<Rightarrow> bool" where
  "fp_inv env f \<longleftrightarrow> (\<exists>h d. fp_at env f h d)"

definition fp_abs :: "'p flash_pdm \<Rightarrow> store" where
  "fp_abs f = ram_abs (snd (the (theDescr f)))"

lemma fp_at_abs: "fp_at env f h d \<Longrightarrow> fp_abs f = ram_abs d \<and> fp_inv env f"
  by (auto simp: fp_at_def fp_abs_def fp_inv_def)

lemma q_setDescr [simp]:
  "q_inv (s\<lparr>descs := x\<rparr>) = q_inv s" "q_abs (s\<lparr>descs := x\<rparr>) = q_abs s" "pdm_ready env (s\<lparr>descs := x\<rparr>) = pdm_ready env s"
  "q_count (s\<lparr>descs := x\<rparr>) = q_count s" "PDM_SEGMENT_SIZE (s\<lparr>descs := x\<rparr>) = PDM_SEGMENT_SIZE s"
  by (simp_all add: q_inv_def q_abs_def q_count_def pdm_ready_def PDM_SEGMENT_SIZE_def)

lemma q_setPdm [simp]:
  "q_inv (s\<lparr>pdm := y\<rparr>) = q_inv s" "q_abs (s\<lparr>pdm := y\<rparr>) = q_abs s" "pdm_ready env (s\<lparr>pdm := y\<rparr>) = pdm_ready env s"
  "PDM_SEGMENT_SIZE (s\<lparr>pdm := y\<rparr>) = PDM_SEGMENT_SIZE s"
  by (simp_all add: q_inv_def q_abs_def q_count_def pdm_ready_def PDM_SEGMENT_SIZE_def)

text \<open>What a handler changes besides the descriptor: the queue, and nothing in flash.\<close>

definition fp_keeps :: "'p flash_pdm \<Rightarrow> 'p flash_pdm \<Rightarrow> bool" where
  "fp_keeps f g \<longleftrightarrow> pdm (sys g) = pdm (sys f) \<and> sPdmSegmentSize (sys g) = sPdmSegmentSize (sys f) \<and>
     sSegmentBuffer (sys g) = sSegmentBuffer (sys f)"

lemma fp_store_descr:
  assumes "fp_at env f h d" and "ram_inv d1" and "one_segment d1" and "same_limits d d1" and "g = unlock isr (setDescr f h d1)"
  shows "fp_at env g h d1" and "fp_keeps f g" and "q_abs (sys g) = q_abs (sys f)"
  using assms by (auto simp: fp_at_def fp_keeps_def unlock_def setDescr_def theDescr_def same_limits_def split: bind_splits)

lemma pdm_saveRecord_step:
  assumes "fp_at env f h d" and "ram_inv d1" and "one_segment d1" and "same_limits d d1"
  shows "\<exists>g. pdm_saveRecord env isr f h (e, d1) = Some (mapRamStorageStatus e, g) \<and> fp_at env g h d1 \<and> fp_keeps f g \<and>
    q_abs (sys g) = (if e = RS_ERROR_NONE then [otRequest h] else q_abs (sys f))"
proof (cases "e = RS_ERROR_NONE")
  case False
  then show ?thesis using fp_store_descr [OF assms refl, of isr] by (auto simp: pdm_saveRecord_def)
next
  case True
  note st = fp_store_descr [OF assms refl, of True, unfolded unlock_def, simplified]
  let ?s = "sys (setDescr f h d1)"
  have q: "q_inv ?s" "pdm_ready env ?s" "q_abs ?s = [] \<or> q_abs ?s = [otRequest h]" using st(1) by (simp_all add: fp_at_def)
  have "\<exists>t. FS_eSaveRecordDataInIdleTask env isr kNvmIdOTConfigData h ?s = Some (PDM_E_STATUS_OK, t) \<and> q_inv t \<and> asQueueMutex t \<and>
      q_abs t = [otRequest h] \<and> same_store ?s t"
  proof (cases "q_abs ?s = []")
    case True
    moreover have "q_count ?s = 0" using True length_q_abs [of ?s] by simp
    ultimately show ?thesis
      using request_new [OF q(1,2), of kNvmIdOTConfigData isr h] by (simp add: otRequest_def)
  next
    case False
    then show ?thesis using request_present [OF q(1,2), of kNvmIdOTConfigData isr h] q(3) by (simp add: otRequest_def)
  qed
  then obtain t where t: "FS_eSaveRecordDataInIdleTask env isr kNvmIdOTConfigData h ?s = Some (PDM_E_STATUS_OK, t)" "q_inv t" "asQueueMutex t"
    "q_abs t = [otRequest h]" "same_store ?s t" by blast
  let ?g = "unlock isr ((setDescr f h d1)\<lparr>sys := t\<rparr>)"
  have "fp_at env ?g h d1" "fp_keeps f ?g"
    using st t(2-5)
    by (auto simp: fp_at_def fp_keeps_def same_store_def theDescr_def unlock_def pdm_ready_def PDM_SEGMENT_SIZE_def split: bind_splits)
  moreover have "q_abs (sys ?g) = [otRequest h]" using t(4) by (simp add: unlock_def)
  ultimately show ?thesis using True t(1) by (auto simp: pdm_saveRecord_def)
qed

section \<open>The handlers refine the settings store\<close>


lemma pdm_add_step:
  assumes at: "fp_at env f h d" and v: "length v = unat l" "length v + 4 < 65536"
  shows "\<exists>e g d1. pdm_otPlatSettingsAdd env f k v l = Some (e, g) \<and> fp_at env g h d1 \<and> fp_keeps f g \<and>
    settings_step FirstOrAll (ram_abs d) (CAdd k v) e (ram_abs d1) \<and>
    q_abs (sys g) = (if e = OT_ERROR_NONE then [otRequest h] else q_abs (sys f))"
proof -
  have d: "theDescr f = Some (h, d)" "realloc_documented env" "one_segment d" "ram_inv d" using at by (simp_all add: fp_at_def)
  from ram_inv_holds [OF d(4)] obtain bs junk where h: "ram_holds d bs junk" .
  from ramStorageResize_holds [OF d(2,3) h, of l] obtain e0 d0 junk0 where
    r: "ramStorageResize env d l = Some (e0, d0)" "ram_holds d0 bs junk0" "one_segment d0" "same_limits d d0"
      "e0 = RS_ERROR_NONE \<or> e0 = RS_ERROR_NO_BUFS" by blast
  have abs0: "ram_abs d0 = ram_abs d" "ram_inv d0" using ram_holds_abs [OF h] ram_holds_abs [OF r(2)] by simp_all
  show ?thesis
  proof (cases "e0 = RS_ERROR_NONE")
    case False
    have "pdm_otPlatSettingsAdd env f k v l = Some (OT_ERROR_NO_BUFS, unlock False (setDescr f h d0))"
      using False r(1,5) d(1) by (auto simp: pdm_otPlatSettingsAdd_def mapRamStorageStatus_def)
    moreover have "settings_step FirstOrAll (ram_abs d) (CAdd k v) OT_ERROR_NO_BUFS (ram_abs d0)"
      using abs0(1) settings_step.add_full by simp
    ultimately show ?thesis using fp_store_descr [OF at abs0(2) r(3,4) refl, of False] by fastforce
  next
    case True
    from ram.add_step [OF abs0(2) v, of k] obtain e d1 where
      a: "ramStorageAdd d0 k v l = Some (e, d1)" "ram_inv d1" "settings_step FirstOrAll (ram_abs d) (CAdd k v) (mapRamStorageStatus e) (ram_abs d1)"
      using abs0(1) by auto
    have "one_segment d1" "same_limits d d1" using ramStorageAdd_segment [OF a(1) r(3)] same_limits_trans [OF r(4)] by blast+
    from pdm_saveRecord_step [OF at a(2) this, of False e] obtain g where
      g: "pdm_saveRecord env False f h (e, d1) = Some (mapRamStorageStatus e, g)" "fp_at env g h d1" "fp_keeps f g"
        "q_abs (sys g) = (if e = RS_ERROR_NONE then [otRequest h] else q_abs (sys f))" by blast
    have "pdm_otPlatSettingsAdd env f k v l = Some (mapRamStorageStatus e, g)"
      using a(1) r(1) d(1) True g(1) by (simp add: pdm_otPlatSettingsAdd_def)
    with a(3) g show ?thesis by (metis mapRamStorageStatus_NONE)
  qed
qed

lemma pdm_set_step:
  assumes at: "fp_at env f h d" and v: "length v = unat l" "length v + 4 < 65536"
  shows "\<exists>e g d1. pdm_otPlatSettingsSet env isr f k v l = Some (e, g) \<and> fp_at env g h d1 \<and> fp_keeps f g \<and>
    settings_step FirstOrAll (ram_abs d) (CSet k v) e (ram_abs d1) \<and>
    q_abs (sys g) = (if e = OT_ERROR_NONE then [otRequest h] else q_abs (sys f))"
proof -
  have d: "theDescr f = Some (h, d)" "realloc_documented env" "one_segment d" "ram_inv d" using at by (simp_all add: fp_at_def)
  from ram_inv_holds [OF d(4)] obtain bs junk where h: "ram_holds d bs junk" .
  obtain found w n where get: "ramStorageGet d k 0 None (Some 0) = Some (found, w, Some n)"
    using ramStorageGet_holds [OF h, of k 0 None "Some 0"] by (auto simp: ram_lookup_def ram_deliver_def split: if_splits)
  let ?grow = "found = RS_ERROR_NONE \<and> n < l"
  obtain e0 d0 junk0 where
    r: "(if ?grow then ramStorageResize env d (l - n) else Some (RS_ERROR_NONE, d)) = Some (e0, d0)"
      "ram_holds d0 bs junk0" "one_segment d0" "same_limits d d0" "e0 = RS_ERROR_NONE \<or> e0 = RS_ERROR_NO_BUFS"
    using ramStorageResize_holds [OF d(2,3) h, of "l - n"] h d(3) by (cases ?grow) (auto simp: same_limits_def)
  have abs0: "ram_abs d0 = ram_abs d" "ram_inv d0" using ram_holds_abs [OF h] ram_holds_abs [OF r(2)] by simp_all
  show ?thesis
  proof (cases "e0 = RS_ERROR_NONE")
    case False
    have "settings_step FirstOrAll (ram_abs d) (CSet k v) OT_ERROR_NO_BUFS (ram_abs d)"
      using settings_step.set_full [of FirstOrAll "ram_abs d" k v "ram_abs d k"] by (simp only: fun_upd_triv)
    moreover have "pdm_otPlatSettingsSet env isr f k v l = Some (OT_ERROR_NO_BUFS, unlock isr (setDescr f h d0))"
      using False r(1,5) d(1) get by (auto simp: pdm_otPlatSettingsSet_def mapRamStorageStatus_def simp del: if_split)
    ultimately show ?thesis using abs0(1) fp_store_descr [OF at abs0(2) r(3,4) refl, of isr] by fastforce
  next
    case True
    from ram.put_step [OF abs0(2) v, of k] obtain e d1 where
      a: "ramStorageSet d0 k v l = Some (e, d1)" "ram_inv d1" "settings_step FirstOrAll (ram_abs d) (CSet k v) (mapRamStorageStatus e) (ram_abs d1)"
      using abs0(1) by auto
    have "one_segment d1" "same_limits d d1" using ramStorageSet_segment [OF a(1) r(3)] same_limits_trans [OF r(4)] by blast+
    from pdm_saveRecord_step [OF at a(2) this, of isr e] obtain g where
      g: "pdm_saveRecord env isr f h (e, d1) = Some (mapRamStorageStatus e, g)" "fp_at env g h d1" "fp_keeps f g"
        "q_abs (sys g) = (if e = RS_ERROR_NONE then [otRequest h] else q_abs (sys f))" by blast
    have "pdm_otPlatSettingsSet env isr f k v l = Some (mapRamStorageStatus e, g)"
      using a(1) r(1) d(1) get True g(1) by (simp add: pdm_otPlatSettingsSet_def del: if_split)
    with a(3) g show ?thesis by (metis mapRamStorageStatus_NONE)
  qed
qed

lemma pdm_delete_step:
  assumes at: "fp_at env f h d"
  shows "\<exists>e g d1. pdm_otPlatSettingsDelete env f k j = Some (e, g) \<and> fp_at env g h d1 \<and> fp_keeps f g \<and>
    settings_step FirstOrAll (ram_abs d) (CDelete k j) e (ram_abs d1) \<and>
    q_abs (sys g) = (if e = OT_ERROR_NONE then [otRequest h] else q_abs (sys f))"
proof -
  have d: "theDescr f = Some (h, d)" "one_segment d" "ram_inv d" using at by (simp_all add: fp_at_def)
  from ram.del_step [OF d(3), of k j] obtain e d1 where
    a: "ramStorageDelete d k j = Some (e, d1)" "ram_inv d1" "settings_step FirstOrAll (ram_abs d) (CDelete k j) (mapRamStorageStatus e) (ram_abs d1)"
    by auto
  from pdm_saveRecord_step [OF at a(2), of False e] ramStorageDelete_segment [OF a(1) d(2)] obtain g where
    g: "pdm_saveRecord env False f h (e, d1) = Some (mapRamStorageStatus e, g)" "fp_at env g h d1" "fp_keeps f g"
      "q_abs (sys g) = (if e = RS_ERROR_NONE then [otRequest h] else q_abs (sys f))" by blast
  have "pdm_otPlatSettingsDelete env f k j = Some (mapRamStorageStatus e, g)"
    using a(1) d(1) g(1) by (simp add: pdm_otPlatSettingsDelete_def)
  with a(3) g show ?thesis by (metis mapRamStorageStatus_NONE)
qed

lemma pdm_wipe_step:
  assumes "fp_at env f h d"
  shows "\<exists>g d1. pdm_otPlatSettingsWipe env f = Some g \<and> fp_at env g h d1 \<and> ram_abs d1 = (\<lambda>_. []) \<and> hLength (header d1) = 0 \<and>
    pdm (sys g) = PDM_vDeleteDataRecord env (pdm (sys f)) kNvmIdOTConfigData"
proof -
  have d: "theDescr f = Some (h, d)" "one_segment d" "ram_inv d" using assms by (simp_all add: fp_at_def)
  from ram.wip_step [OF d(3)] obtain d1 where d1: "ramWipe d = Some d1" "ram_inv d1" "ram_abs d1 = (\<lambda>_. [])" by blast
  have h: "header d1 = (header d)\<lparr>hLength := 0\<rparr>" using d1(1) by (auto simp: ramWipe_def split: bind_splits)
  then have "one_segment d1" "same_limits d d1" using d(2) by (simp_all add: one_segment_def same_limits_def)
  note st = fp_store_descr [OF assms d1(2) this refl, of True, unfolded unlock_def, simplified]
  show ?thesis
    using st(1) d(1) d1 h by (auto simp: pdm_otPlatSettingsWipe_def fp_at_def theDescr_def unlock_def setDescr_def Let_def split: bind_splits)
qed

interpretation pdmst: settings_store FirstOrAll "fp_inv env" fp_abs "pdm_otPlatSettingsGet isr"
  "pdm_otPlatSettingsAdd env" "pdm_otPlatSettingsSet env isr" "pdm_otPlatSettingsDelete env" "pdm_otPlatSettingsWipe env" for env isr
proof (unfold_locales, goal_cases)
  case (1 s i k v dst cap)
  then obtain h d where at: "fp_at env s h d" by (auto simp: fp_inv_def)
  then show ?case
    using ram.get_hit [of d i k v dst cap] 1 fp_at_abs [OF at] by (auto simp: fp_at_def pdm_otPlatSettingsGet_def split: bind_splits)
next
  case (2 s k i out len)
  then obtain h d where at: "fp_at env s h d" by (auto simp: fp_inv_def)
  then show ?case
    using ram.get_miss [of d k i out len] 2 fp_at_abs [OF at] by (auto simp: fp_at_def pdm_otPlatSettingsGet_def split: bind_splits)
next
  case (3 s v l k)
  then obtain h d where at: "fp_at env s h d" by (auto simp: fp_inv_def)
  from pdm_add_step [OF at 3(2,3), of k] fp_at_abs [OF at] show ?case by (metis fp_at_abs)
next
  case (4 s v l k)
  then obtain h d where at: "fp_at env s h d" by (auto simp: fp_inv_def)
  from pdm_set_step [OF at 4(2,3), of isr k] fp_at_abs [OF at] show ?case by (metis fp_at_abs)
next
  case (5 s k j)
  then obtain h d where at: "fp_at env s h d" by (auto simp: fp_inv_def)
  from pdm_delete_step [OF at, of k j] fp_at_abs [OF at] show ?case by (metis fp_at_abs)
next
  case (6 s)
  then obtain h d where at: "fp_at env s h d" by (auto simp: fp_inv_def)
  from pdm_wipe_step [OF at] show ?case by (metis fp_at_abs)
qed

end
