(* ===== verification/Flash_Pdm_Persist.thy ===== *)
theory Flash_Pdm_Persist
  imports Flash_Pdm
begin

text \<open>
  The k32w0 settings across power cycles: what the handlers of \<^verbatim>\<open>flash_pdm.c\<close> change in RAM, the idle task of
  \<^verbatim>\<open>pdm_ram_storage_glue.c\<close> writes out, and the next initialisation loads.
\<close>

section \<open>Power-on\<close>

definition fp_boot :: "'p \<Rightarrow> 'p flash_pdm" where
  "fp_boot p = \<lparr>sys = pdm_boot p, ramDescr = None, pdmMutexTaken = False, settingsInitialized = False\<rparr>"

text \<open>A platform whose allocations and saves succeed; a segment leaves room for the growth of the buffer.\<close>

definition fp_segment :: "'p pdm_env \<Rightarrow> nat" where
  "fp_segment env = unat (PDM_GetSegmentBufferSize env - PDM_SEGMENT_MARGIN)"

definition fp_platform :: "'p pdm_env \<Rightarrow> ('p \<Rightarrow> u16 \<Rightarrow> bytes option) \<Rightarrow> nat \<Rightarrow> bool" where
  "fp_platform env content h \<longleftrightarrow> pdm_documented env content \<and> pdm_saves env \<and> pdm_memory env \<and> realloc_documented env \<and>
     callocDescr env = Some h \<and> (\<forall>n. mallocSegment env n) \<and> PDM_Init env = PDM_E_STATUS_OK \<and>
     PDM_GetSegmentBufferSize env > PDM_SEGMENT_MARGIN \<and> fp_segment env \<le> 11776"

text \<open>What the handlers keep: the invariant, and a staging buffer of one segment.\<close>

definition fp_ok :: "'p pdm_env \<Rightarrow> 'p flash_pdm \<Rightarrow> nat \<Rightarrow> ramBufferDescriptor \<Rightarrow> bool" where
  "fp_ok env f h d \<longleftrightarrow> fp_at env f h d \<and> sPdmSegmentSize (sys f) = PDM_GetSegmentBufferSize env \<and>
     map_option length (sSegmentBuffer (sys f)) = Some (fp_segment env)"

lemma fp_ok_segment: "fp_ok env f h d \<Longrightarrow> unat (PDM_SEGMENT_SIZE (sys f)) = fp_segment env"
  by (simp add: fp_ok_def PDM_SEGMENT_SIZE_def fp_segment_def)

lemma fp_segment_pos: "fp_platform env content h \<Longrightarrow> 0 < fp_segment env"
  by (auto simp: fp_platform_def fp_segment_def unat_gt_0)

text \<open>The record of the settings holds the store \<open>\<sigma>\<close>.\<close>

definition fp_record :: "'p pdm_env \<Rightarrow> (u16 \<Rightarrow> bytes option) \<Rightarrow> store \<Rightarrow> bool" where
  "fp_record env c \<sigma> \<longleftrightarrow> (\<exists>bs. vals bs = \<sigma> \<and> length (enc bs) \<le> fp_segment env \<and>
     (c kNvmIdOTConfigData = Some (enc bs) \<or> c kNvmIdOTConfigData = None \<and> bs = []))"

lemma descr_holds_ram:
  assumes "descr_holds d (enc bs)"
  shows "ram_inv d \<and> ram_abs d = vals bs"
proof -
  from assms obtain buf where b: "buffer d = Some buf" "length buf = unat (maxLength (header d))" "take (length (enc bs)) buf = enc bs"
    "unat (hLength (header d)) = length (enc bs)" "length (enc bs) \<le> length buf" by (auto simp: descr_holds_def)
  then have "ram_holds d bs (drop (length (enc bs)) buf)"
    by (simp add: ram_holds_def) (metis append_take_drop_id)
  then show ?thesis by (simp add: ram_holds_abs)
qed

lemma boot_FS_Init:
  assumes "fp_platform env content h"
  shows "\<exists>s. FS_Init env ((pdm_boot p)\<lparr>sPdmSegmentSize := PDM_GetSegmentBufferSize env\<rparr>) = (True, s) \<and>
    s = (pdm_boot p)\<lparr>sPdmSegmentSize := PDM_GetSegmentBufferSize env, sSegmentBuffer := Some (replicate (fp_segment env) 0)\<rparr>"
proof -
  have "PDM_GetSegmentBufferSize env \<noteq> 0" using assms by (auto simp: fp_platform_def)
  then show ?thesis using assms by (simp add: FS_Init_def fp_platform_def PDM_SEGMENT_SIZE_def fp_segment_def)
qed

lemma fp_init:
  assumes plat: "fp_platform env content h" and rec: "fp_record env (content p) \<sigma>"
  shows "\<exists>f d. pdm_otPlatSettingsInit env (fp_boot p) = Some f \<and> fp_ok env f h d \<and> ram_abs d = \<sigma> \<and>
    q_abs (sys f) = [] \<and> pdm (sys f) = p"
proof -
  let ?nid = kNvmIdOTConfigData
  from rec obtain bs where bs: "vals bs = \<sigma>" "length (enc bs) \<le> fp_segment env"
    "content p ?nid = Some (enc bs) \<or> content p ?nid = None \<and> bs = []" by (auto simp: fp_record_def)
  define recs where "recs = (if content p ?nid = None then [] else [enc bs])"
  have recs: "concat recs = enc bs" "stored_at (content p) ?nid recs" "search_ends False (content p) ?nid (length recs)" "length recs \<le> 1"
    using bs(3) by (auto simp: recs_def stored_at_def search_ends_def)
  from boot_FS_Init [OF plat, of p] obtain s where s: "FS_Init env ((pdm_boot p)\<lparr>sPdmSegmentSize := PDM_GetSegmentBufferSize env\<rparr>) = (True, s)"
    "s = (pdm_boot p)\<lparr>sPdmSegmentSize := PDM_GetSegmentBufferSize env, sSegmentBuffer := Some (replicate (fp_segment env) 0)\<rparr>" by blast
  have p: "pdm_documented env content" "pdm_memory env" "callocDescr env = Some h" "PDM_GetSegmentBufferSize env > PDM_SEGMENT_MARGIN"
    "PDM_Init env = PDM_E_STATUS_OK" "fp_segment env \<le> 11776" "realloc_documented env" using plat by (simp_all add: fp_platform_def)
  have "PDM_RetrieveSegmentSize env s = (True, s)" "pdm s = p" using p(4) s(2) by (simp_all add: PDM_RetrieveSegmentSize_def pdm_boot_def)
  from getRamBuffer_loads [OF p(1-3) this(1), of ?nid recs False kRamBufferInitialSize] this(2) recs bs(2) p(6) obtain d where
    d: "getRamBuffer env ?nid kRamBufferInitialSize False s = Some (Some h, s\<lparr>descs := (descs s)(h \<mapsto> d)\<rparr>)"
      "descr_holds d (enc bs)" "\<not> extendedSearch (header d)" "backendRegionSize (header d) = ucast (PDM_SEGMENT_SIZE s)"
    by (auto simp: kNvmIdOTConfigData_def kRamBufferInitialSize_def)
  let ?f = "(fp_boot p)\<lparr>sys := s\<lparr>descs := (descs s)(h \<mapsto> d)\<rparr>, ramDescr := Some h, settingsInitialized := True\<rparr>"
  have "buffer d \<noteq> None" using d(2) by (auto simp: descr_holds_def)
  then have run: "pdm_otPlatSettingsInit env (fp_boot p) = Some ?f"
    using boot_segment_size [OF p(4), of p] s(1) p(5) d(1) by (simp add: pdm_otPlatSettingsInit_def fp_boot_def)
  have seg: "unat (PDM_SEGMENT_SIZE s) = fp_segment env" by (simp add: s(2) PDM_SEGMENT_SIZE_def fp_segment_def)
  then have reg: "unat (backendRegionSize (header d)) = fp_segment env"
    using p(6) by (simp add: d(4) unsigned_ucast_eq take_bit_eq_mod)
  have "one_segment d" using d(2,3) reg bs(2) p(6) by (simp add: one_segment_def descr_holds_def)
  moreover have "q_inv s" "q_abs s = []" "pdm_ready env s"
    using p(2) by (simp_all add: s(2) q_inv_def q_abs_def q_count_def pdm_boot_def pdm_ready_def pdm_memory_def)
  ultimately have "fp_ok env ?f h d"
    using descr_holds_ram [OF d(2)] p(7) seg reg s(2) by (simp add: fp_ok_def fp_at_def theDescr_def)
  with run descr_holds_ram [OF d(2)] bs(1) show ?thesis
    by (intro exI [of _ ?f] exI [of _ d]) (simp add: s(2) pdm_boot_def q_abs_def q_count_def)
qed

section \<open>Commands\<close>

text \<open>With no request in the queue, the record is the store, unless the store is empty.\<close>

definition fp_synced :: "'p pdm_env \<Rightarrow> ('p \<Rightarrow> u16 \<Rightarrow> bytes option) \<Rightarrow> 'p flash_pdm \<Rightarrow> bool" where
  "fp_synced env content f \<longleftrightarrow>
     (q_abs (sys f) = [] \<longrightarrow> fp_abs f \<noteq> (\<lambda>_. []) \<longrightarrow> fp_record env (content (pdm (sys f))) (fp_abs f))"

definition fp_exec :: "'p pdm_env \<Rightarrow> 'p flash_pdm \<Rightarrow> settings_cmd \<Rightarrow> (otError \<times> 'p flash_pdm) option" where
  "fp_exec env = exec_cmd (pdm_otPlatSettingsAdd env) (pdm_otPlatSettingsSet env False) (pdm_otPlatSettingsDelete env)
     (pdm_otPlatSettingsWipe env)"

lemma fp_keeps_ok: "fp_ok env f h d \<Longrightarrow> fp_at env g h d1 \<Longrightarrow> fp_keeps f g \<Longrightarrow> fp_ok env g h d1"
  by (simp add: fp_ok_def fp_keeps_def)

text \<open>One handler other than the wipe, from what its step lemma says.\<close>

lemma fp_keeps_synced:
  assumes "fp_ok env f h d" and "fp_at env g h d1" and "fp_keeps f g" and "settings_step FirstOrAll (ram_abs d) c e (ram_abs d1)"
    and "q_abs (sys g) = (if e = OT_ERROR_NONE then [otRequest h] else q_abs (sys f))"
  shows "fp_synced env content f \<and> e \<in> {OT_ERROR_NONE, OT_ERROR_NOT_FOUND} \<longrightarrow> fp_synced env content g"
proof (cases "e = OT_ERROR_NOT_FOUND")
  case True
  with assms(4) have "ram_abs d1 = ram_abs d" by (cases rule: settings_step.cases) simp_all
  then have "fp_abs g = fp_abs f" using fp_at_abs assms(1,2) by (metis fp_ok_def)
  then show ?thesis using assms(3,5) True by (simp add: fp_synced_def fp_keeps_def)
next
  case False
  then show ?thesis using assms(5) by (auto simp: fp_synced_def)
qed

lemma fp_exec_step:
  assumes ok: "fp_ok env f h d" and c: "cmd_ok c"
  shows "\<exists>e g d1. fp_exec env f c = Some (e, g) \<and> fp_ok env g h d1 \<and> settings_step FirstOrAll (ram_abs d) c e (ram_abs d1) \<and>
    (fp_synced env content f \<and> e \<in> {OT_ERROR_NONE, OT_ERROR_NOT_FOUND} \<longrightarrow> fp_synced env content g)"
proof -
  have at: "fp_at env f h d" using ok by (simp add: fp_ok_def)
  have keep: ?thesis if "fp_exec env f c = Some (e, g)" "fp_at env g h d1" "fp_keeps f g" "settings_step FirstOrAll (ram_abs d) c e (ram_abs d1)"
    "q_abs (sys g) = (if e = OT_ERROR_NONE then [otRequest h] else q_abs (sys f))" for e g d1
    using that fp_keeps_ok [OF ok] fp_keeps_synced [OF ok that(2-5)] by blast
  show ?thesis
  proof (cases c)
    case (CAdd k v)
    then show ?thesis using c pdm_add_step [OF at, of v "of_nat (length v)" k] keep by (auto simp: fp_exec_def u16_simps)
  next
    case (CSet k v)
    then show ?thesis using c pdm_set_step [OF at, of v "of_nat (length v)" False k] keep by (auto simp: fp_exec_def u16_simps)
  next
    case (CDelete k j)
    then show ?thesis using c pdm_delete_step [OF at, of k j] keep by (auto simp: fp_exec_def)
  next
    case CWipe
    from pdm_wipe_step [OF at] obtain g d1 where g: "pdm_otPlatSettingsWipe env f = Some g" "fp_at env g h d1" "ram_abs d1 = (\<lambda>_. [])"
      by blast
    have "sPdmSegmentSize (sys g) = sPdmSegmentSize (sys f)" "sSegmentBuffer (sys g) = sSegmentBuffer (sys f)"
      using g(1) by (auto simp: pdm_otPlatSettingsWipe_def unlock_def setDescr_def Let_def split: bind_splits)
    then have "fp_ok env g h d1" using ok g(2) by (simp add: fp_ok_def)
    moreover have "fp_synced env content g" using fp_at_abs [OF g(2)] g(3) by (simp add: fp_synced_def)
    moreover have "settings_step FirstOrAll (ram_abs d) CWipe OT_ERROR_NONE (ram_abs d1)" unfolding g(3) by (rule settings_step.wipe)
    ultimately show ?thesis
      using g(1) CWipe by (intro exI [of _ OT_ERROR_NONE] exI [of _ g] exI [of _ d1]) (simp add: fp_exec_def)
  qed
qed

lemma fp_exec_run:
  assumes "fp_ok env f h d" and "list_all cmd_ok cs"
  shows "\<exists>es g d1. exec_cmds (fp_exec env) f cs = Some (es, g) \<and> fp_ok env g h d1 \<and> settings_run FirstOrAll (ram_abs d) cs es (ram_abs d1) \<and>
    (fp_synced env content f \<and> set es \<subseteq> {OT_ERROR_NONE, OT_ERROR_NOT_FOUND} \<longrightarrow> fp_synced env content g)"
  using assms
proof (induction cs arbitrary: f d)
  case Nil
  then show ?case by (auto intro: settings_run.intros)
next
  case (Cons c cs)
  from fp_exec_step [OF Cons.prems(1), of c content] Cons.prems(2) obtain e f1 d0 where
    1: "fp_exec env f c = Some (e, f1)" "fp_ok env f1 h d0" "settings_step FirstOrAll (ram_abs d) c e (ram_abs d0)"
      "fp_synced env content f \<and> e \<in> {OT_ERROR_NONE, OT_ERROR_NOT_FOUND} \<longrightarrow> fp_synced env content f1" by auto
  from Cons.IH [OF 1(2)] Cons.prems(2) obtain es g d1 where
    2: "exec_cmds (fp_exec env) f1 cs = Some (es, g)" "fp_ok env g h d1" "settings_run FirstOrAll (ram_abs d0) cs es (ram_abs d1)"
      "fp_synced env content f1 \<and> set es \<subseteq> {OT_ERROR_NONE, OT_ERROR_NOT_FOUND} \<longrightarrow> fp_synced env content g" by auto
  have "settings_run FirstOrAll (ram_abs d) (c # cs) (e # es) (ram_abs d1)" using 1(3) 2(3) by (rule settings_run.run_Cons)
  with 1 2 show ?case by (intro exI [of _ "e # es"] exI [of _ g] exI [of _ d1]) auto
qed

section \<open>The idle task\<close>

lemma q_abs_single:
  assumes "q_inv s" and "q_abs s = [e]"
  shows "u8QueueReadPtr s \<noteq> u8QueueWritePtr s" and "unat (u8QueueReadPtr s) < length (asQueue s)"
    and "asQueue s ! unat (u8QueueReadPtr s) = e" and "u8IncrementQueuePtr (u8QueueReadPtr s) = u8QueueWritePtr s"
proof -
  have c: "q_count s = 1" using assms(2) length_q_abs [of s] by simp
  then show "u8QueueReadPtr s \<noteq> u8QueueWritePtr s" by (auto simp: q_count_def)
  show "unat (u8QueueReadPtr s) < length (asQueue s)" using assms(1) by (simp add: q_inv_def)
  show "asQueue s ! unat (u8QueueReadPtr s) = e" using assms c by (simp add: q_abs_def q_inv_def)
  show "u8IncrementQueuePtr (u8QueueReadPtr s) = u8QueueWritePtr s"
    using q_write_ptr [OF assms(1)] c unat_increment [of "u8QueueReadPtr s"] assms(1)
    by (simp add: q_inv_def word_unat_eq_iff)
qed

lemma idleLoop_single:
  assumes "q_inv s" and "q_abs s = [e]"
    and "FS_SaveRecordData env e (s\<lparr>u8QueueReadPtr := u8QueueWritePtr s, asQueueMutexTaken := False\<rparr>) = Some t"
    and "saved_from (s\<lparr>u8QueueReadPtr := u8QueueWritePtr s, asQueueMutexTaken := False\<rparr>) t"
  shows "idleLoop env (Suc n) s = Some t"
proof -
  have "u8QueueReadPtr t = u8QueueWritePtr t" using assms(4) by (auto simp: saved_from_def)
  then have "idleLoop env n t = Some t" by (cases n) simp_all
  then show ?thesis using q_abs_single [OF assms(1,2)] assms(3) by (simp add: Let_def)
qed

lemma fp_idle:
  assumes plat: "fp_platform env content h0" and ok: "fp_ok env f h d" and n: "n \<noteq> 0"
  shows "\<exists>t bs. FS_vIdleTask env n (sys f) = Some t \<and> vals bs = ram_abs d \<and> length (enc bs) \<le> fp_segment env \<and>
    content (pdm t) = (if q_abs (sys f) = [] \<or> bs = [] then content (pdm (sys f))
                       else (content (pdm (sys f)))(kNvmIdOTConfigData \<mapsto> enc bs))"
proof -
  let ?s = "sys f"
  have at: "q_inv ?s" "theDescr f = Some (h, d)" "ram_inv d" "one_segment d" "q_abs ?s = [] \<or> q_abs ?s = [otRequest h]"
    "unat (backendRegionSize (header d)) = unat (PDM_SEGMENT_SIZE ?s)"
    using ok by (simp_all add: fp_ok_def fp_at_def)
  note S = fp_ok_segment [OF ok]
  from ram_inv_holds [OF at(3)] obtain bs junk where bs: "ram_holds d bs junk" .
  have len: "unat (hLength (header d)) = length (enc bs)" "length (enc bs) \<le> fp_segment env"
    using bs at(4,6) S by (simp_all add: ram_holds_def one_segment_def)
  obtain m where m: "unat (if n > MAX_QUEUE_SIZE then MAX_QUEUE_SIZE else n) = Suc m"
    using n by (cases "unat (if n > MAX_QUEUE_SIZE then MAX_QUEUE_SIZE else n)") (auto simp: MAX_QUEUE_SIZE_def unat_eq_0 split: if_splits)
  have idle: "FS_vIdleTask env n ?s = idleLoop env (Suc m) ?s" by (simp only: FS_vIdleTask_def m)
  show ?thesis
  proof (cases "q_abs ?s = []")
    case True
    then have "u8QueueReadPtr ?s = u8QueueWritePtr ?s"
      using at(1) q_write_ptr [OF at(1)] length_q_abs [of ?s] by (simp add: q_inv_def word_unat_eq_iff)
    then show ?thesis using idle True ram_holds_abs [OF bs] len(2) by auto
  next
    case False
    let ?s1 = "?s\<lparr>u8QueueReadPtr := u8QueueWritePtr ?s, asQueueMutexTaken := False\<rparr>" and ?e = "otRequest h"
    have p: "pdm_documented env content" "pdm_saves env" "fp_segment env \<le> 11776" using plat by (simp_all add: fp_platform_def)
    note pos = fp_segment_pos [OF plat]
    have S1: "unat (PDM_SEGMENT_SIZE ?s1) = fp_segment env" using S by (simp add: PDM_SEGMENT_SIZE_def)
    have k: "pdm_segments ?s1 (length (enc bs)) = (if bs = [] then 0 else 1)"
      using segments_single [OF len(2) pos] by (simp add: pdm_segments_def S1 enc_empty_length)
    have "pdm_savable ?s1 (pvDataBuffer ?e) kNvmIdOTConfigData (enc bs)"
      using ok at(2) bs len pos p(3) k S1
      by (auto simp: pdm_savable_def otRequest_def theDescr_def ram_holds_def fp_ok_def kNvmIdOTConfigData_def split: bind_splits)
    from FS_SaveRecordData_saves [OF p(1,2) this, unfolded k S1] obtain t where
      t: "FS_SaveRecordData env ?e ?s1 = Some t" "saved_from ?s1 t"
        "content (pdm t) = (\<lambda>a. if unat kNvmIdOTConfigData \<le> unat a \<and> unat a < unat kNvmIdOTConfigData + (if bs = [] then 0 else 1)
                           then Some (chunk (fp_segment env) (enc bs) (unat a - unat kNvmIdOTConfigData)) else content (pdm ?s1) a)"
      by (auto simp: otRequest_def)
    have "idleLoop env (Suc m) ?s = Some t" using idleLoop_single [OF at(1) _ t(1,2)] False at(5) by blast
    moreover have "content (pdm t) = (if bs = [] then content (pdm ?s) else (content (pdm ?s))(kNvmIdOTConfigData \<mapsto> enc bs))"
      using len(2) by (auto simp: t(3) fun_eq_iff chunk_def word_unat_eq_iff)
    ultimately show ?thesis using idle False ram_holds_abs [OF bs] len(2) by auto
  qed
qed


section \<open>Properties\<close>

lemma vals_empty: "vals [] = (\<lambda>_. [])"
  by (rule ext) simp

text \<open>
  C13. Settings survive a power cycle: after any sequence of add, set, delete (at any index) and wipe calls with
  values shorter than 65532 bytes, none of which ran out of space, one pass of the idle task and a reboot, the next
  initialisation gives the same store, unless the store is empty. The calls themselves refine the settings store
  from what the record held at power-on; a delete at an index other than 0 and -1 changes nothing.
\<close>

theorem pdm_settings_survive_reboot:
  assumes "fp_platform env content h" and "fp_record env (content p) \<sigma>" and "list_all cmd_ok cs" and "n \<noteq> 0"
  shows "\<exists>f es g. pdm_otPlatSettingsInit env (fp_boot p) = Some f \<and> fp_abs f = \<sigma> \<and>
    exec_cmds (fp_exec env) f cs = Some (es, g) \<and> settings_run FirstOrAll \<sigma> cs es (fp_abs g) \<and>
    (set es \<subseteq> {OT_ERROR_NONE, OT_ERROR_NOT_FOUND} \<and> fp_abs g \<noteq> (\<lambda>_. []) \<longrightarrow>
      (\<exists>t r. FS_vIdleTask env n (sys g) = Some t \<and> pdm_otPlatSettingsInit env (fp_boot (pdm t)) = Some r \<and> fp_abs r = fp_abs g))"
proof -
  from fp_init [OF assms(1,2)] obtain f d where f: "pdm_otPlatSettingsInit env (fp_boot p) = Some f" "fp_ok env f h d"
    "ram_abs d = \<sigma>" "pdm (sys f) = p" by blast
  have abs: "fp_abs f' = ram_abs d'" if "fp_ok env f' h d'" for f' d' using that fp_at_abs by (auto simp: fp_ok_def)
  have "fp_synced env content f" using f abs [OF f(2)] assms(2) by (simp add: fp_synced_def)
  with fp_exec_run [OF f(2) assms(3), of content] obtain es g d1 where
    g: "exec_cmds (fp_exec env) f cs = Some (es, g)" "fp_ok env g h d1" "settings_run FirstOrAll \<sigma> cs es (fp_abs g)"
      "set es \<subseteq> {OT_ERROR_NONE, OT_ERROR_NOT_FOUND} \<longrightarrow> fp_synced env content g"
    using f(3) abs by metis
  from fp_idle [OF assms(1) g(2) assms(4)] obtain t bs where
    t: "FS_vIdleTask env n (sys g) = Some t" "vals bs = fp_abs g" "length (enc bs) \<le> fp_segment env"
      "content (pdm t) = (if q_abs (sys g) = [] \<or> bs = [] then content (pdm (sys g))
                          else (content (pdm (sys g)))(kNvmIdOTConfigData \<mapsto> enc bs))"
    using abs [OF g(2)] by metis
  have "fp_record env (content (pdm t)) (fp_abs g)"
    if "set es \<subseteq> {OT_ERROR_NONE, OT_ERROR_NOT_FOUND}" "fp_abs g \<noteq> (\<lambda>_. [])"
  proof -
    have "bs \<noteq> []" using that(2) t(2) vals_empty by auto
    then show ?thesis using that g(4) t(2-4) by (cases "q_abs (sys g) = []") (auto simp: fp_synced_def fp_record_def)
  qed
  then have "\<exists>r. pdm_otPlatSettingsInit env (fp_boot (pdm t)) = Some r \<and> fp_abs r = fp_abs g"
    if "set es \<subseteq> {OT_ERROR_NONE, OT_ERROR_NOT_FOUND}" "fp_abs g \<noteq> (\<lambda>_. [])"
    using fp_init [OF assms(1)] abs that by metis
  then show ?thesis using f(1,3) g(1,3) t(1) abs [OF f(2)] by blast
qed

lemma pdm_sample_platform: "fp_platform pdm_sample_env (\<lambda>p. p) 1" "fp_segment pdm_sample_env = 16"
  using sample_pdm
  by (simp_all add: fp_platform_def fp_segment_def realloc_documented_def PDM_SEGMENT_MARGIN_def)
    (simp_all add: pdm_sample_env_def)

definition pdm_two_settings :: "u16 \<Rightarrow> bytes option" where
  "pdm_two_settings = [kNvmIdOTConfigData \<mapsto> enc [(3, [7, 8]), (4, [9])]]"

theorem pdm_settings_survive_reboot_witness:
  "\<exists>f g t r. pdm_otPlatSettingsInit pdm_sample_env (fp_boot pdm_two_settings) = Some f \<and> fp_abs f 3 = [[7, 8]] \<and>
    exec_cmds (fp_exec pdm_sample_env) f [CDelete 3 0] = Some ([OT_ERROR_NONE], g) \<and>
    FS_vIdleTask pdm_sample_env 1 (sys g) = Some t \<and> pdm_otPlatSettingsInit pdm_sample_env (fp_boot (pdm t)) = Some r \<and>
    fp_abs r 3 = [] \<and> fp_abs r 4 = [[9]]"
proof -
  let ?\<sigma> = "vals [(3, [7, 8]), (4, [9])]"
  have "fp_record pdm_sample_env pdm_two_settings ?\<sigma>"
    using pdm_sample_platform(2) by (auto simp: fp_record_def pdm_two_settings_def)
  from pdm_settings_survive_reboot [OF pdm_sample_platform(1) this, of "[CDelete 3 0]" 1] obtain f es g where
    r: "pdm_otPlatSettingsInit pdm_sample_env (fp_boot pdm_two_settings) = Some f" "fp_abs f = ?\<sigma>"
      "exec_cmds (fp_exec pdm_sample_env) f [CDelete 3 0] = Some (es, g)" "settings_run FirstOrAll ?\<sigma> [CDelete 3 0] es (fp_abs g)"
      "set es \<subseteq> {OT_ERROR_NONE, OT_ERROR_NOT_FOUND} \<and> fp_abs g \<noteq> (\<lambda>_. []) \<longrightarrow>
      (\<exists>t r. FS_vIdleTask pdm_sample_env 1 (sys g) = Some t \<and> pdm_otPlatSettingsInit pdm_sample_env (fp_boot (pdm t)) = Some r \<and>
         fp_abs r = fp_abs g)" by (auto simp del: exec_cmds.simps vals_simps)
  from r(4) have g: "es = [OT_ERROR_NONE]" "fp_abs g = ?\<sigma>(3 := [])"
    by (auto elim!: step_deleteE settings_run.cases)
  then have "fp_abs g 4 = [[9]]" "fp_abs g 3 = []" by simp_all
  moreover from this have "fp_abs g \<noteq> (\<lambda>_. [])" by auto
  ultimately show ?thesis using r g by auto
qed

text \<open>
  Deleting the last setting is undone by a reboot: the buffer has become empty, an empty buffer has no segments,
  so the idle task writes nothing and the record still holds the deleted setting.
\<close>

theorem pdm_deleted_last_setting_returns:
  assumes "fp_platform env content h" and "content p kNvmIdOTConfigData = Some (enc [(k, v)])" and "4 + length v \<le> fp_segment env"
    and "n \<noteq> 0"
  shows "\<exists>f g t r. pdm_otPlatSettingsInit env (fp_boot p) = Some f \<and>
    pdm_otPlatSettingsDelete env f k (-1) = Some (OT_ERROR_NONE, g) \<and> fp_abs g = (\<lambda>_. []) \<and>
    FS_vIdleTask env n (sys g) = Some t \<and> pdm_otPlatSettingsInit env (fp_boot (pdm t)) = Some r \<and> fp_abs r k = [v]"
proof -
  have rec: "fp_record env c (vals [(k, v)])" if "c kNvmIdOTConfigData = Some (enc [(k, v)])" for c
    unfolding fp_record_def using that assms(3) by (intro exI [of _ "[(k, v)]"]) simp
  have abs: "fp_abs f' = ram_abs d'" if "fp_ok env f' h d'" for f' d' using that fp_at_abs by (auto simp: fp_ok_def)
  from fp_init [OF assms(1) rec [of "content p", OF assms(2)]] obtain f d where
    f: "pdm_otPlatSettingsInit env (fp_boot p) = Some f" "fp_ok env f h d" "ram_abs d = vals [(k, v)]" "pdm (sys f) = p" by blast
  have at: "fp_at env f h d" using f(2) by (simp add: fp_ok_def)
  from pdm_delete_step [OF at, of k "-1"] obtain e g d1 where
    g: "pdm_otPlatSettingsDelete env f k (-1) = Some (e, g)" "fp_at env g h d1" "fp_keeps f g"
      "settings_step FirstOrAll (ram_abs d) (CDelete k (-1)) e (ram_abs d1)" by blast
  note ok = fp_keeps_ok [OF f(2) g(2,3)]
  from g(4) f(3) have e: "e = OT_ERROR_NONE" "ram_abs d1 = (\<lambda>_. [])" by (auto elim!: step_deleteE simp: fun_eq_iff)
  from fp_idle [OF assms(1) ok assms(4)] obtain t bs where t: "FS_vIdleTask env n (sys g) = Some t" "vals bs = ram_abs d1"
    "content (pdm t) = (if q_abs (sys g) = [] \<or> bs = [] then content (pdm (sys g))
                        else (content (pdm (sys g)))(kNvmIdOTConfigData \<mapsto> enc bs))" by blast
  have "bs = []" using t(2) e(2) by (metis list.exhaust list.set_intros(1) image_eqI vals_Nil_iff)
  then have "content (pdm t) = content p" using t(3) g(3) f(4) by (simp add: fp_keeps_def)
  then have "fp_record env (content (pdm t)) (vals [(k, v)])" using rec assms(2) by simp
  from fp_init [OF assms(1) this] obtain r d2 where
    r: "pdm_otPlatSettingsInit env (fp_boot (pdm t)) = Some r" "fp_ok env r h d2" "ram_abs d2 = vals [(k, v)]" by blast
  have "fp_abs g = (\<lambda>_. [])" "fp_abs r k = [v]" using abs [OF ok] abs [OF r(2)] r(3) e(2) by simp_all
  with f(1) g(1) e(1) t(1) r(1) show ?thesis by blast
qed

theorem pdm_deleted_last_setting_returns_witness:
  "\<exists>f g t r. pdm_otPlatSettingsInit pdm_sample_env (fp_boot [kNvmIdOTConfigData \<mapsto> enc [(3, [7, 8])]]) = Some f \<and>
    pdm_otPlatSettingsDelete pdm_sample_env f 3 (-1) = Some (OT_ERROR_NONE, g) \<and> fp_abs g = (\<lambda>_. []) \<and>
    FS_vIdleTask pdm_sample_env 1 (sys g) = Some t \<and> pdm_otPlatSettingsInit pdm_sample_env (fp_boot (pdm t)) = Some r \<and>
    fp_abs r 3 = [[7, 8]]"
  using pdm_deleted_last_setting_returns [OF pdm_sample_platform(1), of "[kNvmIdOTConfigData \<mapsto> enc [(3, [7, 8])]]" 3 "[7, 8]" 1]
    pdm_sample_platform(2) by simp

text \<open>
  Setting a new key never grows the buffer, although the allocator may have memory: the value that does not fit
  in the present allocation is refused and no save is requested. Adding the same value asks for a larger buffer first.
\<close>

theorem pdm_set_new_key_never_grows:
  assumes "fp_at env f h d" and "ram_abs d k = []"
    and "length v = unat l" and "unat (maxLength (header d)) < unat (hLength (header d)) + unat (4 + l)"
  shows "pdm_otPlatSettingsSet env isr f k v l = Some (OT_ERROR_NO_BUFS, unlock isr f)"
proof -
  have d: "theDescr f = Some (h, d)" "ram_inv d" using assms(1) by (simp_all add: fp_at_def)
  from ram_inv_holds [OF d(2)] obtain bs junk where h: "ram_holds d bs junk" .
  then have none: "vals bs k = []" using assms(2) ram_holds_abs by metis
  then have get: "ramStorageGet d k 0 None (Some 0) = Some (RS_ERROR_NOT_FOUND, None, Some 0)"
    using ramStorageGet_holds [OF h, of k 0 None "Some 0"] by simp
  have gone: "dropWhile (\<lambda>b. fst b \<noteq> k) bs = []" using none by (auto simp: vals_Nil_iff)
  have "ramSetLoop d (enc bs @ junk) k v l 0 = Some (False, d)"
    using ramSetLoop_blocks [of d "[]" bs junk 0 v l k] h assms(3) unfolding append_Nil gone by simp
  then have "ramStorageSet d k v l = Some (RS_ERROR_NO_BUFS, d)"
    using h assms(4) by (simp add: ramStorageSet_def ramStorageAdd_def ram_holds_def)
  moreover have "setDescr f h d = f"
    using d(1) by (auto simp: setDescr_def theDescr_def fun_upd_idem split: bind_splits)
  ultimately show ?thesis using d(1) get by (simp add: pdm_otPlatSettingsSet_def pdm_saveRecord_def)
qed

definition pdm_full_descr :: ramBufferDescriptor where
  "pdm_full_descr = \<lparr>header = \<lparr>hLength = 6, maxLength = 8, extendedSearch = False, backendRegionSize = 16\<rparr>,
     buffer = Some (enc [(3, [7, 8])] @ [0, 0])\<rparr>"

definition pdm_full_settings :: "(u16 \<Rightarrow> bytes option) flash_pdm" where
  "pdm_full_settings = (fp_boot (\<lambda>_. None))\<lparr>sys := pdm_sample_sys\<lparr>descs := [1 \<mapsto> pdm_full_descr]\<rparr>, ramDescr := Some 1\<rparr>"

lemma pdm_full_descr_holds: "ram_holds pdm_full_descr [(3, [7, 8])] [0, 0]"
  by (simp add: ram_holds_def pdm_full_descr_def)

lemma pdm_full_settings_at: "fp_at pdm_sample_env pdm_full_settings 1 pdm_full_descr"
proof -
  have "one_segment pdm_full_descr" by (simp add: one_segment_def pdm_full_descr_def)
  then show ?thesis
    using ram_holds_abs [OF pdm_full_descr_holds] pdm_sample_facts pdm_sample_platform(1)
    by (simp add: fp_at_def fp_platform_def pdm_full_settings_def theDescr_def)
      (simp add: pdm_full_descr_def pdm_sample_sys_def PDM_SEGMENT_SIZE_def PDM_SEGMENT_MARGIN_def)
qed

theorem pdm_set_new_key_never_grows_witness:
  "pdm_otPlatSettingsSet pdm_sample_env False pdm_full_settings 4 [9] 1 = Some (OT_ERROR_NO_BUFS, unlock False pdm_full_settings)"
  using pdm_set_new_key_never_grows [OF pdm_full_settings_at, of 4 "[9]" 1 False] ram_holds_abs [OF pdm_full_descr_holds]
  by (simp add: pdm_full_descr_def)


text \<open>
  The calibration data of the radio is never read back: the capacity passed to \<open>otPlatSettingsGet\<close> is the
  variable that receives the length, still 0, so after a successful write the read reports the full length of the
  stored data and leaves the data block of the caller as it was.
\<close>

theorem u16RadioCB_ReadNVM_copies_nothing:
  assumes "fp_inv env f" and "length v = unat l" and "length v + 4 < 65536" and "length (fp_abs f radioKey) \<le> 1"
    and "bRadioCB_WriteNVM env radioKey isr f v l = Some (True, g)"
  shows "u16RadioCB_ReadNVM radioKey isr g block u16MaxLen = Some (l, block)"
proof -
  from assms(5) have set: "pdm_otPlatSettingsSet env isr f radioKey v l = Some (OT_ERROR_NONE, g)"
    by (auto simp: bRadioCB_WriteNVM_def split: bind_splits)
  with pdmst.put_step [OF assms(1-3), of isr radioKey] assms(4) have g: "fp_inv env g" "fp_abs g radioKey = [v]"
    by (auto elim: step_setE)
  then obtain h d where at: "fp_at env g h d" by (auto simp: fp_inv_def)
  then have d: "theDescr g = Some (h, d)" "ram_inv d" "ram_abs d radioKey = [v]"
    using g(2) fp_at_abs [OF at] by (simp_all add: fp_at_def)
  from ram_inv_holds [OF d(2)] obtain bs junk where h: "ram_holds d bs junk" .
  have "vals bs radioKey = [v]" using d(3) ram_holds_abs [OF h] by simp
  moreover have "of_nat (length v) = l" using assms(2) by simp
  ultimately show ?thesis
    using ramStorageGet_holds [OF h, of radioKey 0 "Some block" "Some 0"] d(1)
    by (simp add: u16RadioCB_ReadNVM_def pdm_otPlatSettingsGet_def ram_deliver_def wr_bytes_def)
qed

theorem u16RadioCB_ReadNVM_copies_nothing_witness:
  "\<exists>g. bRadioCB_WriteNVM pdm_sample_env 3 False pdm_full_settings [1, 2] 2 = Some (True, g) \<and>
    u16RadioCB_ReadNVM 3 False g [0, 0, 0] 3 = Some (2, [0, 0, 0])"
proof -
  note d = ram_holds_abs [OF pdm_full_descr_holds]
  have get: "ramStorageGet pdm_full_descr 3 0 None (Some 0) = Some (RS_ERROR_NONE, None, Some 2)"
    using ramStorageGet_holds [OF pdm_full_descr_holds, of 3 0 None "Some 0"] by (simp add: ram_deliver_def)
  obtain d1 where set: "ramStorageSet pdm_full_descr 3 [1, 2] 2 = Some (RS_ERROR_NONE, d1)"
    by (simp add: ram_eval pdm_full_descr_def)
  have "one_segment pdm_full_descr" using pdm_full_settings_at by (simp add: fp_at_def)
  from ramStorageSet_segment [OF set this] ram.put_step [of pdm_full_descr "[1, 2]" 2 3] d set
    pdm_saveRecord_step [OF pdm_full_settings_at, of d1 False RS_ERROR_NONE]
  obtain g where "pdm_saveRecord pdm_sample_env False pdm_full_settings 1 (RS_ERROR_NONE, d1) = Some (OT_ERROR_NONE, g)" by auto
  moreover have "theDescr pdm_full_settings = Some (1, pdm_full_descr)" using pdm_full_settings_at by (simp add: fp_at_def)
  ultimately have "bRadioCB_WriteNVM pdm_sample_env 3 False pdm_full_settings [1, 2] 2 = Some (True, g)"
    using get set by (simp add: bRadioCB_WriteNVM_def pdm_otPlatSettingsSet_def)
  moreover have "fp_inv pdm_sample_env pdm_full_settings" "fp_abs pdm_full_settings 3 = [[7, 8]]"
    using fp_at_abs [OF pdm_full_settings_at] d by simp_all
  ultimately show ?thesis
    using u16RadioCB_ReadNVM_copies_nothing [of pdm_sample_env pdm_full_settings "[1, 2]" 2 3 False g "[0, 0, 0]" 3] by simp
qed

end
