(* ===== verification/Bounded_Fifo.thy ===== *)
theory Bounded_Fifo
  imports OtNxp_Prelude
begin

text \<open>
  The interface of the ring buffers between interrupt handlers and the main loop: a queue of bounded
  length in front of an abstraction to lists. \<open>bounded_fifo\<close> is a ring that refuses an element when it is
  full.
\<close>

section \<open>Histories\<close>

text \<open>A history of puts and gets on a list of at most \<open>cap\<close> elements, with what each get returned.\<close>

datatype 'a fifo_op = Put 'a | Get

fun fifo_spec :: "nat \<Rightarrow> 'a list \<Rightarrow> 'a fifo_op list \<Rightarrow> 'a list \<times> 'a list" where
  "fifo_spec cap q [] = ([], q)"
| "fifo_spec cap q (Put x # ops) = fifo_spec cap (if length q < cap then q @ [x] else q) ops"
| "fifo_spec cap q (Get # ops) =
     (case q of [] \<Rightarrow> fifo_spec cap [] ops
      | y # ys \<Rightarrow> (case fifo_spec cap ys ops of (out, q1) \<Rightarrow> (y # out, q1)))"

fun fifo_run :: "('s \<Rightarrow> 'a \<Rightarrow> 's) \<Rightarrow> ('s \<Rightarrow> ('a \<times> 's) option) \<Rightarrow> 's \<Rightarrow> 'a fifo_op list \<Rightarrow> 'a list \<times> 's" where
  "fifo_run put get s [] = ([], s)"
| "fifo_run put get s (Put x # ops) = fifo_run put get (put s x) ops"
| "fifo_run put get s (Get # ops) =
     (case get s of None \<Rightarrow> fifo_run put get s ops
      | Some (y, t) \<Rightarrow> (case fifo_run put get t ops of (out, u) \<Rightarrow> (y # out, u)))"

text \<open>Nothing is lost or reordered: what comes out, then what is still queued, is what was let in.\<close>

fun fifo_accepted :: "nat \<Rightarrow> nat \<Rightarrow> 'a fifo_op list \<Rightarrow> 'a list" where
  "fifo_accepted cap n [] = []"
| "fifo_accepted cap n (Put x # ops) =
     (if n < cap then x # fifo_accepted cap (Suc n) ops else fifo_accepted cap n ops)"
| "fifo_accepted cap n (Get # ops) = fifo_accepted cap (n - 1) ops"

lemma fifo_spec_conserves:
  "fifo_spec cap q ops = (out, q1) \<Longrightarrow> out @ q1 = q @ fifo_accepted cap (length q) ops"
proof (induction ops arbitrary: q out)
  case (Cons op ops)
  then show ?case by (cases op; cases q) (auto split: prod.splits if_splits)
qed simp

section \<open>The interface\<close>

locale bounded_fifo =
  fixes inv :: "'s \<Rightarrow> bool" and abs :: "'s \<Rightarrow> 'a list" and cap :: "'s \<Rightarrow> nat"
    and put :: "'s \<Rightarrow> 'a \<Rightarrow> 's" and get :: "'s \<Rightarrow> ('a \<times> 's) option"
  assumes put_room: "inv s \<Longrightarrow> length (abs s) < cap s \<Longrightarrow>
      inv (put s x) \<and> cap (put s x) = cap s \<and> abs (put s x) = abs s @ [x]"
    and put_full: "inv s \<Longrightarrow> \<not> length (abs s) < cap s \<Longrightarrow>
      inv (put s x) \<and> cap (put s x) = cap s \<and> abs (put s x) = abs s"
    and get_empty: "inv s \<Longrightarrow> abs s = [] \<Longrightarrow> get s = None"
    and get_some: "inv s \<Longrightarrow> abs s = y # ys \<Longrightarrow>
      \<exists>t. get s = Some (y, t) \<and> inv t \<and> cap t = cap s \<and> abs t = ys"
begin

lemma run_spec:
  "inv s \<Longrightarrow> fifo_run put get s ops = (out, t) \<Longrightarrow>
   inv t \<and> cap t = cap s \<and> fifo_spec (cap s) (abs s) ops = (out, abs t)"
proof (induction ops arbitrary: s out)
  case (Cons op ops)
  show ?case
  proof (cases op)
    case (Put x)
    then show ?thesis
      using Cons.IH [of "put s x" out] Cons.prems put_room [of s x] put_full [of s x]
      by (cases "length (abs s) < cap s") auto
  next
    case Get
    show ?thesis
    proof (cases "abs s")
      case Nil
      then show ?thesis using Cons.IH [of s out] Cons.prems Get get_empty [of s] by simp
    next
      case (Cons y ys)
      then obtain u where u: "get s = Some (y, u)" "inv u" "cap u = cap s" "abs u = ys"
        using get_some [of s y ys] Cons.prems by auto
      obtain out1 where "fifo_run put get u ops = (out1, t)" "out = y # out1"
        using Cons.prems(2) Get u(1) by (auto split: prod.splits)
      with Cons.IH [OF u(2)] u Cons Get show ?thesis by auto
    qed
  qed
qed simp

lemma run_conserves:
  assumes "inv s" and "fifo_run put get s ops = (out, t)"
  shows "out @ abs t = abs s @ fifo_accepted (cap s) (length (abs s)) ops"
  using run_spec [OF assms] fifo_spec_conserves by blast

end

end
