(* ===== verification/Mcxw_Rx_Ring.thy ===== *)
theory Mcxw_Rx_Ring
  imports Bounded_Fifo
begin

text \<open>
  The lockless receive ring of \<^verbatim>\<open>src/mcxw/platform/radio.c\<close> (\<^verbatim>\<open>rxRingBuffer\<close> and its six helpers). The
  frames are a list \<open>rSlots\<close> of \<open>MCXW_RADIO_NUM_OF_RX_BUFS\<close> entries, which the source requires to be a power of
  two; the four indices are bytes. The PHY context reserves a slot, fills it and publishes it with
  \<^verbatim>\<open>push_free_frame_rx_ring\<close>; the main loop takes a reference to the oldest slot, hands it to the stack and
  releases it with \<^verbatim>\<open>pop_frame_rx_ring\<close>. Besides the queue behaviour of complete operations, the theory
  shows that the two sides may be interleaved at any point.
\<close>

section \<open>State and operations\<close>

record 'f rxRingBuffer =
  rSlots :: "'f list"
  rHead :: u8
  rTail :: u8
  rNext :: u8
  rLast :: u8

abbreviation ring_mask :: "'f rxRingBuffer \<Rightarrow> u8" where
  "ring_mask s \<equiv> of_nat (length (rSlots s) - 1)"

definition reset_rx_ring :: "'f rxRingBuffer \<Rightarrow> 'f rxRingBuffer" where
  "reset_rx_ring s = s\<lparr>rHead := ring_mask s, rTail := ring_mask s, rNext := 0, rLast := 0\<rparr>"

definition push_free_frame_rx_ring :: "'f rxRingBuffer \<Rightarrow> 'f rxRingBuffer" where
  "push_free_frame_rx_ring s = s\<lparr>rHead := rNext s\<rparr>"

definition pop_frame_rx_ring :: "'f rxRingBuffer \<Rightarrow> 'f rxRingBuffer" where
  "pop_frame_rx_ring s = s\<lparr>rTail := rLast s\<rparr>"

text \<open>A reference to a slot is its index; \<open>None\<close> is \<^verbatim>\<open>NULL\<close>.\<close>

definition get_frame_rx_ring :: "'f rxRingBuffer \<Rightarrow> u8 option \<times> 'f rxRingBuffer" where
  "get_frame_rx_ring s =
     (if rTail s = rHead s then (None, s)
      else (let t = (rTail s + 1) AND ring_mask s in (Some t, s\<lparr>rLast := t\<rparr>)))"

definition get_free_frame_rx_ring :: "'f rxRingBuffer \<Rightarrow> u8 option \<times> 'f rxRingBuffer" where
  "get_free_frame_rx_ring s =
     (let n = (rHead s + 1) AND ring_mask s in
      if n = rTail s then (None, s) else (Some n, s\<lparr>rNext := n\<rparr>))"

definition is_rx_ring_full :: "'f rxRingBuffer \<Rightarrow> bool" where
  "is_rx_ring_full s = ((rHead s + 1) AND ring_mask s = rTail s)"

section \<open>The queue a ring holds\<close>

text \<open>
  The occupied slots are those after \<open>rTail\<close> up to \<open>rHead\<close>, so at most one less than there are slots.
\<close>

definition ring_size :: "'f rxRingBuffer \<Rightarrow> bool" where
  "ring_size s \<longleftrightarrow> length (rSlots s) \<in> {2, 4, 8, 16, 32, 64, 128}"

definition ring_inv :: "'f rxRingBuffer \<Rightarrow> bool" where
  "ring_inv s \<longleftrightarrow> ring_size s \<and> unat (rHead s) < length (rSlots s) \<and> unat (rTail s) < length (rSlots s)"

definition ring_count :: "'f rxRingBuffer \<Rightarrow> nat" where
  "ring_count s = (unat (rHead s) + length (rSlots s) - unat (rTail s)) mod length (rSlots s)"

definition ring_abs :: "'f rxRingBuffer \<Rightarrow> 'f list" where
  "ring_abs s = map (\<lambda>i. rSlots s ! ((unat (rTail s) + 1 + i) mod length (rSlots s))) [0..<ring_count s]"

lemma length_ring_abs [simp]: "length (ring_abs s) = ring_count s"
  by (simp add: ring_abs_def)

text \<open>Masking with the size minus one is the next index modulo the size.\<close>

lemma ring_next:
  assumes "ring_size s" and "unat i < length (rSlots s)"
  shows "unat ((i + 1) AND ring_mask s) = (unat i + 1) mod length (rSlots s)"
proof -
  obtain k where k: "length (rSlots s) = 2 ^ k" "k < 8"
  proof -
    have "length (rSlots s) \<in> {2 ^ 1, 2 ^ 2, 2 ^ 3, 2 ^ 4, 2 ^ 5, 2 ^ 6, 2 ^ 7}"
      using assms(1) by (simp add: ring_size_def)
    then show ?thesis using that by fastforce
  qed
  have mask: "ring_mask s = (mask k :: u8)" by (simp add: k(1) mask_eq_exp_minus_1 of_nat_diff)
  have "unat i + 1 < 256" using assms(2) k power_strict_increasing [of k 8 "2 :: nat"] by simp
  then have "unat (i + 1) = unat i + 1" by (simp add: unat_word_ariths)
  then show ?thesis
    unfolding mask take_bit_eq_mask [symmetric] unsigned_take_bit_eq by (simp add: take_bit_eq_mod k(1))
qed

lemma ring_count_less: "ring_inv s \<Longrightarrow> ring_count s < length (rSlots s)"
  by (auto simp: ring_inv_def ring_count_def ring_size_def)

lemma ring_head: "ring_inv s \<Longrightarrow> unat (rHead s) = (unat (rTail s) + ring_count s) mod length (rSlots s)"
  unfolding ring_inv_def ring_count_def by (simp add: mod_add_right_eq)

lemma ring_countI:
  assumes "unat (rHead s) = (unat (rTail s) + c) mod length (rSlots s)" and "c < length (rSlots s)" and "unat (rTail s) < length (rSlots s)"
  shows "ring_count s = c"
proof (cases "unat (rTail s) + c < length (rSlots s)")
  case True
  then show ?thesis using assms by (simp add: ring_count_def)
next
  case False
  then have "unat (rHead s) = unat (rTail s) + c - length (rSlots s)"
    using assms by (simp add: mod_if)
  then show ?thesis using assms False by (simp add: ring_count_def)
qed

lemma ring_empty_iff: "ring_inv s \<Longrightarrow> rTail s = rHead s \<longleftrightarrow> ring_count s = 0"
  using ring_head [of s] ring_countI [of s 0]
  by (auto simp: ring_inv_def word_unat_eq_iff simp flip: length_greater_0_conv)

lemma ring_full_iff:
  assumes "ring_inv s"
  shows "(rHead s + 1) AND ring_mask s = rTail s \<longleftrightarrow> ring_count s = length (rSlots s) - 1"
proof -
  let ?n = "length (rSlots s)" and ?t = "unat (rTail s)" and ?c = "ring_count s"
  have n: "0 < ?n" "?t < ?n" "?c < ?n" using assms ring_count_less [OF assms] by (auto simp: ring_inv_def)
  have "unat ((rHead s + 1) AND ring_mask s) = (?t + ?c + 1) mod ?n"
    using ring_next [of s "rHead s"] assms ring_head [OF assms] by (simp add: ring_inv_def mod_Suc_eq)
  then have "(rHead s + 1) AND ring_mask s = rTail s \<longleftrightarrow> (?t + (?c + 1)) mod ?n = ?t"
    by (simp only: word_unat_eq_iff add.assoc)
  also have "\<dots> \<longleftrightarrow> ?c = ?n - 1"
  proof (cases "?t + (?c + 1) < ?n")
    case True
    then show ?thesis using n by simp
  next
    case False
    have "(?t + (?c + 1)) mod ?n = ?t + (?c + 1) - ?n" if "?t + (?c + 1) < ?n + ?n"
      using False that le_mod_geq [of ?n "?t + (?c + 1)"] by simp
    then have "(?t + (?c + 1)) mod ?n = ?t + (?c + 1) - ?n" using n by linarith
    then show ?thesis using n False by linarith
  qed
  finally show ?thesis .
qed

lemma ring_abs_nth: "i < ring_count s \<Longrightarrow> ring_abs s ! i = rSlots s ! ((unat (rTail s) + 1 + i) mod length (rSlots s))"
  by (simp add: ring_abs_def)

text \<open>The slot that is reserved next lies outside the occupied ones.\<close>

lemma ring_free_slot:
  assumes "ring_inv s" and "ring_count s < length (rSlots s) - 1" and "i < ring_count s"
  shows "(unat (rTail s) + 1 + i) mod length (rSlots s) \<noteq> (unat (rTail s) + 1 + ring_count s) mod length (rSlots s)"
proof
  assume "(unat (rTail s) + 1 + i) mod length (rSlots s) = (unat (rTail s) + 1 + ring_count s) mod length (rSlots s)"
  then have "length (rSlots s) dvd ring_count s - i"
    using assms(3) mod_eq_dvd_iff_nat [of "unat (rTail s) + 1 + i" "unat (rTail s) + 1 + ring_count s" "length (rSlots s)"]
    by simp
  then show False using assms(2,3) by (auto dest!: dvd_imp_le)
qed

section \<open>Complete operations are a bounded queue\<close>

definition ring_put :: "'f rxRingBuffer \<Rightarrow> 'f \<Rightarrow> 'f rxRingBuffer" where
  "ring_put s x = (case get_free_frame_rx_ring s of
     (None, s1) \<Rightarrow> s1
   | (Some n, s1) \<Rightarrow> push_free_frame_rx_ring (s1\<lparr>rSlots := (rSlots s1)[unat n := x]\<rparr>))"

definition ring_get :: "'f rxRingBuffer \<Rightarrow> ('f \<times> 'f rxRingBuffer) option" where
  "ring_get s = (case get_frame_rx_ring s of
     (None, s1) \<Rightarrow> None
   | (Some i, s1) \<Rightarrow> Some (rSlots s1 ! unat i, pop_frame_rx_ring s1))"

definition ring_cap :: "'f rxRingBuffer \<Rightarrow> nat" where
  "ring_cap s = length (rSlots s) - 1"

lemma ring_free_index:
  assumes "ring_inv s"
  shows "unat ((rHead s + 1) AND ring_mask s) = (unat (rTail s) + 1 + ring_count s) mod length (rSlots s)"
  using ring_next [of s "rHead s"] assms ring_head [OF assms] by (simp add: ring_inv_def mod_Suc_eq add.assoc)

text \<open>Publishing a filled slot, whoever moved the tail in the meantime.\<close>

lemma ring_publish:
  assumes "ring_inv s" and "ring_count s < ring_cap s"
    and "unat n = (unat (rTail s) + 1 + ring_count s) mod length (rSlots s)"
    and "t = s\<lparr>rSlots := (rSlots s)[unat n := x], rHead := n, rNext := m\<rparr>"
  shows "ring_inv t" and "ring_abs t = ring_abs s @ [x]" and "ring_cap t = ring_cap s"
proof -
  have pos: "0 < length (rSlots s)" using assms(1) by (auto simp: ring_inv_def)
  have cap: "ring_count s < length (rSlots s) - 1" using assms(2) by (simp add: ring_cap_def)
  have n: "unat n < length (rSlots s)" using pos by (simp add: assms(3))
  show "ring_inv t" using assms(1) n by (simp add: assms(4) ring_inv_def ring_size_def)
  have count: "ring_count t = Suc (ring_count s)"
    using cap assms(1,3) by (intro ring_countI) (auto simp: assms(4) ring_inv_def)
  have t: "rSlots t = (rSlots s)[unat n := x]" "rTail t = rTail s" by (simp_all add: assms(4))
  show "ring_abs t = ring_abs s @ [x]"
  proof (rule nth_equalityI)
    show "length (ring_abs t) = length (ring_abs s @ [x])" by (simp add: count)
    fix i assume "i < length (ring_abs t)"
    then consider "i < ring_count s" | "i = ring_count s" by (auto simp: count less_Suc_eq)
    then show "ring_abs t ! i = (ring_abs s @ [x]) ! i"
    proof cases
      case 1
      then show ?thesis
        using ring_free_slot [OF assms(1) cap 1] assms(3) by (simp add: ring_abs_nth count nth_append t)
    next
      case 2
      then show ?thesis using n assms(3) by (simp add: ring_abs_nth count nth_append t)
    qed
  qed
  show "ring_cap t = ring_cap s" by (simp add: assms(4) ring_cap_def)
qed

text \<open>Releasing the oldest slot.\<close>

lemma ring_release:
  assumes "ring_inv s" and "ring_count s \<noteq> 0"
    and "unat i = (unat (rTail s) + 1) mod length (rSlots s)" and "t = s\<lparr>rTail := i, rLast := m\<rparr>"
  shows "ring_inv t" and "ring_abs t = tl (ring_abs s)" and "ring_cap t = ring_cap s"
    and "hd (ring_abs s) = rSlots s ! unat i"
proof -
  have pos: "0 < length (rSlots s)" using assms(1) by (auto simp: ring_inv_def)
  have i: "unat i < length (rSlots s)" using pos by (simp add: assms(3))
  show "ring_inv t" using assms(1) i by (simp add: assms(4) ring_inv_def ring_size_def)
  have "(unat i + (ring_count s - 1)) mod length (rSlots s) = (unat (rTail s) + 1 + (ring_count s - 1)) mod length (rSlots s)"
    by (simp add: assms(3) mod_add_left_eq)
  then have count: "ring_count t = ring_count s - 1"
    using ring_count_less [OF assms(1)] ring_head [OF assms(1)] assms(2) i
    by (intro ring_countI) (auto simp: assms(4))
  have t: "rSlots t = rSlots s" "rTail t = i" by (simp_all add: assms(4))
  show "ring_abs t = tl (ring_abs s)"
  proof (rule nth_equalityI)
    show "length (ring_abs t) = length (tl (ring_abs s))" by (simp add: count)
    fix j assume "j < length (ring_abs t)"
    then show "ring_abs t ! j = tl (ring_abs s) ! j"
      using assms(2) count mod_add_left_eq [of "unat (rTail s) + 1" "length (rSlots s)" "1 + j"]
      by (simp add: nth_tl ring_abs_nth t assms(3) add_ac)
  qed
  show "ring_cap t = ring_cap s" by (simp add: assms(4) ring_cap_def)
  have "ring_abs s \<noteq> []" using assms(2) length_ring_abs [of s] by (metis list.size(3))
  then show "hd (ring_abs s) = rSlots s ! unat i"
    using assms(2,3) ring_abs_nth [of 0 s] by (simp add: hd_conv_nth)
qed

lemma ring_oldest_index:
  "ring_inv s \<Longrightarrow> unat ((rTail s + 1) AND ring_mask s) = (unat (rTail s) + 1) mod length (rSlots s)"
  using ring_next [of s "rTail s"] by (simp add: ring_inv_def)

interpretation rxq: bounded_fifo ring_inv ring_abs ring_cap ring_put ring_get
proof (unfold_locales, goal_cases)
  case (1 s x)
  then have room: "(rHead s + 1) AND ring_mask s \<noteq> rTail s"
    using ring_full_iff [of s] by (simp add: ring_cap_def)
  let ?n = "(rHead s + 1) AND ring_mask s"
  have "ring_put s x = s\<lparr>rSlots := (rSlots s)[unat ?n := x], rHead := ?n, rNext := ?n\<rparr>"
    using room by (simp add: ring_put_def get_free_frame_rx_ring_def push_free_frame_rx_ring_def Let_def)
  from ring_publish [OF 1(1) _ ring_free_index [OF 1(1)] this] 1(2) show ?case by simp
next
  case (2 s x)
  then have "(rHead s + 1) AND ring_mask s = rTail s"
    using ring_full_iff [of s] ring_count_less [of s] by (simp add: ring_cap_def)
  then have "ring_put s x = s" by (simp add: ring_put_def get_free_frame_rx_ring_def)
  then show ?case using 2 by simp
next
  case (3 s)
  then have "rTail s = rHead s" using ring_empty_iff [of s] by (simp flip: length_ring_abs)
  then show ?case by (simp add: ring_get_def get_frame_rx_ring_def)
next
  case (4 s y ys)
  then have ne: "rTail s \<noteq> rHead s" "ring_count s \<noteq> 0"
    using ring_empty_iff [of s] by (auto simp flip: length_ring_abs)
  let ?i = "(rTail s + 1) AND ring_mask s"
  have "ring_get s = Some (rSlots s ! unat ?i, s\<lparr>rTail := ?i, rLast := ?i\<rparr>)"
    using ne(1) by (simp add: ring_get_def get_frame_rx_ring_def pop_frame_rx_ring_def Let_def)
  with ring_release [OF 4(1) ne(2) ring_oldest_index [OF 4(1)], of "s\<lparr>rTail := ?i, rLast := ?i\<rparr>" ?i] 4(2) show ?case by simp
qed

section \<open>The two contexts interleaved\<close>

text \<open>
  The PHY context reserves, fills and publishes; the main loop references, delivers, cleans
  (\<^verbatim>\<open>f->pPhyBuffer = NULL\<close>) and releases. Each line below is one step, in any order the two contexts allow.
  \<open>pushed\<close> and \<open>taken\<close> record the frames published and delivered so far.
\<close>

datatype 'f prod_pc = PIdle | PReserved 'f | PFilled 'f
datatype cons_pc = CIdle | CReading | CDelivered

record 'f spsc =
  ring :: "'f rxRingBuffer"
  ppc :: "'f prod_pc"
  cpc :: cons_pc
  pushed :: "'f list"
  taken :: "'f list"

inductive spsc_step :: "('f \<Rightarrow> 'f) \<Rightarrow> 'f spsc \<Rightarrow> 'f spsc \<Rightarrow> bool" for clean where
  reserve: "ppc x = PIdle \<Longrightarrow> get_free_frame_rx_ring (ring x) = (Some n, s1) \<Longrightarrow>
     spsc_step clean x (x\<lparr>ring := s1, ppc := PReserved f\<rparr>)"
| drop: "ppc x = PIdle \<Longrightarrow> get_free_frame_rx_ring (ring x) = (None, s1) \<Longrightarrow>
     spsc_step clean x (x\<lparr>ring := s1\<rparr>)"
| fill: "ppc x = PReserved f \<Longrightarrow>
     spsc_step clean x (x\<lparr>ring := (ring x)\<lparr>rSlots := (rSlots (ring x))[unat (rNext (ring x)) := f]\<rparr>, ppc := PFilled f\<rparr>)"
| publish: "ppc x = PFilled f \<Longrightarrow>
     spsc_step clean x (x\<lparr>ring := push_free_frame_rx_ring (ring x), ppc := PIdle, pushed := pushed x @ [f]\<rparr>)"
| refer: "cpc x = CIdle \<Longrightarrow> get_frame_rx_ring (ring x) = (Some i, s1) \<Longrightarrow>
     spsc_step clean x (x\<lparr>ring := s1, cpc := CReading\<rparr>)"
| deliver: "cpc x = CReading \<Longrightarrow>
     spsc_step clean x (x\<lparr>cpc := CDelivered, taken := taken x @ [rSlots (ring x) ! unat (rLast (ring x))]\<rparr>)"
| tidy: "cpc x = CDelivered \<Longrightarrow>
     spsc_step clean x (x\<lparr>ring := (ring x)\<lparr>rSlots := (rSlots (ring x))[unat (rLast (ring x)) :=
        clean (rSlots (ring x) ! unat (rLast (ring x)))]\<rparr>\<rparr>)"
| release: "cpc x = CDelivered \<Longrightarrow>
     spsc_step clean x (x\<lparr>ring := pop_frame_rx_ring (ring x), cpc := CIdle\<rparr>)"

definition free_index :: "'f rxRingBuffer \<Rightarrow> nat" where
  "free_index s = (unat (rTail s) + 1 + ring_count s) mod length (rSlots s)"

definition spsc_inv :: "'f spsc \<Rightarrow> bool" where
  "spsc_inv x \<longleftrightarrow> ring_inv (ring x) \<and>
     (ppc x \<noteq> PIdle \<longrightarrow> unat (rNext (ring x)) = free_index (ring x) \<and> ring_count (ring x) < ring_cap (ring x)) \<and>
     (\<forall>f. ppc x = PFilled f \<longrightarrow> rSlots (ring x) ! unat (rNext (ring x)) = f) \<and>
     (cpc x \<noteq> CIdle \<longrightarrow> unat (rLast (ring x)) = (unat (rTail (ring x)) + 1) mod length (rSlots (ring x)) \<and>
        ring_count (ring x) \<noteq> 0) \<and>
     pushed x = taken x @ (if cpc x = CDelivered then tl (ring_abs (ring x)) else ring_abs (ring x))"

text \<open>Writing one slot, outside the queue or at its head.\<close>

lemma ring_write_free:
  assumes "ring_inv s" and "ring_count s < ring_cap s" and "j = free_index s"
    and "t = s\<lparr>rSlots := (rSlots s)[j := f]\<rparr>"
  shows "ring_inv t" and "ring_abs t = ring_abs s" and "ring_count t = ring_count s" and "rSlots t ! j = f"
proof -
  have pos: "0 < length (rSlots s)" using assms(1) by (auto simp: ring_inv_def)
  show inv: "ring_inv t" using assms(1) by (simp add: assms(4) ring_inv_def ring_size_def)
  show count: "ring_count t = ring_count s" by (simp add: assms(4) ring_count_def)
  show "ring_abs t = ring_abs s"
  proof (rule nth_equalityI)
    fix i assume "i < length (ring_abs t)"
    then show "ring_abs t ! i = ring_abs s ! i"
      using ring_free_slot [OF assms(1), of i] assms(2,3) count
      by (simp add: ring_abs_nth assms(4) free_index_def ring_cap_def)
  qed (simp add: count)
  show "rSlots t ! j = f" using pos by (simp add: assms(3,4) free_index_def)
qed

lemma ring_write_oldest:
  assumes "ring_inv s" and "ring_count s \<noteq> 0" and "j = (unat (rTail s) + 1) mod length (rSlots s)"
    and "t = s\<lparr>rSlots := (rSlots s)[j := f]\<rparr>"
  shows "ring_inv t" and "tl (ring_abs t) = tl (ring_abs s)" and "ring_count t = ring_count s"
    and "ring_count s < ring_cap s \<Longrightarrow> rSlots t ! free_index s = rSlots s ! free_index s"
proof -
  show "ring_inv t" using assms(1) by (simp add: assms(4) ring_inv_def ring_size_def)
  show count: "ring_count t = ring_count s" by (simp add: assms(4) ring_count_def)
  have sep: "j \<noteq> (unat (rTail s) + 1 + i) mod length (rSlots s)" if "0 < i" "i < length (rSlots s)" for i
  proof
    assume "j = (unat (rTail s) + 1 + i) mod length (rSlots s)"
    then have "length (rSlots s) dvd i"
      using mod_eq_dvd_iff_nat [of "unat (rTail s) + 1" "unat (rTail s) + 1 + i" "length (rSlots s)"] by (simp add: assms(3))
    then show False using that by (auto dest!: dvd_imp_le)
  qed
  show "tl (ring_abs t) = tl (ring_abs s)"
  proof (rule nth_equalityI)
    fix i assume i: "i < length (tl (ring_abs t))"
    then have "Suc i < ring_count s" "Suc i < ring_count t" using count by simp_all
    then show "tl (ring_abs t) ! i = tl (ring_abs s) ! i"
      using sep [of "Suc i"] ring_count_less [OF assms(1)] by (simp add: nth_tl ring_abs_nth assms(4))
  qed (simp add: count)
  show "rSlots t ! free_index s = rSlots s ! free_index s" if "ring_count s < ring_cap s"
    using sep [of "ring_count s"] assms(2) that by (simp add: assms(4) free_index_def ring_cap_def)
qed

lemma spsc_invD:
  assumes "spsc_inv x"
  shows "ring_inv (ring x)"
    and "ppc x \<noteq> PIdle \<Longrightarrow> unat (rNext (ring x)) = free_index (ring x)"
    and "ppc x \<noteq> PIdle \<Longrightarrow> ring_count (ring x) < ring_cap (ring x)"
    and "ppc x = PFilled f \<Longrightarrow> rSlots (ring x) ! unat (rNext (ring x)) = f"
    and "cpc x \<noteq> CIdle \<Longrightarrow> unat (rLast (ring x)) = (unat (rTail (ring x)) + 1) mod length (rSlots (ring x))"
    and "cpc x \<noteq> CIdle \<Longrightarrow> ring_count (ring x) \<noteq> 0"
    and "pushed x = taken x @ (if cpc x = CDelivered then tl (ring_abs (ring x)) else ring_abs (ring x))"
  using assms by (auto simp: spsc_inv_def)

lemma ring_core:
  assumes "rSlots t = rSlots s" "rHead t = rHead s" "rTail t = rTail s"
  shows "ring_inv t = ring_inv s" "ring_abs t = ring_abs s" "ring_count t = ring_count s" "ring_cap t = ring_cap s"
    "free_index t = free_index s"
  using assms by (simp_all add: ring_inv_def ring_size_def ring_abs_def ring_count_def ring_cap_def free_index_def)

lemma spsc_inv_reserve:
  assumes inv0: "spsc_inv x"
    and reserve: "y = x\<lparr>ring := s1, ppc := PReserved f\<rparr>"
      "ppc x = PIdle"
      "get_free_frame_rx_ring (ring x) = (Some n, s1)"
  shows "spsc_inv y"
proof -
  note inv = spsc_invD [OF inv0]
  have n: "n = (rHead (ring x) + 1) AND ring_mask (ring x)" "n \<noteq> rTail (ring x)" "s1 = (ring x)\<lparr>rNext := n\<rparr>"
    using reserve(3) by (auto simp: get_free_frame_rx_ring_def Let_def split: if_splits)
  have "ring_count (ring x) < ring_cap (ring x)"
    using ring_full_iff [OF inv(1)] ring_count_less [OF inv(1)] n(1,2) by (simp add: ring_cap_def)
  moreover have "unat n = free_index (ring x)"
    unfolding n(1) free_index_def by (rule ring_free_index [OF inv(1)])
  moreover note ring_core [of s1 "ring x"]
  ultimately show ?thesis using inv(1,5-7) reserve(1) n(3) by (simp add: spsc_inv_def)
qed

lemma spsc_inv_drop:
  assumes inv0: "spsc_inv x"
    and drop: "y = x\<lparr>ring := s1\<rparr>" "ppc x = PIdle" "get_free_frame_rx_ring (ring x) = (None, s1)"
  shows "spsc_inv y"
proof -
  from drop(3) have "s1 = ring x" by (auto simp: get_free_frame_rx_ring_def Let_def split: if_splits)
  then show ?thesis using drop(1) inv0 by simp
qed

lemma spsc_inv_fill:
  assumes inv0: "spsc_inv x"
    and fill: "y = x\<lparr>ring := (ring x)\<lparr>rSlots := (rSlots (ring x))[unat (rNext (ring x)) := f]\<rparr>, ppc := PFilled f\<rparr>"
      "ppc x = PReserved f"
  shows "spsc_inv y"
proof -
  note inv = spsc_invD [OF inv0]
  have pc: "ppc x \<noteq> PIdle" using fill(2) by simp
  let ?s = "(ring x)\<lparr>rSlots := (rSlots (ring x))[unat (rNext (ring x)) := f]\<rparr>"
  note w = ring_write_free [OF inv(1) inv(3) [OF pc] inv(2) [OF pc] refl, of f]
  have "ring_cap ?s = ring_cap (ring x)" "free_index ?s = free_index (ring x)"
    using w(3) by (simp_all add: ring_cap_def free_index_def)
  then show ?thesis using inv(2,3) [OF pc] inv(5-7) w fill(1) by (simp add: spsc_inv_def)
qed

lemma spsc_inv_publish:
  assumes inv0: "spsc_inv x"
    and publish: "y = x\<lparr>ring := push_free_frame_rx_ring (ring x), ppc := PIdle, pushed := pushed x @ [f]\<rparr>"
      "ppc x = PFilled f"
  shows "spsc_inv y"
proof -
  note inv = spsc_invD [OF inv0]
  have pc: "ppc x \<noteq> PIdle" using publish(2) by simp
  have same: "(rSlots (ring x))[unat (rNext (ring x)) := f] = rSlots (ring x)"
    using inv(4) [OF publish(2)] by (metis list_update_id)
  have "push_free_frame_rx_ring (ring x) =
      (ring x)\<lparr>rSlots := (rSlots (ring x))[unat (rNext (ring x)) := f], rHead := rNext (ring x), rNext := rNext (ring x)\<rparr>"
    by (simp add: push_free_frame_rx_ring_def same)
  note p = ring_publish [OF inv(1) inv(3) [OF pc] inv(2) [OF pc, unfolded free_index_def] this]
  have ne: "cpc x \<noteq> CIdle \<Longrightarrow> ring_abs (ring x) \<noteq> []"
    using inv(6) length_ring_abs [of "ring x"] by (metis list.size(3))
  have "ring_count (push_free_frame_rx_ring (ring x)) = Suc (ring_count (ring x))"
    using p(2) by (metis length_append_singleton length_ring_abs)
  then show ?thesis
    using inv(5-7) p ne publish(1) by (auto simp: spsc_inv_def push_free_frame_rx_ring_def)
qed

lemma spsc_inv_refer:
  assumes inv0: "spsc_inv x"
    and refer: "y = x\<lparr>ring := s1, cpc := CReading\<rparr>" "cpc x = CIdle" "get_frame_rx_ring (ring x) = (Some i, s1)"
  shows "spsc_inv y"
proof -
  note inv = spsc_invD [OF inv0]
  have i: "rTail (ring x) \<noteq> rHead (ring x)" "i = (rTail (ring x) + 1) AND ring_mask (ring x)" "s1 = (ring x)\<lparr>rLast := i\<rparr>"
    using refer(3) by (auto simp: get_frame_rx_ring_def Let_def split: if_splits)
  have "ring_count (ring x) \<noteq> 0" using ring_empty_iff [OF inv(1)] i(1) by simp
  moreover have "unat i = (unat (rTail (ring x)) + 1) mod length (rSlots (ring x))"
    unfolding i(2) by (rule ring_oldest_index [OF inv(1)])
  moreover note ring_core [of s1 "ring x"]
  ultimately show ?thesis using inv(1-4,7) refer(1,2) i(3) by (simp add: spsc_inv_def)
qed

lemma spsc_inv_deliver:
  assumes inv0: "spsc_inv x"
    and deliver: "y = x\<lparr>cpc := CDelivered, taken := taken x @ [rSlots (ring x) ! unat (rLast (ring x))]\<rparr>"
      "cpc x = CReading"
  shows "spsc_inv y"
proof -
  note inv = spsc_invD [OF inv0]
  have pc: "cpc x \<noteq> CIdle" using deliver(2) by simp
  have "ring_abs (ring x) \<noteq> []" using inv(6) [OF pc] length_ring_abs [of "ring x"] by (metis list.size(3))
  moreover have "hd (ring_abs (ring x)) = rSlots (ring x) ! unat (rLast (ring x))"
    by (rule ring_release(4) [OF inv(1) inv(6) [OF pc] inv(5) [OF pc] refl])
  ultimately have "ring_abs (ring x) = rSlots (ring x) ! unat (rLast (ring x)) # tl (ring_abs (ring x))"
    by (metis list.collapse)
  then show ?thesis using inv(1-6) inv(7) deliver by (simp add: spsc_inv_def)
qed

lemma spsc_inv_tidy:
  assumes inv0: "spsc_inv x"
    and tidy: "y = x\<lparr>ring := (ring x)\<lparr>rSlots := (rSlots (ring x))[unat (rLast (ring x)) := clean (rSlots (ring x) ! unat (rLast (ring x)))]\<rparr>\<rparr>"
      "cpc x = CDelivered"
  shows "spsc_inv y"
proof -
  note inv = spsc_invD [OF inv0]
  have pc: "cpc x \<noteq> CIdle" using tidy(2) by simp
  let ?s = "(ring x)\<lparr>rSlots := (rSlots (ring x))[unat (rLast (ring x)) := clean (rSlots (ring x) ! unat (rLast (ring x)))]\<rparr>"
  note w = ring_write_oldest [OF inv(1) inv(6) [OF pc] inv(5) [OF pc] refl, of "clean (rSlots (ring x) ! unat (rLast (ring x)))"]
  have "ring_cap ?s = ring_cap (ring x)" "free_index ?s = free_index (ring x)"
    using w(3) by (simp_all add: ring_cap_def free_index_def)
  then show ?thesis using inv(2-7) w tidy by (auto simp: spsc_inv_def)
qed

lemma spsc_inv_release:
  assumes inv0: "spsc_inv x"
    and release: "y = x\<lparr>ring := pop_frame_rx_ring (ring x), cpc := CIdle\<rparr>" "cpc x = CDelivered"
  shows "spsc_inv y"
proof -
  note inv = spsc_invD [OF inv0]
  have pc: "cpc x \<noteq> CIdle" using release(2) by simp
  have pop: "pop_frame_rx_ring (ring x) = (ring x)\<lparr>rTail := rLast (ring x), rLast := rLast (ring x)\<rparr>"
    by (simp add: pop_frame_rx_ring_def)
  note p = ring_release [OF inv(1) inv(6) [OF pc] inv(5) [OF pc] pop]
  have count: "ring_count (pop_frame_rx_ring (ring x)) = ring_count (ring x) - 1"
    using p(2) by (metis length_ring_abs length_tl)
  have t: "rTail (pop_frame_rx_ring (ring x)) = rLast (ring x)" "rSlots (pop_frame_rx_ring (ring x)) = rSlots (ring x)"
    by (simp_all add: pop_frame_rx_ring_def)
  have "free_index (pop_frame_rx_ring (ring x)) = free_index (ring x)"
    using inv(5,6) [OF pc] mod_add_left_eq [of "unat (rTail (ring x)) + 1" "length (rSlots (ring x))" "ring_count (ring x)"]
    by (simp add: free_index_def count t)
  then show ?thesis
    using inv(2-4,7) p count release by (auto simp: spsc_inv_def pop_frame_rx_ring_def)
qed

lemmas spsc_inv_steps = spsc_inv_reserve spsc_inv_drop spsc_inv_fill spsc_inv_publish spsc_inv_refer spsc_inv_deliver
  spsc_inv_tidy spsc_inv_release

lemma spsc_inv_step:
  assumes "spsc_step clean x y" and "spsc_inv x"
  shows "spsc_inv y"
  using assms(1) by (cases rule: spsc_step.cases) (rule spsc_inv_steps [OF assms(2)], assumption+)+

lemma spsc_inv_reachable: "(spsc_step clean)\<^sup>*\<^sup>* x y \<Longrightarrow> spsc_inv x \<Longrightarrow> spsc_inv y"
  by (induction rule: rtranclp_induct) (auto intro: spsc_inv_step)

section \<open>Properties\<close>

text \<open>
  Complete operations on the receive ring are a queue of \<open>MCXW_RADIO_NUM_OF_RX_BUFS - 1\<close> frames: for every
  sequence of receptions and deliveries, the frames delivered, followed by those still in the ring, are
  the frames that were queued before followed by those accepted, in order; a frame is refused only when
  the ring is full.
\<close>

theorem rx_ring_is_bounded_fifo:
  assumes "ring_inv s" and "fifo_run ring_put ring_get s ops = (out, t)"
  shows "ring_inv t \<and>
    out @ ring_abs t = ring_abs s @ fifo_accepted (length (rSlots s) - 1) (length (ring_abs s)) ops"
  using rxq.run_spec [OF assms] rxq.run_conserves [OF assms] by (simp add: ring_cap_def)

definition ring_sample :: "nat rxRingBuffer" where
  "ring_sample = reset_rx_ring \<lparr>rSlots = replicate 4 0, rHead = 0, rTail = 0, rNext = 0, rLast = 0\<rparr>"

lemma ring_sample_inv: "ring_inv ring_sample" "ring_abs ring_sample = []"
  by (simp_all add: ring_sample_def reset_rx_ring_def ring_inv_def ring_size_def ring_abs_def ring_count_def)

theorem rx_ring_is_bounded_fifo_witness:
  "\<exists>out t. fifo_run ring_put ring_get ring_sample [Put 1, Put 2, Put 3, Put 4, Get] = (out, t) \<and>
     out @ ring_abs t = [1, 2, 3]"
proof -
  obtain out t where "fifo_run ring_put ring_get ring_sample [Put 1, Put 2, Put 3, Put 4, Get] = (out, t)" by force
  with rx_ring_is_bounded_fifo [OF ring_sample_inv(1) this] show ?thesis
    by (simp add: ring_sample_inv(2)) (simp add: ring_sample_def reset_rx_ring_def)
qed

text \<open>
  C5. The ring needs no lock: whatever the interleaving of the PHY context and the main loop, the frames the
  main loop has delivered are a prefix of the frames published, in order and unchanged, at most
  \<open>MCXW_RADIO_NUM_OF_RX_BUFS - 1\<close> are waiting, and the slot being filled is never the slot being read.
\<close>

theorem rx_ring_lockless:
  assumes "(spsc_step clean)\<^sup>*\<^sup>* x y" and "ring_inv (ring x)" and "ring_abs (ring x) = []"
    and "ppc x = PIdle" and "cpc x = CIdle" and "pushed x = []" and "taken x = []"
  shows "\<exists>waiting. pushed y = taken y @ waiting \<and> length waiting \<le> length (rSlots (ring y)) - 1 \<and>
    (ppc y \<noteq> PIdle \<longrightarrow> cpc y \<noteq> CIdle \<longrightarrow> rNext (ring y) \<noteq> rLast (ring y))"
proof -
  have "spsc_inv x" using assms by (simp add: spsc_inv_def)
  then have inv: "spsc_inv y" by (rule spsc_inv_reachable [OF assms(1)])
  note d = spsc_invD [OF inv]
  let ?w = "if cpc y = CDelivered then tl (ring_abs (ring y)) else ring_abs (ring y)"
  have "length ?w \<le> length (rSlots (ring y)) - 1" using ring_count_less [OF d(1)] by auto
  moreover have "rNext (ring y) \<noteq> rLast (ring y)" if "ppc y \<noteq> PIdle" "cpc y \<noteq> CIdle"
  proof
    assume "rNext (ring y) = rLast (ring y)"
    then have "(unat (rTail (ring y)) + 1 + 0) mod length (rSlots (ring y)) = free_index (ring y)"
      using d(2,5) that by simp
    moreover have "0 < ring_count (ring y)" using d(6) that by simp
    ultimately show False
      using ring_free_slot [OF d(1), of 0] d(3) that by (simp add: free_index_def ring_cap_def)
  qed
  ultimately show ?thesis using d(7) by (intro exI [of _ ?w]) simp
qed

definition spsc_sample :: "nat spsc" where
  "spsc_sample = \<lparr>ring = ring_sample, ppc = PIdle, cpc = CIdle, pushed = [], taken = []\<rparr>"

theorem rx_ring_lockless_witness:
  "\<exists>y waiting. (spsc_step (\<lambda>f. f))\<^sup>*\<^sup>* spsc_sample y \<and> ppc y = PReserved 7 \<and> pushed y = taken y @ waiting \<and> length waiting \<le> 3"
proof -
  let ?y = "spsc_sample\<lparr>ring := snd (get_free_frame_rx_ring ring_sample), ppc := PReserved 7\<rparr>"
  have "spsc_step (\<lambda>f. f) spsc_sample ?y"
    by (rule spsc_step.reserve [of _ 0]) (simp_all add: spsc_sample_def ring_sample_def reset_rx_ring_def get_free_frame_rx_ring_def Let_def)
  then have run: "(spsc_step (\<lambda>f. f))\<^sup>*\<^sup>* spsc_sample ?y" by (rule r_into_rtranclp)
  have "length (rSlots (ring ?y)) = 4"
    by (simp add: ring_sample_def reset_rx_ring_def get_free_frame_rx_ring_def Let_def)
  with rx_ring_lockless [OF run] ring_sample_inv run show ?thesis
    by (auto simp: spsc_sample_def)
qed
end
