(* ===== verification/Mcxw_Radio.thy ===== *)
theory Mcxw_Radio
  imports Mcxw_Rx_Ring
begin

text \<open>
  \<^verbatim>\<open>src/mcxw/platform/radio.c\<close>: the radio driver between OpenThread and the 802.15.4 PHY, in the
  configuration with Thread 1.2 and a CSL receiver. The file-scope variables are the record \<open>radio\<close>; every
  message to the PHY, every platform service and every callback to OpenThread is appended to the trace
  \<open>acts\<close>. The PHY, the clocks, the frame helpers of OpenThread and its callbacks are fields of the parameter
  \<open>env\<close>; an answer of the PHY or of a clock may depend on the whole trace so far, clock reads included.
  \<open>None\<close> stands for a failed assertion, an access outside a buffer, or the CSL loop not ending.
  \<^verbatim>\<open>otPlatRadioTransmit\<close> is always called on the driver's own transmit buffer, so the frame is \<open>sTxFrame\<close>.
\<close>

section \<open>Data\<close>

datatype otRadioState = OT_RADIO_STATE_DISABLED | OT_RADIO_STATE_SLEEP | OT_RADIO_STATE_RECEIVE | OT_RADIO_STATE_TRANSMIT

record otRadioFrame =
  mPsdu :: bytes
  mLength :: u16
  mChannel :: u8
  mRxChannelAfterTxDone :: u8
  mTxDelay :: u32
  mTxDelayBaseTime :: u32
  mIsSecurityProcessed :: bool
  mIsHeaderUpdated :: bool
  mLqi :: u8
  mRssi :: u8
  mTimestamp :: u64
  mAckedWithFramePending :: bool
  mAckedWithSecEnhAck :: bool
  mAckFrameCounter :: u32
  mAckKeyId :: u8

record extendedRadioFrame =
  RxFrame :: otRadioFrame
  pPhyBuffer :: "nat option"

datatype pibAttribute =
    gPhyPibPanId_c | gPhyPibLongAddress_c | gPhyPibShortAddress_c | gPhyPibCurrentChannel_c
  | gPhyPibTransmitPower_c | gPhyPibPromiscuousMode_c | gPhyPibRxOnWhenIdle | gPhyPibRxTimePoll_c
  | gPhyGetRSSILevel_c

text \<open>Requests to the PHY; a start time \<open>None\<close> is \<^verbatim>\<open>gPhySeqStartAsap_c\<close>.\<close>

datatype macToPlmeMessage =
    gPlmeSetReq_c pibAttribute u64
  | gPlmeGetReq_c pibAttribute
  | gPlmeSetTRxStateReq_c
  | gPlmeRxReq_c u32 "u32 option"
  | gPlmeEdReq_c u32
  | gPlmeSetSAMState_c bool
  | gPlmeAddToSapTable_c nat u16 bytes
  | gPlmeRemoveFromSAMTable_c nat u16 bytes
  | gPlmeSetMacKey_c u8 bytes bytes bytes
  | gPlmeSetMacFrameCounter_c u32
  | gPlmeSetMacFrameCounterIfLarger_c u32
  | gPlmeCslEnable_c u32
  | gPlmeCslSetSampleTime_c u32
  | gPlmeEnableEncryption_c

record macToPdDataMessage =
  psduLength :: u16
  ackRequired :: bool
  txDuration :: u32
  startTime :: "u32 option"
  gPhyEncFrame :: bool
  gPhyUpdHDr :: bool

text \<open>Indications from the PHY; each arrives in a buffer the driver has to free.\<close>

record pdDataInd =
  indPsdu :: bytes
  indPsduLength :: u16
  ppduLinkQuality :: u8
  ppduRssi :: u8
  indTimeStamp :: u64
  rxAckFp :: bool
  ackedWithSecEnhAck :: bool
  ackFrameCounter :: u32
  ackKeyId :: u8

record pdDataCnf =
  ackData :: bytes
  ackLength :: u16
  cnfLinkQuality :: u8
  cnfRssi :: u8

datatype pdDataToMacMessage = gPdDataInd_c pdDataInd | gPdDataCnf_c pdDataCnf u32 | gPdDataOther u32

datatype plmeToMacMessage =
    gPlmeCcaCnf_c bool
  | gPlmeEdCnf_c u8 u32
  | gPlmeTimeoutInd_c u32
  | gPlmeAbortInd_c u32
  | gPlmeOther u32

text \<open>What the driver does to the outside.\<close>

datatype act =
    Plme macToPlmeMessage
  | Pd macToPdDataMessage
  | MSG_Free "nat option"
  | PLATFORM_RemoteActiveReq | PLATFORM_RemoteActiveRel
  | PWR_DisallowDeviceToSleep | PWR_AllowDeviceToSleep
  | PHY_Enable | PHY_Disable | Phy_Init
  | PhyTime_ReadClock | otPlatTimeGet
  | otSysEventSignalPending
  | otPlatRadioTxStarted
  | otPlatRadioTxDone otError bool
  | otPlatRadioReceiveDone otRadioFrame
  | otPlatRadioEnergyScanDone u8

record radio =
  sState :: otRadioState
  sPanId :: u16
  sChannel :: u8
  sMaxED :: u8
  sPromiscuousEnable :: bool
  sAutoTxPwrLevel :: u8
  rx_on_idle_disabled :: bool
  is_rx_on_idle :: bool
  is_ed_scan :: bool
  sTxDone :: bool
  sEdScanDone :: bool
  is_tx_poll :: bool
  is_rx_after_poll :: bool
  rx_after_poll_done :: bool
  is_radio_event :: bool
  csl_rx :: bool
  sTxStatus :: otError
  sTxFrame :: otRadioFrame
  sRxRing :: "extendedRadioFrame rxRingBuffer"
  sRxAckFrame :: otRadioFrame
  sCslPeriod :: u32
  sCslSampleTimeUs :: u32
  acts :: "act list"

record env =
  plmeOk :: "act list \<Rightarrow> macToPlmeMessage \<Rightarrow> bool"
  pdOk :: "act list \<Rightarrow> macToPdDataMessage \<Rightarrow> bool"
  phyRssi :: "act list \<Rightarrow> u8"
  phyClock :: "act list \<Rightarrow> u64"
  platTime :: "act list \<Rightarrow> u64"
  useNbu :: bool
  gPhyTimeMask_c :: u64
  RX_TIME_POLL :: u32
  OT_RADIO_SYMBOLS_PER_OCTET :: u32
  OT_RADIO_SYMBOL_TIME :: u32
  otMacFrameIsDataRequest :: "otRadioFrame \<Rightarrow> bool"
  otMacFrameIsVersion2015 :: "otRadioFrame \<Rightarrow> bool"
  otMacFrameIsSecurityEnabled :: "otRadioFrame \<Rightarrow> bool"
  otMacFrameIsKeyIdMode1 :: "otRadioFrame \<Rightarrow> bool"
  otMacFrameSetCslIe :: "otRadioFrame \<Rightarrow> u32 \<Rightarrow> u16 \<Rightarrow> otRadioFrame"
  otMacFrameSetFrameCounter :: "otRadioFrame \<Rightarrow> u32 \<Rightarrow> otRadioFrame"
  onTxStarted :: "radio \<Rightarrow> radio"
  onTxDone :: "radio \<Rightarrow> radio"
  onReceiveDone :: "radio \<Rightarrow> radio"
  onEnergyScanDone :: "radio \<Rightarrow> radio"

definition IEEE802154_SYMBOL_TIME_US :: nat where "IEEE802154_SYMBOL_TIME_US = 16"
definition IEEE802154_TURNAROUND_LEN_SYM :: nat where "IEEE802154_TURNAROUND_LEN_SYM = 12"
definition IEEE802154_CCA_LEN_SYM :: nat where "IEEE802154_CCA_LEN_SYM = 8"
definition IEEE802154_PHY_SHR_LEN_SYM :: nat where "IEEE802154_PHY_SHR_LEN_SYM = 10"
definition IEEE802154_IMM_ACK_WAIT_SYM :: nat where "IEEE802154_IMM_ACK_WAIT_SYM = 54"
definition IEEE802154_ENH_ACK_WAIT_SYM :: nat where "IEEE802154_ENH_ACK_WAIT_SYM = 90"
definition TX_ENCRYPT_DELAY_SYM :: nat where "TX_ENCRYPT_DELAY_SYM = 200"
definition CMP_OVHD :: nat where "CMP_OVHD = 4 * IEEE802154_SYMBOL_TIME_US"

lemmas radio_consts = IEEE802154_SYMBOL_TIME_US_def IEEE802154_TURNAROUND_LEN_SYM_def IEEE802154_CCA_LEN_SYM_def
  IEEE802154_PHY_SHR_LEN_SYM_def IEEE802154_IMM_ACK_WAIT_SYM_def IEEE802154_ENH_ACK_WAIT_SYM_def
  TX_ENCRYPT_DELAY_SYM_def CMP_OVHD_def

text \<open>Bits of the first frame-control octet.\<close>

definition IEEE802154_FP :: "u8 \<Rightarrow> bool" where "IEEE802154_FP c = bit c 4"
definition IEEE802154_ACK_REQUEST :: "u8 \<Rightarrow> bool" where "IEEE802154_ACK_REQUEST c = bit c 5"

definition psdu_ctl :: "bytes \<Rightarrow> u8 option" where
  "psdu_ctl p = (case p of [] \<Rightarrow> None | c # _ \<Rightarrow> Some c)"

section \<open>Calls to the outside\<close>

definition emit :: "act \<Rightarrow> radio \<Rightarrow> radio" where
  "emit a s = s\<lparr>acts := acts s @ [a]\<rparr>"

definition MAC_PLME_SapHandler :: "env \<Rightarrow> macToPlmeMessage \<Rightarrow> radio \<Rightarrow> bool \<times> radio" where
  "MAC_PLME_SapHandler env msg s = (plmeOk env (acts s) msg, emit (Plme msg) s)"

definition MAC_PD_SapHandler :: "env \<Rightarrow> macToPdDataMessage \<Rightarrow> radio \<Rightarrow> bool \<times> radio" where
  "MAC_PD_SapHandler env msg s = (pdOk env (acts s) msg, emit (Pd msg) s)"

definition readClock :: "env \<Rightarrow> radio \<Rightarrow> u64 \<times> radio" where
  "readClock env s = (phyClock env (acts s), emit PhyTime_ReadClock s)"

definition readTime :: "env \<Rightarrow> radio \<Rightarrow> u64 \<times> radio" where
  "readTime env s = (platTime env (acts s), emit otPlatTimeGet s)"

definition nbuOnly :: "env \<Rightarrow> act \<Rightarrow> radio \<Rightarrow> radio" where
  "nbuOnly env a s = (if useNbu env then emit a s else s)"

section \<open>Private functions\<close>

definition rf_abort :: "env \<Rightarrow> radio \<Rightarrow> radio" where
  "rf_abort env s = snd (MAC_PLME_SapHandler env gPlmeSetTRxStateReq_c s)"

definition rf_set_channel :: "env \<Rightarrow> u8 \<Rightarrow> radio \<Rightarrow> radio" where
  "rf_set_channel env channel s =
     (if channel \<noteq> sChannel s
      then (snd (MAC_PLME_SapHandler env (gPlmeSetReq_c gPhyPibCurrentChannel_c (ucast channel)) s))\<lparr>sChannel := channel\<rparr>
      else s)"

definition rf_set_tx_power :: "env \<Rightarrow> u8 \<Rightarrow> radio \<Rightarrow> radio" where
  "rf_set_tx_power env tx_power s =
     snd (MAC_PLME_SapHandler env (gPlmeSetReq_c gPhyPibTransmitPower_c (scast tx_power)) s)"

definition rf_set_rx_on_idle :: "env \<Rightarrow> bool \<Rightarrow> radio \<Rightarrow> radio option" where
  "rf_set_rx_on_idle env val s =
     (case MAC_PLME_SapHandler env (gPlmeSetReq_c gPhyPibRxOnWhenIdle (of_bool val)) s of
        (phy_success, s1) \<Rightarrow> if phy_success then Some s1 else None)"

definition rf_set_rx_time_poll :: "env \<Rightarrow> u32 \<Rightarrow> radio \<Rightarrow> radio" where
  "rf_set_rx_time_poll env t s = snd (MAC_PLME_SapHandler env (gPlmeSetReq_c gPhyPibRxTimePoll_c (ucast t)) s)"

text \<open>The conversion of a PHY time to platform time, with the two clock values read.\<close>

definition phy_to_plat :: "u64 \<Rightarrow> u64 \<Rightarrow> u64 \<Rightarrow> u64 \<Rightarrow> u64" where
  "phy_to_plat PHY_TMR_MAX_VALUE now plat ts =
     (let delta = (if now \<ge> ts then now - ts else (PHY_TMR_MAX_VALUE + now) - ts)
      in plat - delta * of_nat IEEE802154_SYMBOL_TIME_US)"

definition rf_adjust_tstamp_from_phy :: "env \<Rightarrow> u64 \<Rightarrow> radio \<Rightarrow> u64 \<times> radio" where
  "rf_adjust_tstamp_from_phy env ts s =
     (let (now, s1) = readClock env s; (plat, s2) = readTime env s1
      in (phy_to_plat (gPhyTimeMask_c env) now plat ts, s2))"

definition rf_adjust_tstamp_from_ot :: "env \<Rightarrow> u32 \<Rightarrow> radio \<Rightarrow> u32 \<times> radio" where
  "rf_adjust_tstamp_from_ot env time s =
     (let (clk, s1) = readClock env s; (plat, s2) = readTime env s1;
          ts = clk * of_nat IEEE802154_SYMBOL_TIME_US; delta = time - ucast plat
      in (ucast (ts + ucast delta), s2))"

definition rf_compute_csl_phase :: "radio \<Rightarrow> u32 \<Rightarrow> u16" where
  "rf_compute_csl_phase s aTimeUs =
     (let cslPeriodUs = sCslPeriod s * 10 * of_nat IEEE802154_SYMBOL_TIME_US;
          cslPhaseUs = (cslPeriodUs - (aTimeUs mod cslPeriodUs) + (sCslSampleTimeUs s mod cslPeriodUs)) mod cslPeriodUs
      in ucast (cslPhaseUs div (10 * of_nat IEEE802154_SYMBOL_TIME_US) + 1))"

partial_function (option) csl_sample_loop :: "env \<Rightarrow> u32 \<Rightarrow> u32 \<Rightarrow> radio \<Rightarrow> radio option" where
  "csl_sample_loop env csl_period dt s =
     (if dt \<le> of_nat CMP_OVHD \<or> dt > of_nat CMP_OVHD + 2 * csl_period
      then csl_sample_loop env csl_period
             (sCslSampleTimeUs s + csl_period - ucast (fst (readTime env (s\<lparr>sCslSampleTimeUs := sCslSampleTimeUs s + csl_period\<rparr>))))
             (snd (readTime env (s\<lparr>sCslSampleTimeUs := sCslSampleTimeUs s + csl_period\<rparr>)))
      else Some s)"

definition set_csl_sample_time :: "env \<Rightarrow> radio \<Rightarrow> radio option" where
  "set_csl_sample_time env s =
     (if sCslPeriod s = 0 then Some s
      else do {
        let csl_period = sCslPeriod s * 10 * of_nat IEEE802154_SYMBOL_TIME_US;
        let (plat, s1) = readTime env s;
        s2 \<leftarrow> csl_sample_loop env csl_period (sCslSampleTimeUs s1 - ucast plat) s1;
        let (t, s3) = rf_adjust_tstamp_from_ot env (sCslSampleTimeUs s2) s2;
        Some (snd (MAC_PLME_SapHandler env (gPlmeCslSetSampleTime_c t) s3)) })"

definition start_csl_receiver :: "env \<Rightarrow> radio \<Rightarrow> radio option" where
  "start_csl_receiver env s =
     (if sCslPeriod s = 0 then Some s
      else set_csl_sample_time env
             (if \<not> csl_rx s then (nbuOnly env PLATFORM_RemoteActiveReq s)\<lparr>csl_rx := True\<rparr> else s))"

definition stop_csl_receiver :: "env \<Rightarrow> radio \<Rightarrow> radio" where
  "stop_csl_receiver env s =
     (if csl_rx s then (nbuOnly env PLATFORM_RemoteActiveRel s)\<lparr>csl_rx := False\<rparr> else s)"

text \<open>Waking the main loop: the event flag is set and low power is refused once.\<close>

definition radio_event :: "radio \<Rightarrow> radio" where
  "radio_event s =
     (let s1 = (if \<not> is_radio_event s then (emit PWR_DisallowDeviceToSleep s)\<lparr>is_radio_event := True\<rparr> else s)
      in emit otSysEventSignalPending s1)"

section \<open>The platform interface\<close>

definition plme_set :: "env \<Rightarrow> macToPlmeMessage \<Rightarrow> radio \<Rightarrow> radio" where
  "plme_set env msg s = snd (MAC_PLME_SapHandler env msg s)"

definition otPlatRadioGetState :: "radio \<Rightarrow> otRadioState" where
  "otPlatRadioGetState s = sState s"

definition otPlatRadioSetPanId :: "env \<Rightarrow> u16 \<Rightarrow> radio \<Rightarrow> radio" where
  "otPlatRadioSetPanId env aPanId s =
     (plme_set env (gPlmeSetReq_c gPhyPibPanId_c (ucast aPanId)) s)\<lparr>sPanId := aPanId\<rparr>"

definition otPlatRadioSetExtendedAddress :: "env \<Rightarrow> u64 \<Rightarrow> radio \<Rightarrow> radio" where
  "otPlatRadioSetExtendedAddress env aExtAddress s = plme_set env (gPlmeSetReq_c gPhyPibLongAddress_c aExtAddress) s"

definition otPlatRadioSetShortAddress :: "env \<Rightarrow> u16 \<Rightarrow> radio \<Rightarrow> radio" where
  "otPlatRadioSetShortAddress env aShortAddress s =
     plme_set env (gPlmeSetReq_c gPhyPibShortAddress_c (ucast aShortAddress)) s"

definition otPlatRadioIsEnabled :: "radio \<Rightarrow> bool" where
  "otPlatRadioIsEnabled s = (sState s \<noteq> OT_RADIO_STATE_DISABLED)"

definition otPlatRadioSetRxOnWhenIdle :: "env \<Rightarrow> bool \<Rightarrow> radio \<Rightarrow> radio option" where
  "otPlatRadioSetRxOnWhenIdle env aEnable s =
     (let s0 = s\<lparr>rx_on_idle_disabled := False\<rparr> in
      if aEnable then
        do { s1 \<leftarrow> rf_set_rx_on_idle env True (s0\<lparr>is_rx_on_idle := True\<rparr>);
             Some (if sState s1 \<noteq> OT_RADIO_STATE_TRANSMIT then s1\<lparr>sState := OT_RADIO_STATE_RECEIVE\<rparr> else s1) }
      else
        (let s1 = s0\<lparr>is_rx_on_idle := False\<rparr> in
         if \<not> is_ed_scan s1 \<and> sState s1 \<noteq> OT_RADIO_STATE_TRANSMIT
         then Some ((rf_abort env s1)\<lparr>sState := OT_RADIO_STATE_SLEEP\<rparr>)
         else rf_set_rx_on_idle env False s1))"

definition otPlatRadioEnable :: "env \<Rightarrow> radio \<Rightarrow> (otError \<times> radio) option" where
  "otPlatRadioEnable env s =
     (if otPlatRadioIsEnabled s then Some (OT_ERROR_NONE, s)
      else do {
        let s0 = (if \<not> useNbu env then emit PHY_Enable s else s);
        s1 \<leftarrow> otPlatRadioSetRxOnWhenIdle env False s0;
        Some (OT_ERROR_NONE, s1\<lparr>sState := OT_RADIO_STATE_SLEEP, sRxRing := reset_rx_ring (sRxRing s1)\<rparr>) })"

definition otPlatRadioDisable :: "env \<Rightarrow> radio \<Rightarrow> (otError \<times> radio) option" where
  "otPlatRadioDisable env s =
     (if \<not> otPlatRadioIsEnabled s then Some (OT_ERROR_NONE, s)
      else do {
        s1 \<leftarrow> otPlatRadioSetRxOnWhenIdle env False s;
        let s2 = stop_csl_receiver env s1;
        let s3 = (if \<not> useNbu env then emit PHY_Disable s2 else s2);
        Some (OT_ERROR_NONE, s3\<lparr>sState := OT_RADIO_STATE_DISABLED\<rparr>) })"

definition otPlatRadioSleep :: "env \<Rightarrow> radio \<Rightarrow> otError \<times> radio" where
  "otPlatRadioSleep env s =
     (if sState s = OT_RADIO_STATE_TRANSMIT \<or> sState s = OT_RADIO_STATE_DISABLED then (OT_ERROR_INVALID_STATE, s)
      else
        (let s1 = stop_csl_receiver env s in
         if is_rx_after_poll s1 then (OT_ERROR_NONE, s1\<lparr>is_rx_after_poll := False, sState := OT_RADIO_STATE_SLEEP\<rparr>)
         else if sState s1 = OT_RADIO_STATE_SLEEP then (OT_ERROR_NONE, s1)
         else (OT_ERROR_NONE, (rf_abort env s1)\<lparr>sState := OT_RADIO_STATE_SLEEP\<rparr>)))"

definition otPlatRadioReceive :: "env \<Rightarrow> u8 \<Rightarrow> radio \<Rightarrow> otError \<times> radio" where
  "otPlatRadioReceive env aChannel s =
     (if sState s = OT_RADIO_STATE_TRANSMIT \<or> sState s = OT_RADIO_STATE_DISABLED
      then (OT_ERROR_INVALID_STATE, s\<lparr>rx_after_poll_done := False\<rparr>)
      else if sState s = OT_RADIO_STATE_RECEIVE \<and> sChannel s = aChannel
      then (OT_ERROR_NONE, s\<lparr>rx_after_poll_done := False\<rparr>)
      else if rx_after_poll_done s then (OT_ERROR_NONE, s\<lparr>rx_after_poll_done := False\<rparr>)
      else
        (let s1 = rf_set_channel env aChannel (s\<lparr>sState := OT_RADIO_STATE_RECEIVE\<rparr>);
             (phy_success, s2) = MAC_PLME_SapHandler env (gPlmeRxReq_c 0xFFFFFFFF None) s1
         in (if phy_success then OT_ERROR_NONE else OT_ERROR_INVALID_STATE, s2\<lparr>rx_after_poll_done := False\<rparr>)))"

definition otPlatRadioEnableSrcMatch :: "env \<Rightarrow> bool \<Rightarrow> radio \<Rightarrow> radio" where
  "otPlatRadioEnableSrcMatch env aEnable s = plme_set env (gPlmeSetSAMState_c aEnable) s"

definition otPlatRadioAddSrcMatchShortEntry :: "env \<Rightarrow> u16 \<Rightarrow> radio \<Rightarrow> otError \<times> radio" where
  "otPlatRadioAddSrcMatchShortEntry env aShortAddress s =
     (let (ok, s1) = MAC_PLME_SapHandler env (gPlmeAddToSapTable_c 2 (sPanId s) (u16_bytes aShortAddress)) s
      in (if \<not> ok then OT_ERROR_NO_BUFS else OT_ERROR_NONE, s1))"

definition otPlatRadioAddSrcMatchExtEntry :: "env \<Rightarrow> bytes \<Rightarrow> radio \<Rightarrow> otError \<times> radio" where
  "otPlatRadioAddSrcMatchExtEntry env aExtAddress s =
     (let (ok, s1) = MAC_PLME_SapHandler env (gPlmeAddToSapTable_c 3 (sPanId s) (take 8 aExtAddress)) s
      in (if \<not> ok then OT_ERROR_NO_BUFS else OT_ERROR_NONE, s1))"

definition otPlatRadioClearSrcMatchShortEntry :: "env \<Rightarrow> u16 \<Rightarrow> radio \<Rightarrow> otError \<times> radio" where
  "otPlatRadioClearSrcMatchShortEntry env aShortAddress s =
     (let (ok, s1) = MAC_PLME_SapHandler env (gPlmeRemoveFromSAMTable_c 2 (sPanId s) (u16_bytes aShortAddress)) s
      in (if \<not> ok then OT_ERROR_NO_ADDRESS else OT_ERROR_NONE, s1))"

definition otPlatRadioClearSrcMatchExtEntry :: "env \<Rightarrow> bytes \<Rightarrow> radio \<Rightarrow> otError \<times> radio" where
  "otPlatRadioClearSrcMatchExtEntry env aExtAddress s =
     (let (ok, s1) = MAC_PLME_SapHandler env (gPlmeRemoveFromSAMTable_c 3 (sPanId s) (take 8 aExtAddress)) s
      in (if \<not> ok then OT_ERROR_NO_ADDRESS else OT_ERROR_NONE, s1))"

text \<open>
  The data request of \<^verbatim>\<open>otPlatRadioTransmit\<close>: the time the frame and its acknowledgement take, the delayed
  start, and, for a frame whose header the PHY still has to complete, the CSL information element.
\<close>

definition tx_duration :: "env \<Rightarrow> otRadioFrame \<Rightarrow> u8 \<Rightarrow> u32" where
  "tx_duration env aFrame ctl =
     (if IEEE802154_ACK_REQUEST ctl
      then of_nat IEEE802154_CCA_LEN_SYM + of_nat IEEE802154_PHY_SHR_LEN_SYM +
           (3 + ucast (mLength aFrame)) * OT_RADIO_SYMBOLS_PER_OCTET env + of_nat IEEE802154_TURNAROUND_LEN_SYM +
           (if otMacFrameIsVersion2015 env aFrame then of_nat IEEE802154_ENH_ACK_WAIT_SYM
            else of_nat IEEE802154_IMM_ACK_WAIT_SYM)
      else 0xFFFFFFFF)"

definition tx_start :: "env \<Rightarrow> otRadioFrame \<Rightarrow> radio \<Rightarrow> u32 option \<times> radio" where
  "tx_start env aFrame s =
     (if mTxDelay aFrame \<noteq> 0
      then (let (t, s1) = rf_adjust_tstamp_from_ot env (mTxDelayBaseTime aFrame + mTxDelay aFrame) s
            in (Some (t div of_nat IEEE802154_SYMBOL_TIME_US - of_nat IEEE802154_PHY_SHR_LEN_SYM), s1))
      else (None, s))"

definition tx_csl_header :: "env \<Rightarrow> u32 option \<Rightarrow> radio \<Rightarrow> (u32 option \<times> radio) option" where
  "tx_csl_header env start s =
     (if sCslPeriod s \<noteq> 0 then
        do { s1 \<leftarrow> start_csl_receiver env s;
             let (clk, s2) = readClock env s1;
             let (plat, s3) = readTime env s2;
             let hdrTimeUs = ucast (plat + of_nat ((TX_ENCRYPT_DELAY_SYM + IEEE802154_PHY_SHR_LEN_SYM) * IEEE802154_SYMBOL_TIME_US));
             let f = otMacFrameSetCslIe env (sTxFrame s3) (sCslPeriod s3) (rf_compute_csl_phase s3 hdrTimeUs);
             Some (Some (ucast (clk + of_nat TX_ENCRYPT_DELAY_SYM)), s3\<lparr>sTxFrame := f, is_tx_poll := False\<rparr>) }
      else Some (start, s))"

definition tx_submit :: "env \<Rightarrow> macToPdDataMessage \<Rightarrow> radio \<Rightarrow> otError \<times> radio" where
  "tx_submit env msg s =
     (let tmp_state = sState s;
          (phy_success, s1) = MAC_PD_SapHandler env msg (s\<lparr>sState := OT_RADIO_STATE_TRANSMIT\<rparr>)
      in if phy_success then (OT_ERROR_NONE, onTxStarted env (emit otPlatRadioTxStarted s1))
         else (OT_ERROR_INVALID_STATE, s1\<lparr>sState := tmp_state\<rparr>))"

definition otPlatRadioTransmit :: "env \<Rightarrow> radio \<Rightarrow> (otError \<times> radio) option" where
  "otPlatRadioTransmit env s =
     (if sState s = OT_RADIO_STATE_DISABLED then Some (OT_ERROR_INVALID_STATE, s)
      else do {
        let aFrame = sTxFrame s;
        let s1 = s\<lparr>is_tx_poll := otMacFrameIsDataRequest env aFrame, is_rx_after_poll := False\<rparr>;
        let s2 = rf_set_channel env (mChannel aFrame) s1;
        ctl \<leftarrow> psdu_ctl (mPsdu aFrame);
        let (start, s3) = tx_start env aFrame s2;
        let enc = (otMacFrameIsSecurityEnabled env aFrame \<and> otMacFrameIsKeyIdMode1 env aFrame \<and>
                   \<not> mIsSecurityProcessed aFrame);
        let upd = (enc \<and> \<not> mIsHeaderUpdated aFrame);
        (start1, s4) \<leftarrow> (if upd then tx_csl_header env start s3 else Some (start, s3));
        let msg = \<lparr>psduLength = mLength aFrame, ackRequired = IEEE802154_ACK_REQUEST ctl,
                   txDuration = tx_duration env aFrame ctl, startTime = start1,
                   gPhyEncFrame = enc, gPhyUpdHDr = upd\<rparr>;
        Some (tx_submit env msg s4) })"

definition otPlatRadioGetRssi :: "env \<Rightarrow> radio \<Rightarrow> u8 \<times> radio" where
  "otPlatRadioGetRssi env s = (phyRssi env (acts s), plme_set env (gPlmeGetReq_c gPhyGetRSSILevel_c) s)"

definition otPlatRadioSetPromiscuous :: "env \<Rightarrow> bool \<Rightarrow> radio \<Rightarrow> radio" where
  "otPlatRadioSetPromiscuous env aEnable s =
     plme_set env (gPlmeSetReq_c gPhyPibPromiscuousMode_c (of_bool aEnable)) (s\<lparr>sPromiscuousEnable := aEnable\<rparr>)"

definition otPlatRadioEnergyScan :: "env \<Rightarrow> u8 \<Rightarrow> u16 \<Rightarrow> radio \<Rightarrow> otError \<times> radio" where
  "otPlatRadioEnergyScan env aScanChannel aScanDuration s =
     (if sState s = OT_RADIO_STATE_TRANSMIT \<or> sState s = OT_RADIO_STATE_DISABLED then (OT_ERROR_INVALID_STATE, s)
      else if is_ed_scan s then (OT_ERROR_BUSY, s)
      else
        (let s1 = rf_set_channel env aScanChannel (s\<lparr>sMaxED := - 128\<rparr>);
             (phy_success, s2) = MAC_PLME_SapHandler env (gPlmeEdReq_c ((ucast aScanDuration * 1000) div OT_RADIO_SYMBOL_TIME env)) s1
         in if phy_success then (OT_ERROR_NONE, s2\<lparr>is_ed_scan := True\<rparr>) else (OT_ERROR_INVALID_STATE, s2)))"

definition otPlatRadioGetTransmitPower :: "radio \<Rightarrow> bool \<Rightarrow> otError \<times> u8 option" where
  "otPlatRadioGetTransmitPower s haveBuffer =
     (if \<not> haveBuffer then (OT_ERROR_INVALID_ARGS, None) else (OT_ERROR_NONE, Some (sAutoTxPwrLevel s)))"

definition otPlatRadioSetTransmitPower :: "env \<Rightarrow> u8 \<Rightarrow> radio \<Rightarrow> otError \<times> radio" where
  "otPlatRadioSetTransmitPower env aPower s = (OT_ERROR_NONE, (rf_set_tx_power env aPower s)\<lparr>sAutoTxPwrLevel := aPower\<rparr>)"

text \<open>Keys are given as their 16 bytes; with key references the export may fail, and then nothing is sent.\<close>

datatype otRadioKeyType = OT_KEY_TYPE_LITERAL_KEY | OT_KEY_TYPE_KEY_REF

definition otPlatRadioSetMacKey ::
  "env \<Rightarrow> (bytes \<Rightarrow> bytes option) \<Rightarrow> u8 \<Rightarrow> bytes \<Rightarrow> bytes \<Rightarrow> bytes \<Rightarrow> otRadioKeyType \<Rightarrow> radio \<Rightarrow> radio" where
  "otPlatRadioSetMacKey env otPlatCryptoExportKey aKeyId aPrevKey aCurrKey aNextKey aKeyType s =
     (case aKeyType of
        OT_KEY_TYPE_LITERAL_KEY \<Rightarrow>
          plme_set env (gPlmeSetMacKey_c aKeyId (take 16 aPrevKey) (take 16 aCurrKey) (take 16 aNextKey)) s
      | OT_KEY_TYPE_KEY_REF \<Rightarrow>
          (case (otPlatCryptoExportKey aPrevKey, otPlatCryptoExportKey aCurrKey, otPlatCryptoExportKey aNextKey) of
             (Some p, Some c, Some n) \<Rightarrow>
               if length p = 16 \<and> length c = 16 \<and> length n = 16 then plme_set env (gPlmeSetMacKey_c aKeyId p c n) s else s
           | _ \<Rightarrow> s))"

definition otPlatRadioSetMacFrameCounter :: "env \<Rightarrow> u32 \<Rightarrow> radio \<Rightarrow> radio" where
  "otPlatRadioSetMacFrameCounter env aMacFrameCounter s = plme_set env (gPlmeSetMacFrameCounter_c aMacFrameCounter) s"

definition otPlatRadioSetMacFrameCounterIfLarger :: "env \<Rightarrow> u32 \<Rightarrow> radio \<Rightarrow> radio" where
  "otPlatRadioSetMacFrameCounterIfLarger env aMacFrameCounter s =
     plme_set env (gPlmeSetMacFrameCounterIfLarger_c aMacFrameCounter) s"

definition otPlatRadioReceiveAt :: "env \<Rightarrow> u8 \<Rightarrow> u32 \<Rightarrow> u32 \<Rightarrow> radio \<Rightarrow> (otError \<times> radio) option" where
  "otPlatRadioReceiveAt env aChannel aStart aDuration s =
     (if sState s \<noteq> OT_RADIO_STATE_SLEEP then Some (OT_ERROR_FAILED, s)
      else do {
        s1 \<leftarrow> start_csl_receiver env s;
        let s2 = rf_set_channel env aChannel s1;
        let (start, s3) = rf_adjust_tstamp_from_ot env aStart s2;
        Some (OT_ERROR_NONE, plme_set env (gPlmeRxReq_c (aDuration div of_nat IEEE802154_SYMBOL_TIME_US)
                                             (Some (start div of_nat IEEE802154_SYMBOL_TIME_US))) s3) })"

definition otPlatRadioEnableCsl :: "env \<Rightarrow> u32 \<Rightarrow> radio \<Rightarrow> otError \<times> radio" where
  "otPlatRadioEnableCsl env aCslPeriod s =
     (let s1 = (if aCslPeriod \<noteq> 0 then rf_set_rx_time_poll env 0 s else rf_set_rx_time_poll env (RX_TIME_POLL env) s)
      in (OT_ERROR_NONE, plme_set env (gPlmeCslEnable_c aCslPeriod) (s1\<lparr>sCslPeriod := aCslPeriod\<rparr>)))"

definition otPlatRadioUpdateCslSampleTime :: "u32 \<Rightarrow> radio \<Rightarrow> radio" where
  "otPlatRadioUpdateCslSampleTime aCslSampleTime s = s\<lparr>sCslSampleTimeUs := aCslSampleTime\<rparr>"

section \<open>Indications from the PHY\<close>

definition set_tx_frame_counter :: "env \<Rightarrow> u32 \<Rightarrow> radio \<Rightarrow> radio" where
  "set_tx_frame_counter env fc s =
     (if otMacFrameIsSecurityEnabled env (sTxFrame s) \<and> otMacFrameIsKeyIdMode1 env (sTxFrame s) \<and>
         \<not> mIsSecurityProcessed (sTxFrame s) \<and> \<not> mIsHeaderUpdated (sTxFrame s)
      then s\<lparr>sTxFrame := otMacFrameSetFrameCounter env (sTxFrame s) fc\<rparr> else s)"

text \<open>The received frame in slot \<open>n\<close>; fields the indication does not set keep their old value.\<close>

definition fill_rx_slot :: "env \<Rightarrow> nat \<Rightarrow> pdDataInd \<Rightarrow> u8 \<Rightarrow> radio \<Rightarrow> radio" where
  "fill_rx_slot env pMsg ind n s =
     (let (ts, s1) = rf_adjust_tstamp_from_phy env (indTimeStamp ind) s;
          old = RxFrame (rSlots (sRxRing s1) ! unat n);
          f = old\<lparr>mChannel := sChannel s1, mLqi := ppduLinkQuality ind, mRssi := ppduRssi ind, mTimestamp := ts,
                  mAckedWithFramePending := rxAckFp ind, mLength := indPsduLength ind, mPsdu := indPsdu ind,
                  mAckedWithSecEnhAck := ackedWithSecEnhAck ind\<rparr>;
          f1 = (if ackedWithSecEnhAck ind then f\<lparr>mAckFrameCounter := ackFrameCounter ind, mAckKeyId := ackKeyId ind\<rparr> else f)
      in s1\<lparr>sRxRing := (sRxRing s1)\<lparr>rSlots := (rSlots (sRxRing s1))[unat n := \<lparr>RxFrame = f1, pPhyBuffer = Some pMsg\<rparr>]\<rparr>\<rparr>)"

definition pd_data_ind :: "env \<Rightarrow> nat \<Rightarrow> pdDataInd \<Rightarrow> radio \<Rightarrow> radio option" where
  "pd_data_ind env pMsg ind s =
     do { let (slot, ring1) = get_free_frame_rx_ring (sRxRing s);
          let s1 = s\<lparr>sRxRing := ring1\<rparr>;
          let s2 = (case slot of
                      Some n \<Rightarrow> (let t = fill_rx_slot env pMsg ind n s1
                                in t\<lparr>sRxRing := push_free_frame_rx_ring (sRxRing t)\<rparr>)
                    | None \<Rightarrow> emit (MSG_Free (Some pMsg)) s1);
          if \<not> rx_on_idle_disabled s2 \<and> is_rx_on_idle s2 \<and> (slot = None \<or> is_rx_ring_full (sRxRing s2))
          then do { s3 \<leftarrow> rf_set_rx_on_idle env False s2; Some (s3\<lparr>rx_on_idle_disabled := True\<rparr>) }
          else Some s2 }"

definition pd_tx_done :: "env \<Rightarrow> pdDataToMacMessage \<Rightarrow> u32 \<Rightarrow> radio \<Rightarrow> radio option" where
  "pd_tx_done env msg fc s =
     (if sState s \<noteq> OT_RADIO_STATE_TRANSMIT then Some s
      else do {
        let s1 = (set_tx_frame_counter env fc s)\<lparr>sTxStatus := OT_ERROR_ABORT\<rparr>;
        s2 \<leftarrow> (case msg of
                 gPdDataCnf_c cnf _ \<Rightarrow>
                   do { ack \<leftarrow> rd_bytes 0 (unat (ackLength cnf)) (ackData cnf);
                        psdu \<leftarrow> wr_bytes 0 ack (mPsdu (sRxAckFrame s1));
                        ctl \<leftarrow> psdu_ctl psdu;
                        let s2 = s1\<lparr>sTxStatus := OT_ERROR_NONE,
                                    sRxAckFrame := (sRxAckFrame s1)\<lparr>mChannel := sChannel s1, mLength := ackLength cnf,
                                      mLqi := cnfLinkQuality cnf, mRssi := cnfRssi cnf, mPsdu := psdu\<rparr>\<rparr>;
                        Some (if is_tx_poll s2 \<and> IEEE802154_FP ctl then s2\<lparr>is_rx_after_poll := True\<rparr> else s2) }
               | _ \<Rightarrow> Some s1);
        Some (s2\<lparr>sTxDone := True, is_tx_poll := False\<rparr>) })"

definition ed_scan_end :: "radio \<Rightarrow> radio" where
  "ed_scan_end s = (if is_ed_scan s then s\<lparr>sEdScanDone := True, is_ed_scan := False\<rparr> else s)"

definition pd_finish :: "env \<Rightarrow> radio \<Rightarrow> radio" where
  "pd_finish env s =
     (let s1 = ed_scan_end s;
          s2 = (if sTxDone s1 \<or> sState s1 \<noteq> OT_RADIO_STATE_TRANSMIT then
                  (if is_rx_on_idle s1 \<or> is_rx_after_poll s1
                   then (let t = s1\<lparr>sState := OT_RADIO_STATE_RECEIVE\<rparr>
                         in if sTxDone t then rf_set_channel env (mRxChannelAfterTxDone (sTxFrame t)) t else t)
                   else s1\<lparr>sState := OT_RADIO_STATE_SLEEP\<rparr>)
                else s1)
      in radio_event (stop_csl_receiver env s2))"

definition PD_OT_MAC_SapHandler :: "env \<Rightarrow> nat \<Rightarrow> pdDataToMacMessage \<Rightarrow> radio \<Rightarrow> radio option" where
  "PD_OT_MAC_SapHandler env pMsg msg s =
     (case msg of
        gPdDataInd_c ind \<Rightarrow>
          (if is_rx_after_poll s then
             do { ctl \<leftarrow> psdu_ctl (indPsdu ind);
                  if \<not> IEEE802154_ACK_REQUEST ctl
                  then Some (stop_csl_receiver env (emit (MSG_Free (Some pMsg)) s))
                  else map_option (pd_finish env)
                         (pd_data_ind env pMsg ind (s\<lparr>rx_after_poll_done := True, is_rx_after_poll := False\<rparr>)) }
           else map_option (pd_finish env) (pd_data_ind env pMsg ind (s\<lparr>is_rx_after_poll := False\<rparr>)))
      | gPdDataCnf_c cnf fc \<Rightarrow>
          do { s1 \<leftarrow> pd_tx_done env msg fc s; Some (pd_finish env (emit (MSG_Free (Some pMsg)) s1)) }
      | gPdDataOther fc \<Rightarrow>
          do { s1 \<leftarrow> pd_tx_done env msg fc s; Some (pd_finish env (emit (MSG_Free (Some pMsg)) s1)) })"

definition plme_tx_done :: "env \<Rightarrow> otError \<Rightarrow> u32 \<Rightarrow> radio \<Rightarrow> radio" where
  "plme_tx_done env err fc s =
     (if sState s = OT_RADIO_STATE_TRANSMIT
      then (set_tx_frame_counter env fc s)\<lparr>sTxStatus := err, sTxDone := True, is_tx_poll := False, is_rx_after_poll := False\<rparr>
      else s)"

definition PLME_OT_MAC_SapHandler :: "env \<Rightarrow> nat \<Rightarrow> plmeToMacMessage \<Rightarrow> radio \<Rightarrow> radio" where
  "PLME_OT_MAC_SapHandler env pMsg msg s =
     (let s1 = (case msg of
                  gPlmeCcaCnf_c busy \<Rightarrow>
                    (if busy then s\<lparr>sTxStatus := OT_ERROR_CHANNEL_ACCESS_FAILURE, sTxDone := True\<rparr> else s)
                | gPlmeEdCnf_c maxED fc \<Rightarrow> plme_tx_done env OT_ERROR_ABORT fc (s\<lparr>sMaxED := maxED\<rparr>)
                | gPlmeTimeoutInd_c fc \<Rightarrow> plme_tx_done env OT_ERROR_NO_ACK fc s
                | gPlmeAbortInd_c fc \<Rightarrow> plme_tx_done env OT_ERROR_ABORT fc s
                | gPlmeOther fc \<Rightarrow> plme_tx_done env OT_ERROR_ABORT fc s);
          s2 = ed_scan_end (emit (MSG_Free (Some pMsg)) s1);
          s3 = (if is_rx_on_idle s2
                then (let t = s2\<lparr>sState := OT_RADIO_STATE_RECEIVE\<rparr>
                      in if sTxDone t then rf_set_channel env (mRxChannelAfterTxDone (sTxFrame t)) t else t)
                else s2\<lparr>sState := OT_RADIO_STATE_SLEEP\<rparr>);
          s4 = stop_csl_receiver env s3
      in if sTxDone s4 \<or> sEdScanDone s4 then radio_event s4 else s4)"

section \<open>Initialisation and the main loop\<close>

definition otPlatRadioInit :: "env \<Rightarrow> radio \<Rightarrow> radio" where
  "otPlatRadioInit env s =
     (let s1 = plme_set env gPlmeEnableEncryption_c (emit Phy_Init s);
          s2 = rf_set_rx_time_poll env (RX_TIME_POLL env) s1
      in s2\<lparr>sTxFrame := (sTxFrame s2)\<lparr>mLength := 0, mPsdu := replicate 127 0\<rparr>,
            sRxAckFrame := \<lparr>mPsdu = replicate 127 0, mLength = 0, mChannel = 0, mRxChannelAfterTxDone = 0, mTxDelay = 0,
              mTxDelayBaseTime = 0, mIsSecurityProcessed = False, mIsHeaderUpdated = False, mLqi = 0, mRssi = 0,
              mTimestamp = 0, mAckedWithFramePending = False, mAckedWithSecEnhAck = False, mAckFrameCounter = 0,
              mAckKeyId = 0\<rparr>\<rparr>)"

text \<open>One turn of the receive loop: deliver, free the PHY buffer, clear the reference, release the slot.\<close>

definition radio_rx_deliver :: "env \<Rightarrow> u8 \<Rightarrow> radio \<Rightarrow> radio" where
  "radio_rx_deliver env i s =
     (let s1 = onReceiveDone env (emit (otPlatRadioReceiveDone (RxFrame (rSlots (sRxRing s) ! unat i))) s);
          slot = rSlots (sRxRing s1) ! unat i;
          s2 = emit (MSG_Free (pPhyBuffer slot)) s1;
          ring2 = (sRxRing s2)\<lparr>rSlots := (rSlots (sRxRing s2))[unat i := slot\<lparr>pPhyBuffer := None\<rparr>]\<rparr>
      in s2\<lparr>sRxRing := pop_frame_rx_ring ring2\<rparr>)"

partial_function (option) radio_rx_loop :: "env \<Rightarrow> radio \<Rightarrow> radio option" where
  "radio_rx_loop env s =
     (case get_frame_rx_ring (sRxRing s) of
        (slot, ring1) \<Rightarrow>
          (case slot of
             None \<Rightarrow> Some (s\<lparr>sRxRing := ring1\<rparr>)
           | Some i \<Rightarrow> radio_rx_loop env (radio_rx_deliver env i (s\<lparr>sRxRing := ring1\<rparr>))))"

definition radio_rx_process :: "env \<Rightarrow> radio \<Rightarrow> radio option" where
  "radio_rx_process env s =
     do { s1 \<leftarrow> radio_rx_loop env s;
          if rx_on_idle_disabled s1
          then do { s2 \<leftarrow> rf_set_rx_on_idle env True s1; Some (s2\<lparr>rx_on_idle_disabled := False\<rparr>) }
          else Some s1 }"

definition otPlatRadioProcess :: "env \<Rightarrow> radio \<Rightarrow> radio option" where
  "otPlatRadioProcess env s =
     do { let s1 = (if is_radio_event s then emit PWR_AllowDeviceToSleep (s\<lparr>is_radio_event := False\<rparr>) else s);
          s2 \<leftarrow> (if sTxDone s1
                  then do { ctl \<leftarrow> psdu_ctl (mPsdu (sTxFrame s1));
                            let t = onTxDone env (emit (otPlatRadioTxDone (sTxStatus s1) (IEEE802154_ACK_REQUEST ctl)) s1);
                            Some (t\<lparr>sTxDone := False\<rparr>) }
                  else Some s1);
          s3 \<leftarrow> radio_rx_process env (s2\<lparr>rx_after_poll_done := False\<rparr>);
          Some (if sEdScanDone s3
                then (onEnergyScanDone env (emit (otPlatRadioEnergyScanDone (sMaxED s3)) s3))\<lparr>sEdScanDone := False\<rparr>
                else s3) }"

end
