(* ===== verification/Mcxw_Radio_Ops.thy ===== *)
theory Mcxw_Radio_Ops
  imports Mcxw_Radio
begin

text \<open>
  Sequences of driver calls, PHY indications and main-loop turns of \<^verbatim>\<open>src/mcxw/platform/radio.c\<close>, and the
  part of the state that has to balance: frees of PHY buffers, the votes against low power, the
  requests that keep the radio core awake, and the reports to OpenThread. Most of the driver leaves that ledger
  alone, which the simplifier learns here once; the theories on buffers, power and reports build on it.
\<close>

section \<open>The ledger\<close>

fun loud :: "act \<Rightarrow> bool" where
  "loud (MSG_Free b) = True"
| "loud PLATFORM_RemoteActiveReq = True"
| "loud PLATFORM_RemoteActiveRel = True"
| "loud PWR_DisallowDeviceToSleep = True"
| "loud PWR_AllowDeviceToSleep = True"
| "loud (otPlatRadioTxDone e a) = True"
| "loud (otPlatRadioReceiveDone f) = True"
| "loud (otPlatRadioEnergyScanDone m) = True"
| "loud _ = False"

definition ledger :: "radio \<Rightarrow> act list \<times> bool \<times> bool \<times> bool \<times> bool \<times> extendedRadioFrame rxRingBuffer" where
  "ledger s = (filter loud (acts s), is_radio_event s, csl_rx s, sTxDone s, sEdScanDone s, sRxRing s)"

lemma ledger_emit [simp]: "\<not> loud a \<Longrightarrow> ledger (emit a s) = ledger s"
  by (simp add: ledger_def emit_def)

lemma ledger_updates [simp]:
  "ledger (s\<lparr>sState := x1\<rparr>) = ledger s" "ledger (s\<lparr>sChannel := x2\<rparr>) = ledger s" "ledger (s\<lparr>sMaxED := x3\<rparr>) = ledger s"
  "ledger (s\<lparr>rx_on_idle_disabled := x4\<rparr>) = ledger s" "ledger (s\<lparr>is_rx_on_idle := x5\<rparr>) = ledger s"
  "ledger (s\<lparr>is_ed_scan := x6\<rparr>) = ledger s"
  "ledger (s\<lparr>is_tx_poll := x9\<rparr>) = ledger s" "ledger (s\<lparr>is_rx_after_poll := x10\<rparr>) = ledger s"
  "ledger (s\<lparr>rx_after_poll_done := x11\<rparr>) = ledger s" "ledger (s\<lparr>sTxStatus := x14\<rparr>) = ledger s"
  "ledger (s\<lparr>sTxFrame := x15\<rparr>) = ledger s" "ledger (s\<lparr>sRxAckFrame := x16\<rparr>) = ledger s"
  "ledger (s\<lparr>sPanId := x17\<rparr>) = ledger s" "ledger (s\<lparr>sPromiscuousEnable := x18\<rparr>) = ledger s"
  "ledger (s\<lparr>sAutoTxPwrLevel := x19\<rparr>) = ledger s" "ledger (s\<lparr>sCslPeriod := x20\<rparr>) = ledger s"
  "ledger (s\<lparr>sCslSampleTimeUs := x21\<rparr>) = ledger s"
  by (simp_all add: ledger_def)

lemmas outside_defs = MAC_PLME_SapHandler_def MAC_PD_SapHandler_def readClock_def readTime_def plme_set_def

lemma ledger_helpers [simp]:
  "ledger (plme_set env m s) = ledger s" "ledger (rf_abort env s) = ledger s"
  "ledger (rf_set_channel env c s) = ledger s" "ledger (rf_set_tx_power env p s) = ledger s"
  "ledger (rf_set_rx_time_poll env t s) = ledger s"
  "ledger (set_tx_frame_counter env fc s) = ledger s"
  "ledger (snd (rf_adjust_tstamp_from_ot env w s)) = ledger s" "ledger (snd (rf_adjust_tstamp_from_phy env v s)) = ledger s"
  "ledger (snd (readTime env s)) = ledger s" "ledger (snd (readClock env s)) = ledger s"
  by (simp_all add: outside_defs rf_abort_def rf_set_channel_def rf_set_tx_power_def rf_set_rx_time_poll_def
      set_tx_frame_counter_def rf_adjust_tstamp_from_ot_def rf_adjust_tstamp_from_phy_def)

lemma rf_set_rx_on_idle_ledger: "rf_set_rx_on_idle env v s = Some t \<Longrightarrow> ledger t = ledger s"
  by (auto simp: rf_set_rx_on_idle_def outside_defs split: if_splits)

lemma csl_sample_loop_ledger: "csl_sample_loop env p dt s = Some t \<Longrightarrow> ledger t = ledger s"
  by (rule csl_sample_loop.raw_induct [where P = "\<lambda>env p dt s t. ledger t = ledger s"]) (auto split: if_splits)

lemma set_csl_sample_time_ledger: "set_csl_sample_time env s = Some t \<Longrightarrow> ledger t = ledger s"
  by (auto simp: set_csl_sample_time_def outside_defs rf_adjust_tstamp_from_ot_def Let_def
      dest!: csl_sample_loop_ledger split: if_splits bind_splits)

lemma otPlatRadioSetRxOnWhenIdle_ledger: "otPlatRadioSetRxOnWhenIdle env b s = Some t \<Longrightarrow> ledger t = ledger s"
  by (auto simp: otPlatRadioSetRxOnWhenIdle_def Let_def dest!: rf_set_rx_on_idle_ledger split: if_splits bind_splits)

section \<open>Driver operations\<close>

text \<open>\<open>OpTransmit f\<close> is OpenThread filling the transmit buffer with \<open>f\<close> and asking for its transmission.\<close>

datatype radio_op =
    OpEnable | OpDisable | OpSleep | OpReceive u8 | OpTransmit otRadioFrame | OpReceiveAt u8 u32 u32
  | OpRxOnWhenIdle bool | OpEnergyScan u8 u16 | OpEnableCsl u32 | OpCslSampleTime u32 | OpSetPanId u16
  | OpSetTransmitPower u8 | OpPd nat pdDataToMacMessage | OpPlme nat plmeToMacMessage | OpProcess

fun radio_do :: "env \<Rightarrow> radio_op \<Rightarrow> radio \<Rightarrow> radio option" where
  "radio_do env OpEnable s = map_option snd (otPlatRadioEnable env s)"
| "radio_do env OpDisable s = map_option snd (otPlatRadioDisable env s)"
| "radio_do env OpSleep s = Some (snd (otPlatRadioSleep env s))"
| "radio_do env (OpReceive c) s = Some (snd (otPlatRadioReceive env c s))"
| "radio_do env (OpTransmit f) s = map_option snd (otPlatRadioTransmit env (s\<lparr>sTxFrame := f\<rparr>))"
| "radio_do env (OpReceiveAt c t d) s = map_option snd (otPlatRadioReceiveAt env c t d s)"
| "radio_do env (OpRxOnWhenIdle b) s = otPlatRadioSetRxOnWhenIdle env b s"
| "radio_do env (OpEnergyScan c d) s = Some (snd (otPlatRadioEnergyScan env c d s))"
| "radio_do env (OpEnableCsl p) s = Some (snd (otPlatRadioEnableCsl env p s))"
| "radio_do env (OpCslSampleTime t) s = Some (otPlatRadioUpdateCslSampleTime t s)"
| "radio_do env (OpSetPanId p) s = Some (otPlatRadioSetPanId env p s)"
| "radio_do env (OpSetTransmitPower p) s = Some (snd (otPlatRadioSetTransmitPower env p s))"
| "radio_do env (OpPd b m) s = PD_OT_MAC_SapHandler env b m s"
| "radio_do env (OpPlme b m) s = Some (PLME_OT_MAC_SapHandler env b m s)"
| "radio_do env OpProcess s = otPlatRadioProcess env s"

fun radio_run :: "env \<Rightarrow> radio_op list \<Rightarrow> radio \<Rightarrow> radio option" where
  "radio_run env [] s = Some s"
| "radio_run env (op # ops) s = Option.bind (radio_do env op s) (radio_run env ops)"

lemma radio_run_append:
  "radio_run env (xs @ ys) s = Option.bind (radio_run env xs s) (radio_run env ys)"
  by (induction xs arbitrary: s) (auto split: bind_splits)

text \<open>An invariant of every operation is an invariant of every run.\<close>

lemma radio_run_induct [consumes 2, case_names step]:
  assumes "radio_run env ops s = Some t" and "I s"
    and "\<And>op s t. op \<in> set ops \<Longrightarrow> I s \<Longrightarrow> radio_do env op s = Some t \<Longrightarrow> I t"
  shows "I t"
  using assms
proof (induction ops arbitrary: s)
  case (Cons op ops)
  then obtain u where u: "radio_do env op s = Some u" "radio_run env ops u = Some t" by (auto split: bind_splits)
  show ?case by (rule Cons.IH [OF u(2) Cons.prems(3) [of op s u]]) (use Cons.prems u in auto)
qed simp

section \<open>What each operation does to the ledger\<close>

text \<open>The operations that are quiet except for starting or stopping the CSL receiver.\<close>

definition csl_start :: "env \<Rightarrow> radio \<Rightarrow> radio" where
  "csl_start env s = (if \<not> csl_rx s then (nbuOnly env PLATFORM_RemoteActiveReq s)\<lparr>csl_rx := True\<rparr> else s)"

definition csl_ledger :: "env \<Rightarrow> radio \<Rightarrow> radio \<Rightarrow> bool" where
  "csl_ledger env s t \<longleftrightarrow> ledger t = ledger s \<or> ledger t = ledger (csl_start env s) \<or> ledger t = ledger (stop_csl_receiver env s)"

lemma ledger_cong:
  assumes "ledger s = ledger t"
  shows "ledger (csl_start env s) = ledger (csl_start env t)"
    and "ledger (stop_csl_receiver env s) = ledger (stop_csl_receiver env t)"
    and "ledger (radio_event s) = ledger (radio_event t)"
    and "ledger (emit a s) = ledger (emit a t)"
    and "ledger (emit a (s\<lparr>is_radio_event := b\<rparr>)) = ledger (emit a (t\<lparr>is_radio_event := b\<rparr>))"
  using assms by (auto simp: ledger_def csl_start_def stop_csl_receiver_def nbuOnly_def radio_event_def emit_def Let_def)

lemma start_csl_receiver_ledger:
  "start_csl_receiver env s = Some t \<Longrightarrow> ledger t = ledger s \<or> ledger t = ledger (csl_start env s)"
  by (auto simp: start_csl_receiver_def csl_start_def dest!: set_csl_sample_time_ledger split: if_splits)

lemma tx_start_ledger [simp]: "ledger (snd (tx_start env f s)) = ledger s"
  by (simp add: tx_start_def split_def Let_def)

lemma tx_csl_header_ledger:
  assumes "tx_csl_header env st s = Some (st1, t)"
  shows "ledger t = ledger s \<or> ledger t = ledger (csl_start env s)"
  using assms by (auto simp: tx_csl_header_def Let_def outside_defs dest!: start_csl_receiver_ledger split: if_splits bind_splits)

lemma tx_submit_ledger:
  assumes "tx_submit env msg s = (e, t)"
  shows "\<exists>t0. ledger t0 = ledger s \<and> (t = t0 \<or> t = onTxStarted env t0)"
proof (cases "pdOk env (acts s) msg")
  case True
  then have "t = onTxStarted env (emit otPlatRadioTxStarted (emit (Pd msg) (s\<lparr>sState := OT_RADIO_STATE_TRANSMIT\<rparr>)))"
    using assms by (simp add: tx_submit_def outside_defs)
  moreover have "ledger (emit otPlatRadioTxStarted (emit (Pd msg) (s\<lparr>sState := OT_RADIO_STATE_TRANSMIT\<rparr>))) = ledger s" by simp
  ultimately show ?thesis by blast
next
  case False
  then have "ledger t = ledger s" using assms by (auto simp: tx_submit_def outside_defs)
  then show ?thesis by blast
qed

lemma otPlatRadioTransmit_ledger:
  assumes "otPlatRadioTransmit env s = Some (e, t)"
  shows "\<exists>t0. (ledger t0 = ledger s \<or> ledger t0 = ledger (csl_start env s)) \<and> (t = t0 \<or> t = onTxStarted env t0)"
proof (cases "sState s = OT_RADIO_STATE_DISABLED")
  case True
  then show ?thesis using assms by (auto simp: otPlatRadioTransmit_def)
next
  case False
  define f where "f = sTxFrame s"
  define s2 where "s2 = rf_set_channel env (mChannel f) (s\<lparr>is_tx_poll := otMacFrameIsDataRequest env f, is_rx_after_poll := False\<rparr>)"
  have s2: "ledger s2 = ledger s" by (simp add: s2_def)
  obtain st s3 where s3: "tx_start env f s2 = (st, s3)" by force
  then have "ledger s3 = ledger s" using tx_start_ledger [of env f s2] s2 by simp
  moreover from assms False s3 obtain upd st1 s4 msg where
    s4: "(if upd then tx_csl_header env st s3 else Some (st, s3)) = Some (st1, s4)" and t: "tx_submit env msg s4 = (e, t)"
    unfolding otPlatRadioTransmit_def Let_def f_def [symmetric] s2_def [symmetric]
    by (fastforce simp: bind_eq_Some_conv)
  ultimately have "ledger s4 = ledger s \<or> ledger s4 = ledger (csl_start env s)"
    using tx_csl_header_ledger [of env st s3 st1 s4] ledger_cong(1) [of s3 s env] by (auto split: if_splits)
  with tx_submit_ledger [OF t] show ?thesis by metis
qed

text \<open>
  An invariant that depends on the ledger only, that starting and stopping the CSL receiver keep and that
  the transmit callback keeps, is kept by every call of OpenThread that does not reset the ring.
\<close>

fun api_op :: "radio_op \<Rightarrow> bool" where
  "api_op OpEnable = False" | "api_op (OpPd b m) = False" | "api_op (OpPlme b m) = False" | "api_op OpProcess = False"
| "api_op _ = True"

lemma quiet_calls_ledger:
  "ledger (snd (otPlatRadioReceive env c s)) = ledger s"
  "ledger (snd (otPlatRadioEnergyScan env c d s)) = ledger s"
  "ledger (snd (otPlatRadioEnableCsl env p s)) = ledger s"
  "ledger (otPlatRadioUpdateCslSampleTime t s) = ledger s"
  "ledger (otPlatRadioSetPanId env pan s) = ledger s"
  "ledger (snd (otPlatRadioSetTransmitPower env pow s)) = ledger s"
  by (simp_all add: otPlatRadioReceive_def otPlatRadioEnergyScan_def otPlatRadioEnableCsl_def
      otPlatRadioUpdateCslSampleTime_def otPlatRadioSetPanId_def otPlatRadioSetTransmitPower_def outside_defs Let_def split_def)

lemma otPlatRadioSleep_ledger:
  "ledger (snd (otPlatRadioSleep env s)) = ledger s \<or> ledger (snd (otPlatRadioSleep env s)) = ledger (stop_csl_receiver env s)"
  by (auto simp: otPlatRadioSleep_def Let_def intro: ledger_cong)

lemma api_op_ledger:
  assumes "radio_do env op s = Some t" and "api_op op"
  shows "\<exists>t0. csl_ledger env s t0 \<and> (t = t0 \<or> t = onTxStarted env t0)"
proof (cases "\<exists>f. op = OpTransmit f")
  case True
  then obtain f e where "otPlatRadioTransmit env (s\<lparr>sTxFrame := f\<rparr>) = Some (e, t)" using assms by auto
  from otPlatRadioTransmit_ledger [OF this] ledger_cong(1) [of "s\<lparr>sTxFrame := f\<rparr>" s env] show ?thesis
    by (auto simp: csl_ledger_def)
next
  case False
  have "csl_ledger env s t"
  proof (cases op)
    case OpDisable
    then show ?thesis using assms
      by (auto simp: otPlatRadioDisable_def csl_ledger_def Let_def dest!: otPlatRadioSetRxOnWhenIdle_ledger
          intro: ledger_cong split: if_splits bind_splits)
  next
    case (OpReceiveAt c st d)
    then show ?thesis using assms
      by (auto simp: otPlatRadioReceiveAt_def csl_ledger_def rf_adjust_tstamp_from_ot_def outside_defs Let_def
          dest!: start_csl_receiver_ledger split: if_splits bind_splits)
  next
    case (OpRxOnWhenIdle b)
    then show ?thesis using assms by (auto simp: csl_ledger_def dest!: otPlatRadioSetRxOnWhenIdle_ledger)
  qed (use assms False otPlatRadioSleep_ledger [of env s] in \<open>auto simp: csl_ledger_def quiet_calls_ledger\<close>)
  then show ?thesis by blast
qed

lemma api_op_keeps:
  assumes "radio_do env op s = Some t" and "api_op op" and "I s"
    and cong: "\<And>s t. ledger s = ledger t \<Longrightarrow> I s = I t"
    and csl: "\<And>s. I s \<Longrightarrow> I (csl_start env s)" "\<And>s. I s \<Longrightarrow> I (stop_csl_receiver env s)"
    and cb: "\<And>s. I s \<Longrightarrow> I (onTxStarted env s)"
  shows "I t"
proof -
  from api_op_ledger [OF assms(1,2)] obtain t0 where t0: "csl_ledger env s t0" "t = t0 \<or> t = onTxStarted env t0" by blast
  have "I t0" using t0(1) assms(3) csl cong unfolding csl_ledger_def by blast
  then show ?thesis using t0(2) cb by blast
qed

section \<open>Callbacks of OpenThread\<close>

text \<open>
  The completion callbacks may call back into the driver: each of them amounts to some sequence of driver
  calls. The notification that a transmission has started does not reach the driver again.
\<close>

definition calls_api :: "env \<Rightarrow> (radio \<Rightarrow> radio) \<Rightarrow> bool" where
  "calls_api env f \<longleftrightarrow> (\<forall>s. \<exists>ops. list_all api_op ops \<and> radio_run env ops s = Some (f s))"

definition callbacks_call_api :: "env \<Rightarrow> bool" where
  "callbacks_call_api env \<longleftrightarrow>
     calls_api env (onTxDone env) \<and> calls_api env (onReceiveDone env) \<and> calls_api env (onEnergyScanDone env) \<and>
     (\<forall>s. ledger (onTxStarted env s) = ledger s)"

text \<open>What it takes to be an invariant of everything OpenThread can do with the driver.\<close>

locale ledger_invariant =
  fixes env :: env and I :: "radio \<Rightarrow> bool"
  assumes ledger_only: "ledger s = ledger t \<Longrightarrow> I s = I t"
    and start: "I s \<Longrightarrow> I (csl_start env s)"
    and stop: "I s \<Longrightarrow> I (stop_csl_receiver env s)"
begin

lemma api_run:
  assumes "callbacks_call_api env" and "radio_run env ops s = Some t" and "list_all api_op ops" and "I s"
  shows "I t"
  using assms(2,4)
proof (induction rule: radio_run_induct)
  case (step op s t)
  have "I (onTxStarted env u)" if "I u" for u
    using that assms(1) ledger_only [of "onTxStarted env u" u] by (simp add: callbacks_call_api_def)
  moreover have "api_op op" using step(1) assms(3) by (simp add: list_all_iff)
  ultimately show ?case using api_op_keeps [of env op s t I] step ledger_only start stop by blast
qed

lemma callbacks:
  assumes "callbacks_call_api env" and "I s"
  shows "I (onTxDone env s)" and "I (onReceiveDone env s)" and "I (onEnergyScanDone env s)"
  using assms api_run [OF assms(1)] unfolding callbacks_call_api_def calls_api_def by blast+

end

section \<open>Votes\<close>

text \<open>The ledger without the buffers: what the low-power manager and the radio core are told.\<close>

fun vote :: "act \<Rightarrow> bool" where
  "vote (MSG_Free b) = False"
| "vote (otPlatRadioTxDone e a) = False"
| "vote (otPlatRadioReceiveDone f) = False"
| "vote (otPlatRadioEnergyScanDone m) = False"
| "vote a = loud a"

definition votes :: "radio \<Rightarrow> act list \<times> bool \<times> bool" where
  "votes s = (filter vote (acts s), is_radio_event s, csl_rx s)"

lemma vote_loud: "vote a \<Longrightarrow> loud a"
  by (cases a) auto

lemma filter_vote_loud: "filter vote (filter loud xs) = filter vote xs"
  by (induction xs) (auto dest: vote_loud)

lemma ledger_votes: "ledger s = ledger t \<Longrightarrow> votes s = votes t"
  using filter_vote_loud [of "acts s"] filter_vote_loud [of "acts t"] by (simp add: ledger_def votes_def)

lemmas votes_helpers [simp] = ledger_helpers [THEN ledger_votes] ledger_updates [THEN ledger_votes]

lemma votes_updates [simp]:
  "votes (s\<lparr>sRxRing := r\<rparr>) = votes s" "votes (s\<lparr>sTxDone := b\<rparr>) = votes s" "votes (s\<lparr>sEdScanDone := b\<rparr>) = votes s"
  "\<not> vote a \<Longrightarrow> votes (emit a s) = votes s"
  by (simp_all add: votes_def emit_def)

lemma completion_votes [simp]: "votes (ed_scan_end s) = votes s" "votes (plme_tx_done env e fc s) = votes s"
  by (simp_all add: ed_scan_end_def plme_tx_done_def)

lemma pd_tx_done_votes: "pd_tx_done env msg fc s = Some t \<Longrightarrow> votes t = votes s"
  by (auto simp: pd_tx_done_def Let_def split: if_splits pdDataToMacMessage.splits bind_splits)

lemma fill_rx_slot_votes [simp]: "votes (fill_rx_slot env b ind n s) = votes s"
  by (simp add: fill_rx_slot_def Let_def split_def)

lemma pd_data_ind_votes: "pd_data_ind env b ind s = Some t \<Longrightarrow> votes t = votes s"
  by (auto simp: pd_data_ind_def Let_def split: if_splits option.splits bind_splits prod.splits
      dest!: rf_set_rx_on_idle_ledger [THEN ledger_votes])

text \<open>
  What it takes to be an invariant of every run of the driver: calls, indications from the PHY and turns of
  the main loop.
\<close>

locale vote_invariant =
  fixes env :: env and I :: "radio \<Rightarrow> bool"
  assumes votes_only: "votes s = votes t \<Longrightarrow> I s = I t"
    and vote_start: "I s \<Longrightarrow> I (csl_start env s)"
    and vote_stop: "I s \<Longrightarrow> I (stop_csl_receiver env s)"
    and event: "I s \<Longrightarrow> I (radio_event s)"
    and allow: "I s \<Longrightarrow> is_radio_event s \<Longrightarrow> I (emit PWR_AllowDeviceToSleep (s\<lparr>is_radio_event := False\<rparr>))"

sublocale vote_invariant \<subseteq> ledger_invariant env I
  by unfold_locales (use votes_only ledger_votes vote_start vote_stop in blast)+

context vote_invariant
begin

lemma same: "I s \<Longrightarrow> votes t = votes s \<Longrightarrow> I t"
  using votes_only by blast

lemma enable:
  assumes "otPlatRadioEnable env s = Some (e, t)" and "I s"
  shows "I t"
proof (rule same [OF assms(2)])
  show "votes t = votes s" using assms(1)
    by (auto simp: otPlatRadioEnable_def Let_def split: if_splits bind_splits
        dest!: otPlatRadioSetRxOnWhenIdle_ledger [THEN ledger_votes])
qed

lemma pd_finish: "I s \<Longrightarrow> I (pd_finish env s)"
  unfolding pd_finish_def Let_def by (intro event vote_stop) (erule same, simp)

lemma pd_handler:
  assumes "PD_OT_MAC_SapHandler env b m s = Some t" and "I s"
  shows "I t"
proof (cases m)
  case (gPdDataInd_c ind)
  with assms(1) consider
      (drop) "t = stop_csl_receiver env (emit (MSG_Free (Some b)) s)"
    | (ind) u s0 where "pd_data_ind env b ind s0 = Some u" "t = Mcxw_Radio.pd_finish env u" "votes s0 = votes s"
    by (auto simp: PD_OT_MAC_SapHandler_def split: if_splits bind_splits)
  then show ?thesis
  proof cases
    case drop
    then show ?thesis using vote_stop [OF same [OF assms(2)]] by simp
  next
    case ind
    then show ?thesis using pd_finish [OF same [OF assms(2)]] pd_data_ind_votes by metis
  qed
next
  case (gPdDataCnf_c cnf fc)
  with assms(1) obtain u where "pd_tx_done env m fc s = Some u" "t = Mcxw_Radio.pd_finish env (emit (MSG_Free (Some b)) u)"
    by (auto simp: PD_OT_MAC_SapHandler_def split: bind_splits)
  then show ?thesis using pd_finish [OF same [OF assms(2)]] pd_tx_done_votes by simp
next
  case (gPdDataOther fc)
  with assms(1) obtain u where "pd_tx_done env m fc s = Some u" "t = Mcxw_Radio.pd_finish env (emit (MSG_Free (Some b)) u)"
    by (auto simp: PD_OT_MAC_SapHandler_def split: bind_splits)
  then show ?thesis using pd_finish [OF same [OF assms(2)]] pd_tx_done_votes by simp
qed

lemma plme_handler: "I s \<Longrightarrow> I (PLME_OT_MAC_SapHandler env b m s)"
proof -
  assume "I s"
  define s1 where "s1 = (case m of
                  gPlmeCcaCnf_c busy \<Rightarrow>
                    (if busy then s\<lparr>sTxStatus := OT_ERROR_CHANNEL_ACCESS_FAILURE, sTxDone := True\<rparr> else s)
                | gPlmeEdCnf_c maxED fc \<Rightarrow> plme_tx_done env OT_ERROR_ABORT fc (s\<lparr>sMaxED := maxED\<rparr>)
                | gPlmeTimeoutInd_c fc \<Rightarrow> plme_tx_done env OT_ERROR_NO_ACK fc s
                | gPlmeAbortInd_c fc \<Rightarrow> plme_tx_done env OT_ERROR_ABORT fc s
                | gPlmeOther fc \<Rightarrow> plme_tx_done env OT_ERROR_ABORT fc s)"
  have "votes s1 = votes s" by (simp add: s1_def split: plmeToMacMessage.split)
  then have "I (stop_csl_receiver env t)" if "votes t = votes s1" for t
    using vote_stop same [OF \<open>I s\<close>] that by simp
  then show ?thesis
    unfolding PLME_OT_MAC_SapHandler_def s1_def [symmetric] Let_def by (simp add: event)
qed

lemma rx_loop:
  assumes "callbacks_call_api env" and "radio_rx_loop env s = Some t" and "I s"
  shows "I t"
proof -
  have step: "I (radio_rx_deliver env i (u\<lparr>sRxRing := r\<rparr>))" if "I u" for i u r
  proof -
    have "I (onReceiveDone env (emit (otPlatRadioReceiveDone f) (u\<lparr>sRxRing := r\<rparr>)))" for f
      using that by (intro callbacks(2) [OF assms(1)]) (erule same, simp)
    then show ?thesis unfolding radio_rx_deliver_def Let_def by (rule same) simp
  qed
  have "env = env \<longrightarrow> I s \<longrightarrow> I t"
    by (rule radio_rx_loop.raw_induct [OF _ assms(2), where P = "\<lambda>e s t. e = env \<longrightarrow> I s \<longrightarrow> I t"])
       (auto split: prod.splits option.splits elim: same intro: step)
  then show ?thesis using assms(3) by simp
qed

lemma rx_process:
  assumes "callbacks_call_api env" and "radio_rx_process env s = Some t" and "I s"
  shows "I t"
proof -
  from assms(2) obtain u where "radio_rx_loop env s = Some u" "votes t = votes u"
    by (auto simp: radio_rx_process_def split: if_splits bind_splits dest!: rf_set_rx_on_idle_ledger [THEN ledger_votes])
  then show ?thesis using rx_loop [OF assms(1)] assms(3) same by blast
qed

lemma process:
  assumes "callbacks_call_api env" and "otPlatRadioProcess env s = Some t" and "I s"
  shows "I t"
proof -
  define s1 where "s1 = (if is_radio_event s then emit PWR_AllowDeviceToSleep (s\<lparr>is_radio_event := False\<rparr>) else s)"
  have s1: "I s1" using assms(3) by (simp add: s1_def allow)
  have txdone: "I ((onTxDone env (emit (otPlatRadioTxDone e a) s1))\<lparr>sTxDone := False\<rparr>)" for e a
    by (rule same [OF callbacks(1) [OF assms(1) same [OF s1]]]) simp_all
  have scan: "I ((onEnergyScanDone env (emit (otPlatRadioEnergyScanDone m) u))\<lparr>sEdScanDone := False\<rparr>)" if "I u" for m u
    by (rule same [OF callbacks(3) [OF assms(1) same [OF that]]]) simp_all
  from assms(2) obtain s2 s4 where "I s2" and "radio_rx_process env (s2\<lparr>rx_after_poll_done := False\<rparr>) = Some s4" and
    t: "t = s4 \<or> t = (onEnergyScanDone env (emit (otPlatRadioEnergyScanDone (sMaxED s4)) s4))\<lparr>sEdScanDone := False\<rparr>"
    unfolding otPlatRadioProcess_def s1_def [symmetric] Let_def
    by (auto split: if_splits bind_splits intro: s1 txdone)
  moreover have "I (s2\<lparr>rx_after_poll_done := False\<rparr>)" by (rule same [OF \<open>I s2\<close>]) simp
  ultimately have "I s4" using rx_process [OF assms(1)] by blast
  then show ?thesis using t scan by blast
qed

lemma run:
  assumes "callbacks_call_api env" and "radio_run env ops s = Some t" and "I s"
  shows "I t"
  using assms(2,3)
proof (induction rule: radio_run_induct)
  case (step op s t)
  then show ?case
  proof (cases "api_op op")
    case True
    then show ?thesis using api_run [OF assms(1), of "[op]" s t] step by simp
  next
    case False
    then show ?thesis using step enable pd_handler plme_handler process [OF assms(1)] by (cases op) auto
  qed
qed

end


section \<open>The driver at boot\<close>

definition empty_frame :: otRadioFrame where
  "empty_frame = \<lparr>mPsdu = [], mLength = 0, mChannel = 0, mRxChannelAfterTxDone = 0, mTxDelay = 0,
     mTxDelayBaseTime = 0, mIsSecurityProcessed = False, mIsHeaderUpdated = False, mLqi = 0, mRssi = 0,
     mTimestamp = 0, mAckedWithFramePending = False, mAckedWithSecEnhAck = False, mAckFrameCounter = 0, mAckKeyId = 0\<rparr>"

definition radio_boot :: "env \<Rightarrow> radio" where
  "radio_boot env =
     \<lparr>sState = OT_RADIO_STATE_DISABLED, sPanId = 0, sChannel = 0, sMaxED = 0, sPromiscuousEnable = False,
      sAutoTxPwrLevel = 0, rx_on_idle_disabled = False, is_rx_on_idle = False, is_ed_scan = False, sTxDone = False,
      sEdScanDone = False, is_tx_poll = False, is_rx_after_poll = False, rx_after_poll_done = False,
      is_radio_event = False, csl_rx = False, sTxStatus = OT_ERROR_NONE, sTxFrame = empty_frame,
      sRxRing = \<lparr>rSlots = replicate (if useNbu env then 16 else 8) \<lparr>RxFrame = empty_frame, pPhyBuffer = None\<rparr>,
                 rHead = 0, rTail = 0, rNext = 0, rLast = 0\<rparr>,
      sRxAckFrame = empty_frame, sCslPeriod = 0, sCslSampleTimeUs = 0, acts = []\<rparr>"

lemma radio_boot_ring [simp]: "ring_inv (sRxRing (radio_boot env))" "ring_abs (sRxRing (radio_boot env)) = []"
proof -
  have "\<exists>k. (16::nat) = 2 ^ k" "\<exists>k. (8::nat) = 2 ^ k"
    by (rule exI [of _ 4], simp) (rule exI [of _ 3], simp)
  then show "ring_inv (sRxRing (radio_boot env))" "ring_abs (sRxRing (radio_boot env)) = []"
    by (auto simp: radio_boot_def ring_inv_def ring_size_def ring_abs_def ring_count_def)
qed

text \<open>
  An environment for examples: a PHY that accepts every request, a platform clock that moves 100 us per
  recorded action, and an OpenThread that goes back to channel 15 when a transmission is done.
\<close>

definition quiet_env :: env where
  "quiet_env = \<lparr>plmeOk = \<lambda>h m. True, pdOk = \<lambda>h m. True, phyRssi = \<lambda>h. 0, phyClock = \<lambda>h. of_nat (length h),
     platTime = \<lambda>h. 100 * of_nat (length h), useNbu = True, gPhyTimeMask_c = 0xFFFFFF, RX_TIME_POLL = 6250,
     OT_RADIO_SYMBOLS_PER_OCTET = 2, OT_RADIO_SYMBOL_TIME = 16, otMacFrameIsDataRequest = \<lambda>f. False,
     otMacFrameIsVersion2015 = \<lambda>f. False, otMacFrameIsSecurityEnabled = \<lambda>f. False, otMacFrameIsKeyIdMode1 = \<lambda>f. False,
     otMacFrameSetCslIe = \<lambda>f p h. f, otMacFrameSetFrameCounter = \<lambda>f c. f, onTxStarted = \<lambda>s. s, onTxDone = \<lambda>s. s,
     onReceiveDone = \<lambda>s. s, onEnergyScanDone = \<lambda>s. s\<rparr>"

definition sample_env :: env where
  "sample_env = quiet_env\<lparr>onTxDone := \<lambda>s. snd (otPlatRadioReceive quiet_env 15 s)\<rparr>"

lemma sample_env_calls: "callbacks_call_api sample_env"
proof -
  have "otPlatRadioReceive sample_env c s = otPlatRadioReceive quiet_env c s" for c s
    by (simp add: otPlatRadioReceive_def rf_set_channel_def MAC_PLME_SapHandler_def sample_env_def)
  then have "radio_run sample_env [OpReceive 15] s = Some (onTxDone sample_env s)" for s
    by (simp add: sample_env_def)
  then have "calls_api sample_env (onTxDone sample_env)"
    unfolding calls_api_def by (intro allI exI [of _ "[OpReceive 15]"]) simp
  moreover have "calls_api sample_env (\<lambda>s. s)"
    unfolding calls_api_def by (intro allI exI [of _ "[]"]) simp
  ultimately show ?thesis by (simp add: callbacks_call_api_def sample_env_def quiet_env_def)
qed

definition sample_ind :: pdDataInd where
  "sample_ind = \<lparr>indPsdu = [0x41, 0x98, 0x01], indPsduLength = 3, ppduLinkQuality = 200, ppduRssi = 0xC4, indTimeStamp = 0,
     rxAckFp = False, ackedWithSecEnhAck = False, ackFrameCounter = 0, ackKeyId = 0\<rparr>"

end
