(* ===== verification/Mcxw_Radio_Buffers.thy ===== *)
theory Mcxw_Radio_Buffers
  imports Mcxw_Radio_Ops "HOL-Library.Multiset"
begin

text \<open>
  Ownership of the PHY message buffers in \<^verbatim>\<open>src/mcxw/platform/radio.c\<close>: a buffer the PHY hands to one of the
  two indication handlers is either freed there or kept in the receive ring until the main loop has
  delivered the frame, and it is freed exactly once.
\<close>

section \<open>Buffers freed and held\<close>

fun freed :: "act \<Rightarrow> nat option" where
  "freed (MSG_Free b) = b"
| "freed _ = None"

definition frees :: "radio \<Rightarrow> nat list" where
  "frees s = List.map_filter freed (acts s)"

definition held :: "radio \<Rightarrow> nat list" where
  "held s = map (\<lambda>f. the (pPhyBuffer f)) (ring_abs (sRxRing s))"

definition rx_inv :: "radio \<Rightarrow> bool" where
  "rx_inv s \<longleftrightarrow> ring_inv (sRxRing s) \<and> (\<forall>f \<in> set (ring_abs (sRxRing s)). pPhyBuffer f \<noteq> None)"

text \<open>Everything a step can do that leaves both the ring and the freed buffers alone.\<close>

definition same_bufs :: "radio \<Rightarrow> radio \<Rightarrow> bool" where
  "same_bufs s t \<longleftrightarrow> frees t = frees s \<and> sRxRing t = sRxRing s"

lemma map_filter_snoc [simp]:
  "List.map_filter f (xs @ [x]) = List.map_filter f xs @ (case f x of None \<Rightarrow> [] | Some y \<Rightarrow> [y])"
  by (simp add: map_filter_def split: option.split)

lemma same_bufs_simps [simp]:
  "same_bufs s s"
  "same_bufs s t \<Longrightarrow> same_bufs t u \<Longrightarrow> same_bufs s u"
  by (simp_all add: same_bufs_def)

lemma frees_emit: "frees (emit a s) = frees s @ (case a of MSG_Free (Some b) \<Rightarrow> [b] | _ \<Rightarrow> [])"
  by (simp add: frees_def emit_def split: act.split option.split)

lemma ring_emit [simp]: "sRxRing (emit a s) = sRxRing s"
  by (simp add: emit_def)

lemma frees_updates [simp]:
  "frees (s\<lparr>sState := x1\<rparr>) = frees s" "frees (s\<lparr>sChannel := x2\<rparr>) = frees s" "frees (s\<lparr>sMaxED := x3\<rparr>) = frees s"
  "frees (s\<lparr>rx_on_idle_disabled := x4\<rparr>) = frees s" "frees (s\<lparr>is_rx_on_idle := x5\<rparr>) = frees s"
  "frees (s\<lparr>is_ed_scan := x6\<rparr>) = frees s" "frees (s\<lparr>sTxDone := x7\<rparr>) = frees s" "frees (s\<lparr>sEdScanDone := x8\<rparr>) = frees s"
  "frees (s\<lparr>is_tx_poll := x9\<rparr>) = frees s" "frees (s\<lparr>is_rx_after_poll := x10\<rparr>) = frees s"
  "frees (s\<lparr>rx_after_poll_done := x11\<rparr>) = frees s" "frees (s\<lparr>is_radio_event := x12\<rparr>) = frees s"
  "frees (s\<lparr>csl_rx := x13\<rparr>) = frees s" "frees (s\<lparr>sTxStatus := x14\<rparr>) = frees s" "frees (s\<lparr>sTxFrame := x15\<rparr>) = frees s"
  "frees (s\<lparr>sRxAckFrame := x16\<rparr>) = frees s" "frees (s\<lparr>sRxRing := x17\<rparr>) = frees s"
  by (simp_all add: frees_def)

lemma radio_event_bufs [simp]: "frees (radio_event s) = frees s" "sRxRing (radio_event s) = sRxRing s"
  by (simp_all add: radio_event_def frees_emit Let_def)

lemma stop_csl_bufs [simp]: "frees (stop_csl_receiver env s) = frees s" "sRxRing (stop_csl_receiver env s) = sRxRing s"
  by (simp_all add: stop_csl_receiver_def nbuOnly_def frees_emit)

lemma rf_set_channel_bufs [simp]: "frees (rf_set_channel env c s) = frees s" "sRxRing (rf_set_channel env c s) = sRxRing s"
  by (simp_all add: rf_set_channel_def outside_defs frees_emit)

lemma ed_scan_end_bufs [simp]: "frees (ed_scan_end s) = frees s" "sRxRing (ed_scan_end s) = sRxRing s"
  by (simp_all add: ed_scan_end_def)

lemma pd_finish_bufs [simp]: "frees (pd_finish env s) = frees s" "sRxRing (pd_finish env s) = sRxRing s"
  by (simp_all add: pd_finish_def Let_def)

lemma set_tx_frame_counter_bufs [simp]:
  "frees (set_tx_frame_counter env fc s) = frees s" "sRxRing (set_tx_frame_counter env fc s) = sRxRing s"
  by (simp_all add: set_tx_frame_counter_def)

lemma plme_tx_done_bufs [simp]:
  "frees (plme_tx_done env e fc s) = frees s" "sRxRing (plme_tx_done env e fc s) = sRxRing s"
  by (simp_all add: plme_tx_done_def)

lemma rf_set_rx_on_idle_bufs:
  "rf_set_rx_on_idle env v s = Some t \<Longrightarrow> frees t = frees s \<and> sRxRing t = sRxRing s"
  by (auto simp: rf_set_rx_on_idle_def outside_defs frees_emit split: if_splits)

lemma pd_tx_done_bufs: "pd_tx_done env msg fc s = Some t \<Longrightarrow> frees t = frees s \<and> sRxRing t = sRxRing s"
  by (auto simp: pd_tx_done_def Let_def split: if_splits pdDataToMacMessage.splits bind_splits)

section \<open>Conservation\<close>

text \<open>\<open>bufs s\<close> is every buffer the driver has freed or holds.\<close>

definition bufs :: "radio \<Rightarrow> nat multiset" where
  "bufs s = mset (frees s) + mset (held s)"

lemma PLME_bufs:
  "frees (PLME_OT_MAC_SapHandler env pMsg msg s) = frees s @ [pMsg] \<and> sRxRing (PLME_OT_MAC_SapHandler env pMsg msg s) = sRxRing s"
  by (cases msg) (simp_all add: PLME_OT_MAC_SapHandler_def Let_def frees_emit)

lemma pd_data_ind_bufs:
  assumes "pd_data_ind env pMsg ind s = Some t" and "rx_inv s"
  shows "rx_inv t \<and> bufs t = bufs s + {#pMsg#}"
proof -
  obtain slot ring1 where g: "get_free_frame_rx_ring (sRxRing s) = (slot, ring1)" by force
  show ?thesis
  proof (cases slot)
    case None
    then have "ring1 = sRxRing s" using g by (auto simp: get_free_frame_rx_ring_def Let_def split: if_splits)
    with assms(1) None g have "frees t = frees s @ [pMsg]" "sRxRing t = sRxRing s"
      by (auto simp: pd_data_ind_def Let_def frees_emit dest!: rf_set_rx_on_idle_bufs split: if_splits bind_splits)
    then show ?thesis using assms(2) by (simp add: rx_inv_def bufs_def held_def)
  next
    case (Some n)
    obtain f where f: "frees t = frees s" "sRxRing t = ring_put (sRxRing s) \<lparr>RxFrame = f, pPhyBuffer = Some pMsg\<rparr>"
      using assms(1) Some g
      by (auto simp: pd_data_ind_def Let_def fill_rx_slot_def rf_adjust_tstamp_from_phy_def outside_defs frees_emit
          ring_put_def dest!: rf_set_rx_on_idle_bufs split: if_splits bind_splits prod.splits)
    have "length (ring_abs (sRxRing s)) < ring_cap (sRxRing s)"
      using g Some ring_full_iff [of "sRxRing s"] ring_count_less [of "sRxRing s"] assms(2)
      by (auto simp: get_free_frame_rx_ring_def Let_def rx_inv_def ring_cap_def split: if_splits)
    with rxq.put_room [of "sRxRing s"] assms(2) f show ?thesis
      by (auto simp: rx_inv_def bufs_def held_def)
  qed
qed

lemma PD_bufs:
  assumes "PD_OT_MAC_SapHandler env pMsg msg s = Some t" and "rx_inv s"
  shows "rx_inv t \<and> bufs t = bufs s + {#pMsg#}"
proof (cases msg)
  case (gPdDataInd_c ind)
  have same: "rx_inv (pd_finish env u) = rx_inv u" "bufs (pd_finish env u) = bufs u" for u
    by (simp_all add: rx_inv_def bufs_def held_def)
  have upd: "rx_inv (s\<lparr>is_rx_after_poll := b\<rparr>)" "bufs (s\<lparr>is_rx_after_poll := b\<rparr>) = bufs s"
    "rx_inv (s\<lparr>rx_after_poll_done := c, is_rx_after_poll := b\<rparr>)"
    "bufs (s\<lparr>rx_after_poll_done := c, is_rx_after_poll := b\<rparr>) = bufs s" for b c
    using assms(2) by (simp_all add: rx_inv_def bufs_def held_def)
  from assms gPdDataInd_c consider
      (drop) "t = stop_csl_receiver env (emit (MSG_Free (Some pMsg)) s)"
    | (ind) u s0 where "pd_data_ind env pMsg ind s0 = Some u" "t = pd_finish env u" "rx_inv s0" "bufs s0 = bufs s"
    using upd by (auto simp: PD_OT_MAC_SapHandler_def split: if_splits bind_splits)
  then show ?thesis
  proof cases
    case drop
    then show ?thesis using assms(2) by (simp add: rx_inv_def bufs_def held_def frees_emit)
  next
    case ind
    with pd_data_ind_bufs [OF ind(1,3)] show ?thesis by (simp add: same)
  qed
next
  case (gPdDataCnf_c cnf fc)
  with assms show ?thesis
    by (auto simp: PD_OT_MAC_SapHandler_def rx_inv_def bufs_def held_def frees_emit dest!: pd_tx_done_bufs split: bind_splits)
next
  case (gPdDataOther fc)
  with assms show ?thesis
    by (auto simp: PD_OT_MAC_SapHandler_def rx_inv_def bufs_def held_def frees_emit dest!: pd_tx_done_bufs split: bind_splits)
qed

text \<open>The callbacks of OpenThread may call the driver, but they neither free PHY buffers nor touch the ring.\<close>

lemma map_filter_freed_loud: "List.map_filter freed (filter loud xs) = List.map_filter freed xs"
proof (induction xs)
  case (Cons a xs)
  then show ?case by (cases a) (simp_all add: map_filter_simps split: option.split)
qed simp

lemma ledger_bufs: "ledger s = ledger t \<Longrightarrow> frees s = frees t \<and> sRxRing s = sRxRing t"
  using map_filter_freed_loud [of "acts s"] map_filter_freed_loud [of "acts t"] by (simp add: ledger_def frees_def)

lemma csl_start_bufs [simp]: "frees (csl_start env s) = frees s" "sRxRing (csl_start env s) = sRxRing s"
  by (simp_all add: csl_start_def nbuOnly_def frees_emit)

interpretation bfs: ledger_invariant env "same_bufs s" for env s
  by unfold_locales (auto simp: same_bufs_def dest: ledger_bufs)

lemma callback_bufs:
  assumes "callbacks_call_api env"
  shows "same_bufs s (onTxDone env s)" "same_bufs s (onReceiveDone env s)" "same_bufs s (onEnergyScanDone env s)"
  by (rule bfs.callbacks [OF assms], simp)+

lemma api_op_bufs:
  assumes "callbacks_call_api env" and "radio_do env op s = Some t" and "api_op op"
  shows "same_bufs s t"
  using bfs.api_run [OF assms(1), of "[op]" s t s] assms by simp

lemma radio_rx_deliver_bufs:
  assumes "callbacks_call_api env" and "rx_inv s" and "ring_abs (sRxRing s) = f # fs"
    and "get_frame_rx_ring (sRxRing s) = (Some i, ring1)" and "t = radio_rx_deliver env i (s\<lparr>sRxRing := ring1\<rparr>)"
  shows "rx_inv t" and "bufs t = bufs s" and "ring_abs (sRxRing t) = fs" and "rSlots ring1 ! unat i = f"
proof -
  let ?s0 = "sRxRing s"
  have i: "i = (rTail ?s0 + 1) AND ring_mask ?s0" "ring1 = ?s0\<lparr>rLast := i\<rparr>"
    using assms(4) by (auto simp: get_frame_rx_ring_def Let_def split: if_splits)
  have inv: "ring_inv ?s0" using assms(2) by (simp add: rx_inv_def)
  have cnt: "ring_count ?s0 \<noteq> 0" using assms(3) length_ring_abs [of ?s0] by simp
  have idx: "unat i = (unat (rTail ?s0) + 1) mod length (rSlots ?s0)"
    unfolding i(1) by (rule ring_oldest_index [OF inv])
  define u where "u = onReceiveDone env (emit (otPlatRadioReceiveDone (RxFrame (rSlots ring1 ! unat i))) (s\<lparr>sRxRing := ring1\<rparr>))"
  have u: "frees u = frees s" "sRxRing u = ring1"
    using callback_bufs(2) [OF assms(1)] unfolding u_def same_bufs_def by (simp_all add: frees_emit)
  let ?slot = "rSlots ring1 ! unat i"
  show hd: "?slot = f" using ring_release(4) [OF inv cnt idx, of "?s0\<lparr>rTail := i, rLast := i\<rparr>" i] assms(3) i(2) by simp
  then obtain b where b: "pPhyBuffer ?slot = Some b" using assms(2,3) by (auto simp: rx_inv_def)
  have t: "frees t = frees s @ [b]"
    "sRxRing t = pop_frame_rx_ring (ring1\<lparr>rSlots := (rSlots ring1)[unat i := ?slot\<lparr>pPhyBuffer := None\<rparr>]\<rparr>)"
    using u b unfolding assms(5) radio_rx_deliver_def Let_def by (simp_all add: u_def [symmetric] frees_emit)
  define s1 where "s1 = ?s0\<lparr>rSlots := (rSlots ?s0)[unat i := ?slot\<lparr>pPhyBuffer := None\<rparr>]\<rparr>"
  note w = ring_write_oldest [OF inv cnt idx s1_def]
  have idx1: "unat i = (unat (rTail s1) + 1) mod length (rSlots s1)" using idx by (simp add: s1_def)
  have "sRxRing t = s1\<lparr>rTail := i, rLast := i\<rparr>"
    by (simp add: t(2) pop_frame_rx_ring_def i(2) s1_def)
  note r = ring_release [OF w(1) cnt [folded w(3)] idx1 this]
  show abs: "ring_abs (sRxRing t) = fs" using r(2) w(2) assms(3) by simp
  show "rx_inv t" using r(1) abs assms(2,3) by (simp add: rx_inv_def)
  show "bufs t = bufs s" using t(1) abs assms(3) hd b by (simp add: bufs_def held_def)
qed

lemma radio_rx_loop_bufs:
  assumes "callbacks_call_api env" and "rx_inv s"
  shows "\<exists>t. radio_rx_loop env s = Some t \<and> rx_inv t \<and> bufs t = bufs s \<and> ring_abs (sRxRing t) = []"
  using assms(2)
proof (induction "ring_abs (sRxRing s)" arbitrary: s)
  case Nil
  then have "rTail (sRxRing s) = rHead (sRxRing s)"
    using ring_empty_iff [of "sRxRing s"] length_ring_abs [of "sRxRing s"] by (simp add: rx_inv_def)
  then have "get_frame_rx_ring (sRxRing s) = (None, sRxRing s)" by (simp add: get_frame_rx_ring_def)
  then show ?case using Nil by (subst radio_rx_loop.simps) (simp add: rx_inv_def bufs_def held_def)
next
  case (Cons f fs)
  have "ring_count (sRxRing s) \<noteq> 0" using Cons.hyps(2) length_ring_abs [of "sRxRing s"] by (metis list.size(4) nat.simps(3) add_Suc_right)
  then have "rTail (sRxRing s) \<noteq> rHead (sRxRing s)"
    using ring_empty_iff [of "sRxRing s"] Cons.prems by (simp add: rx_inv_def)
  then obtain i ring1 where g: "get_frame_rx_ring (sRxRing s) = (Some i, ring1)"
    by (simp add: get_frame_rx_ring_def Let_def)
  note d = radio_rx_deliver_bufs [OF assms(1) Cons.prems Cons.hyps(2) [symmetric] g refl]
  from Cons.hyps(1) [OF d(3) [symmetric] d(1)] show ?case
    using d(2) g by (subst radio_rx_loop.simps) simp
qed

text \<open>The PHY accepts the two settings of rx-on-when-idle, which the driver asserts.\<close>

definition phy_takes_idle :: "env \<Rightarrow> bool" where
  "phy_takes_idle env \<longleftrightarrow> (\<forall>h v. plmeOk env h (gPlmeSetReq_c gPhyPibRxOnWhenIdle v))"

lemma rf_set_rx_on_idle_returns:
  "phy_takes_idle env \<Longrightarrow> \<exists>t. rf_set_rx_on_idle env v s = Some t"
  by (simp add: rf_set_rx_on_idle_def phy_takes_idle_def outside_defs)

lemma otPlatRadioProcess_bufs:
  assumes "callbacks_call_api env" and "phy_takes_idle env" and "rx_inv s" and "sTxDone s \<longrightarrow> mPsdu (sTxFrame s) \<noteq> []"
  shows "\<exists>t. otPlatRadioProcess env s = Some t \<and> rx_inv t \<and> bufs t = bufs s \<and> ring_abs (sRxRing t) = []"
proof -
  have cb: "frees (onTxDone env u) = frees u" "sRxRing (onTxDone env u) = sRxRing u"
    "frees (onEnergyScanDone env u) = frees u" "sRxRing (onEnergyScanDone env u) = sRxRing u" for u
    using callback_bufs [OF assms(1)] by (simp_all add: same_bufs_def)
  define s1 where "s1 = (if is_radio_event s then emit PWR_AllowDeviceToSleep (s\<lparr>is_radio_event := False\<rparr>) else s)"
  have s1: "frees s1 = frees s" "sRxRing s1 = sRxRing s" "sTxDone s1 = sTxDone s" "sTxFrame s1 = sTxFrame s"
    by (simp_all add: s1_def frees_emit) (simp_all add: emit_def)
  obtain s2 where s2: "(if sTxDone s1
      then do { ctl \<leftarrow> psdu_ctl (mPsdu (sTxFrame s1));
                let t = onTxDone env (emit (otPlatRadioTxDone (sTxStatus s1) (IEEE802154_ACK_REQUEST ctl)) s1);
                Some (t\<lparr>sTxDone := False\<rparr>) }
      else Some s1) = Some s2" "frees s2 = frees s" "sRxRing s2 = sRxRing s"
    using assms(4) s1 by (cases "mPsdu (sTxFrame s)") (auto simp: psdu_ctl_def cb frees_emit)
  have "rx_inv (s2\<lparr>rx_after_poll_done := False\<rparr>)" using assms(3) s2(3) by (simp add: rx_inv_def)
  from radio_rx_loop_bufs [OF assms(1) this] obtain s3 where
    s3: "radio_rx_loop env (s2\<lparr>rx_after_poll_done := False\<rparr>) = Some s3" "rx_inv s3" "bufs s3 = bufs s" "ring_abs (sRxRing s3) = []"
    using s2 by (auto simp: bufs_def held_def)
  obtain s4 where s4: "radio_rx_process env (s2\<lparr>rx_after_poll_done := False\<rparr>) = Some s4" "frees s4 = frees s3" "sRxRing s4 = sRxRing s3"
    using s3(1) rf_set_rx_on_idle_returns [OF assms(2), of True s3] rf_set_rx_on_idle_bufs [of env True s3]
    by (cases "rx_on_idle_disabled s3") (auto simp: radio_rx_process_def)
  define t where "t = (if sEdScanDone s4
      then (onEnergyScanDone env (emit (otPlatRadioEnergyScanDone (sMaxED s4)) s4))\<lparr>sEdScanDone := False\<rparr> else s4)"
  have "otPlatRadioProcess env s = Some t"
    using s2(1) s4(1) by (simp add: otPlatRadioProcess_def s1_def [symmetric] t_def [symmetric] Let_def)
  moreover have "frees t = frees s3" "sRxRing t = sRxRing s3" using s4 by (simp_all add: t_def cb frees_emit)
  ultimately show ?thesis using s3(2-4) by (auto simp: rx_inv_def bufs_def held_def)
qed

text \<open>The buffers the PHY hands over in a run.\<close>

fun given :: "radio_op \<Rightarrow> nat list" where
  "given (OpPd b m) = [b]"
| "given (OpPlme b m) = [b]"
| "given _ = []"

lemma radio_do_bufs:
  assumes "callbacks_call_api env" and "phy_takes_idle env" and "op \<noteq> OpEnable"
    and "radio_do env op s = Some t" and "rx_inv s"
  shows "rx_inv t \<and> bufs t = bufs s + mset (given op)"
proof (cases "api_op op")
  case True
  then have "same_bufs s t" using api_op_bufs assms by blast
  moreover have "given op = []" using True by (cases op) auto
  ultimately show ?thesis using assms(5) by (simp add: same_bufs_def rx_inv_def bufs_def held_def)
next
  case False
  then consider (pd) b m where "op = OpPd b m" | (plme) b m where "op = OpPlme b m" | (process) "op = OpProcess"
    using assms(3) by (cases op) auto
  then show ?thesis
  proof cases
    case pd
    then show ?thesis using PD_bufs assms by auto
  next
    case plme
    then show ?thesis using PLME_bufs [of env b m s] assms by (auto simp: rx_inv_def bufs_def held_def)
  next
    case process
    have "sTxDone s \<longrightarrow> mPsdu (sTxFrame s) \<noteq> []"
      using assms(4) process by (auto simp: otPlatRadioProcess_def psdu_ctl_def emit_def Let_def split: if_splits bind_splits)
    then show ?thesis using otPlatRadioProcess_bufs [OF assms(1,2,5)] assms(4) process by auto
  qed
qed

lemma radio_run_bufs:
  assumes "callbacks_call_api env" and "phy_takes_idle env" and "OpEnable \<notin> set ops"
    and "radio_run env ops s = Some t" and "rx_inv s"
  shows "rx_inv t \<and> bufs t = bufs s + mset (concat (map given ops))"
  using assms(3-5)
proof (induction ops arbitrary: s)
  case (Cons op ops)
  then obtain u where u: "radio_do env op s = Some u" "radio_run env ops u = Some t" by (auto split: bind_splits)
  with radio_do_bufs [OF assms(1,2) _ u(1)] Cons show ?case by (auto simp: ac_simps)
qed simp

section \<open>Properties\<close>

text \<open>
  C4. Every PHY buffer is freed exactly once. From any state with a well-formed ring, after any sequence of
  driver calls, PHY indications and main-loop turns that does not enable the radio again, the next turn of the
  main loop returns with an empty ring, and the buffers freed by then are those freed before, those the ring
  held and those the PHY handed over during the run, each as many times as it was handed over.
\<close>

theorem radio_frees_every_buffer_once:
  assumes "callbacks_call_api env" and "phy_takes_idle env" and "rx_inv s" and "OpEnable \<notin> set ops"
    and "radio_run env ops s = Some t" and "sTxDone t \<longrightarrow> mPsdu (sTxFrame t) \<noteq> []"
  shows "\<exists>u. otPlatRadioProcess env t = Some u \<and> held u = [] \<and>
             mset (frees u) = mset (frees s) + mset (held s) + mset (concat (map given ops))"
  using radio_run_bufs [OF assms(1,2,4,5,3)] otPlatRadioProcess_bufs [OF assms(1,2) _ assms(6)]
  by (auto simp: bufs_def held_def)

definition enabled_sample :: radio where
  "enabled_sample = the (radio_run sample_env [OpEnable, OpRxOnWhenIdle True] (radio_boot sample_env))"

definition sample_ops :: "radio_op list" where
  "sample_ops = [OpPd 7 (gPdDataInd_c sample_ind), OpPlme 8 (gPlmeTimeoutInd_c 0), OpPd 9 (gPdDataInd_c sample_ind)]"

lemma sample_takes_idle: "phy_takes_idle sample_env"
  by (simp add: phy_takes_idle_def sample_env_def quiet_env_def)

lemma enabled_sample_inv: "rx_inv enabled_sample" "frees enabled_sample = []" "held enabled_sample = []"
proof -
  have ring: "sRxRing enabled_sample = reset_rx_ring (sRxRing (radio_boot sample_env))" "frees enabled_sample = []"
    by code_simp+
  have "ring_inv (sRxRing enabled_sample)" "ring_abs (sRxRing enabled_sample) = []"
    unfolding ring(1) reset_rx_ring_def ring_inv_def ring_size_def ring_abs_def ring_count_def
    by (auto simp: radio_boot_def sample_env_def quiet_env_def intro: exI [of _ 4])
  with ring(2) show "rx_inv enabled_sample" "frees enabled_sample = []" "held enabled_sample = []"
    by (simp_all add: rx_inv_def held_def)
qed

theorem radio_frees_every_buffer_once_witness:
  "\<exists>t u. radio_run sample_env sample_ops enabled_sample = Some t \<and> otPlatRadioProcess sample_env t = Some u \<and>
         held u = [] \<and> mset (frees u) = {#7, 8, 9#}"
proof -
  have "case radio_run sample_env sample_ops enabled_sample of None \<Rightarrow> False | Some t \<Rightarrow> \<not> sTxDone t"
    by code_simp
  then obtain t where t: "radio_run sample_env sample_ops enabled_sample = Some t" "\<not> sTxDone t"
    by (auto split: option.splits)
  have "OpEnable \<notin> set sample_ops" by (simp add: sample_ops_def)
  from radio_frees_every_buffer_once [OF sample_env_calls sample_takes_idle enabled_sample_inv(1) this t(1)] t
  show ?thesis by (auto simp: enabled_sample_inv sample_ops_def)
qed

text \<open>
  Enabling the radio resets the ring without freeing what it holds: a buffer that was waiting for the
  main loop when the radio was disabled is neither delivered nor freed once the radio is enabled again.
\<close>

theorem otPlatRadioEnable_drops_waiting_buffers:
  assumes "sState s = OT_RADIO_STATE_DISABLED" and "phy_takes_idle env" and "rx_inv s"
  shows "\<exists>t. otPlatRadioEnable env s = Some (OT_ERROR_NONE, t) \<and> sState t = OT_RADIO_STATE_SLEEP \<and>
             held t = [] \<and> frees t = frees s"
proof -
  let ?s0 = "if \<not> useNbu env then emit PHY_Enable s else s"
  have "\<exists>u. otPlatRadioSetRxOnWhenIdle env False ?s0 = Some u"
    using rf_set_rx_on_idle_returns [OF assms(2)] by (simp add: otPlatRadioSetRxOnWhenIdle_def Let_def)
  then obtain u where u: "otPlatRadioSetRxOnWhenIdle env False ?s0 = Some u" ..
  from otPlatRadioSetRxOnWhenIdle_ledger [OF u] have l: "frees u = frees s" "sRxRing u = sRxRing s"
    using ledger_bufs [of u ?s0] by (simp_all add: frees_emit split: if_splits)
  have "ring_abs (reset_rx_ring (sRxRing u)) = []" by (simp add: ring_abs_def ring_count_def reset_rx_ring_def)
  with u l assms(1) show ?thesis by (simp add: otPlatRadioEnable_def otPlatRadioIsEnabled_def held_def Let_def)
qed

definition disabled_sample :: radio where
  "disabled_sample = the (radio_run sample_env [OpPd 7 (gPdDataInd_c sample_ind), OpDisable] enabled_sample)"

theorem otPlatRadioEnable_drops_waiting_buffers_witness:
  "held disabled_sample = [7] \<and>
   (\<exists>t. otPlatRadioEnable sample_env disabled_sample = Some (OT_ERROR_NONE, t) \<and> held t = [] \<and> frees t = [])"
proof -
  have ev: "sState disabled_sample = OT_RADIO_STATE_DISABLED" "held disabled_sample = [7]" "frees disabled_sample = []"
    by code_simp+
  have "radio_run sample_env [OpPd 7 (gPdDataInd_c sample_ind), OpDisable] enabled_sample \<noteq> None" by code_simp
  then have "radio_run sample_env [OpPd 7 (gPdDataInd_c sample_ind), OpDisable] enabled_sample = Some disabled_sample"
    by (simp add: disabled_sample_def)
  from radio_run_bufs [OF sample_env_calls sample_takes_idle _ this enabled_sample_inv(1)]
  have "rx_inv disabled_sample" by simp
  from otPlatRadioEnable_drops_waiting_buffers [OF ev(1) sample_takes_idle this] ev show ?thesis by auto
qed

end
