(* ===== verification/Mcxw_Radio_Reports.thy ===== *)
theory Mcxw_Radio_Reports
  imports Mcxw_Radio_Buffers
begin

text \<open>
  What \<^verbatim>\<open>src/mcxw/platform/radio.c\<close> reports to OpenThread: the end of a transmission with its status, the
  received frames and the end of an energy scan. The PHY indications only record these events; the main loop
  reports each of them once and in order.
\<close>

fun is_report :: "act \<Rightarrow> bool" where
  "is_report (otPlatRadioTxDone e a) = True"
| "is_report (otPlatRadioReceiveDone f) = True"
| "is_report (otPlatRadioEnergyScanDone m) = True"
| "is_report _ = False"

definition reports :: "radio \<Rightarrow> act list" where
  "reports s = filter is_report (acts s)"

text \<open>The reports made and the completions still to be reported.\<close>

definition owed :: "radio \<Rightarrow> act list \<times> bool \<times> bool" where
  "owed s = (reports s, sTxDone s, sEdScanDone s)"

lemma reports_emit: "reports (emit a s) = reports s @ (if is_report a then [a] else [])"
  by (simp add: reports_def emit_def)

lemma emit_done [simp]: "sTxDone (emit a s) = sTxDone s" "sEdScanDone (emit a s) = sEdScanDone s" "sMaxED (emit a s) = sMaxED s"
  by (simp_all add: emit_def)

lemma owed_emit [simp]: "\<not> is_report a \<Longrightarrow> owed (emit a s) = owed s"
  by (simp add: owed_def reports_emit)

lemma owed_updates [simp]:
  "owed (s\<lparr>sRxRing := r\<rparr>) = owed s" "owed (s\<lparr>is_radio_event := b\<rparr>) = owed s" "owed (s\<lparr>csl_rx := b\<rparr>) = owed s"
  by (simp_all add: owed_def reports_def)

lemma ledger_owed: "ledger s = ledger t \<Longrightarrow> owed s = owed t"
proof -
  have "filter is_report (filter loud xs) = filter is_report xs" for xs
  proof (induction xs)
    case (Cons a xs)
    then show ?case by (cases a) simp_all
  qed simp
  from this [of "acts s"] this [of "acts t"] show "ledger s = ledger t \<Longrightarrow> owed s = owed t"
    by (simp add: ledger_def owed_def reports_def)
qed

lemmas owed_helpers [simp] = ledger_updates [THEN ledger_owed]

lemma csl_owed [simp]: "owed (csl_start env s) = owed s" "owed (stop_csl_receiver env s) = owed s"
  by (simp_all add: csl_start_def stop_csl_receiver_def nbuOnly_def)

interpretation rep: ledger_invariant env "\<lambda>s. owed s = r" for env r
  by unfold_locales (auto dest: ledger_owed)

lemma callback_owed:
  assumes "callbacks_call_api env"
  shows "owed (onTxDone env s) = owed s" "owed (onReceiveDone env s) = owed s" "owed (onEnergyScanDone env s) = owed s"
  by (rule rep.callbacks [OF assms], simp)+

section \<open>The main loop\<close>

lemma radio_rx_deliver_owed:
  assumes "callbacks_call_api env"
  shows "owed (radio_rx_deliver env i s) =
    (reports s @ [otPlatRadioReceiveDone (RxFrame (rSlots (sRxRing s) ! unat i))], sTxDone s, sEdScanDone s)"
  using callback_owed(2) [OF assms, of "emit (otPlatRadioReceiveDone (RxFrame (rSlots (sRxRing s) ! unat i))) s"]
  by (simp add: radio_rx_deliver_def Let_def) (simp add: owed_def reports_emit)

lemma radio_rx_loop_owed:
  assumes "callbacks_call_api env" and "rx_inv s" and "radio_rx_loop env s = Some t"
  shows "owed t = (reports s @ map (\<lambda>f. otPlatRadioReceiveDone (RxFrame f)) (ring_abs (sRxRing s)), sTxDone s, sEdScanDone s)"
  using assms(2,3)
proof (induction "ring_abs (sRxRing s)" arbitrary: s)
  case Nil
  then have "rTail (sRxRing s) = rHead (sRxRing s)"
    using ring_empty_iff [of "sRxRing s"] length_ring_abs [of "sRxRing s"] by (simp add: rx_inv_def)
  then have "t = s\<lparr>sRxRing := sRxRing s\<rparr>" using Nil(3) by (subst (asm) radio_rx_loop.simps) (simp add: get_frame_rx_ring_def)
  then show ?case using Nil by (simp add: owed_def reports_def)
next
  case (Cons f fs)
  have "ring_count (sRxRing s) \<noteq> 0" using Cons.hyps(2) length_ring_abs [of "sRxRing s"] by (metis list.size(4) nat.simps(3) add_Suc_right)
  then have "rTail (sRxRing s) \<noteq> rHead (sRxRing s)"
    using ring_empty_iff [of "sRxRing s"] Cons.prems by (simp add: rx_inv_def)
  then obtain i ring1 where g: "get_frame_rx_ring (sRxRing s) = (Some i, ring1)"
    by (simp add: get_frame_rx_ring_def Let_def)
  note d = radio_rx_deliver_bufs [OF assms(1) Cons.prems(1) Cons.hyps(2) [symmetric] g refl]
  have run: "radio_rx_loop env (radio_rx_deliver env i (s\<lparr>sRxRing := ring1\<rparr>)) = Some t"
    using Cons.prems(2) g by (subst (asm) radio_rx_loop.simps) simp
  from Cons.hyps(1) [OF d(3) [symmetric] d(1) run] d(3,4) Cons.hyps(2) [symmetric]
    radio_rx_deliver_owed [OF assms(1), of i "s\<lparr>sRxRing := ring1\<rparr>"]
  show ?case by (simp add: owed_def) (simp add: reports_def)
qed

lemma rf_set_rx_on_idle_owed: "rf_set_rx_on_idle env v s = Some t \<Longrightarrow> owed t = owed s \<and> sMaxED t = sMaxED s"
  by (auto simp: rf_set_rx_on_idle_def outside_defs split: if_splits)

lemma otPlatRadioProcess_owed:
  assumes "callbacks_call_api env" and "rx_inv s" and "otPlatRadioProcess env s = Some t" and "mPsdu (sTxFrame s) = c # cs"
  shows "\<exists>m. owed t = (reports s
      @ (if sTxDone s then [otPlatRadioTxDone (sTxStatus s) (IEEE802154_ACK_REQUEST c)] else [])
      @ map (\<lambda>f. otPlatRadioReceiveDone (RxFrame f)) (ring_abs (sRxRing s))
      @ (if sEdScanDone s then [otPlatRadioEnergyScanDone m] else []), False, False)"
proof -
  define s1 where "s1 = (if is_radio_event s then emit PWR_AllowDeviceToSleep (s\<lparr>is_radio_event := False\<rparr>) else s)"
  have s1: "owed s1 = owed s" "sTxStatus s1 = sTxStatus s" "sTxFrame s1 = sTxFrame s" "same_bufs s s1"
    by (simp_all add: s1_def same_bufs_def frees_emit) (simp_all add: emit_def)
  define s2 where "s2 = (if sTxDone s1
      then (onTxDone env (emit (otPlatRadioTxDone (sTxStatus s) (IEEE802154_ACK_REQUEST c)) s1))\<lparr>sTxDone := False\<rparr> else s1)"
  have s2: "owed s2 = (reports s @ (if sTxDone s then [otPlatRadioTxDone (sTxStatus s) (IEEE802154_ACK_REQUEST c)] else []),
                       False, sEdScanDone s)" "same_bufs s s2"
    using s1 callback_owed(1) [OF assms(1), of "emit (otPlatRadioTxDone (sTxStatus s) (IEEE802154_ACK_REQUEST c)) s1"]
      callback_bufs(1) [OF assms(1), of "emit (otPlatRadioTxDone (sTxStatus s) (IEEE802154_ACK_REQUEST c)) s1"]
    by (auto simp: s2_def owed_def reports_def same_bufs_def emit_def frees_def)
  obtain s4 where p4: "radio_rx_process env (s2\<lparr>rx_after_poll_done := False\<rparr>) = Some s4" and
    t: "t = (if sEdScanDone s4 then (onEnergyScanDone env (emit (otPlatRadioEnergyScanDone (sMaxED s4)) s4))\<lparr>sEdScanDone := False\<rparr> else s4)"
    using assms(3,4) s1(2,3) unfolding otPlatRadioProcess_def s1_def [symmetric] Let_def s2_def
    by (cases "sTxDone s1") (auto simp: psdu_ctl_def split: bind_splits)
  from p4 obtain s3 where s3: "radio_rx_loop env (s2\<lparr>rx_after_poll_done := False\<rparr>) = Some s3" and s4: "owed s4 = owed s3"
    unfolding radio_rx_process_def by (auto split: if_splits bind_splits dest!: rf_set_rx_on_idle_owed)
  have "rx_inv (s2\<lparr>rx_after_poll_done := False\<rparr>)" using assms(2) s2(2) by (simp add: rx_inv_def same_bufs_def)
  from radio_rx_loop_owed [OF assms(1) this s3] s2 s4
  have "owed s4 = (reports s
      @ (if sTxDone s then [otPlatRadioTxDone (sTxStatus s) (IEEE802154_ACK_REQUEST c)] else [])
      @ map (\<lambda>f. otPlatRadioReceiveDone (RxFrame f)) (ring_abs (sRxRing s)), False, sEdScanDone s)"
    by (simp add: owed_def same_bufs_def reports_def)
  then show ?thesis
    using t callback_owed(3) [OF assms(1), of "emit (otPlatRadioEnergyScanDone (sMaxED s4)) s4"]
    by (auto simp: owed_def reports_def emit_def split: if_splits)
qed

section \<open>Completions\<close>



text \<open>A finished transmission waiting for the main loop.\<close>

definition tx_finished :: "otError \<Rightarrow> u8 option \<Rightarrow> radio \<Rightarrow> bool" where
  "tx_finished e ctl s \<longleftrightarrow> sTxDone s \<and> sTxStatus s = e \<and> psdu_ctl (mPsdu (sTxFrame s)) = ctl"

lemma emit_fields [simp]:
  "sTxStatus (emit a s) = sTxStatus s" "sTxFrame (emit a s) = sTxFrame s" "sState (emit a s) = sState s"
  "is_rx_on_idle (emit a s) = is_rx_on_idle s" "is_rx_after_poll (emit a s) = is_rx_after_poll s" "is_ed_scan (emit a s) = is_ed_scan s"
  by (simp_all add: emit_def)

lemma reports_updates [simp]:
  "reports (s\<lparr>sState := a1\<rparr>) = reports s" "reports (s\<lparr>sTxDone := a2\<rparr>) = reports s" "reports (s\<lparr>sEdScanDone := a3\<rparr>) = reports s"
  "reports (s\<lparr>is_ed_scan := a4\<rparr>) = reports s" "reports (s\<lparr>sTxStatus := a5\<rparr>) = reports s" "reports (s\<lparr>sTxFrame := a6\<rparr>) = reports s"
  "reports (s\<lparr>is_tx_poll := a7\<rparr>) = reports s" "reports (s\<lparr>is_rx_after_poll := a8\<rparr>) = reports s" "reports (s\<lparr>sMaxED := a9\<rparr>) = reports s"
  "reports (s\<lparr>csl_rx := b1\<rparr>) = reports s" "reports (s\<lparr>is_radio_event := b2\<rparr>) = reports s" "reports (s\<lparr>sRxAckFrame := b3\<rparr>) = reports s"
  "reports (s\<lparr>sChannel := b4\<rparr>) = reports s"
  by (simp_all add: reports_def)

lemma tail_keeps [simp]:
  "reports (rf_set_channel env c s) = reports s" "tx_finished e ctl (rf_set_channel env c s) = tx_finished e ctl s"
  "sState (rf_set_channel env c s) = sState s" "sTxDone (rf_set_channel env c s) = sTxDone s"
  "reports (stop_csl_receiver env s) = reports s" "tx_finished e ctl (stop_csl_receiver env s) = tx_finished e ctl s"
  "sState (stop_csl_receiver env s) = sState s" "sTxDone (stop_csl_receiver env s) = sTxDone s"
  "reports (radio_event s) = reports s" "tx_finished e ctl (radio_event s) = tx_finished e ctl s"
  "sState (radio_event s) = sState s" "sTxDone (radio_event s) = sTxDone s"
  "reports (ed_scan_end s) = reports s" "tx_finished e ctl (ed_scan_end s) = tx_finished e ctl s"
  "sState (ed_scan_end s) = sState s" "sTxDone (ed_scan_end s) = sTxDone s"
  by (simp_all add: rf_set_channel_def outside_defs stop_csl_receiver_def nbuOnly_def radio_event_def ed_scan_end_def
      reports_emit tx_finished_def Let_def)

lemma tx_finished_updates [simp]: "tx_finished e ctl (emit a s) = tx_finished e ctl s" "tx_finished e ctl (s\<lparr>sState := st\<rparr>) = tx_finished e ctl s"
  by (simp_all add: tx_finished_def)





section \<open>Properties\<close>

text \<open>
  One turn of the main loop returns and reports, in this order and nothing else: the end of the pending
  transmission with the recorded status, every frame waiting in the ring from the oldest on, and the end of
  the pending energy scan. Afterwards nothing is left to report, whatever driver calls the callbacks make.
\<close>

theorem otPlatRadioProcess_reports:
  assumes "callbacks_call_api env" and "phy_takes_idle env" and "rx_inv s" and "mPsdu (sTxFrame s) = c # cs"
  shows "\<exists>t m. otPlatRadioProcess env s = Some t \<and>
    reports t = reports s
      @ (if sTxDone s then [otPlatRadioTxDone (sTxStatus s) (IEEE802154_ACK_REQUEST c)] else [])
      @ map (\<lambda>f. otPlatRadioReceiveDone (RxFrame f)) (ring_abs (sRxRing s))
      @ (if sEdScanDone s then [otPlatRadioEnergyScanDone m] else []) \<and>
    \<not> sTxDone t \<and> \<not> sEdScanDone t \<and> ring_abs (sRxRing t) = []"
proof -
  from otPlatRadioProcess_bufs [OF assms(1-3)] assms(4) obtain t where
    t: "otPlatRadioProcess env s = Some t" "ring_abs (sRxRing t) = []" by auto
  from otPlatRadioProcess_owed [OF assms(1,3) t(1) assms(4)] t show ?thesis by (auto simp: owed_def)
qed

text \<open>A driver with one frame waiting, in the middle of a transmission.\<close>

definition sending_sample :: radio where
  "sending_sample = the (radio_run sample_env
     [OpPd 7 (gPdDataInd_c sample_ind), OpTransmit (empty_frame\<lparr>mPsdu := [0x61, 0x88, 0x02], mLength := 3, mChannel := 15\<rparr>)]
     enabled_sample)"

lemma sending_sample_facts:
  "rx_inv sending_sample" "mPsdu (sTxFrame sending_sample) = [0x61, 0x88, 0x02]"
  "sState sending_sample = OT_RADIO_STATE_TRANSMIT" "reports sending_sample = []"
  "map (mLqi \<circ> RxFrame) (ring_abs (sRxRing sending_sample)) = [200]"
  "\<not> sTxDone sending_sample" "\<not> sEdScanDone sending_sample"
proof -
  let ?ops = "[OpPd 7 (gPdDataInd_c sample_ind), OpTransmit (empty_frame\<lparr>mPsdu := [0x61, 0x88, 0x02], mLength := 3, mChannel := 15\<rparr>)]"
  have "radio_run sample_env ?ops enabled_sample \<noteq> None" by code_simp
  then have "radio_run sample_env ?ops enabled_sample = Some sending_sample" by (simp add: sending_sample_def)
  from radio_run_bufs [OF sample_env_calls sample_takes_idle _ this enabled_sample_inv(1)]
  show "rx_inv sending_sample" by simp
qed code_simp+

theorem otPlatRadioProcess_reports_witness:
  "\<exists>t f. otPlatRadioProcess sample_env sending_sample = Some t \<and> reports t = [otPlatRadioReceiveDone f] \<and>
         ring_abs (sRxRing t) = []"
proof -
  obtain e where e: "ring_abs (sRxRing sending_sample) = [e]" using sending_sample_facts(5) by auto
  from otPlatRadioProcess_reports [OF sample_env_calls sample_takes_idle sending_sample_facts(1,2)]
  show ?thesis using sending_sample_facts(4,6,7) e by auto
qed




text \<open>
  The disabled state does not last: a transmission under way when the radio is disabled is not stopped, and
  the indication that ends it puts the driver back into the sleep or the receive state, so that it counts as
  enabled although OpenThread has disabled it.
\<close>

theorem radio_disable_undone_by_indication:
  assumes "sState s = OT_RADIO_STATE_TRANSMIT" and "phy_takes_idle env"
  shows "\<exists>t. otPlatRadioDisable env s = Some (OT_ERROR_NONE, t) \<and> \<not> otPlatRadioIsEnabled t \<and>
             Plme gPlmeSetTRxStateReq_c \<notin> set (drop (length (acts s)) (acts t)) \<and>
             (\<forall>b m. otPlatRadioIsEnabled (PLME_OT_MAC_SapHandler env b m t))"
proof -
  have plme: "sState (PLME_OT_MAC_SapHandler env b m t) \<noteq> OT_RADIO_STATE_DISABLED" for b m t
    by (simp add: PLME_OT_MAC_SapHandler_def Let_def)
  obtain s1 where s1: "otPlatRadioSetRxOnWhenIdle env False s = Some s1" "acts s1 = acts s @ [Plme (gPlmeSetReq_c gPhyPibRxOnWhenIdle 0)]"
    using assms by (auto simp: otPlatRadioSetRxOnWhenIdle_def rf_set_rx_on_idle_def phy_takes_idle_def outside_defs emit_def)
  define t where "t = (if \<not> useNbu env then emit PHY_Disable (stop_csl_receiver env s1) else stop_csl_receiver env s1)\<lparr>sState := OT_RADIO_STATE_DISABLED\<rparr>"
  have "otPlatRadioDisable env s = Some (OT_ERROR_NONE, t)"
    using s1(1) assms(1) by (simp add: otPlatRadioDisable_def otPlatRadioIsEnabled_def t_def Let_def)
  moreover have "Plme gPlmeSetTRxStateReq_c \<notin> set (drop (length (acts s)) (acts t))"
    using s1(2) by (simp add: t_def stop_csl_receiver_def nbuOnly_def emit_def)
  ultimately show ?thesis using plme by (simp add: otPlatRadioIsEnabled_def) (simp add: t_def)
qed

theorem radio_disable_undone_by_indication_witness:
  "\<exists>t. otPlatRadioDisable sample_env sending_sample = Some (OT_ERROR_NONE, t) \<and> \<not> otPlatRadioIsEnabled t \<and>
       otPlatRadioIsEnabled (PLME_OT_MAC_SapHandler sample_env 8 (gPlmeTimeoutInd_c 0) t)"
  using radio_disable_undone_by_indication [OF sending_sample_facts(3) sample_takes_idle] by blast

end
