(* ===== verification/Mcxw_Radio_Time.thy ===== *)
theory Mcxw_Radio_Time
  imports Mcxw_Radio_Ops
begin

text \<open>
  The time arithmetic of \<^verbatim>\<open>src/mcxw/platform/radio.c\<close>: conversion between the symbol clock of the PHY and the
  platform clock, the CSL phase of a header, and the search for the next CSL sample time.
\<close>

section \<open>PHY time to platform time\<close>

text \<open>
  The number of symbols since \<open>ts\<close> on a clock that counts modulo \<open>tmax + 1\<close>.
\<close>

definition elapsed_symbols :: "u64 \<Rightarrow> u64 \<Rightarrow> u64 \<Rightarrow> nat" where
  "elapsed_symbols tmax now ts = (unat now + (unat tmax + 1) - unat ts) mod (unat tmax + 1)"

lemma elapsed_no_wrap:
  assumes "now \<le> tmax" and "ts \<le> now"
  shows "elapsed_symbols tmax now ts = unat (now - ts)"
proof -
  have "unat ts \<le> unat now" "unat now \<le> unat tmax" using assms by (simp_all add: word_le_nat_alt)
  then have "unat now + (unat tmax + 1) - unat ts = (unat now - unat ts) + (unat tmax + 1)" by simp
  then show ?thesis using \<open>unat now \<le> unat tmax\<close> assms(2)
    by (simp only: elapsed_symbols_def mod_add_self2 unat_sub) (simp add: le_imp_less_Suc)
qed

lemma elapsed_wrap:
  assumes "ts \<le> tmax" and "now < ts"
  shows "elapsed_symbols tmax now ts = unat (tmax + now - ts) + 1"
proof -
  have n: "unat ts \<le> unat tmax" "unat now < unat ts" using assms by (simp_all add: word_le_nat_alt word_less_nat_alt)
  have d: "unat (ts - now) = unat ts - unat now" using assms(2) by (simp add: unat_sub)
  then have "ts - now \<le> tmax" using n by (simp add: word_le_nat_alt)
  from unat_sub [OF this] d have "unat (tmax - (ts - now)) = unat tmax - (unat ts - unat now)" by simp
  then have "unat (tmax + now - ts) = unat tmax - (unat ts - unat now)" by (simp add: diff_diff_eq2)
  then show ?thesis using n by (simp add: elapsed_symbols_def)
qed

text \<open>
  The receive time stamp is the platform time minus the symbols elapsed on the PHY clock, exactly, as long
  as that clock has not wrapped since the frame; when it has wrapped, the result is one symbol (16 us) too
  late, because the source adds the largest counter value instead of the number of counter values.
\<close>

theorem phy_to_plat_correct:
  assumes "now \<le> tmax" and "ts \<le> tmax"
  shows "phy_to_plat tmax now plat ts =
    plat - of_nat (16 * elapsed_symbols tmax now ts) + (if ts \<le> now then 0 else 16)"
proof (cases "ts \<le> now")
  case True
  then show ?thesis
    by (simp add: phy_to_plat_def elapsed_no_wrap [OF assms(1) True] IEEE802154_SYMBOL_TIME_US_def Let_def)
next
  case False
  then have "now < ts" "\<not> now \<ge> ts" by simp_all
  then show ?thesis
    by (simp add: phy_to_plat_def elapsed_wrap [OF assms(2)] IEEE802154_SYMBOL_TIME_US_def Let_def algebra_simps)
qed

theorem phy_to_plat_correct_witness:
  "phy_to_plat 0xFFFFFF 5 1000 0xFFFFFF = 920 \<and> elapsed_symbols 0xFFFFFF 5 0xFFFFFF = 6 \<and>
   phy_to_plat 0xFFFFFF 15 1000 10 = 920"
  using phy_to_plat_correct [of 5 "0xFFFFFF" "0xFFFFFF" 1000] phy_to_plat_correct [of 15 "0xFFFFFF" 10 1000]
  by (simp add: elapsed_symbols_def)

section \<open>CSL phase\<close>

text \<open>The CSL period in microseconds.\<close>

definition csl_period_us :: "radio \<Rightarrow> nat" where
  "csl_period_us s = unat (sCslPeriod s) * 160"

lemma unat_csl_period:
  assumes "unat (sCslPeriod s) \<le> 65535"
  shows "unat (sCslPeriod s * 10 * of_nat IEEE802154_SYMBOL_TIME_US) = csl_period_us s"
proof -
  have "unat (sCslPeriod s * 160) = unat (sCslPeriod s) * 160"
    using assms by (simp add: unat_word_ariths)
  moreover have "sCslPeriod s * 10 * of_nat IEEE802154_SYMBOL_TIME_US = sCslPeriod s * 160"
    by (simp add: IEEE802154_SYMBOL_TIME_US_def)
  ultimately show ?thesis by (simp only: csl_period_us_def)
qed

lemma unat_phase:
  fixes P a b :: u32
  assumes "0 < unat P" and "unat P < 2 ^ 24"
  shows "unat ((P - a mod P + b mod P) mod P) = (unat P - unat a mod unat P + unat b mod unat P) mod unat P"
proof -
  have ab: "unat a mod unat P < unat P" "unat b mod unat P < unat P" using assms(1) by simp_all
  have "unat (P - a mod P) = unat P - unat a mod unat P"
    using ab(1) by (simp add: unat_sub unat_mod word_le_nat_alt)
  moreover have "unat (b mod P) = unat b mod unat P" by (simp add: unat_mod)
  moreover have "unat P - unat a mod unat P + unat b mod unat P < 2 * 2 ^ 24"
    using ab assms(2) by linarith
  ultimately have "unat (P - a mod P + b mod P) = unat P - unat a mod unat P + unat b mod unat P"
    by (simp only: unat_word_ariths(1)) simp
  then show ?thesis by (simp add: unat_mod)
qed

lemma unat_phase_field:
  fixes w c :: u32
  assumes "unat w = d" and "c = 160" and "d div 160 < 65535"
  shows "unat (ucast (w div c + 1) :: u16) = d div 160 + 1"
proof -
  have "unat (w div 160 + 1) = d div 160 + 1"
    using assms(1,3) by (simp add: unat_word_ariths unat_div)
  then show ?thesis using assms(2,3) by (simp add: unsigned_ucast_eq take_bit_eq_mod)
qed

lemma phase_mod:
  assumes "0 < p"
  shows "int ((p - a mod p + b mod p) mod p) = (int b - int a) mod int p"
proof -
  have "a mod p \<le> p" using assms by simp
  then have "int ((p - a mod p + b mod p) mod p) = (int p - int (a mod p) + int (b mod p)) mod int p"
    by (simp add: zmod_int of_nat_diff algebra_simps)
  also have "\<dots> = (int (b mod p) - int (a mod p) + int p) mod int p" by (simp add: algebra_simps)
  also have "\<dots> = (int b - int a) mod int p" by (simp add: zmod_int mod_diff_eq)
  finally show ?thesis .
qed

lemma csl_phase:
  assumes "0 < unat (sCslPeriod s)" and "unat (sCslPeriod s) \<le> 65535"
  shows csl_phase_int: "uint (rf_compute_csl_phase s aTimeUs) =
      ((uint (sCslSampleTimeUs s) - uint aTimeUs) mod int (csl_period_us s)) div 160 + 1"
    and csl_phase_le: "unat (rf_compute_csl_phase s aTimeUs) \<le> unat (sCslPeriod s)"
proof -
  let ?P = "sCslPeriod s * 10 * of_nat IEEE802154_SYMBOL_TIME_US :: u32"
  let ?p = "csl_period_us s" and ?a = "unat aTimeUs" and ?b = "unat (sCslSampleTimeUs s)"
  have P: "unat ?P = ?p" by (rule unat_csl_period [OF assms(2)])
  have p: "0 < ?p" "?p < 2 ^ 24" using assms by (simp_all add: csl_period_us_def)
  define d where "d = (?p - ?a mod ?p + ?b mod ?p) mod ?p"
  have phase: "unat ((?P - aTimeUs mod ?P + sCslSampleTimeUs s mod ?P) mod ?P) = d"
    using unat_phase [of ?P] P p by (simp add: d_def)
  have d: "d < ?p" using p(1) by (simp add: d_def)
  then have d160: "d div 160 < unat (sCslPeriod s)" by (simp add: csl_period_us_def div_less_iff_less_mult)
  have "unat (rf_compute_csl_phase s aTimeUs) = d div 160 + 1"
    unfolding rf_compute_csl_phase_def Let_def
    by (rule unat_phase_field) (use phase d160 assms(2) in \<open>simp_all add: IEEE802154_SYMBOL_TIME_US_def\<close>)
  moreover have "int d = (uint (sCslSampleTimeUs s) - uint aTimeUs) mod int ?p"
    unfolding d_def phase_mod [OF p(1)] by simp
  ultimately have "int (unat (rf_compute_csl_phase s aTimeUs)) =
      ((uint (sCslSampleTimeUs s) - uint aTimeUs) mod int (csl_period_us s)) div 160 + 1"
    "unat (rf_compute_csl_phase s aTimeUs) \<le> unat (sCslPeriod s)" using d160 by (simp_all add: zdiv_int)
  then show "uint (rf_compute_csl_phase s aTimeUs) =
      ((uint (sCslSampleTimeUs s) - uint aTimeUs) mod int (csl_period_us s)) div 160 + 1"
    "unat (rf_compute_csl_phase s aTimeUs) \<le> unat (sCslPeriod s)" by simp_all
qed

text \<open>Two times in the same turn of a 32-bit counter are as far apart as their counter values.\<close>

lemma same_turn_diff:
  assumes "S div 2 ^ 32 = A div (2 ^ 32 :: nat)"
  shows "uint (of_nat S :: u32) - uint (of_nat A :: u32) = int S - int A"
proof -
  have "int S = 2 ^ 32 * int (S div 2 ^ 32) + uint (of_nat S :: u32)" for S
    by (simp add: uint_nat unat_of_nat zdiv_int zmod_int)
  from this [of S] this [of A] assms show ?thesis by simp
qed

text \<open>
  C37. For a CSL period of 1 to 65535 units of 10 symbols, and as long as the 32-bit microsecond counter does not wrap
  between the header time \<open>A\<close> and the sample time \<open>S\<close> (both in unbounded time here), the phase put into a frame
  header is the distance from the header time to the next sample time of the series through \<open>S\<close>, in whole units of
  10 symbols counted from 1, and it never exceeds the period. When the counter wraps between the two times the phase
  is another one: \<open>rf_compute_csl_phase_after_wrap\<close>.
\<close>

theorem rf_compute_csl_phase_correct:
  assumes "0 < unat (sCslPeriod s)" and "unat (sCslPeriod s) \<le> 65535"
    and "sCslSampleTimeUs s = of_nat S" and "aTimeUs = of_nat A" and "S div 2 ^ 32 = A div 2 ^ 32"
  shows "uint (rf_compute_csl_phase s aTimeUs) = ((int S - int A) mod int (csl_period_us s)) div 160 + 1 \<and>
    unat (rf_compute_csl_phase s aTimeUs) \<le> unat (sCslPeriod s)"
  using csl_phase_int [OF assms(1,2), of aTimeUs] csl_phase_le [OF assms(1,2), of aTimeUs]
    same_turn_diff [OF assms(5)] by (simp add: assms(3,4))

definition csl_sample_radio :: radio where
  "csl_sample_radio = (radio_boot sample_env)\<lparr>sCslPeriod := 3000, sCslSampleTimeUs := 1000100\<rparr>"

theorem rf_compute_csl_phase_correct_witness:
  "uint (rf_compute_csl_phase csl_sample_radio 1000) = 245 \<and> unat (rf_compute_csl_phase csl_sample_radio 1000) \<le> 3000"
  using rf_compute_csl_phase_correct [of csl_sample_radio 1000100 1000 1000]
  by (simp add: csl_sample_radio_def csl_period_us_def)

text \<open>
  When the microsecond counter wraps between the header time and the sample time, the phase is not the one of
  the comment above the function: with \<open>\<delta>\<close> the time from the header to the sample, the result is the phase of
  \<open>\<delta> - 2 ^ 32\<close> instead of \<open>\<delta>\<close>, which differs unless the period divides \<open>2 ^ 32\<close>.
\<close>

theorem rf_compute_csl_phase_after_wrap:
  assumes "0 < unat (sCslPeriod s)" and "unat (sCslPeriod s) \<le> 65535" and "sCslSampleTimeUs s < aTimeUs"
  shows "uint (rf_compute_csl_phase s aTimeUs) =
    ((uint (sCslSampleTimeUs s - aTimeUs) - 2 ^ 32) mod int (csl_period_us s)) div 160 + 1"
proof -
  have "uint (sCslSampleTimeUs s - aTimeUs) = uint (sCslSampleTimeUs s) - uint aTimeUs + 2 ^ 32"
    using assms(3) by (simp add: uint_sub_if' word_less_def)
  then show ?thesis by (simp add: csl_phase_int [OF assms(1,2)])
qed

theorem rf_compute_csl_phase_after_wrap_witness:
  "(let s = csl_sample_radio\<lparr>sCslSampleTimeUs := 100\<rparr> in
     unat (sCslSampleTimeUs s - (- 100)) = 200 \<and> uint (rf_compute_csl_phase s (- 100)) = 456)"
  using rf_compute_csl_phase_after_wrap [of "csl_sample_radio\<lparr>sCslSampleTimeUs := 100\<rparr>" "- 100"]
  by (simp add: csl_sample_radio_def csl_period_us_def Let_def)

section \<open>The next CSL sample time\<close>

text \<open>The platform clock does not advance by a whole CSL period between two consecutive reads.\<close>

definition clock_steps :: "env \<Rightarrow> u32 \<Rightarrow> bool" where
  "clock_steps env p \<longleftrightarrow>
     (\<forall>h. (ucast (platTime env (h @ [otPlatTimeGet])) - ucast (platTime env h) :: u32) < p)"

text \<open>A step of at most \<open>p\<close> cannot jump over a window of \<open>2 p\<close>: the distance to its far end shrinks.\<close>

lemma csl_window_step:
  fixes p dt adv :: u32
  assumes "64 + 2 * unat p < 2 ^ 32" and "adv < p" and "dt \<le> 64 \<or> dt > 64 + 2 * p"
  shows "unat (64 + 2 * p - (dt + p - adv)) < unat (64 + 2 * p - dt)"
proof -
  have far: "unat (64 + 2 * p) = 64 + 2 * unat p" using assms(1) by (simp add: unat_word_ariths)
  have step: "unat (p - adv) = unat p - unat adv" "unat adv < unat p"
    using assms(2) unat_sub [of adv p] by (simp_all add: word_less_nat_alt word_le_nat_alt)
  have "2 * unat p \<le> unat (64 + 2 * p - dt)"
  proof (cases "dt \<le> 64")
    case True
    then have "unat dt \<le> 64" by (simp add: word_le_nat_alt)
    then have "dt \<le> 64 + 2 * p" using far by (simp add: word_le_nat_alt)
    then show ?thesis using far \<open>unat dt \<le> 64\<close> by (simp add: unat_sub)
  next
    case False
    then have gt: "64 + 2 * p < dt" using assms(3) by simp
    then have "unat (64 + 2 * p - dt) = 2 ^ 32 + (64 + 2 * unat p) - unat dt"
      using far by (simp add: unat_sub_if' word_less_nat_alt word_size)
    moreover have "unat dt < 2 ^ 32" using unsigned_less [of dt] by simp
    ultimately show ?thesis by simp
  qed
  then have "p - adv \<le> 64 + 2 * p - dt" using step by (simp add: word_le_nat_alt)
  from unat_sub [OF this] have "unat ((64 + 2 * p - dt) - (p - adv)) < unat (64 + 2 * p - dt)"
    using step \<open>2 * unat p \<le> _\<close> by linarith
  moreover have "64 + 2 * p - (dt + p - adv) = (64 + 2 * p - dt) - (p - adv)" by (simp add: algebra_simps)
  ultimately show ?thesis by presburger
qed

lemma csl_sample_loop_returns:
  assumes "64 + 2 * unat p < 2 ^ 32" and "clock_steps env p"
    and "dt = sCslSampleTimeUs s - ucast (platTime env h)" and "acts s = h @ [otPlatTimeGet]"
  shows "\<exists>n k. let h' = h @ replicate k otPlatTimeGet; t = sCslSampleTimeUs s + of_nat n * p;
                   d = t - ucast (platTime env h') in
     csl_sample_loop env p dt s = Some (s\<lparr>sCslSampleTimeUs := t, acts := h' @ [otPlatTimeGet]\<rparr>) \<and>
     64 < d \<and> d \<le> 64 + 2 * p"
  using assms(3,4)
proof (induction "unat (64 + 2 * p - dt)" arbitrary: dt s h rule: less_induct)
  case less
  show ?case
  proof (cases "dt \<le> 64 \<or> dt > 64 + 2 * p")
    case False
    then have "csl_sample_loop env p dt s = Some s" by (subst csl_sample_loop.simps) (simp add: radio_consts)
    then show ?thesis using False less.prems by (intro exI [of _ 0]) (auto simp: Let_def)
  next
    case True
    define s' where "s' = s\<lparr>sCslSampleTimeUs := sCslSampleTimeUs s + p, acts := h @ [otPlatTimeGet] @ [otPlatTimeGet]\<rparr>"
    define dt' where "dt' = sCslSampleTimeUs s' - ucast (platTime env (h @ [otPlatTimeGet]))"
    have "csl_sample_loop env p dt s = csl_sample_loop env p dt' s'"
      using True less.prems(2)
      by (subst csl_sample_loop.simps) (simp add: radio_consts readTime_def emit_def s'_def dt'_def)
    moreover have "dt' = dt + p - (ucast (platTime env (h @ [otPlatTimeGet])) - ucast (platTime env h))"
      by (simp add: dt'_def s'_def less.prems(1))
    then have "unat (64 + 2 * p - dt') < unat (64 + 2 * p - dt)"
      using csl_window_step [OF assms(1) _ True] assms(2) by (simp add: clock_steps_def)
    note less.hyps [OF this, of s' "h @ [otPlatTimeGet]"]
    then obtain n k where "let h' = (h @ [otPlatTimeGet]) @ replicate k otPlatTimeGet; t = sCslSampleTimeUs s' + of_nat n * p;
                   d = t - ucast (platTime env h') in
     csl_sample_loop env p dt' s' = Some (s'\<lparr>sCslSampleTimeUs := t, acts := h' @ [otPlatTimeGet]\<rparr>) \<and>
     64 < d \<and> d \<le> 64 + 2 * p"
      by (auto simp: dt'_def s'_def)
    ultimately show ?thesis
      by (intro exI [of _ "Suc n"] exI [of _ "Suc k"]) (simp add: Let_def s'_def algebra_simps)
  qed
qed

text \<open>
  The search for the next CSL sample time ends. If the platform clock advances by less than a CSL period
  between two reads, \<open>set_csl_sample_time\<close> returns, whatever the old sample time was; it has moved the sample
  time by whole periods to more than the guard of 64 us and at most two periods and 64 us ahead of the clock,
  and has told the PHY.
\<close>

theorem set_csl_sample_time_returns:
  assumes "0 < unat (sCslPeriod s)" and "unat (sCslPeriod s) \<le> 65535"
    and "clock_steps env (of_nat (csl_period_us s))"
  shows "\<exists>t n h. set_csl_sample_time env s = Some t \<and>
    sCslSampleTimeUs t = sCslSampleTimeUs s + of_nat (n * csl_period_us s) \<and>
    64 < sCslSampleTimeUs t - ucast (platTime env h) \<and>
    sCslSampleTimeUs t - ucast (platTime env h) \<le> of_nat (64 + 2 * csl_period_us s) \<and>
    take (length h) (acts t) = h \<and> (\<exists>x. last (acts t) = Plme (gPlmeCslSetSampleTime_c x))"
proof -
  define p :: u32 where "p = sCslPeriod s * 10 * of_nat IEEE802154_SYMBOL_TIME_US"
  have p: "unat p = csl_period_us s" unfolding p_def by (rule unat_csl_period [OF assms(2)])
  then have pw: "p = of_nat (csl_period_us s)" by (metis of_nat_unat ucast_id)
  have lim: "64 + 2 * unat p < 2 ^ 32" using assms(2) by (simp add: p csl_period_us_def)
  let ?s1 = "s\<lparr>acts := acts s @ [otPlatTimeGet]\<rparr>"
  from csl_sample_loop_returns [OF lim assms(3) [folded pw], of _ ?s1 "acts s"] obtain n k where
    nk: "let h' = acts s @ replicate k otPlatTimeGet; t = sCslSampleTimeUs s + of_nat n * p; d = t - ucast (platTime env h') in
     csl_sample_loop env p (sCslSampleTimeUs s - ucast (platTime env (acts s))) ?s1 =
       Some (s\<lparr>sCslSampleTimeUs := t, acts := h' @ [otPlatTimeGet]\<rparr>) \<and> 64 < d \<and> d \<le> 64 + 2 * p"
    by auto
  define t where "t = sCslSampleTimeUs s + of_nat n * p"
  define h where "h = acts s @ replicate k otPlatTimeGet"
  have t: "csl_sample_loop env p (sCslSampleTimeUs s - ucast (platTime env (acts s))) ?s1 =
          Some (s\<lparr>sCslSampleTimeUs := t, acts := h @ [otPlatTimeGet]\<rparr>)"
       "t = sCslSampleTimeUs s + of_nat n * p"
       "64 < t - ucast (platTime env h)" "t - ucast (platTime env h) \<le> 64 + 2 * p"
    using nk by (simp_all add: Let_def t_def h_def)
  have "sCslPeriod s \<noteq> 0" using assms(1) by auto
  then have "set_csl_sample_time env s = Some (snd (MAC_PLME_SapHandler env
      (gPlmeCslSetSampleTime_c (fst (rf_adjust_tstamp_from_ot env t (s\<lparr>sCslSampleTimeUs := t, acts := h @ [otPlatTimeGet]\<rparr>))))
      (snd (rf_adjust_tstamp_from_ot env t (s\<lparr>sCslSampleTimeUs := t, acts := h @ [otPlatTimeGet]\<rparr>)))))"
    using t(1) by (simp add: set_csl_sample_time_def Let_def p_def [symmetric] readTime_def emit_def split_def)
  moreover have "of_nat (64 + 2 * csl_period_us s) = 64 + 2 * p" by (simp add: pw)
  ultimately show ?thesis
    using t(2-4) by (auto simp: outside_defs emit_def rf_adjust_tstamp_from_ot_def Let_def pw intro!: exI [of _ n] exI [of _ h])
qed

theorem set_csl_sample_time_returns_witness:
  "\<exists>t n h. set_csl_sample_time sample_env csl_sample_radio = Some t \<and>
    sCslSampleTimeUs t = 1000100 + of_nat (n * 480000) \<and>
    64 < sCslSampleTimeUs t - ucast (platTime sample_env h) \<and> sCslSampleTimeUs t - ucast (platTime sample_env h) \<le> 960064"
proof -
  have low: "(ucast (of_nat m :: u64) :: u32) = of_nat m" for m
    by (simp add: unsigned_of_nat word_of_nat_eq_iff)
  have "100 * of_nat m = (of_nat (100 * m) :: u64)" for m by simp
  then have "clock_steps sample_env (of_nat (csl_period_us csl_sample_radio))"
    by (simp only: clock_steps_def sample_env_def quiet_env_def env.simps low)
       (simp add: csl_period_us_def csl_sample_radio_def)
  from set_csl_sample_time_returns [OF _ _ this] show ?thesis
    by (force simp: csl_sample_radio_def csl_period_us_def)
qed

end
