(* ===== verification/Mcxw_Radio_Power.thy ===== *)
theory Mcxw_Radio_Power
  imports Mcxw_Radio_Ops
begin

text \<open>
  The two power contracts of \<^verbatim>\<open>src/mcxw/platform/radio.c\<close>. While a radio event waits for the main loop the
  driver holds exactly one vote against low power, and while a CSL transaction is open it holds exactly one
  request that keeps the radio core awake; every vote is given back.
\<close>

definition times_done :: "act \<Rightarrow> radio \<Rightarrow> nat" where
  "times_done a s = count_list (acts s) a"

definition sleep_balance :: "radio \<Rightarrow> bool" where
  "sleep_balance s \<longleftrightarrow>
     times_done PWR_DisallowDeviceToSleep s = times_done PWR_AllowDeviceToSleep s + of_bool (is_radio_event s)"

definition remote_balance :: "env \<Rightarrow> radio \<Rightarrow> bool" where
  "remote_balance env s \<longleftrightarrow>
     (useNbu env \<longrightarrow> times_done PLATFORM_RemoteActiveReq s = times_done PLATFORM_RemoteActiveRel s + of_bool (csl_rx s))"

lemma times_done_emit: "times_done a (emit b s) = times_done a s + of_bool (b = a)"
  by (simp add: times_done_def emit_def)

lemma times_done_updates [simp]:
  "times_done a (s\<lparr>csl_rx := b\<rparr>) = times_done a s" "times_done a (s\<lparr>is_radio_event := b\<rparr>) = times_done a s"
  by (simp_all add: times_done_def)

lemma emit_flags [simp]: "is_radio_event (emit a s) = is_radio_event s" "csl_rx (emit a s) = csl_rx s"
  by (simp_all add: emit_def)

lemma votes_times_done:
  assumes "votes s = votes t" and "vote a"
  shows "times_done a s = times_done a t"
proof -
  have "count_list (filter vote xs) a = count_list xs a" for xs
    by (induction xs) (use assms(2) in auto)
  with assms(1) show ?thesis unfolding times_done_def votes_def by (metis Pair_inject)
qed

lemma votes_flags: "votes s = votes t \<Longrightarrow> is_radio_event s = is_radio_event t \<and> csl_rx s = csl_rx t"
  by (simp add: votes_def)

interpretation slp: vote_invariant env sleep_balance for env
proof unfold_locales
  show "sleep_balance s = sleep_balance t" if "votes s = votes t" for s t
    using votes_times_done [OF that] votes_flags [OF that] by (simp add: sleep_balance_def)
qed (auto simp: sleep_balance_def csl_start_def stop_csl_receiver_def nbuOnly_def radio_event_def Let_def times_done_emit)

interpretation rem: vote_invariant env "remote_balance env" for env
proof unfold_locales
  show "remote_balance env s = remote_balance env t" if "votes s = votes t" for s t
    using votes_times_done [OF that] votes_flags [OF that] by (simp add: remote_balance_def)
qed (auto simp: remote_balance_def csl_start_def stop_csl_receiver_def nbuOnly_def radio_event_def Let_def times_done_emit)

section \<open>Properties\<close>

text \<open>
  C36. Over any sequence of driver calls, PHY indications and turns of the main loop from boot, with callbacks
  that may call the driver again, the votes against low power exceed the votes given back by exactly one while
  a radio event is pending and by none otherwise, and so do the requests that keep the radio core awake while
  a CSL transaction is open.
\<close>

theorem radio_votes_balanced:
  assumes "callbacks_call_api env" and "radio_run env ops (radio_boot env) = Some t"
  shows "times_done PWR_DisallowDeviceToSleep t = times_done PWR_AllowDeviceToSleep t + of_bool (is_radio_event t) \<and>
    (useNbu env \<longrightarrow>
       times_done PLATFORM_RemoteActiveReq t = times_done PLATFORM_RemoteActiveRel t + of_bool (csl_rx t))"
proof -
  have "sleep_balance (radio_boot env)" "remote_balance env (radio_boot env)"
    by (simp_all add: sleep_balance_def remote_balance_def times_done_def radio_boot_def)
  then show ?thesis
    using slp.run [OF assms] rem.run [OF assms] by (simp_all add: sleep_balance_def remote_balance_def)
qed


theorem radio_votes_balanced_witness:
  "\<exists>t. radio_run sample_env [OpEnable, OpRxOnWhenIdle True, OpPd 7 (gPdDataInd_c sample_ind)] (radio_boot sample_env) = Some t \<and>
       is_radio_event t \<and>
       times_done PWR_DisallowDeviceToSleep t = times_done PWR_AllowDeviceToSleep t + 1 \<and>
       times_done PLATFORM_RemoteActiveReq t = times_done PLATFORM_RemoteActiveRel t"
proof -
  have run: "case radio_run sample_env [OpEnable, OpRxOnWhenIdle True, OpPd 7 (gPdDataInd_c sample_ind)] (radio_boot sample_env) of
          None \<Rightarrow> False | Some t \<Rightarrow> is_radio_event t \<and> \<not> csl_rx t"
    by code_simp
  then obtain t where t: "radio_run sample_env [OpEnable, OpRxOnWhenIdle True, OpPd 7 (gPdDataInd_c sample_ind)] (radio_boot sample_env) = Some t"
    and "is_radio_event t" "\<not> csl_rx t" by (auto split: option.splits)
  moreover have "useNbu sample_env" by (simp add: sample_env_def quiet_env_def)
  ultimately show ?thesis using radio_votes_balanced [OF sample_env_calls t] by simp
qed

end
