(* ===== verification/Wakeup_Flag.thy ===== *)
theory Wakeup_Flag
  imports OtNxp_Prelude
begin

text \<open>
  The pattern by which an interrupt hands an event to the main loop in the drivers of the mcxw platform: the
  interrupt sets a flag and votes against low power unless the flag is set already, the main loop clears the flag,
  gives the vote back and handles the event. The locale states both halves as laws and derives what the drivers
  rely on: the votes are balanced in every run, and no event is forgotten.
\<close>

datatype wake = Fire | Turn

locale wakeup_flag =
  fixes inv :: "'s \<Rightarrow> bool" and flag :: "'s \<Rightarrow> bool" and votes :: "'s \<Rightarrow> int" and handled :: "'s \<Rightarrow> nat"
    and fire :: "'s \<Rightarrow> 's" and turn :: "'s \<Rightarrow> 's"
  assumes fire_inv: "inv s \<Longrightarrow> inv (fire s)"
    and fire_flag: "inv s \<Longrightarrow> flag (fire s)"
    and fire_votes: "inv s \<Longrightarrow> votes (fire s) = votes s + of_bool (\<not> flag s)"
    and fire_handled: "inv s \<Longrightarrow> handled (fire s) = handled s"
    and turn_inv: "inv s \<Longrightarrow> inv (turn s)"
    and turn_votes: "inv s \<Longrightarrow> votes (turn s) - of_bool (flag (turn s)) = votes s - of_bool (flag s)"
    and turn_handled: "inv s \<Longrightarrow> handled (turn s) = handled s + of_bool (flag s)"
begin

fun runs :: "wake list \<Rightarrow> 's \<Rightarrow> 's" where
  "runs [] s = s"
| "runs (Fire # ws) s = runs ws (fire s)"
| "runs (Turn # ws) s = runs ws (turn s)"

lemma runs_inv: "inv s \<Longrightarrow> inv (runs ws s)"
  by (induction ws s rule: runs.induct) (auto simp: fire_inv turn_inv)

lemma runs_balanced:
  "inv s \<Longrightarrow> votes (runs ws s) - of_bool (flag (runs ws s)) = votes s - of_bool (flag s)"
  by (induction ws s rule: runs.induct) (auto simp: fire_inv turn_inv fire_flag fire_votes turn_votes)

lemma runs_append: "runs (us @ ws) s = runs ws (runs us s)"
  by (induction us s rule: runs.induct) auto

lemma fire_then_turn:
  assumes "inv s"
  shows "handled (turn (fire s)) = Suc (handled s)"
  using assms by (simp add: turn_handled fire_inv fire_flag fire_handled)

end

end
