(* ===== verification/Mcxw_Alarm.thy ===== *)
theory Mcxw_Alarm
  imports Wakeup_Flag
begin

text \<open>
  \<^verbatim>\<open>src/mcxw/platform/alarm.c\<close>: the millisecond and microsecond alarms and the 64-bit time. The timer manager of the
  SDK is outside: what the driver asks of it is appended to \<open>aacts\<close>, its clock reading is an argument of the calls
  that read it, and the expiry of a timer is the call of its callback.
\<close>

section \<open>State\<close>

datatype alarm_timer = sAlarmTimerHandle | sAlarmMicroTimerHandle

text \<open>What the driver does to the outside, in order.\<close>

datatype alarm_act =
    TM_Open alarm_timer | TM_InstallCallback alarm_timer
  | TM_Stop alarm_timer | TM_Start alarm_timer u32
  | AlarmDisallowSleep | AlarmAllowSleep | AlarmSignalPending
  | AlarmMilliFired | AlarmMicroFired

record alarm =
  sEventFired :: bool
  sEventMicroFired :: bool
  alreadyInit :: bool
  u64SwTimestampUs :: u64
  u64HwTimestampUs :: u64
  aacts :: "alarm_act list"

definition alarm_boot :: alarm where
  "alarm_boot = \<lparr>sEventFired = False, sEventMicroFired = False, alreadyInit = False,
     u64SwTimestampUs = 0, u64HwTimestampUs = 0, aacts = []\<rparr>"

definition aemit :: "alarm_act \<Rightarrow> alarm \<Rightarrow> alarm" where
  "aemit a s = s\<lparr>aacts := aacts s @ [a]\<rparr>"

section \<open>Time\<close>

text \<open>\<open>COUNT_TO_USEC\<close> of the SDK converts a count of its clock to microseconds; \<open>wrapUs\<close> is its value for a full turn.\<close>

definition otPlatTimeGet :: "u64 \<Rightarrow> u64 \<Rightarrow> alarm \<Rightarrow> u64 \<times> alarm" where
  "otPlatTimeGet wrapUs tm s =
     (let wrapped_val = (if u64HwTimestampUs s > tm then wrapUs else 0);
          increment = (tm + wrapped_val) - u64HwTimestampUs s;
          sw = u64SwTimestampUs s + increment
      in (sw, s\<lparr>u64SwTimestampUs := sw, u64HwTimestampUs := tm\<rparr>))"

definition timestamp_to_ms :: "u64 \<Rightarrow> u32" where
  "timestamp_to_ms timestamp = ucast (timestamp div 1000)"

definition otPlatAlarmMilliGetNow :: "u64 \<Rightarrow> u64 \<Rightarrow> alarm \<Rightarrow> u32 \<times> alarm" where
  "otPlatAlarmMilliGetNow wrapUs tm s = (case otPlatTimeGet wrapUs tm s of (t, s1) \<Rightarrow> (timestamp_to_ms t, s1))"

definition otPlatAlarmMicroGetNow :: "u64 \<Rightarrow> u64 \<Rightarrow> alarm \<Rightarrow> u32 \<times> alarm" where
  "otPlatAlarmMicroGetNow wrapUs tm s = (case otPlatTimeGet wrapUs tm s of (t, s1) \<Rightarrow> (ucast t, s1))"

section \<open>Alarms\<close>

definition timerCallback :: "alarm \<Rightarrow> alarm" where
  "timerCallback s =
     (let s1 = (if \<not> sEventFired s then aemit AlarmDisallowSleep (s\<lparr>sEventFired := True\<rparr>) else s)
      in aemit AlarmSignalPending s1)"

definition timerMicroCallback :: "alarm \<Rightarrow> alarm" where
  "timerMicroCallback s =
     (let s1 = (if \<not> sEventMicroFired s then aemit AlarmDisallowSleep (s\<lparr>sEventMicroFired := True\<rparr>) else s)
      in aemit AlarmSignalPending s1)"

definition otPlatAlarmInit :: "alarm \<Rightarrow> alarm" where
  "otPlatAlarmInit s =
     (if alreadyInit s then s
      else (let s1 = aemit (TM_InstallCallback sAlarmTimerHandle) (aemit (TM_Open sAlarmTimerHandle) s);
                s2 = aemit (TM_InstallCallback sAlarmMicroTimerHandle) (aemit (TM_Open sAlarmMicroTimerHandle) s1)
            in s2\<lparr>alreadyInit := True\<rparr>))"

text \<open>The time left of a delay \<open>aDt\<close> from \<open>aT0\<close>, at \<open>timestamp\<close>.\<close>

definition alarm_left :: "u32 \<Rightarrow> u32 \<Rightarrow> u32 \<Rightarrow> u32" where
  "alarm_left timestamp aT0 aDt =
     (let timestamp = (if timestamp \<ge> aT0 then timestamp - aT0 else NOT 0 - aT0 + timestamp + 1)
      in if aDt \<ge> timestamp then aDt - timestamp else 0)"

definition otPlatAlarmMilliStartAt :: "u64 \<Rightarrow> u64 \<Rightarrow> u32 \<Rightarrow> u32 \<Rightarrow> alarm \<Rightarrow> alarm" where
  "otPlatAlarmMilliStartAt wrapUs tm aT0 aDt s =
     (case otPlatAlarmMilliGetNow wrapUs tm (aemit (TM_Stop sAlarmTimerHandle) s) of (timestamp, s1) \<Rightarrow>
        (let aDt1 = alarm_left timestamp aT0 aDt
         in if aDt1 > 0 then aemit (TM_Start sAlarmTimerHandle aDt1) s1 else timerCallback s1))"

definition otPlatAlarmMilliStop :: "alarm \<Rightarrow> alarm" where
  "otPlatAlarmMilliStop s = aemit (TM_Stop sAlarmTimerHandle) s"

definition otPlatAlarmMicroStartAt :: "u64 \<Rightarrow> u64 \<Rightarrow> u32 \<Rightarrow> u32 \<Rightarrow> alarm \<Rightarrow> alarm" where
  "otPlatAlarmMicroStartAt wrapUs tm aT0 aDt s =
     (case otPlatAlarmMicroGetNow wrapUs tm (aemit (TM_Stop sAlarmMicroTimerHandle) s) of (timestamp, s1) \<Rightarrow>
        (let aDt1 = alarm_left timestamp aT0 aDt
         in if aDt1 > 0 then aemit (TM_Start sAlarmMicroTimerHandle aDt1) s1 else timerMicroCallback s1))"

definition otPlatAlarmMicroStop :: "alarm \<Rightarrow> alarm" where
  "otPlatAlarmMicroStop s = aemit (TM_Stop sAlarmMicroTimerHandle) s"

text \<open>
  The calls OpenThread makes, each with the clock reading it finds. The handlers of a fired alarm are OpenThread's:
  they are given by the calls they make, which may depend on the state.
\<close>

datatype alarm_call =
    MilliStartAt u64 u32 u32 | MilliStop | MilliGetNow u64
  | MicroStartAt u64 u32 u32 | MicroStop | MicroGetNow u64 | TimeGet u64

record alarm_env =
  wrapUs :: u64
  onMilliFired :: "alarm \<Rightarrow> alarm_call list"
  onMicroFired :: "alarm \<Rightarrow> alarm_call list"

fun alarm_do :: "alarm_env \<Rightarrow> alarm_call \<Rightarrow> alarm \<Rightarrow> alarm" where
  "alarm_do env (MilliStartAt tm t0 dt) s = otPlatAlarmMilliStartAt (wrapUs env) tm t0 dt s"
| "alarm_do env MilliStop s = otPlatAlarmMilliStop s"
| "alarm_do env (MilliGetNow tm) s = snd (otPlatAlarmMilliGetNow (wrapUs env) tm s)"
| "alarm_do env (MicroStartAt tm t0 dt) s = otPlatAlarmMicroStartAt (wrapUs env) tm t0 dt s"
| "alarm_do env MicroStop s = otPlatAlarmMicroStop s"
| "alarm_do env (MicroGetNow tm) s = snd (otPlatAlarmMicroGetNow (wrapUs env) tm s)"
| "alarm_do env (TimeGet tm) s = snd (otPlatTimeGet (wrapUs env) tm s)"

definition alarm_calls :: "alarm_env \<Rightarrow> alarm_call list \<Rightarrow> alarm \<Rightarrow> alarm" where
  "alarm_calls env cs s = fold (alarm_do env) cs s"

definition otPlatAlarmMilliFired :: "alarm_env \<Rightarrow> alarm \<Rightarrow> alarm" where
  "otPlatAlarmMilliFired env s = (let s1 = aemit AlarmMilliFired s in alarm_calls env (onMilliFired env s1) s1)"

definition otPlatAlarmMicroFired :: "alarm_env \<Rightarrow> alarm \<Rightarrow> alarm" where
  "otPlatAlarmMicroFired env s = (let s1 = aemit AlarmMicroFired s in alarm_calls env (onMicroFired env s1) s1)"

text \<open>One turn of the main loop: the millisecond half, then the microsecond half.\<close>

definition alarm_milli_turn :: "alarm_env \<Rightarrow> alarm \<Rightarrow> alarm" where
  "alarm_milli_turn env s =
     (if sEventFired s then otPlatAlarmMilliFired env (aemit AlarmAllowSleep (s\<lparr>sEventFired := False\<rparr>)) else s)"

definition alarm_micro_turn :: "alarm_env \<Rightarrow> alarm \<Rightarrow> alarm" where
  "alarm_micro_turn env s =
     (if sEventMicroFired s then otPlatAlarmMicroFired env (aemit AlarmAllowSleep (s\<lparr>sEventMicroFired := False\<rparr>)) else s)"

definition otPlatAlarmProcess :: "alarm_env \<Rightarrow> alarm \<Rightarrow> alarm" where
  "otPlatAlarmProcess env s = alarm_micro_turn env (alarm_milli_turn env s)"

text \<open>Everything that can happen to the driver.\<close>

datatype alarm_event = AInit | ACall alarm_call | AMilliExpires | AMicroExpires | AProcess

fun alarm_step :: "alarm_env \<Rightarrow> alarm_event \<Rightarrow> alarm \<Rightarrow> alarm" where
  "alarm_step env AInit s = otPlatAlarmInit s"
| "alarm_step env (ACall c) s = alarm_do env c s"
| "alarm_step env AMilliExpires s = timerCallback s"
| "alarm_step env AMicroExpires s = timerMicroCallback s"
| "alarm_step env AProcess s = otPlatAlarmProcess env s"

definition alarm_run :: "alarm_env \<Rightarrow> alarm_event list \<Rightarrow> alarm \<Rightarrow> alarm" where
  "alarm_run env es s = fold (alarm_step env) es s"


section \<open>The time follows the counter\<close>

text \<open>
  The hardware counts 32768 ticks a second in 32 bits. \<open>usecs c\<close> are the microseconds of \<open>c\<close> ticks; the timer
  manager reports those of the count modulo \<open>2 ^ 32\<close>.
\<close>

definition usecs :: "nat \<Rightarrow> nat" where
  "usecs c = c * 15625 div 512"

definition tm_reads :: "nat \<Rightarrow> u64" where
  "tm_reads c = of_nat (usecs (c mod 2 ^ 32))"

definition time_synced :: "nat \<Rightarrow> alarm \<Rightarrow> bool" where
  "time_synced c s \<longleftrightarrow> u64SwTimestampUs s = of_nat (usecs c) \<and> u64HwTimestampUs s = tm_reads c"

lemma usecs_turn: "usecs (c + k * 2 ^ 32) = usecs c + k * usecs (2 ^ 32)"
  by (simp add: usecs_def algebra_simps div_plus_div_distrib_dvd_right)

lemma usecs_mono: "c \<le> d \<Longrightarrow> usecs c \<le> usecs d"
  by (simp add: usecs_def div_le_mono)

lemma usecs_strict: "c < d \<Longrightarrow> usecs c < usecs d"
proof -
  assume "c < d"
  then have "usecs (c + 1) \<le> usecs d" by (intro usecs_mono) simp
  moreover have "usecs c < usecs (c + 1)" by (simp add: usecs_def)
  ultimately show ?thesis by simp
qed

lemma unat_tm_reads: "unat (tm_reads c) = usecs (c mod 2 ^ 32)"
proof -
  have "usecs (c mod 2 ^ 32) \<le> usecs (2 ^ 32)" by (intro usecs_mono) (simp add: less_imp_le)
  then have "usecs (c mod 2 ^ 32) < 2 ^ 64" by (simp add: usecs_def)
  then show ?thesis by (simp add: tm_reads_def unat_of_nat)
qed

text \<open>Two readings less than a turn apart differ by the ticks in between, up to one full turn.\<close>

lemma tm_wraps:
  assumes "c \<le> d" and "d - c < 2 ^ 32"
  shows "tm_reads d + (if tm_reads c > tm_reads d then of_nat (usecs (2 ^ 32)) else 0) - tm_reads c = of_nat (usecs d) - of_nat (usecs c)"
proof -
  define m where "m = c mod 2 ^ 32"
  define n where "n = d mod 2 ^ 32"
  define k where "k = c div 2 ^ 32"
  have c: "c = m + k * 2 ^ 32" by (simp add: m_def k_def)
  have lt: "m < 2 ^ 32" "n < 2 ^ 32" by (simp_all add: m_def n_def)
  have d: "d = n + (if n < m then k + 1 else k) * 2 ^ 32"
  proof -
    obtain j where j: "d = n + j * 2 ^ 32" using n_def by (metis mod_mult_div_eq add.commute mult.commute)
    have "j = (if n < m then k + 1 else k)"
    proof (cases "n < m")
      case True
      have "m + k * 2 ^ 32 \<le> n + j * 2 ^ 32" using assms(1) c j by simp
      then have "k < j" using True by (cases "j \<le> k") (auto dest!: mult_le_mono1 [of j k "2 ^ 32"])
      moreover have "j < k + 2" using assms(2) c j lt by simp
      ultimately show ?thesis using True by simp
    next
      case False
      have "m + k * 2 ^ 32 \<le> n + j * 2 ^ 32" "n + j * 2 ^ 32 < m + k * 2 ^ 32 + 2 ^ 32" using assms c j by simp_all
      then show ?thesis using False lt by simp
    qed
    then show ?thesis using j by simp
  qed
  have gt: "tm_reads c > tm_reads d \<longleftrightarrow> n < m"
    unfolding word_less_nat_alt unat_tm_reads m_def [symmetric] n_def [symmetric]
    using usecs_strict [of n m] usecs_mono [of m n] by (cases "n < m") (simp_all add: not_less)
  have "usecs c = usecs m + k * usecs (2 ^ 32)" "usecs d = usecs n + (if n < m then k + 1 else k) * usecs (2 ^ 32)"
    unfolding c d usecs_turn by simp_all
  then show ?thesis unfolding gt unfolding tm_reads_def m_def [symmetric] n_def [symmetric] by (simp add: algebra_simps)
qed

lemma otPlatTimeGet_step:
  assumes "time_synced c s" and "c \<le> d" and "d - c < 2 ^ 32" and "w = of_nat (usecs (2 ^ 32))"
  shows "fst (otPlatTimeGet w (tm_reads d) s) = of_nat (usecs d)" and "time_synced d (snd (otPlatTimeGet w (tm_reads d) s))"
  using assms(1) tm_wraps [OF assms(2,3)] unfolding assms(4)
  by (auto simp: otPlatTimeGet_def time_synced_def Let_def algebra_simps split: if_splits)

text \<open>A sequence of readings.\<close>

fun time_gets :: "u64 \<Rightarrow> nat list \<Rightarrow> alarm \<Rightarrow> u64 list" where
  "time_gets w [] s = []"
| "time_gets w (d # ds) s = (case otPlatTimeGet w (tm_reads d) s of (t, s1) \<Rightarrow> t # time_gets w ds s1)"

fun less_than_turn_apart :: "nat \<Rightarrow> nat list \<Rightarrow> bool" where
  "less_than_turn_apart c [] = True"
| "less_than_turn_apart c (d # ds) = (c \<le> d \<and> d - c < 2 ^ 32 \<and> less_than_turn_apart d ds)"

lemma time_gets_synced:
  "time_synced c s \<Longrightarrow> less_than_turn_apart c ds \<Longrightarrow> w = of_nat (usecs (2 ^ 32)) \<Longrightarrow>
   time_gets w ds s = map (\<lambda>d. of_nat (usecs d)) ds"
proof (induction ds arbitrary: c s)
  case (Cons d ds)
  note otPlatTimeGet_step [of c s d w]
  with Cons show ?case by (auto simp: split_def)
qed simp

section \<open>The time left\<close>

lemma alarm_left_eq: "alarm_left t t0 dt = (if t - t0 \<le> dt then dt - (t - t0) else 0)"
proof -
  have "(NOT 0 - t0 + t + 1 :: u32) = t - t0" by simp
  then show ?thesis by (simp add: alarm_left_def)
qed

section \<open>Votes\<close>

definition adid :: "alarm_act \<Rightarrow> alarm \<Rightarrow> nat" where
  "adid a s = count_list (aacts s) a"

lemma adid_emit [simp]: "adid a (aemit b s) = adid a s + of_bool (a = b)"
  by (simp add: adid_def aemit_def)

lemma aemit_simps [simp]:
  "sEventFired (aemit a s) = sEventFired s" "sEventMicroFired (aemit a s) = sEventMicroFired s"
  by (simp_all add: aemit_def)

lemma adid_update [simp]:
  "adid a (s\<lparr>sEventFired := x\<rparr>) = adid a s" "adid a (s\<lparr>sEventMicroFired := x\<rparr>) = adid a s"
  "adid a (s\<lparr>u64SwTimestampUs := y\<rparr>) = adid a s" "adid a (s\<lparr>u64HwTimestampUs := y\<rparr>) = adid a s"
  "adid a (s\<lparr>alreadyInit := x\<rparr>) = adid a s"
  by (simp_all add: adid_def)

text \<open>The votes against low power that no pending alarm accounts for, besides that of one of the two.\<close>

definition alarm_votes :: "alarm \<Rightarrow> int" where
  "alarm_votes s = int (adid AlarmDisallowSleep s) - int (adid AlarmAllowSleep s)"

definition alarm_spare :: "alarm \<Rightarrow> int" where
  "alarm_spare s = alarm_votes s - of_bool (sEventFired s) - of_bool (sEventMicroFired s)"

text \<open>A call made by OpenThread reports no alarm, clears no flag and keeps the votes in step with the flags.\<close>

definition alarm_quiet :: "alarm \<Rightarrow> alarm \<Rightarrow> bool" where
  "alarm_quiet s t \<longleftrightarrow> alarm_spare t = alarm_spare s \<and> adid AlarmMilliFired t = adid AlarmMilliFired s \<and>
     adid AlarmMicroFired t = adid AlarmMicroFired s \<and> (sEventFired s \<longrightarrow> sEventFired t) \<and> (sEventMicroFired s \<longrightarrow> sEventMicroFired t)"

lemma alarm_quiet_trans: "alarm_quiet s t \<Longrightarrow> alarm_quiet t u \<Longrightarrow> alarm_quiet s u"
  by (auto simp: alarm_quiet_def)

lemmas alarm_quiet_defs = alarm_quiet_def alarm_spare_def alarm_votes_def

lemma alarm_quiet_callbacks:
  "alarm_quiet s (timerCallback s)" "alarm_quiet s (timerMicroCallback s)"
  by (simp_all add: alarm_quiet_defs timerCallback_def timerMicroCallback_def Let_def)

lemma alarm_quiet_time: "alarm_quiet s (snd (otPlatTimeGet w tm s))"
  by (simp add: alarm_quiet_defs otPlatTimeGet_def Let_def)

lemma alarm_quiet_emit: "a \<in> {TM_Stop h, TM_Start h d, TM_Open h, TM_InstallCallback h} \<Longrightarrow> alarm_quiet s (aemit a s)"
  by (auto simp: alarm_quiet_defs)

lemma alarm_quiet_do: "alarm_quiet s (alarm_do env c s)"
proof (cases c)
  case (MilliStartAt tm t0 dt)
  have "alarm_quiet s (snd (otPlatTimeGet (wrapUs env) tm (aemit (TM_Stop sAlarmTimerHandle) s)))"
    by (rule alarm_quiet_trans [OF alarm_quiet_emit alarm_quiet_time]) simp
  then show ?thesis
    using MilliStartAt by (auto simp: otPlatAlarmMilliStartAt_def otPlatAlarmMilliGetNow_def split_def Let_def
        elim: alarm_quiet_trans intro: alarm_quiet_emit alarm_quiet_callbacks)
next
  case (MicroStartAt tm t0 dt)
  have "alarm_quiet s (snd (otPlatTimeGet (wrapUs env) tm (aemit (TM_Stop sAlarmMicroTimerHandle) s)))"
    by (rule alarm_quiet_trans [OF alarm_quiet_emit alarm_quiet_time]) simp
  then show ?thesis
    using MicroStartAt by (auto simp: otPlatAlarmMicroStartAt_def otPlatAlarmMicroGetNow_def split_def Let_def
        elim: alarm_quiet_trans intro: alarm_quiet_emit alarm_quiet_callbacks)
qed (auto simp: otPlatAlarmMilliStop_def otPlatAlarmMicroStop_def otPlatAlarmMilliGetNow_def otPlatAlarmMicroGetNow_def split_def
    intro: alarm_quiet_emit alarm_quiet_time)

lemma alarm_quiet_calls: "alarm_quiet s (alarm_calls env cs s)"
proof (induction cs arbitrary: s)
  case Nil
  then show ?case by (simp add: alarm_calls_def alarm_quiet_def)
next
  case (Cons c cs)
  from alarm_quiet_trans [OF alarm_quiet_do Cons.IH] show ?case by (simp add: alarm_calls_def)
qed


lemma alarm_milli_turn_facts:
  "alarm_spare (alarm_milli_turn env s) = alarm_spare s"
  "adid AlarmMilliFired (alarm_milli_turn env s) = adid AlarmMilliFired s + of_bool (sEventFired s)"
  "adid AlarmMicroFired (alarm_milli_turn env s) = adid AlarmMicroFired s"
  "sEventMicroFired s \<Longrightarrow> sEventMicroFired (alarm_milli_turn env s)"
proof -
  let ?s = "aemit AlarmMilliFired (aemit AlarmAllowSleep (s\<lparr>sEventFired := False\<rparr>))"
  have "alarm_quiet ?s (alarm_calls env (onMilliFired env ?s) ?s)" by (rule alarm_quiet_calls)
  then show "alarm_spare (alarm_milli_turn env s) = alarm_spare s"
    "adid AlarmMilliFired (alarm_milli_turn env s) = adid AlarmMilliFired s + of_bool (sEventFired s)"
    "adid AlarmMicroFired (alarm_milli_turn env s) = adid AlarmMicroFired s"
    "sEventMicroFired s \<Longrightarrow> sEventMicroFired (alarm_milli_turn env s)"
    by (auto simp: alarm_milli_turn_def otPlatAlarmMilliFired_def Let_def alarm_quiet_defs)
qed

lemma alarm_micro_turn_facts:
  "alarm_spare (alarm_micro_turn env s) = alarm_spare s"
  "adid AlarmMicroFired (alarm_micro_turn env s) = adid AlarmMicroFired s + of_bool (sEventMicroFired s)"
  "adid AlarmMilliFired (alarm_micro_turn env s) = adid AlarmMilliFired s"
proof -
  let ?s = "aemit AlarmMicroFired (aemit AlarmAllowSleep (s\<lparr>sEventMicroFired := False\<rparr>))"
  have "alarm_quiet ?s (alarm_calls env (onMicroFired env ?s) ?s)" by (rule alarm_quiet_calls)
  then show "alarm_spare (alarm_micro_turn env s) = alarm_spare s"
    "adid AlarmMicroFired (alarm_micro_turn env s) = adid AlarmMicroFired s + of_bool (sEventMicroFired s)"
    "adid AlarmMilliFired (alarm_micro_turn env s) = adid AlarmMilliFired s"
    by (auto simp: alarm_micro_turn_def otPlatAlarmMicroFired_def Let_def alarm_quiet_defs)
qed

interpretation milli: wakeup_flag "\<lambda>_. True" sEventFired "\<lambda>s. alarm_votes s - of_bool (sEventMicroFired s)" "adid AlarmMilliFired"
  timerCallback "alarm_milli_turn env" for env
proof (unfold_locales, goal_cases)
  case (5 s)
  then show ?case using alarm_milli_turn_facts(1) [of env s] unfolding alarm_spare_def by linarith
qed (simp_all add: timerCallback_def Let_def alarm_votes_def alarm_milli_turn_facts(2))

interpretation micro: wakeup_flag "\<lambda>_. True" sEventMicroFired "\<lambda>s. alarm_votes s - of_bool (sEventFired s)" "adid AlarmMicroFired"
  timerMicroCallback "alarm_micro_turn env" for env
proof (unfold_locales, goal_cases)
  case (5 s)
  then show ?case using alarm_micro_turn_facts(1) [of env s] unfolding alarm_spare_def by linarith
qed (simp_all add: timerMicroCallback_def Let_def alarm_votes_def alarm_micro_turn_facts(2))

lemma alarm_step_spare: "alarm_spare (alarm_step env e s) = alarm_spare s"
proof (cases e)
  case AInit
  then show ?thesis by (simp add: otPlatAlarmInit_def Let_def alarm_spare_def alarm_votes_def)
qed (use alarm_quiet_do alarm_quiet_callbacks alarm_milli_turn_facts(1) alarm_micro_turn_facts(1) in
    \<open>auto simp: otPlatAlarmProcess_def alarm_quiet_def\<close>)

lemma alarm_run_spare: "alarm_spare (alarm_run env es s) = alarm_spare s"
  unfolding alarm_run_def by (induction es arbitrary: s) (simp_all add: alarm_step_spare)

lemma alarm_run_balanced:
  "adid AlarmDisallowSleep (alarm_run env es alarm_boot) = adid AlarmAllowSleep (alarm_run env es alarm_boot) +
     of_bool (sEventFired (alarm_run env es alarm_boot)) + of_bool (sEventMicroFired (alarm_run env es alarm_boot))"
proof -
  have "alarm_spare (alarm_run env es alarm_boot) = 0"
    unfolding alarm_run_spare by (simp add: alarm_spare_def alarm_votes_def adid_def alarm_boot_def)
  then show ?thesis by (simp add: alarm_spare_def alarm_votes_def of_bool_def split: if_splits)
qed

lemma timestamp_to_ms_nat: "n < 2 ^ 64 \<Longrightarrow> timestamp_to_ms (of_nat n) = of_nat (n div 1000)"
proof -
  assume "n < 2 ^ 64"
  then have "of_nat n div 1000 = (of_nat (n div 1000) :: u64)"
    by (simp add: word_unat_eq_iff unat_div unat_of_nat)
  moreover have "(ucast (of_nat (n div 1000) :: u64) :: u32) = of_nat (n div 1000)"
    by (simp add: word_unat_eq_iff unsigned_ucast_eq take_bit_eq_mod unat_of_nat mod_mod_cancel)
  ultimately show ?thesis by (simp add: timestamp_to_ms_def)
qed

section \<open>Properties\<close>

text \<open>
  C22. The 64-bit time follows the hardware: for any sequence of readings of the 32-bit counter less than one
  turn apart (36 hours), every call of \<open>otPlatTimeGet\<close> gives the microseconds of the counter as if it had never wrapped.
\<close>

theorem otPlatTimeGet_tracks_counter:
  assumes "less_than_turn_apart 0 ds" and "w = of_nat (usecs (2 ^ 32))"
  shows "time_gets w ds alarm_boot = map (\<lambda>d. of_nat (usecs d)) ds"
  using time_gets_synced [OF _ assms, of alarm_boot] by (simp add: time_synced_def alarm_boot_def usecs_def tm_reads_def)

theorem otPlatTimeGet_tracks_counter_witness:
  "time_gets 131072000000 [32768, 4294967295, 4295000064] alarm_boot = [1000000, 131071999969, 131073000000]"
  using otPlatTimeGet_tracks_counter [of "[32768, 4294967295, 4295000064]" 131072000000] by (simp add: usecs_def)

text \<open>
  C27. A millisecond alarm is set for exactly its deadline: started at the real time \<open>now\<close> for \<open>dt\<close> after \<open>T0\<close>, the
  timer runs for the time that is left, whatever wrap-around of the 32-bit times lies in between; a deadline that has
  passed makes the alarm pending at once.
\<close>

theorem otPlatAlarmMilliStartAt_deadline:
  assumes "time_synced c s" and "c \<le> d" and "d - c < 2 ^ 32" and "w = of_nat (usecs (2 ^ 32))" and "usecs d < 2 ^ 64"
    and "now = usecs d div 1000" and "T0 \<le> now" and "now - T0 < 2 ^ 32" and "t = otPlatAlarmMilliStartAt w (tm_reads d) (of_nat T0) dt s"
  shows "if now < T0 + unat dt
    then aacts t = aacts s @ [TM_Stop sAlarmTimerHandle, TM_Start sAlarmTimerHandle (of_nat (T0 + unat dt - now))] \<and>
         sEventFired t = sEventFired s
    else aacts t = aacts s @ TM_Stop sAlarmTimerHandle # (if sEventFired s then [] else [AlarmDisallowSleep]) @ [AlarmSignalPending] \<and>
         sEventFired t"
proof -
  let ?s = "aemit (TM_Stop sAlarmTimerHandle) s"
  have sy: "time_synced c ?s" using assms(1) by (simp add: time_synced_def aemit_def)
  obtain s1 where s1: "otPlatTimeGet w (tm_reads d) ?s = (of_nat (usecs d), s1)"
    using otPlatTimeGet_step(1) [OF sy assms(2-4)] by (metis prod.collapse)
  then have acts: "aacts s1 = aacts s @ [TM_Stop sAlarmTimerHandle]" "sEventFired s1 = sEventFired s"
    by (auto simp: otPlatTimeGet_def Let_def aemit_def)
  have gone: "(of_nat now - of_nat T0 :: u32) = of_nat (now - T0)" using assms(7) by (simp add: of_nat_diff)
  have gone_nat: "unat (of_nat (now - T0) :: u32) = now - T0" using assms(8) by (simp add: unat_of_nat)
  have left: "alarm_left (of_nat now) (of_nat T0) dt = (if now < T0 + unat dt then of_nat (T0 + unat dt - now) else 0)"
  proof (cases "now < T0 + unat dt")
    case True
    then have "of_nat (now - T0) \<le> dt" using gone_nat assms(7) by (simp add: word_le_nat_alt)
    moreover have "dt - of_nat (now - T0) = of_nat (unat dt - (now - T0))"
      using True assms(7) by (simp add: of_nat_diff)
    moreover have "unat dt - (now - T0) = T0 + unat dt - now" using assms(7) by simp
    ultimately show ?thesis using True unfolding alarm_left_eq gone by simp
  next
    case False
    then have "unat dt \<le> now - T0" by simp
    then have "of_nat (now - T0) \<le> dt \<Longrightarrow> dt = of_nat (now - T0)" using gone_nat by (simp add: word_le_nat_alt word_unat_eq_iff)
    then show ?thesis using False unfolding alarm_left_eq gone by auto
  qed
  have pos: "(0 :: u32) < of_nat n" if "0 < n" "n < 2 ^ 32" for n
    using that by (simp add: word_less_nat_alt unat_of_nat)
  have "unat dt < 2 ^ 32" using unsigned_less [of dt] by simp
  then have "T0 + unat dt - now < 2 ^ 32" using assms(7) by simp
  then have pos: "now < T0 + unat dt \<Longrightarrow> (0 :: u32) < of_nat (T0 + unat dt - now)" by (intro pos) simp_all
  have "t = (if 0 < alarm_left (of_nat now) (of_nat T0) dt
      then aemit (TM_Start sAlarmTimerHandle (alarm_left (of_nat now) (of_nat T0) dt)) s1 else timerCallback s1)"
    unfolding assms(9) otPlatAlarmMilliStartAt_def otPlatAlarmMilliGetNow_def
    using s1 timestamp_to_ms_nat [OF assms(5)] assms(6) by (simp add: Let_def)
  then show ?thesis
    unfolding left using pos acts by (auto simp: aemit_def timerCallback_def Let_def)
qed

theorem otPlatAlarmMilliStartAt_deadline_witness:
  "aacts (otPlatAlarmMilliStartAt 131072000000 (tm_reads 32768) 400 700 alarm_boot) =
     [TM_Stop sAlarmTimerHandle, TM_Start sAlarmTimerHandle 100]"
proof -
  have "time_synced 0 alarm_boot" by (simp add: time_synced_def alarm_boot_def usecs_def tm_reads_def)
  from otPlatAlarmMilliStartAt_deadline [OF this, of 32768 131072000000 1000 400 _ 700] show ?thesis
    by (simp add: usecs_def alarm_boot_def)
qed

text \<open>
  C31. Over any sequence of calls, timer expiries and turns of the main loop from boot, with handlers in OpenThread
  that call the alarm interface again, the driver holds exactly one vote against low power per pending alarm, and the
  next turn of the main loop reports every pending alarm once.
\<close>

theorem alarm_votes_and_reports:
  "let t = alarm_run env es alarm_boot; u = otPlatAlarmProcess env t in
     adid AlarmDisallowSleep t = adid AlarmAllowSleep t + of_bool (sEventFired t) + of_bool (sEventMicroFired t) \<and>
     adid AlarmMilliFired u = adid AlarmMilliFired t + of_bool (sEventFired t) \<and>
     adid AlarmMicroFired u \<in> {adid AlarmMicroFired t + of_bool (sEventMicroFired t)..adid AlarmMicroFired t + 1}"
proof -
  let ?t = "alarm_run env es alarm_boot"
  have "adid AlarmMilliFired (otPlatAlarmProcess env ?t) = adid AlarmMilliFired ?t + of_bool (sEventFired ?t)"
    by (simp add: otPlatAlarmProcess_def alarm_micro_turn_facts(3) milli.turn_handled)
  moreover have "adid AlarmMicroFired (otPlatAlarmProcess env ?t) = adid AlarmMicroFired ?t + of_bool (sEventMicroFired (alarm_milli_turn env ?t))"
    by (simp add: otPlatAlarmProcess_def alarm_milli_turn_facts(3) micro.turn_handled)
  ultimately show ?thesis
    using alarm_milli_turn_facts(4) [of ?t env] alarm_run_balanced [of env es] by (auto simp: Let_def of_bool_def)
qed

end
