(* ===== verification/Mcxw_Uart.thy ===== *)
theory Mcxw_Uart
  imports Wakeup_Flag
begin

text \<open>
  \<^verbatim>\<open>src/mcxw/platform/uart.c\<close>: the serial port of the command line. The serial manager of the SDK is outside; of it
  the model keeps the bytes in its ring buffer, which is as large as the receive buffer of the driver. The receive
  interrupt and the main loop run interleaved, so the main loop's turn is two steps.
\<close>

section \<open>State and operations\<close>

datatype uart_act =
    UartDisallowSleep | UartAllowSleep | UartSignalPending
  | otPlatUartReceived bytes | otPlatUartSendDone | UartWritten bytes

record uart =
  otPlatUartEnabled :: bool
  sUartRxFired :: bool
  gTxFlush :: bool
  gTxCntSerMgrIf :: u8
  s_ringBuffer :: bytes
  uacts :: "uart_act list"

definition uart_boot :: uart where
  "uart_boot = \<lparr>otPlatUartEnabled = False, sUartRxFired = False, gTxFlush = False, gTxCntSerMgrIf = 0,
     s_ringBuffer = [], uacts = []\<rparr>"

definition uemit :: "uart_act \<Rightarrow> uart \<Rightarrow> uart" where
  "uemit a s = s\<lparr>uacts := uacts s @ [a]\<rparr>"

text \<open>\<open>initOk\<close> is the answer of \<^verbatim>\<open>SerialManager_Init\<close>.\<close>

definition otPlatUartEnable :: "bool \<Rightarrow> uart \<Rightarrow> otError \<times> uart" where
  "otPlatUartEnable initOk s = (if \<not> initOk then (OT_ERROR_FAILED, s) else (OT_ERROR_NONE, s\<lparr>otPlatUartEnabled := True\<rparr>))"

definition otPlatUartDisable :: "uart \<Rightarrow> otError \<times> uart" where
  "otPlatUartDisable s = (OT_ERROR_NONE, s)"

text \<open>The two halves of \<^verbatim>\<open>otPlatUartProcess\<close>: taking the flag, and reading the ring when the flag was set.\<close>

definition uart_take_flag :: "uart \<Rightarrow> bool \<times> uart" where
  "uart_take_flag s =
     (if \<not> otPlatUartEnabled s then (False, s)
      else if sUartRxFired s then (True, uemit UartAllowSleep (s\<lparr>sUartRxFired := False\<rparr>))
      else (False, s))"

text \<open>\<^verbatim>\<open>SerialManager_TryRead\<close> moves at most \<open>sizeof_rxBuffer\<close> bytes out of the ring.\<close>

definition uart_read :: "nat \<Rightarrow> uart \<Rightarrow> uart" where
  "uart_read sizeof_rxBuffer s =
     (let xs = take sizeof_rxBuffer (s_ringBuffer s); s1 = s\<lparr>s_ringBuffer := drop sizeof_rxBuffer (s_ringBuffer s)\<rparr>
      in if xs \<noteq> [] then uemit (otPlatUartReceived xs) s1 else s1)"

definition otPlatUartProcess :: "nat \<Rightarrow> uart \<Rightarrow> uart" where
  "otPlatUartProcess sizeof_rxBuffer s =
     (case uart_take_flag s of (read_data, s1) \<Rightarrow> if read_data then uart_read sizeof_rxBuffer s1 else s1)"

text \<open>\<open>writeOk\<close> is the answer of \<^verbatim>\<open>SerialManager_WriteNonBlocking\<close>.\<close>

definition otPlatUartSend :: "bool \<Rightarrow> bytes \<Rightarrow> uart \<Rightarrow> otError \<times> uart" where
  "otPlatUartSend writeOk aBuf s =
     (let s1 = s\<lparr>gTxCntSerMgrIf := gTxCntSerMgrIf s + 1\<rparr>
      in if writeOk then (OT_ERROR_NONE, uemit (UartWritten aBuf) s1)
         else (OT_ERROR_FAILED, s1\<lparr>gTxCntSerMgrIf := gTxCntSerMgrIf s1 - 1\<rparr>))"

definition otPlatUartSendBlocking :: "bytes \<Rightarrow> uart \<Rightarrow> uart" where
  "otPlatUartSendBlocking aBuf s = (if otPlatUartEnabled s then uemit (UartWritten aBuf) s else s)"

definition Uart_RxCallBack :: "uart \<Rightarrow> uart" where
  "Uart_RxCallBack s =
     (if \<not> otPlatUartEnabled s then s
      else uemit UartSignalPending (if \<not> sUartRxFired s then uemit UartDisallowSleep (s\<lparr>sUartRxFired := True\<rparr>) else s))"

definition Uart_TxCallBack :: "uart \<Rightarrow> uart" where
  "Uart_TxCallBack s =
     (let s1 = (if gTxCntSerMgrIf s \<noteq> 0 then s\<lparr>gTxCntSerMgrIf := gTxCntSerMgrIf s - 1\<rparr> else s)
      in if \<not> gTxFlush s1 then uemit otPlatUartSendDone s1 else s1)"

definition FLUSH_TO_MS :: u32 where "FLUSH_TO_MS = 500"

text \<open>
  The wait of \<^verbatim>\<open>otPlatUartFlush\<close>: in every round it looks at the counter of pending transmissions, which interrupts
  change, and at the clock. \<open>irqs n\<close> are the transmit interrupts before round \<open>n\<close> and \<open>clock n\<close> its time.
\<close>

partial_function (option) flushLoop :: "(nat \<Rightarrow> nat) \<Rightarrow> (nat \<Rightarrow> u32) \<Rightarrow> u32 \<Rightarrow> nat \<Rightarrow> uart \<Rightarrow> uart option" where
  "flushLoop irqs clock start n s =
     (let s1 = (Uart_TxCallBack ^^ irqs n) s in
      if gTxCntSerMgrIf s1 \<noteq> 0
      then (if clock n - start > FLUSH_TO_MS then Some s1 else flushLoop irqs clock start (Suc n) s1)
      else Some s1)"

definition otPlatUartFlush :: "(nat \<Rightarrow> nat) \<Rightarrow> (nat \<Rightarrow> u32) \<Rightarrow> u32 \<Rightarrow> uart \<Rightarrow> uart option" where
  "otPlatUartFlush irqs clock start s =
     (if gTxFlush s then Some s
      else do { s1 \<leftarrow> flushLoop irqs clock start 0 (s\<lparr>gTxFlush := True\<rparr>); Some (s1\<lparr>gTxFlush := False\<rparr>) })"

section \<open>The wake-up flag\<close>

definition udid :: "uart_act \<Rightarrow> uart \<Rightarrow> nat" where
  "udid a s = count_list (uacts s) a"

definition uart_received :: "uart \<Rightarrow> bytes" where
  "uart_received s = concat (map (\<lambda>a. case a of otPlatUartReceived xs \<Rightarrow> xs | _ \<Rightarrow> []) (uacts s))"

lemma uemit_simps [simp]:
  "udid a (uemit b s) = udid a s + of_bool (a = b)" "sUartRxFired (uemit a s) = sUartRxFired s"
  "otPlatUartEnabled (uemit a s) = otPlatUartEnabled s" "s_ringBuffer (uemit a s) = s_ringBuffer s"
  "gTxFlush (uemit a s) = gTxFlush s" "gTxCntSerMgrIf (uemit a s) = gTxCntSerMgrIf s"
  "uart_received (uemit b s) = uart_received s @ (case b of otPlatUartReceived xs \<Rightarrow> xs | _ \<Rightarrow> [])"
  by (simp_all add: udid_def uemit_def uart_received_def)

lemma uart_update_simps [simp]:
  "udid a (s\<lparr>sUartRxFired := x\<rparr>) = udid a s" "udid a (s\<lparr>s_ringBuffer := r\<rparr>) = udid a s"
  "udid a (s\<lparr>gTxCntSerMgrIf := c\<rparr>) = udid a s" "udid a (s\<lparr>gTxFlush := x\<rparr>) = udid a s"
  "udid a (s\<lparr>otPlatUartEnabled := x\<rparr>) = udid a s"
  "uart_received (s\<lparr>sUartRxFired := x\<rparr>) = uart_received s" "uart_received (s\<lparr>s_ringBuffer := r\<rparr>) = uart_received s"
  "uart_received (s\<lparr>gTxCntSerMgrIf := c\<rparr>) = uart_received s" "uart_received (s\<lparr>gTxFlush := x\<rparr>) = uart_received s"
  "uart_received (s\<lparr>otPlatUartEnabled := x\<rparr>) = uart_received s"
  by (simp_all add: udid_def uart_received_def)

definition uart_votes :: "uart \<Rightarrow> int" where
  "uart_votes s = int (udid UartDisallowSleep s) - int (udid UartAllowSleep s)"

interpretation rx: wakeup_flag otPlatUartEnabled sUartRxFired uart_votes "udid UartAllowSleep" Uart_RxCallBack "otPlatUartProcess n" for n
  by unfold_locales
    (auto simp: Uart_RxCallBack_def otPlatUartProcess_def uart_take_flag_def uart_read_def uart_votes_def Let_def)

section \<open>Receiving, interleaved\<close>

text \<open>
  \<open>reading\<close> says that the main loop has taken the flag and not read yet; \<open>accepted\<close> are the bytes that the serial
  manager has put into its ring, in order. Transmissions and the flush run in between.
\<close>

record uart_sys =
  drv :: uart
  reading :: bool
  accepted :: bytes

inductive uart_step :: "nat \<Rightarrow> uart_sys \<Rightarrow> uart_sys \<Rightarrow> bool" for cap where
  receive: "otPlatUartEnabled (drv x) \<Longrightarrow> length (s_ringBuffer (drv x) @ xs) \<le> cap \<Longrightarrow>
     uart_step cap x (x\<lparr>drv := Uart_RxCallBack ((drv x)\<lparr>s_ringBuffer := s_ringBuffer (drv x) @ xs\<rparr>), accepted := accepted x @ xs\<rparr>)"
| take_flag: "\<not> reading x \<Longrightarrow> uart_take_flag (drv x) = (r, s) \<Longrightarrow> uart_step cap x (x\<lparr>drv := s, reading := r\<rparr>)"
| read: "reading x \<Longrightarrow> uart_step cap x (x\<lparr>drv := uart_read cap (drv x), reading := False\<rparr>)"
| enable: "otPlatUartEnable ok (drv x) = (e, s) \<Longrightarrow> uart_step cap x (x\<lparr>drv := s\<rparr>)"
| send: "otPlatUartSend ok xs (drv x) = (e, s) \<Longrightarrow> uart_step cap x (x\<lparr>drv := s\<rparr>)"
| send_blocking: "uart_step cap x (x\<lparr>drv := otPlatUartSendBlocking xs (drv x)\<rparr>)"
| sent: "uart_step cap x (x\<lparr>drv := Uart_TxCallBack (drv x)\<rparr>)"
| flush: "otPlatUartFlush irqs clock start (drv x) = Some s \<Longrightarrow> uart_step cap x (x\<lparr>drv := s\<rparr>)"


text \<open>What the transmit side leaves alone.\<close>

definition uart_view :: "uart \<Rightarrow> bool \<times> bool \<times> bytes \<times> bytes \<times> int" where
  "uart_view s = (otPlatUartEnabled s, sUartRxFired s, s_ringBuffer s, uart_received s, uart_votes s)"

lemma uart_view_tx [simp]: "uart_view (Uart_TxCallBack s) = uart_view s"
  by (simp add: uart_view_def Uart_TxCallBack_def Let_def uart_votes_def)

lemma uart_view_txs [simp]: "uart_view ((Uart_TxCallBack ^^ n) s) = uart_view s"
  by (induction n) simp_all

lemma uart_view_flush [simp]: "uart_view (s\<lparr>gTxFlush := x\<rparr>) = uart_view s"
  by (simp add: uart_view_def uart_votes_def)

lemma uart_view_send: "otPlatUartSend ok xs s = (e, t) \<Longrightarrow> uart_view t = uart_view s"
  by (auto simp: uart_view_def otPlatUartSend_def Let_def uart_votes_def split: if_splits)

lemma uart_view_blocking [simp]: "uart_view (otPlatUartSendBlocking xs s) = uart_view s"
  by (simp add: uart_view_def otPlatUartSendBlocking_def uart_votes_def)

lemma uart_view_flushLoop:
  assumes "flushLoop irqs clock start n s = Some t"
  shows "uart_view t = uart_view s"
proof (rule flushLoop.raw_induct [OF _ assms, where P = "\<lambda>irqs clock start n s t. uart_view t = uart_view s"], goal_cases)
  case (1 f irqs clock start n s t)
  from 1(2) show ?case by (auto simp: Let_def dest!: 1(1) split: if_splits)
qed

lemma uart_view_Flush: "otPlatUartFlush irqs clock start s = Some t \<Longrightarrow> uart_view t = uart_view s"
  by (auto simp: otPlatUartFlush_def dest!: uart_view_flushLoop split: if_splits bind_splits)

text \<open>The wait ends as soon as a round finds the counter at zero or the time up.\<close>

lemma flushLoop_returns:
  assumes "n \<le> k" and "clock k - start > FLUSH_TO_MS"
  shows "\<exists>t. flushLoop irqs clock start n s = Some t"
  using assms(1)
proof (induction "k - n" arbitrary: n s)
  case 0
  then show ?case using assms(2) by (subst flushLoop.simps) (simp add: Let_def)
next
  case (Suc m)
  then have "m = k - Suc n" "Suc n \<le> k" by simp_all
  with Suc.hyps(1) obtain t where "flushLoop irqs clock start (Suc n) ((Uart_TxCallBack ^^ irqs n) s) = Some t" by blast
  then show ?case by (subst flushLoop.simps) (auto simp: Let_def)
qed

definition uart_safe :: "nat \<Rightarrow> uart_sys \<Rightarrow> bool" where
  "uart_safe cap x \<longleftrightarrow>
     accepted x = uart_received (drv x) @ s_ringBuffer (drv x) \<and> length (s_ringBuffer (drv x)) \<le> cap \<and>
     (s_ringBuffer (drv x) \<noteq> [] \<longrightarrow> sUartRxFired (drv x) \<or> reading x) \<and>
     uart_votes (drv x) = of_bool (sUartRxFired (drv x))"

lemma uart_safe_view:
  "uart_safe cap x \<Longrightarrow> uart_view s = uart_view (drv x) \<Longrightarrow> uart_safe cap (x\<lparr>drv := s\<rparr>)"
  by (simp add: uart_safe_def uart_view_def)

lemma uart_safe_step:
  assumes "uart_step cap x y" and "uart_safe cap x"
  shows "uart_safe cap y"
  using assms
proof (cases rule: uart_step.cases)
  case (receive xs)
  then show ?thesis using assms(2) by (auto simp: uart_safe_def Uart_RxCallBack_def uart_votes_def)
next
  case (take_flag r s)
  then show ?thesis using assms(2) by (auto simp: uart_safe_def uart_take_flag_def uart_votes_def split: if_splits)
next
  case read
  then show ?thesis using assms(2) by (auto simp: uart_safe_def uart_read_def uart_votes_def Let_def)
next
  case (enable ok e s)
  then show ?thesis using assms(2) by (auto simp: uart_safe_def otPlatUartEnable_def uart_votes_def split: if_splits)
next
  case (send ok xs e s)
  then show ?thesis using uart_safe_view [OF assms(2)] uart_view_send by blast
next
  case (flush irqs clock start s)
  then show ?thesis using uart_safe_view [OF assms(2)] uart_view_Flush by blast
qed (use uart_safe_view [OF assms(2)] in auto)

definition uart_start :: uart_sys where
  "uart_start = \<lparr>drv = uart_boot, reading = False, accepted = []\<rparr>"

lemma uart_safe_reachable:
  assumes "(uart_step cap)\<^sup>*\<^sup>* uart_start x"
  shows "uart_safe cap x"
  using assms
proof (induction rule: rtranclp_induct)
  case base
  then show ?case by (simp add: uart_safe_def uart_start_def uart_boot_def uart_received_def uart_votes_def udid_def)
qed (auto intro: uart_safe_step)

section \<open>Properties\<close>

text \<open>
  C18. No received byte is lost or stuck: in every interleaving of the receive interrupt, the two halves of the main
  loop's turn and the transmit side, the bytes delivered to OpenThread are a prefix of those accepted by the serial
  manager, the rest is in the ring, and a ring that is not empty has the flag set (with its vote against low
  power) or a read under way. So with the main loop at rest and the flag clear, everything has been delivered.
\<close>

theorem uart_receives_everything:
  assumes "(uart_step cap)\<^sup>*\<^sup>* uart_start x"
  shows "accepted x = uart_received (drv x) @ s_ringBuffer (drv x) \<and>
    uart_votes (drv x) = of_bool (sUartRxFired (drv x)) \<and>
    (sUartRxFired (drv x) \<or> reading x \<or> uart_received (drv x) = accepted x)"
  using uart_safe_reachable [OF assms] by (auto simp: uart_safe_def)

text \<open>A state of the system with no transmission, for the witness.\<close>

definition uart_at :: "bool \<Rightarrow> bytes \<Rightarrow> uart_act list \<Rightarrow> bool \<Rightarrow> bytes \<Rightarrow> uart_sys" where
  "uart_at fired ring acts rd acc =
     \<lparr>drv = \<lparr>otPlatUartEnabled = True, sUartRxFired = fired, gTxFlush = False, gTxCntSerMgrIf = 0, s_ringBuffer = ring, uacts = acts\<rparr>,
      reading = rd, accepted = acc\<rparr>"

lemma uart_at_steps:
  "uart_step 8 uart_start (uart_at False [] [] False [])"
  "length (ring @ xs) \<le> 8 \<Longrightarrow> uart_step 8 (uart_at False ring acts rd acc)
     (uart_at True (ring @ xs) (acts @ [UartDisallowSleep, UartSignalPending]) rd (acc @ xs))"
  "uart_step 8 (uart_at True ring acts False acc) (uart_at False ring (acts @ [UartAllowSleep]) True acc)"
  "ring \<noteq> [] \<Longrightarrow> uart_step 8 (uart_at fired ring acts True acc)
     (uart_at fired (drop 8 ring) (acts @ [otPlatUartReceived (take 8 ring)]) False acc)"
proof -
  note defs = uart_at_def uart_start_def uart_boot_def Uart_RxCallBack_def uart_take_flag_def uart_read_def uemit_def otPlatUartEnable_def Let_def
  show "uart_step 8 uart_start (uart_at False [] [] False [])"
    using uart_step.enable [of True uart_start OT_ERROR_NONE _ 8] by (simp add: defs)
  show "length (ring @ xs) \<le> 8 \<Longrightarrow> uart_step 8 (uart_at False ring acts rd acc)
     (uart_at True (ring @ xs) (acts @ [UartDisallowSleep, UartSignalPending]) rd (acc @ xs))"
    using uart_step.receive [of "uart_at False ring acts rd acc" xs 8] by (simp add: defs)
  show "uart_step 8 (uart_at True ring acts False acc) (uart_at False ring (acts @ [UartAllowSleep]) True acc)"
    using uart_step.take_flag [of "uart_at True ring acts False acc" True _ 8] by (simp add: defs)
  show "ring \<noteq> [] \<Longrightarrow> uart_step 8 (uart_at fired ring acts True acc)
     (uart_at fired (drop 8 ring) (acts @ [otPlatUartReceived (take 8 ring)]) False acc)"
    using uart_step.read [of "uart_at fired ring acts True acc" 8] by (auto simp: defs)
qed

lemma uart_then: "(uart_step cap)\<^sup>*\<^sup>* x y \<Longrightarrow> uart_step cap y z \<Longrightarrow> (uart_step cap)\<^sup>*\<^sup>* x z"
  by (rule rtranclp.rtrancl_into_rtrancl)

theorem uart_receives_everything_witness:
  "\<exists>x. (uart_step 8)\<^sup>*\<^sup>* uart_start x \<and> accepted x = [65, 66, 67] \<and> \<not> sUartRxFired (drv x) \<and> \<not> reading x \<and>
       uart_received (drv x) = [65, 66, 67]"
proof -
  let ?a = "[UartDisallowSleep, UartSignalPending]"
  let ?b = "?a @ [UartAllowSleep] @ ?a"
  define x where "x = uart_at False [] (?b @ [otPlatUartReceived [65, 66, 67]] @ [UartAllowSleep]) True [65, 66, 67]"
  have s1: "uart_step 8 (uart_at False [] [] False []) (uart_at True [65, 66] ?a False [65, 66])"
    using uart_at_steps(2) [of "[]" "[65, 66]" "[]" False "[]"] by simp
  have s2: "uart_step 8 (uart_at True [65, 66] ?a False [65, 66]) (uart_at False [65, 66] (?a @ [UartAllowSleep]) True [65, 66])"
    by (rule uart_at_steps(3))
  have s3: "uart_step 8 (uart_at False [65, 66] (?a @ [UartAllowSleep]) True [65, 66]) (uart_at True [65, 66, 67] ?b True [65, 66, 67])"
    using uart_at_steps(2) [of "[65, 66]" "[67]" "?a @ [UartAllowSleep]" True "[65, 66]"] by simp
  have s4: "uart_step 8 (uart_at True [65, 66, 67] ?b True [65, 66, 67])
      (uart_at True [] (?b @ [otPlatUartReceived [65, 66, 67]]) False [65, 66, 67])"
    using uart_at_steps(4) [of "[65, 66, 67]" True ?b "[65, 66, 67]"] by simp
  have s5: "uart_step 8 (uart_at True [] (?b @ [otPlatUartReceived [65, 66, 67]]) False [65, 66, 67]) x"
    using uart_at_steps(3) [of "[]" "?b @ [otPlatUartReceived [65, 66, 67]]" "[65, 66, 67]"] by (simp add: x_def)
  have s6: "uart_step 8 x (x\<lparr>drv := uart_read 8 (drv x), reading := False\<rparr>)"
    by (rule uart_step.read) (simp add: x_def uart_at_def)
  have "(uart_step 8)\<^sup>*\<^sup>* uart_start (uart_at False [] [] False [])" using uart_at_steps(1) by (rule r_into_rtranclp)
  note s1 = uart_then [OF this s1]
  note s2 = uart_then [OF s1 s2]
  note s3 = uart_then [OF s2 s3]
  note s4 = uart_then [OF s3 s4]
  note s5 = uart_then [OF s4 s5]
  note run = uart_then [OF s5 s6]
  define y where "y = x\<lparr>drv := uart_read 8 (drv x), reading := False\<rparr>"
  note run = run [folded y_def]
  have y: "accepted y = [65, 66, 67]" "\<not> sUartRxFired (drv y)" "\<not> reading y"
    by (simp_all add: y_def x_def uart_at_def uart_read_def)
  then have "uart_received (drv y) = [65, 66, 67]" using uart_receives_everything [OF run] by metis
  with run y show ?thesis by blast
qed

end
