(* ===== verification/Mcxw_System.thy ===== *)
theory Mcxw_System
  imports Mcxw_Radio_Power Mcxw_Alarm Mcxw_Uart
begin

text \<open>
  \<^verbatim>\<open>src/mcxw/platform/system.c\<close>: the main loop that serves the drivers and decides about low power. The radio, the
  alarm and the serial port share one count of votes against low power, kept by the power module of the SDK; here
  it is the sum of what the three drivers did.
\<close>

section \<open>The drivers together\<close>

record mcxw_env =
  renv :: env
  aenv :: alarm_env
  sizeof_rxBuffer :: nat

record mcxw =
  radioS :: radio
  alarmS :: alarm
  uartS :: uart_sys

text \<open>\<open>otSysInit\<close> as far as it concerns the three drivers.\<close>

definition mcxw_boot :: "mcxw_env \<Rightarrow> mcxw" where
  "mcxw_boot env = \<lparr>radioS = radio_boot (renv env), alarmS = otPlatAlarmInit alarm_boot, uartS = uart_start\<rparr>"

definition lpDisallowCount :: "mcxw \<Rightarrow> int" where
  "lpDisallowCount x =
     int (times_done PWR_DisallowDeviceToSleep (radioS x)) - int (times_done PWR_AllowDeviceToSleep (radioS x)) +
     alarm_votes (alarmS x) + uart_votes (drv (uartS x))"

text \<open>
  One turn of the main loop. At its end \<^verbatim>\<open>PWR_EnterLowPower\<close>, called with interrupts off, enters low power when there
  is no vote against it; \<open>btnAllow\<close> is the flag of the buttons and \<open>taskletsPending\<close> the answer of OpenThread.
\<close>

definition otSysProcessDrivers :: "mcxw_env \<Rightarrow> bool \<Rightarrow> bool \<Rightarrow> mcxw \<Rightarrow> (bool \<times> mcxw) option" where
  "otSysProcessDrivers env btnAllow taskletsPending x =
     do { r \<leftarrow> otPlatRadioProcess (renv env) (radioS x);
          let y = x\<lparr>radioS := r, alarmS := otPlatAlarmProcess (aenv env) (alarmS x),
                    uartS := (uartS x)\<lparr>drv := otPlatUartProcess (sizeof_rxBuffer env) (drv (uartS x))\<rparr>\<rparr>;
          Some (btnAllow \<and> \<not> taskletsPending \<and> lpDisallowCount y = 0, y) }"

text \<open>Everything that happens between the turns, to any of the drivers.\<close>

inductive sys_step :: "mcxw_env \<Rightarrow> mcxw \<Rightarrow> mcxw \<Rightarrow> bool" for env where
  radio: "radio_do (renv env) op (radioS x) = Some r \<Longrightarrow> sys_step env x (x\<lparr>radioS := r\<rparr>)"
| alarm: "sys_step env x (x\<lparr>alarmS := alarm_step (aenv env) e (alarmS x)\<rparr>)"
| uart: "uart_step (sizeof_rxBuffer env) (uartS x) u \<Longrightarrow> sys_step env x (x\<lparr>uartS := u\<rparr>)"
| turn: "\<not> reading (uartS x) \<Longrightarrow> otSysProcessDrivers env allow tasks x = Some (slept, y) \<Longrightarrow> sys_step env x y"

section \<open>Invariant\<close>

definition sys_ok :: "mcxw_env \<Rightarrow> mcxw \<Rightarrow> bool" where
  "sys_ok env x \<longleftrightarrow> sleep_balance (radioS x) \<and> alarm_spare (alarmS x) = 0 \<and> uart_safe (sizeof_rxBuffer env) (uartS x)"

lemma uart_safe_process:
  assumes "uart_safe cap x" and "\<not> reading x"
  shows "uart_safe cap (x\<lparr>drv := otPlatUartProcess cap (drv x)\<rparr>)"
proof -
  obtain r s where t: "uart_take_flag (drv x) = (r, s)" by fastforce
  then have 1: "uart_safe cap (x\<lparr>drv := s, reading := r\<rparr>)" using uart_safe_step [OF uart_step.take_flag [OF assms(2) t] assms(1)] by blast
  show ?thesis
  proof (cases r)
    case True
    then have "uart_step cap (x\<lparr>drv := s, reading := r\<rparr>) (x\<lparr>drv := uart_read cap s, reading := False\<rparr>)"
      using uart_step.read [of "x\<lparr>drv := s, reading := r\<rparr>" cap] by simp
    from uart_safe_step [OF this 1] True t assms(2) show ?thesis by (simp add: otPlatUartProcess_def uart_safe_def)
  next
    case False
    then show ?thesis using 1 t by (simp add: otPlatUartProcess_def uart_safe_def)
  qed
qed

lemma radio_do_balance:
  "callbacks_call_api env \<Longrightarrow> radio_do env op s = Some t \<Longrightarrow> sleep_balance s \<Longrightarrow> sleep_balance t"
  using slp.run [of env "[op]" s t] by simp

lemma sys_ok_process:
  assumes "callbacks_call_api (renv env)" and "sys_ok env x" and "\<not> reading (uartS x)"
    and "otSysProcessDrivers env allow tasks x = Some (slept, y)"
  shows "sys_ok env y" and "slept \<longleftrightarrow> allow \<and> \<not> tasks \<and> lpDisallowCount y = 0" and "\<not> reading (uartS y)"
proof -
  from assms(4) obtain r where r: "otPlatRadioProcess (renv env) (radioS x) = Some r"
    "y = x\<lparr>radioS := r, alarmS := otPlatAlarmProcess (aenv env) (alarmS x),
           uartS := (uartS x)\<lparr>drv := otPlatUartProcess (sizeof_rxBuffer env) (drv (uartS x))\<rparr>\<rparr>"
    "slept \<longleftrightarrow> allow \<and> \<not> tasks \<and> lpDisallowCount y = 0"
    by (auto simp: otSysProcessDrivers_def Let_def split: bind_splits)
  have "sleep_balance r" using radio_do_balance [OF assms(1), of OpProcess "radioS x" r] r(1) assms(2) by (simp add: sys_ok_def)
  moreover have "alarm_spare (otPlatAlarmProcess (aenv env) (alarmS x)) = 0"
    using alarm_step_spare [of "aenv env" AProcess "alarmS x"] assms(2) by (simp add: sys_ok_def)
  moreover have "uart_safe (sizeof_rxBuffer env) (uartS y)"
    using uart_safe_process [OF _ assms(3)] assms(2) r(2) by (simp add: sys_ok_def)
  ultimately show "sys_ok env y" using r(2) by (simp add: sys_ok_def)
  show "slept \<longleftrightarrow> allow \<and> \<not> tasks \<and> lpDisallowCount y = 0" "\<not> reading (uartS y)" using r(2,3) assms(3) by simp_all
qed

lemma sys_ok_reachable:
  assumes "callbacks_call_api (renv env)" and "(sys_step env)\<^sup>*\<^sup>* (mcxw_boot env) x"
  shows "sys_ok env x"
  using assms(2)
proof (induction rule: rtranclp_induct)
  case base
  have "sleep_balance (radio_boot (renv env))" by (simp add: sleep_balance_def times_done_def radio_boot_def)
  moreover have "alarm_spare (otPlatAlarmInit alarm_boot) = 0"
    using alarm_step_spare [of _ AInit alarm_boot] by (simp add: alarm_spare_def alarm_votes_def adid_def alarm_boot_def)
  moreover have "uart_safe (sizeof_rxBuffer env) uart_start" by (rule uart_safe_reachable) simp
  ultimately show ?case by (simp add: sys_ok_def mcxw_boot_def)
next
  case (step x y)
  from step(2) show ?case
  proof cases
    case (radio op r)
    then show ?thesis using step(3) radio_do_balance [OF assms(1)] by (auto simp: sys_ok_def)
  next
    case (alarm e)
    then show ?thesis using step(3) by (simp add: sys_ok_def alarm_step_spare)
  next
    case (uart u)
    then show ?thesis using step(3) uart_safe_step by (auto simp: sys_ok_def)
  next
    case (turn allow tasks slept)
    then show ?thesis using sys_ok_process(1) [OF assms(1) step(3)] by blast
  qed
qed

text \<open>The count of votes is the number of pending events.\<close>

lemma sys_ok_votes:
  assumes "sys_ok env x"
  shows "lpDisallowCount x = of_bool (is_radio_event (radioS x)) + of_bool (sEventFired (alarmS x)) +
    of_bool (sEventMicroFired (alarmS x)) + of_bool (sUartRxFired (drv (uartS x)))"
proof -
  have "int (times_done PWR_DisallowDeviceToSleep (radioS x)) - int (times_done PWR_AllowDeviceToSleep (radioS x)) =
    of_bool (is_radio_event (radioS x))"
    using assms by (simp add: sys_ok_def sleep_balance_def)
  moreover have "alarm_votes (alarmS x) = of_bool (sEventFired (alarmS x)) + of_bool (sEventMicroFired (alarmS x))"
    using assms by (simp add: sys_ok_def alarm_spare_def)
  moreover have "uart_votes (drv (uartS x)) = of_bool (sUartRxFired (drv (uartS x)))"
    using assms by (simp add: sys_ok_def uart_safe_def)
  ultimately show ?thesis by (simp add: lpDisallowCount_def)
qed

section \<open>Properties\<close>

text \<open>
  C6. The main loop sleeps exactly when nothing waits: after any history of the radio, the alarms, the serial port
  and the main loop, a turn ends in low power if and only if the buttons allow it, OpenThread has no tasklet and no
  driver has a pending event; then no received byte waits in the serial ring either. No vote is leaked (the device
  would never sleep again) and none is missing (an event would wait in low power).
\<close>

theorem mcxw_sleeps_iff_idle:
  assumes "callbacks_call_api (renv env)" and "(sys_step env)\<^sup>*\<^sup>* (mcxw_boot env) x" and "\<not> reading (uartS x)"
    and "otSysProcessDrivers env allow tasks x = Some (slept, y)"
  shows "(slept \<longleftrightarrow> allow \<and> \<not> tasks \<and> \<not> is_radio_event (radioS y) \<and> \<not> sEventFired (alarmS y) \<and>
      \<not> sEventMicroFired (alarmS y) \<and> \<not> sUartRxFired (drv (uartS y))) \<and>
    (slept \<longrightarrow> uart_received (drv (uartS y)) = accepted (uartS y))"
proof -
  note y = sys_ok_process [OF assms(1) sys_ok_reachable [OF assms(1,2)] assms(3,4)]
  have "uart_safe (sizeof_rxBuffer env) (uartS y)" using y(1) by (simp add: sys_ok_def)
  then show ?thesis using y(2,3) sys_ok_votes [OF y(1)] by (auto simp: uart_safe_def of_bool_def split: if_splits)
qed

definition mcxw_sample_env :: mcxw_env where
  "mcxw_sample_env = \<lparr>renv = sample_env, aenv = \<lparr>wrapUs = 131072000000, onMilliFired = (\<lambda>s. []), onMicroFired = (\<lambda>s. [])\<rparr>,
     sizeof_rxBuffer = 8\<rparr>"

text \<open>Two bytes arrive and the millisecond timer expires; the next turn delivers both events and sleeps.\<close>

theorem mcxw_sleeps_iff_idle_witness:
  "\<exists>x y. (sys_step mcxw_sample_env)\<^sup>*\<^sup>* (mcxw_boot mcxw_sample_env) x \<and> sUartRxFired (drv (uartS x)) \<and> sEventFired (alarmS x) \<and>
     otSysProcessDrivers mcxw_sample_env True False x = Some (True, y) \<and> uart_received (drv (uartS y)) = [65, 66]"
proof -
  let ?env = mcxw_sample_env and ?u = "uart_at True [65, 66] [UartDisallowSleep, UartSignalPending] False [65, 66]"
  define b where "b = mcxw_boot ?env"
  define x where "x = b\<lparr>uartS := ?u, alarmS := timerCallback (alarmS b)\<rparr>"
  have "sys_step ?env b (b\<lparr>uartS := uart_at False [] [] False []\<rparr>)"
    using sys_step.uart [of ?env b] uart_at_steps(1) by (simp add: b_def mcxw_boot_def mcxw_sample_env_def)
  moreover have "sys_step ?env (b\<lparr>uartS := uart_at False [] [] False []\<rparr>) (b\<lparr>uartS := ?u\<rparr>)"
    using sys_step.uart [of ?env "b\<lparr>uartS := uart_at False [] [] False []\<rparr>" ?u] uart_at_steps(2) [of "[]" "[65, 66]" "[]" False "[]"]
    by (simp add: mcxw_sample_env_def)
  moreover have "sys_step ?env (b\<lparr>uartS := ?u\<rparr>) x"
    using sys_step.alarm [of ?env "b\<lparr>uartS := ?u\<rparr>" AMilliExpires] by (simp add: x_def)
  ultimately have run: "(sys_step ?env)\<^sup>*\<^sup>* (mcxw_boot ?env) x" unfolding b_def [symmetric] by auto
  obtain r where r: "otPlatRadioProcess sample_env (radio_boot sample_env) = Some r" "\<not> is_radio_event r"
    by (simp add: otPlatRadioProcess_def radio_rx_process_def radio_rx_loop.simps [of sample_env] get_frame_rx_ring_def
        radio_boot_def emit_def Let_def)
  define y where "y = x\<lparr>radioS := r, alarmS := otPlatAlarmProcess (aenv ?env) (alarmS x), uartS := ?u\<lparr>drv := otPlatUartProcess 8 (drv ?u)\<rparr>\<rparr>"
  define slept where "slept \<longleftrightarrow> lpDisallowCount y = 0"
  have parts: "renv ?env = sample_env" "sizeof_rxBuffer ?env = 8" "radioS x = radio_boot sample_env" "uartS x = ?u"
    by (simp_all add: x_def b_def mcxw_boot_def mcxw_sample_env_def)
  have y: "otSysProcessDrivers ?env True False x = Some (slept, y)" "radioS y = r"
    "alarmS y = otPlatAlarmProcess (aenv ?env) (alarmS x)" "uartS y = ?u\<lparr>drv := otPlatUartProcess 8 (drv ?u)\<rparr>"
    using r(1) parts by (simp_all add: otSysProcessDrivers_def Let_def slept_def y_def)
  have x: "\<not> reading (uartS x)" "sUartRxFired (drv (uartS x))" "sEventFired (alarmS x)"
    by (simp_all add: x_def uart_at_def timerCallback_def Let_def)
  have "callbacks_call_api (renv ?env)" using sample_env_calls by (simp add: mcxw_sample_env_def)
  note p = mcxw_sleeps_iff_idle [OF this run x(1) y(1)]
  have "\<not> sEventFired (alarmS y)" "\<not> sEventMicroFired (alarmS y)"
    unfolding y(3) by (simp_all add: x_def b_def mcxw_boot_def mcxw_sample_env_def timerCallback_def otPlatAlarmProcess_def
        alarm_milli_turn_def alarm_micro_turn_def otPlatAlarmMilliFired_def alarm_calls_def otPlatAlarmInit_def alarm_boot_def Let_def)
  moreover have "\<not> sUartRxFired (drv (uartS y))"
    unfolding y(4) by (simp add: uart_at_def otPlatUartProcess_def uart_take_flag_def uart_read_def)
  moreover have "accepted (uartS y) = [65, 66]" unfolding y(4) by (simp add: uart_at_def)
  ultimately have "slept" "uart_received (drv (uartS y)) = [65, 66]" using p r(2) y(2) by simp_all
  with run x y(1) show ?thesis by (intro exI [of _ x] exI [of _ y]) simp
qed

end
