(* ===== verification/K32w0_Alarm.thy ===== *)
theory K32w0_Alarm
  imports OtNxp_Prelude
begin

text \<open>
  \<^verbatim>\<open>src/k32w0/platform/alarm.c\<close> over the wake timers (\<^verbatim>\<open>ALARM_USE_WTIMER\<close>): both alarms share \<^verbatim>\<open>alarmStartAt\<close>, which decides
  on a circle of 32-bit times whether a deadline lies ahead. The wake timer and its time stamp are outside: requests
  to it are appended to \<open>kacts\<close> and a reading of the time is an argument of the calls that take one.
\<close>

section \<open>State and operations\<close>

datatype k32_timer = otTimer | otMicroTimer

datatype k32_act =
    Timestamp_Init | Timestamp_Deinit | TMR_eRemoveActivity k32_timer | TMR_eScheduleActivity32kTicks k32_timer u32
  | K32SignalPending | App_NotifyWakeup | K32MilliFired | K32MicroFired | K32DiagAlarmFired

record k32_alarm =
  kEventFired :: bool
  sMicroEventFired :: bool
  kacts :: "k32_act list"

definition k32_alarm_boot :: k32_alarm where
  "k32_alarm_boot = \<lparr>kEventFired = False, sMicroEventFired = False, kacts = []\<rparr>"

definition kemit :: "k32_act \<Rightarrow> k32_alarm \<Rightarrow> k32_alarm" where
  "kemit a s = s\<lparr>kacts := kacts s @ [a]\<rparr>"

definition US_PER_MS :: u64 where "US_PER_MS = 1000"

definition K32WAlarmInit :: "k32_alarm \<Rightarrow> k32_alarm" where
  "K32WAlarmInit s = kemit Timestamp_Init s"

definition K32WAlarmClean :: "k32_alarm \<Rightarrow> k32_alarm" where
  "K32WAlarmClean s =
     kemit (TMR_eRemoveActivity otMicroTimer) (kemit (TMR_eRemoveActivity otTimer) (kemit Timestamp_Deinit s))"

definition k32_otPlatAlarmMilliGetNow :: "u64 \<Rightarrow> u32" where
  "k32_otPlatAlarmMilliGetNow timestampUs = ucast (timestampUs div US_PER_MS)"

definition k32_otPlatAlarmMicroGetNow :: "u64 \<Rightarrow> u32" where
  "k32_otPlatAlarmMicroGetNow timestampUs = ucast timestampUs"

text \<open>The units left until \<open>t0 + dt\<close>, where \<open>now\<close> may lie on either side of the interval.\<close>

definition units_left :: "u32 \<Rightarrow> u32 \<Rightarrow> u32 \<Rightarrow> u32" where
  "units_left now t0 dt =
     (let t1 = t0 + dt in
      if now - t0 \<le> dt \<and> t1 - now \<le> dt then t1 - now
      else if now - t1 > t0 - now then t1 - now
      else 0)"

text \<open>The SDK's conversion to ticks of the wake timer and the largest value of its 28-bit counter.\<close>

record k32_env =
  TMR_ConvertUsToTicks :: "u64 \<Rightarrow> u64"
  WTIMER1_MAX_VALUE :: u32
  diagMode :: bool

definition set_event :: "k32_timer \<Rightarrow> k32_alarm \<Rightarrow> k32_alarm" where
  "set_event t s = (case t of otTimer \<Rightarrow> s\<lparr>kEventFired := True\<rparr> | otMicroTimer \<Rightarrow> s\<lparr>sMicroEventFired := True\<rparr>)"

definition alarmStartAt :: "k32_env \<Rightarrow> u64 \<Rightarrow> k32_timer \<Rightarrow> u32 \<Rightarrow> u32 \<Rightarrow> bool \<Rightarrow> k32_alarm \<Rightarrow> k32_alarm" where
  "alarmStartAt env timestampUs t t0 dt ms s =
     (let now = (if ms then k32_otPlatAlarmMilliGetNow timestampUs else k32_otPlatAlarmMicroGetNow timestampUs);
          target = units_left now t0 dt;
          targetTicks = (if ms then ucast (TMR_ConvertUsToTicks env (ucast target * US_PER_MS))
                         else ucast (TMR_ConvertUsToTicks env (ucast target)) :: u32)
      in if targetTicks > 0
         then kemit (TMR_eScheduleActivity32kTicks t (if targetTicks > WTIMER1_MAX_VALUE env then WTIMER1_MAX_VALUE env else targetTicks))
                (kemit (TMR_eRemoveActivity t) s)
         else kemit App_NotifyWakeup (kemit K32SignalPending (set_event t s)))"

definition k32_otPlatAlarmMilliStartAt :: "k32_env \<Rightarrow> u64 \<Rightarrow> u32 \<Rightarrow> u32 \<Rightarrow> k32_alarm \<Rightarrow> k32_alarm" where
  "k32_otPlatAlarmMilliStartAt env timestampUs aT0 aDt s = alarmStartAt env timestampUs otTimer aT0 aDt True s"

definition k32_otPlatAlarmMicroStartAt :: "k32_env \<Rightarrow> u64 \<Rightarrow> u32 \<Rightarrow> u32 \<Rightarrow> k32_alarm \<Rightarrow> k32_alarm" where
  "k32_otPlatAlarmMicroStartAt env timestampUs aT0 aDt s = alarmStartAt env timestampUs otMicroTimer aT0 aDt False s"

definition k32_otPlatAlarmMilliStop :: "k32_alarm \<Rightarrow> k32_alarm" where
  "k32_otPlatAlarmMilliStop s = kemit (TMR_eRemoveActivity otTimer) (s\<lparr>kEventFired := False\<rparr>)"

definition k32_otPlatAlarmMicroStop :: "k32_alarm \<Rightarrow> k32_alarm" where
  "k32_otPlatAlarmMicroStop s = kemit (TMR_eRemoveActivity otMicroTimer) (s\<lparr>sMicroEventFired := False\<rparr>)"

definition TMR_ScheduleActivityCallback :: "k32_alarm \<Rightarrow> k32_alarm" where
  "TMR_ScheduleActivityCallback s = kemit K32SignalPending (kemit App_NotifyWakeup (s\<lparr>kEventFired := True\<rparr>))"

definition MicroTimerCallback :: "k32_alarm \<Rightarrow> k32_alarm" where
  "MicroTimerCallback s = kemit K32SignalPending (kemit App_NotifyWakeup (s\<lparr>sMicroEventFired := True\<rparr>))"

text \<open>\<open>onFired\<close> is what OpenThread does to the driver when an alarm is reported.\<close>

definition K32WAlarmProcess :: "k32_env \<Rightarrow> (k32_act \<Rightarrow> k32_alarm \<Rightarrow> k32_alarm) \<Rightarrow> k32_alarm \<Rightarrow> k32_alarm" where
  "K32WAlarmProcess env onFired s =
     (let ev1 = kEventFired s; ev2 = sMicroEventFired s;
          s1 = s\<lparr>kEventFired := False, sMicroEventFired := False\<rparr>;
          a = (if diagMode env then K32DiagAlarmFired else K32MilliFired);
          s2 = (if ev1 then onFired a (kemit a s1) else s1)
      in if ev2 then onFired K32MicroFired (kemit K32MicroFired s2) else s2)"

section \<open>Time on a circle\<close>

lemma circle_ahead: "b \<le> a \<Longrightarrow> a - b < 2 ^ 32 \<Longrightarrow> unat (of_nat a - of_nat b :: u32) = a - b"
proof -
  assume "b \<le> a" "a - b < 2 ^ 32"
  then have "(of_nat a - of_nat b :: u32) = of_nat (a - b)" by (simp add: of_nat_diff)
  then show ?thesis using \<open>a - b < 2 ^ 32\<close> by (simp add: unat_of_nat)
qed

lemma circle_behind:
  assumes "a < b" and "b - a < 2 ^ 32"
  shows "unat (of_nat a - of_nat b :: u32) = 2 ^ 32 - (b - a)"
proof -
  have "(of_nat a - of_nat b :: u32) = of_nat (2 ^ 32 - (b - a))"
    using assms by (simp add: of_nat_diff)
  moreover have "unat (of_nat (2 ^ 32 - (b - a)) :: u32) = 2 ^ 32 - (b - a)"
    unfolding unat_of_nat using assms by simp
  ultimately show ?thesis by simp
qed

text \<open>
  Real times \<open>T0\<close>, \<open>T0 + D\<close> and \<open>N\<close> in one unit: the decision is right as long as \<open>N\<close> is not so far outside the
  interval that the two distances together go around the circle.
\<close>

definition near :: "nat \<Rightarrow> nat \<Rightarrow> nat \<Rightarrow> bool" where
  "near T0 D N \<longleftrightarrow> D < 2 ^ 32 \<and> (N < T0 \<longrightarrow> (T0 - N) + (T0 + D - N) < 2 ^ 32) \<and>
     (T0 + D < N \<longrightarrow> (N - T0) + (N - (T0 + D)) \<le> 2 ^ 32)"

lemma units_left_exact:
  assumes "near T0 D N"
  shows "units_left (of_nat N) (of_nat T0) (of_nat D) = of_nat (T0 + D - N)"
proof -
  have D: "unat (of_nat D :: u32) = D" using assms by (simp add: near_def unat_of_nat)
  have t1: "(of_nat T0 + of_nat D :: u32) = of_nat (T0 + D)" by simp
  consider (inside) "T0 \<le> N" "N \<le> T0 + D" | (before) "N < T0" | (after) "T0 + D < N" by linarith
  then show ?thesis
  proof cases
    case inside
    then have "unat (of_nat N - of_nat T0 :: u32) = N - T0" "unat (of_nat (T0 + D) - of_nat N :: u32) = T0 + D - N"
      using circle_ahead [of T0 N] circle_ahead [of N "T0 + D"] assms by (simp_all add: near_def)
    then have "(of_nat N - of_nat T0 :: u32) \<le> of_nat D" "(of_nat (T0 + D) - of_nat N :: u32) \<le> of_nat D"
      using D inside by (simp_all only: word_le_nat_alt)
    then show ?thesis unfolding units_left_def Let_def t1 using inside by (simp add: of_nat_diff)
  next
    case before
    then have d: "(T0 - N) + (T0 + D - N) < 2 ^ 32" using assms by (simp add: near_def)
    have "unat (of_nat N - of_nat T0 :: u32) = 2 ^ 32 - (T0 - N)" "unat (of_nat N - of_nat (T0 + D) :: u32) = 2 ^ 32 - (T0 + D - N)"
      "unat (of_nat T0 - of_nat N :: u32) = T0 - N"
      using circle_behind [of N T0] circle_behind [of N "T0 + D"] circle_ahead [of N T0] before d by simp_all
    then have "\<not> (of_nat N - of_nat T0 :: u32) \<le> of_nat D" "(of_nat N - of_nat (T0 + D) :: u32) > of_nat T0 - of_nat N"
      using D before d by (simp_all only: word_le_nat_alt word_less_nat_alt) simp_all
    then show ?thesis unfolding units_left_def Let_def t1 using before by (simp add: of_nat_diff)
  next
    case after
    then have d: "(N - T0) + (N - (T0 + D)) \<le> 2 ^ 32" using assms by (simp add: near_def)
    have "unat (of_nat N - of_nat T0 :: u32) = N - T0" "unat (of_nat N - of_nat (T0 + D) :: u32) = N - (T0 + D)"
      "unat (of_nat T0 - of_nat N :: u32) = 2 ^ 32 - (N - T0)"
      using circle_ahead [of T0 N] circle_ahead [of "T0 + D" N] circle_behind [of T0 N] after d by simp_all
    then have "\<not> (of_nat N - of_nat T0 :: u32) \<le> of_nat D" "\<not> (of_nat N - of_nat (T0 + D) :: u32) > of_nat T0 - of_nat N"
      using D after d by (simp_all only: word_le_nat_alt word_less_nat_alt)
    then show ?thesis unfolding units_left_def Let_def t1 using after by simp
  qed
qed

section \<open>Properties\<close>

text \<open>
  The millisecond alarm of k32w0 is armed for its deadline and never later: with the reading, the reference time
  and the deadline near each other on the circle of 32-bit times, the wake timer is scheduled for the ticks of the
  time that is left, cut to the 28-bit range of its counter, and a deadline that has passed is pending at once.
\<close>

theorem k32_alarm_deadline:
  assumes "near T0 D N" and "k32_otPlatAlarmMilliGetNow ts = of_nat N"
    and "ticks = (ucast (TMR_ConvertUsToTicks env (of_nat (T0 + D - N) * 1000)) :: u32)"
    and "T0 + D - N < 2 ^ 32" and "t = k32_otPlatAlarmMilliStartAt env ts (of_nat T0) (of_nat D) s"
  shows "if ticks > 0
    then kacts t = kacts s @ [TMR_eRemoveActivity otTimer, TMR_eScheduleActivity32kTicks otTimer (min ticks (WTIMER1_MAX_VALUE env))] \<and>
         kEventFired t = kEventFired s
    else kacts t = kacts s @ [K32SignalPending, App_NotifyWakeup] \<and> kEventFired t"
proof -
  have "(ucast (of_nat (T0 + D - N) :: u32) :: u64) = of_nat (T0 + D - N)"
    using assms(4) by (simp add: word_unat_eq_iff unsigned_ucast_eq take_bit_eq_mod unat_of_nat del: of_nat_add)
  then have "t = (if ticks > 0
      then kemit (TMR_eScheduleActivity32kTicks otTimer (if ticks > WTIMER1_MAX_VALUE env then WTIMER1_MAX_VALUE env else ticks))
             (kemit (TMR_eRemoveActivity otTimer) s)
      else kemit App_NotifyWakeup (kemit K32SignalPending (set_event otTimer s)))"
    unfolding assms(3,5) k32_otPlatAlarmMilliStartAt_def alarmStartAt_def
    using assms(2) units_left_exact [OF assms(1)] by (simp add: Let_def US_PER_MS_def)
  then show ?thesis by (auto simp: kemit_def set_event_def min_def)
qed

definition k32_sample_env :: k32_env where
  "k32_sample_env = \<lparr>TMR_ConvertUsToTicks = (\<lambda>us. us * 32768 div 1000000), WTIMER1_MAX_VALUE = 0xFFFFFFF, diagMode = False\<rparr>"

theorem k32_alarm_deadline_witness:
  "kacts (k32_otPlatAlarmMilliStartAt k32_sample_env 2000000 1500 1500 k32_alarm_boot) =
     [TMR_eRemoveActivity otTimer, TMR_eScheduleActivity32kTicks otTimer 32768]"
proof -
  have "near 1500 1500 2000" by (simp add: near_def)
  moreover have "k32_otPlatAlarmMilliGetNow 2000000 = of_nat 2000" by (simp add: k32_otPlatAlarmMilliGetNow_def US_PER_MS_def)
  ultimately show ?thesis
    using k32_alarm_deadline [of 1500 1500 2000 2000000 32768 k32_sample_env _ k32_alarm_boot]
    by (simp add: k32_sample_env_def k32_alarm_boot_def)
qed

text \<open>
  A stopped alarm is not reported: stopping clears the flag, so that the next turn of the main loop calls no handler
  for it, even if the timer had expired before.
\<close>

lemma k32_stop_cancels:
  "K32WAlarmProcess env onFired (k32_otPlatAlarmMilliStop s) =
     (let s1 = kemit (TMR_eRemoveActivity otTimer) (s\<lparr>kEventFired := False, sMicroEventFired := False\<rparr>)
      in if sMicroEventFired s then onFired K32MicroFired (kemit K32MicroFired s1) else s1)"
  by (simp add: K32WAlarmProcess_def k32_otPlatAlarmMilliStop_def kemit_def Let_def)

end
