(* ===== verification/K32w0_Rx_Ring.thy ===== *)
theory K32w0_Rx_Ring
  imports Mcxw_Rx_Ring
begin

text \<open>
  The receive ring of \<^verbatim>\<open>src/k32w0/platform/radio.c\<close>, an ancestor of the ring of mcxw with 16-bit indices and a counter
  of the times it was full. The MAC is given the slot after the head to write to, the interrupt handler publishes that
  slot, the main loop delivers the slot after the tail and then releases it. The facts about the queue it holds are
  those of the mcxw ring, carried over by \<open>as8\<close>, which reads the indices as bytes.
\<close>

section \<open>State and operations\<close>

record 'e k32_ring =
  buffer :: "'e list"
  rbHead :: u16
  rbTail :: u16
  rbNext :: u16
  rbLast :: u16
  ovf_cnt :: u16

abbreviation buf_mask :: "'e k32_ring \<Rightarrow> u16" where
  "buf_mask r \<equiv> of_nat (length (buffer r) - 1)"

definition K32WResetRxRingBuffer :: "'e k32_ring \<Rightarrow> 'e k32_ring" where
  "K32WResetRxRingBuffer r = r\<lparr>rbHead := buf_mask r, rbTail := buf_mask r, rbNext := 0, rbLast := 0, ovf_cnt := 0\<rparr>"

definition K32WPushRxRingBuffer :: "'e k32_ring \<Rightarrow> 'e k32_ring" where
  "K32WPushRxRingBuffer r = r\<lparr>rbHead := rbNext r\<rparr>"

definition K32WPopRxRingBuffer :: "'e k32_ring \<Rightarrow> 'e k32_ring" where
  "K32WPopRxRingBuffer r = r\<lparr>rbTail := rbLast r\<rparr>"

text \<open>A pointer to an entry is its index; \<open>None\<close> is \<^verbatim>\<open>NULL\<close>.\<close>

definition K32WGetRxRingBuffer :: "'e k32_ring \<Rightarrow> u16 option \<times> 'e k32_ring" where
  "K32WGetRxRingBuffer r =
     (if rbTail r = rbHead r then (None, r)
      else (let t = (rbTail r + 1) AND buf_mask r in (Some t, r\<lparr>rbLast := t\<rparr>)))"

text \<open>The part of \<^verbatim>\<open>K32WEnableReceive\<close> that works on the ring: the slot for the next frame, if there is one.\<close>

definition enable_slot :: "'e k32_ring \<Rightarrow> u16 option \<times> 'e k32_ring" where
  "enable_slot r =
     (let n = (rbHead r + 1) AND buf_mask r in
      if n = rbTail r then (None, r\<lparr>ovf_cnt := ovf_cnt r + 1\<rparr>) else (Some n, r\<lparr>rbNext := n\<rparr>))"

section \<open>The ring as the ring of mcxw\<close>

definition as8 :: "'e k32_ring \<Rightarrow> 'e rxRingBuffer" where
  "as8 r = \<lparr>rSlots = buffer r, rHead = ucast (rbHead r), rTail = ucast (rbTail r), rNext = ucast (rbNext r), rLast = ucast (rbLast r)\<rparr>"

lemma as8_sel [simp]:
  "rSlots (as8 r) = buffer r" "rHead (as8 r) = ucast (rbHead r)" "rTail (as8 r) = ucast (rbTail r)"
  "rNext (as8 r) = ucast (rbNext r)" "rLast (as8 r) = ucast (rbLast r)"
  by (simp_all add: as8_def)

definition kring_ok :: "'e k32_ring \<Rightarrow> bool" where
  "kring_ok r \<longleftrightarrow> ring_size (as8 r) \<and> unat (rbHead r) < length (buffer r) \<and> unat (rbTail r) < length (buffer r)"

definition kq :: "'e k32_ring \<Rightarrow> 'e list" where "kq r = ring_abs (as8 r)"

definition kfull :: "'e k32_ring \<Rightarrow> bool" where "kfull r \<longleftrightarrow> length (kq r) = length (buffer r) - 1"

definition is_free :: "'e k32_ring \<Rightarrow> u16 \<Rightarrow> bool" where
  "is_free r n \<longleftrightarrow> unat n = free_index (as8 r) \<and> \<not> kfull r"

definition is_oldest :: "'e k32_ring \<Rightarrow> u16 \<Rightarrow> bool" where
  "is_oldest r i \<longleftrightarrow> unat i = (unat (rbTail r) + 1) mod length (buffer r) \<and> kq r \<noteq> []"

lemma ring_size_le: "ring_size s \<Longrightarrow> 2 \<le> length (rSlots s) \<and> length (rSlots s) \<le> 128"
  by (auto simp: ring_size_def)

lemma unat_ucast8: "unat (w :: u16) < 256 \<Longrightarrow> unat (ucast w :: u8) = unat w"
  by (simp add: unsigned_ucast_eq take_bit_eq_mod)

lemma ucast8_next: "(ucast ((w + 1) AND of_nat k :: u16) :: u8) = (ucast w + 1) AND of_nat k"
proof -
  have "(ucast (w + 1 :: u16) :: u8) = ucast w + 1" 
    by (simp add: word_unat_eq_iff unsigned_ucast_eq take_bit_eq_mod unat_word_ariths mod_mod_cancel mod_Suc_eq)
  moreover have "(ucast (of_nat k :: u16) :: u8) = of_nat k"
    by (simp add: word_unat_eq_iff unsigned_ucast_eq take_bit_eq_mod unat_of_nat mod_mod_cancel)
  ultimately show ?thesis by (simp add: unsigned_and_eq)
qed

lemma and_mask_less:
  assumes "k < n" and "n \<le> 128"
  shows "unat (w AND of_nat k :: u16) < n"
proof -
  have "unat (of_nat k :: u16) = k" using assms by (simp add: unat_of_nat)
  moreover have "unat (w AND of_nat k :: u16) \<le> unat (of_nat k :: u16)" by (simp add: word_le_nat_alt [symmetric] word_and_le1)
  ultimately show ?thesis using assms(1) by linarith
qed

lemma kring_okD:
  assumes "kring_ok r"
  shows "ring_inv (as8 r)" "2 \<le> length (buffer r)" "length (buffer r) \<le> 128"
    "unat (ucast (rbHead r) :: u8) = unat (rbHead r)" "unat (ucast (rbTail r) :: u8) = unat (rbTail r)"
  using assms ring_size_le [of "as8 r"] by (auto simp: kring_ok_def ring_inv_def unat_ucast8)

lemma kring_okI:
  "ring_inv (as8 r) \<Longrightarrow> unat (rbHead r) < 256 \<Longrightarrow> unat (rbTail r) < 256 \<Longrightarrow> kring_ok r"
  by (auto simp: kring_ok_def ring_inv_def unat_ucast8)

lemma length_kq: "length (kq r) = ring_count (as8 r)"
  by (simp add: kq_def)

lemma kfull_iff: "kring_ok r \<Longrightarrow> \<not> kfull r \<longleftrightarrow> ring_count (as8 r) < ring_cap (as8 r)"
  using ring_count_less [OF kring_okD(1), of r] by (auto simp: kfull_def length_kq ring_cap_def)

lemma is_freeD:
  assumes "kring_ok r" and "is_free r n"
  shows "unat n < length (buffer r)" "unat (ucast n :: u8) = unat n" "unat (ucast n :: u8) = free_index (as8 r)"
proof -
  have "0 < length (buffer r)" using kring_okD(2) [OF assms(1)] by linarith
  then show n: "unat n < length (buffer r)" using assms(2) by (simp add: is_free_def free_index_def)
  then show "unat (ucast n :: u8) = unat n" using kring_okD(3) [OF assms(1)] by (intro unat_ucast8) simp
  then show "unat (ucast n :: u8) = free_index (as8 r)" using assms(2) by (simp add: is_free_def)
qed

section \<open>The operations on the queue\<close>

lemma enable_slot_free:
  assumes "kring_ok r"
  shows "kfull r \<Longrightarrow> enable_slot r = (None, r\<lparr>ovf_cnt := ovf_cnt r + 1\<rparr>)"
    and "\<not> kfull r \<Longrightarrow> \<exists>n. enable_slot r = (Some n, r\<lparr>rbNext := n\<rparr>) \<and> is_free r n"
proof -
  let ?n = "(rbHead r + 1) AND buf_mask r"
  note d = kring_okD [OF assms]
  have less: "unat ?n < length (buffer r)" using d(2,3) by (intro and_mask_less) simp_all
  then have n: "unat (ucast ?n :: u8) = unat ?n" using d(3) by (intro unat_ucast8 [of ?n]) linarith
  have "?n = rbTail r \<longleftrightarrow> (ucast ?n :: u8) = ucast (rbTail r)" using n d(5) by (simp add: word_unat_eq_iff)
  also have "\<dots> \<longleftrightarrow> kfull r" using ring_full_iff [OF d(1)] by (simp add: ucast8_next kfull_def length_kq)
  finally have eq: "?n = rbTail r \<longleftrightarrow> kfull r" .
  show "kfull r \<Longrightarrow> enable_slot r = (None, r\<lparr>ovf_cnt := ovf_cnt r + 1\<rparr>)" using eq by (simp add: enable_slot_def)
  have "unat ?n = free_index (as8 r)"
    using ring_free_index [OF d(1)] n by (simp add: ucast8_next free_index_def)
  then show "\<exists>n. enable_slot r = (Some n, r\<lparr>rbNext := n\<rparr>) \<and> is_free r n" if "\<not> kfull r"
    using eq that by (simp add: enable_slot_def is_free_def Let_def)
qed

text \<open>Only the entries, the head and the tail matter for what is queued.\<close>

lemma kring_core:
  assumes "buffer r1 = buffer r" "rbHead r1 = rbHead r" "rbTail r1 = rbTail r"
  shows "kring_ok r1 = kring_ok r" "kq r1 = kq r" "kfull r1 = kfull r" "is_free r1 = is_free r" "is_oldest r1 = is_oldest r"
  using assms ring_core [of "as8 r1" "as8 r"]
  by (auto simp: kring_ok_def ring_size_def kq_def kfull_def is_free_def is_oldest_def fun_eq_iff)

text \<open>The MAC writes to a free slot.\<close>

lemma write_free:
  assumes "kring_ok r" and "is_free r n" and "r1 = r\<lparr>buffer := (buffer r)[unat n := e]\<rparr>"
  shows "kring_ok r1" "kq r1 = kq r" "kfull r1 = kfull r" "is_free r1 = is_free r" "is_oldest r1 = is_oldest r"
    "buffer r1 ! unat n = e"
proof -
  note d = kring_okD [OF assms(1)] and f = is_freeD [OF assms(1,2)]
  have "as8 r1 = (as8 r)\<lparr>rSlots := (rSlots (as8 r))[unat n := e]\<rparr>" by (simp add: assms(3) as8_def)
  note w = ring_write_free [OF d(1) _ _ this]
  have room: "ring_count (as8 r) < ring_cap (as8 r)" using assms(1,2) kfull_iff by (auto simp: is_free_def)
  have n: "unat n = free_index (as8 r)" using assms(2) by (simp add: is_free_def)
  show "kring_ok r1" using assms(1) by (simp add: assms(3) kring_ok_def ring_size_def)
  show q: "kq r1 = kq r" using w(2) [OF room n] by (simp add: kq_def)
  show fl: "kfull r1 = kfull r" using q by (simp add: kfull_def assms(3))
  have "free_index (as8 r1) = free_index (as8 r)" using w(3) [OF room n] by (simp add: free_index_def assms(3))
  then show "is_free r1 = is_free r" using fl by (simp add: is_free_def fun_eq_iff)
  show "is_oldest r1 = is_oldest r" using q by (simp add: is_oldest_def fun_eq_iff assms(3))
  show "buffer r1 ! unat n = e" using f(1) by (simp add: assms(3))
qed

lemma kq_push:
  assumes "kring_ok r" and "is_free r (rbNext r)"
  shows "kring_ok (K32WPushRxRingBuffer r)" "kq (K32WPushRxRingBuffer r) = kq r @ [buffer r ! unat (rbNext r)]"
proof -
  note d = kring_okD [OF assms(1)] and f = is_freeD [OF assms]
  have room: "ring_count (as8 r) < ring_cap (as8 r)" using assms kfull_iff by (auto simp: is_free_def)
  have "as8 (K32WPushRxRingBuffer r) =
      (as8 r)\<lparr>rSlots := (rSlots (as8 r))[unat (ucast (rbNext r) :: u8) := buffer r ! unat (rbNext r)],
        rHead := ucast (rbNext r), rNext := ucast (rbNext r)\<rparr>"
    using f(2) by (simp add: K32WPushRxRingBuffer_def as8_def)
  note p = ring_publish [OF d(1) room f(3) [unfolded free_index_def] this]
  show "kring_ok (K32WPushRxRingBuffer r)" using assms(1) f(1) by (simp add: kring_ok_def K32WPushRxRingBuffer_def ring_size_def)
  show "kq (K32WPushRxRingBuffer r) = kq r @ [buffer r ! unat (rbNext r)]" using p(2) by (simp add: kq_def)
qed

lemma kq_get:
  assumes "kring_ok r"
  shows "kq r = [] \<Longrightarrow> K32WGetRxRingBuffer r = (None, r)"
    and "kq r = e # es \<Longrightarrow> \<exists>i. K32WGetRxRingBuffer r = (Some i, r\<lparr>rbLast := i\<rparr>) \<and> is_oldest r i \<and> buffer r ! unat i = e"
proof -
  note d = kring_okD [OF assms]
  have eq: "rbTail r = rbHead r \<longleftrightarrow> kq r = []"
    using ring_empty_iff [OF d(1)] d(4,5) length_kq [of r] by (auto simp: word_unat_eq_iff)
  show "kq r = [] \<Longrightarrow> K32WGetRxRingBuffer r = (None, r)" using eq by (simp add: K32WGetRxRingBuffer_def)
  let ?i = "(rbTail r + 1) AND buf_mask r"
  have less: "unat ?i < length (buffer r)" using d(2,3) by (intro and_mask_less) simp_all
  then have i: "unat (ucast ?i :: u8) = unat ?i" using d(3) by (intro unat_ucast8 [of ?i]) linarith
  have old: "unat (ucast ?i :: u8) = (unat (rTail (as8 r)) + 1) mod length (rSlots (as8 r))"
    using ring_oldest_index [OF d(1)] by (simp add: ucast8_next)
  assume q: "kq r = e # es"
  then have "ring_count (as8 r) \<noteq> 0" using length_kq [of r] by simp
  from ring_release(4) [OF d(1) this old refl] have "buffer r ! unat ?i = e" using q i by (simp add: kq_def)
  moreover have "is_oldest r ?i" using old i d(5) q by (simp add: is_oldest_def)
  ultimately show "\<exists>i. K32WGetRxRingBuffer r = (Some i, r\<lparr>rbLast := i\<rparr>) \<and> is_oldest r i \<and> buffer r ! unat i = e"
    using eq q by (simp add: K32WGetRxRingBuffer_def Let_def)
qed

lemma kq_pop:
  assumes "kring_ok r" and "is_oldest r (rbLast r)"
  shows "kring_ok (K32WPopRxRingBuffer r)" "kq (K32WPopRxRingBuffer r) = tl (kq r)" "\<not> kfull (K32WPopRxRingBuffer r)"
    "is_free r n \<Longrightarrow> is_free (K32WPopRxRingBuffer r) n"
proof -
  note d = kring_okD [OF assms(1)]
  have pos: "0 < length (buffer r)" using d(2) by linarith
  have l: "unat (rbLast r) < length (buffer r)" using assms(2) pos by (simp add: is_oldest_def)
  then have l8: "unat (ucast (rbLast r) :: u8) = unat (rbLast r)" using d(3) by (intro unat_ucast8) linarith
  have "as8 (K32WPopRxRingBuffer r) = (as8 r)\<lparr>rTail := ucast (rbLast r), rLast := ucast (rbLast r)\<rparr>"
    by (simp add: K32WPopRxRingBuffer_def as8_def)
  moreover have ne: "ring_count (as8 r) \<noteq> 0" using assms(2) by (simp add: is_oldest_def flip: length_kq)
  moreover have "unat (ucast (rbLast r) :: u8) = (unat (rTail (as8 r)) + 1) mod length (rSlots (as8 r))"
    using assms(2) l8 d(5) by (simp add: is_oldest_def)
  ultimately have p: "ring_abs (as8 (K32WPopRxRingBuffer r)) = tl (ring_abs (as8 r))"
    using ring_release(2) [OF d(1)] by blast
  show "kring_ok (K32WPopRxRingBuffer r)" using assms(1) l by (simp add: kring_ok_def K32WPopRxRingBuffer_def ring_size_def)
  show q: "kq (K32WPopRxRingBuffer r) = tl (kq r)" using p by (simp add: kq_def)
  have len: "buffer (K32WPopRxRingBuffer r) = buffer r" by (simp add: K32WPopRxRingBuffer_def)
  have "length (kq r) < length (buffer r)" using ring_count_less [OF d(1)] by (simp add: length_kq)
  then show nf: "\<not> kfull (K32WPopRxRingBuffer r)" using q len d(2) ne by (simp add: kfull_def length_kq)
  have count: "ring_count (as8 (K32WPopRxRingBuffer r)) = ring_count (as8 r) - 1"
    using q by (metis length_kq length_tl)
  have "unat (ucast (rbTail r) :: u8) = unat (rbTail r)" by (rule d(5))
  then have "free_index (as8 (K32WPopRxRingBuffer r)) = free_index (as8 r)"
    using ne l8 assms(2) mod_add_left_eq [of "unat (rbTail r) + 1" "length (buffer r)" "ring_count (as8 r)"]
    by (simp add: free_index_def count is_oldest_def) (simp add: K32WPopRxRingBuffer_def)
  then show "is_free r n \<Longrightarrow> is_free (K32WPopRxRingBuffer r) n" using nf by (simp add: is_free_def)
qed

lemma oldest_push: "kring_ok r \<Longrightarrow> is_free r (rbNext r) \<Longrightarrow> is_oldest r i \<Longrightarrow> is_oldest (K32WPushRxRingBuffer r) i"
  using kq_push [of r] by (simp add: is_oldest_def) (simp add: K32WPushRxRingBuffer_def)

lemma kring_reset:
  assumes "ring_size (as8 r)"
  shows "kring_ok (K32WResetRxRingBuffer r)" "kq (K32WResetRxRingBuffer r) = []"
proof -
  have "length (buffer r) - 1 < 65536" using ring_size_le [OF assms] by simp linarith
  then have "unat (buf_mask r) = length (buffer r) - 1" by (rule unat_of_nat_u16)
  then show "kring_ok (K32WResetRxRingBuffer r)"
    using assms by (auto simp: kring_ok_def K32WResetRxRingBuffer_def ring_size_def simp del: of_nat_diff)
  show "kq (K32WResetRxRingBuffer r) = []"
    by (simp add: kq_def ring_abs_def ring_count_def K32WResetRxRingBuffer_def as8_def)
qed

end
