(* ===== verification/K32w0_Src_Match.thy ===== *)
theory K32w0_Src_Match
  imports OtNxp_Prelude "HOL-Library.Multiset"
begin

text \<open>
  The source-address match tables of \<^verbatim>\<open>src/k32w0/platform/radio.c\<close>: the addresses of the sleepy children for which a
  frame is waiting, one array of entries and one 64-bit mask of valid entries for the short addresses and one of each
  for the extended ones. \<open>match_table\<close> is the interface the rest of the driver relies on, a multiset of bounded size;
  both tables are instances of it. \<^verbatim>\<open>otEncodingReadUint64Le\<close> belongs to OpenThread and is the parameter \<open>rd64\<close>, of
  which the driver needs that different extended addresses read as different numbers.
\<close>

section \<open>State and operations\<close>

definition BIT_SET :: "u64 \<Rightarrow> nat \<Rightarrow> u64" where "BIT_SET arg posn = arg OR push_bit posn 1"
definition BIT_CLR :: "u64 \<Rightarrow> nat \<Rightarrow> u64" where "BIT_CLR arg posn = arg AND NOT (push_bit posn 1)"
definition BIT_TST :: "u64 \<Rightarrow> nat \<Rightarrow> bool" where "BIT_TST arg posn = (arg AND push_bit posn 1 \<noteq> 0)"

record fpNeighShortAddr =
  macAddress :: u16
  fpShortPanId :: u16

record fpNeighExtAddr =
  extAddr :: bytes
  fpExtPanId :: u16

text \<open>Both arrays have \<^verbatim>\<open>MAX_FP_ADDRS\<close> entries, a number of the configuration that is at most 64.\<close>

record src_match =
  sFpShortAddr :: "fpNeighShortAddr list"
  sFpShortAddrMask :: u64
  sFpExtAddr :: "fpNeighExtAddr list"
  sFpExtAddrMask :: u64

text \<open>The loops over a table stop at the first index that passes a test.\<close>

function firstIdx :: "(nat \<Rightarrow> bool) \<Rightarrow> nat \<Rightarrow> nat \<Rightarrow> nat option" where
  "firstIdx test n idx = (if idx < n then if test idx then Some idx else firstIdx test n (idx + 1) else None)"
  by pat_completeness auto
termination by (relation "measure (\<lambda>(test, n, idx). n - idx)") auto

declare firstIdx.simps [simp del]

definition k32_otPlatRadioAddSrcMatchShortEntry :: "u16 \<Rightarrow> u16 \<Rightarrow> src_match \<Rightarrow> otError \<times> src_match" where
  "k32_otPlatRadioAddSrcMatchShortEntry panId aShortAddress t =
     (case firstIdx (\<lambda>idx. \<not> BIT_TST (sFpShortAddrMask t) idx) (length (sFpShortAddr t)) 0 of
        None \<Rightarrow> (OT_ERROR_NO_BUFS, t)
      | Some idx \<Rightarrow> (OT_ERROR_NONE,
          t\<lparr>sFpShortAddr := (sFpShortAddr t)[idx := \<lparr>macAddress = aShortAddress, fpShortPanId = panId\<rparr>],
            sFpShortAddrMask := BIT_SET (sFpShortAddrMask t) idx\<rparr>))"

definition k32_otPlatRadioAddSrcMatchExtEntry :: "u16 \<Rightarrow> bytes \<Rightarrow> src_match \<Rightarrow> otError \<times> src_match" where
  "k32_otPlatRadioAddSrcMatchExtEntry panId aExtAddress t =
     (case firstIdx (\<lambda>idx. \<not> BIT_TST (sFpExtAddrMask t) idx) (length (sFpExtAddr t)) 0 of
        None \<Rightarrow> (OT_ERROR_NO_BUFS, t)
      | Some idx \<Rightarrow> (OT_ERROR_NONE,
          t\<lparr>sFpExtAddr := (sFpExtAddr t)[idx := \<lparr>extAddr = rev aExtAddress, fpExtPanId = panId\<rparr>],
            sFpExtAddrMask := BIT_SET (sFpExtAddrMask t) idx\<rparr>))"

definition findShort :: "u16 \<Rightarrow> src_match \<Rightarrow> nat option" where
  "findShort a t = firstIdx (\<lambda>idx. BIT_TST (sFpShortAddrMask t) idx \<and> macAddress (sFpShortAddr t ! idx) = a)
     (length (sFpShortAddr t)) 0"

definition findExt :: "(bytes \<Rightarrow> u64) \<Rightarrow> u64 \<Rightarrow> src_match \<Rightarrow> nat option" where
  "findExt rd64 v t = firstIdx (\<lambda>idx. BIT_TST (sFpExtAddrMask t) idx \<and> rd64 (extAddr (sFpExtAddr t ! idx)) = v)
     (length (sFpExtAddr t)) 0"

definition k32_otPlatRadioClearSrcMatchShortEntry :: "u16 \<Rightarrow> src_match \<Rightarrow> otError \<times> src_match" where
  "k32_otPlatRadioClearSrcMatchShortEntry aShortAddress t =
     (case findShort aShortAddress t of
        None \<Rightarrow> (OT_ERROR_NO_ADDRESS, t)
      | Some idx \<Rightarrow> (OT_ERROR_NONE, t\<lparr>sFpShortAddrMask := BIT_CLR (sFpShortAddrMask t) idx\<rparr>))"

definition k32_otPlatRadioClearSrcMatchExtEntry :: "(bytes \<Rightarrow> u64) \<Rightarrow> bytes \<Rightarrow> src_match \<Rightarrow> otError \<times> src_match" where
  "k32_otPlatRadioClearSrcMatchExtEntry rd64 aExtAddress t =
     (case findExt rd64 (rd64 (rev aExtAddress)) t of
        None \<Rightarrow> (OT_ERROR_NO_ADDRESS, t)
      | Some idx \<Rightarrow> (OT_ERROR_NONE, t\<lparr>sFpExtAddrMask := BIT_CLR (sFpExtAddrMask t) idx\<rparr>))"

definition k32_otPlatRadioClearSrcMatchShortEntries :: "src_match \<Rightarrow> src_match" where
  "k32_otPlatRadioClearSrcMatchShortEntries t = t\<lparr>sFpShortAddrMask := 0\<rparr>"

definition k32_otPlatRadioClearSrcMatchExtEntries :: "src_match \<Rightarrow> src_match" where
  "k32_otPlatRadioClearSrcMatchExtEntries t = t\<lparr>sFpExtAddrMask := 0\<rparr>"

section \<open>A table with a mask as a multiset\<close>

lemma BIT_TST_bit: "BIT_TST m i = bit m i"
  by (simp add: BIT_TST_def bit_iff_and_push_bit_not_eq_0)

lemma BIT_TST_SET: "i < 64 \<Longrightarrow> BIT_TST (BIT_SET m i) j \<longleftrightarrow> j = i \<or> BIT_TST m j"
  by (auto simp: BIT_TST_bit BIT_SET_def bit_simps)

lemma BIT_TST_CLR: "BIT_TST (BIT_CLR m i) j \<longleftrightarrow> j \<noteq> i \<and> BIT_TST m j"
  by (auto simp: BIT_TST_bit BIT_CLR_def bit_simps dest: bit_imp_le_length)

lemma firstIdx_find: "firstIdx test n i = find test [i..<n]"
proof (induction test n i rule: firstIdx.induct)
  case (1 test n idx)
  then show ?case by (simp add: firstIdx.simps [of test n idx] upt_conv_Cons)
qed

lemma firstIdx_None: "firstIdx test n 0 = None \<longleftrightarrow> (\<forall>i < n. \<not> test i)"
  by (auto simp: firstIdx_find find_None_iff)

lemma firstIdx_Some: "firstIdx test n 0 = Some i \<Longrightarrow> i < n \<and> test i"
  by (auto simp: firstIdx_find find_Some_iff)

definition fp_valid :: "nat \<Rightarrow> u64 \<Rightarrow> nat set" where
  "fp_valid n m = {i. i < n \<and> BIT_TST m i}"

definition fp_mset :: "('e \<Rightarrow> 'a) \<Rightarrow> 'e list \<Rightarrow> u64 \<Rightarrow> 'a multiset" where
  "fp_mset key arr m = image_mset (\<lambda>i. key (arr ! i)) (mset_set (fp_valid (length arr) m))"

lemma finite_fp_valid [simp]: "finite (fp_valid n m)"
  by (simp add: fp_valid_def)

lemma fp_mset_add:
  assumes "i < length arr" and "length arr \<le> 64" and "\<not> BIT_TST m i"
  shows "fp_mset key (arr[i := e]) (BIT_SET m i) = add_mset (key e) (fp_mset key arr m)"
proof -
  have v: "fp_valid (length arr) (BIT_SET m i) = insert i (fp_valid (length arr) m)" "i \<notin> fp_valid (length arr) m"
    using assms by (auto simp: fp_valid_def BIT_TST_SET)
  have "image_mset (\<lambda>j. key (arr[i := e] ! j)) (mset_set (fp_valid (length arr) m)) = fp_mset key arr m"
    unfolding fp_mset_def using v(2) by (intro image_mset_cong) (metis finite_fp_valid finite_set_mset_mset_set nth_list_update_neq)
  then show ?thesis using v assms(1) by (simp add: fp_mset_def)
qed

lemma fp_mset_del:
  assumes "i < length arr" and "BIT_TST m i"
  shows "fp_mset key arr (BIT_CLR m i) = fp_mset key arr m - {#key (arr ! i)#}"
proof -
  have "fp_valid (length arr) m = insert i (fp_valid (length arr) (BIT_CLR m i))" "i \<notin> fp_valid (length arr) (BIT_CLR m i)"
    using assms by (auto simp: fp_valid_def BIT_TST_CLR)
  then show ?thesis by (simp add: fp_mset_def)
qed

lemma fp_mset_mem: "x \<in># fp_mset key arr m \<longleftrightarrow> (\<exists>i < length arr. BIT_TST m i \<and> key (arr ! i) = x)"
  by (auto simp: fp_mset_def fp_valid_def)

lemma fp_mset_room: "size (fp_mset key arr m) < length arr \<longleftrightarrow> (\<exists>i < length arr. \<not> BIT_TST m i)"
proof -
  have sub: "fp_valid (length arr) m \<subseteq> {..<length arr}" by (auto simp: fp_valid_def)
  have "card (fp_valid (length arr) m) < length arr \<longleftrightarrow> fp_valid (length arr) m \<noteq> {..<length arr}"
    using psubset_card_mono [OF _ psubsetI [OF sub]] by (metis card_lessThan finite_lessThan less_irrefl)
  also have "\<dots> \<longleftrightarrow> (\<exists>i < length arr. \<not> BIT_TST m i)" using sub by (auto simp: fp_valid_def)
  finally show ?thesis by (simp add: fp_mset_def)
qed

lemma fp_first_free:
  assumes "size (fp_mset key arr m) < length arr"
  obtains i where "firstIdx (\<lambda>idx. \<not> BIT_TST m idx) (length arr) 0 = Some i" "i < length arr" "\<not> BIT_TST m i"
  using assms firstIdx_Some [of "\<lambda>idx. \<not> BIT_TST m idx"] unfolding fp_mset_room
  by (metis (mono_tags, lifting) firstIdx_None not_None_eq)

lemma fp_first_full: "\<not> size (fp_mset key arr m) < length arr \<Longrightarrow> firstIdx (\<lambda>idx. \<not> BIT_TST m idx) (length arr) 0 = None"
  by (simp add: fp_mset_room firstIdx_None)

lemma fp_mset_size: "size (fp_mset key arr m) \<le> length arr"
  using card_mono [of "{..<length arr}" "fp_valid (length arr) m"] by (auto simp: fp_mset_def fp_valid_def)

lemma fp_mset_clear [simp]: "fp_mset key arr 0 = {#}"
  by (simp add: fp_mset_def fp_valid_def BIT_TST_bit)

section \<open>The interface\<close>

text \<open>
  What a table promises: adding succeeds exactly while there is room, clearing succeeds exactly when the address is
  there and takes one occurrence out, and a lookup finds the addresses that are there. \<open>ok\<close> are the addresses the
  callers pass.
\<close>

datatype 'a match_op = MAdd 'a | MDel 'a | MClear

fun match_spec :: "nat \<Rightarrow> 'a match_op \<Rightarrow> 'a multiset \<Rightarrow> otError \<times> 'a multiset" where
  "match_spec cap (MAdd x) M = (if size M < cap then (OT_ERROR_NONE, add_mset x M) else (OT_ERROR_NO_BUFS, M))"
| "match_spec cap (MDel x) M = (if x \<in># M then (OT_ERROR_NONE, M - {#x#}) else (OT_ERROR_NO_ADDRESS, M))"
| "match_spec cap MClear M = (OT_ERROR_NONE, {#})"

fun match_arg :: "('a \<Rightarrow> bool) \<Rightarrow> 'a match_op \<Rightarrow> bool" where
  "match_arg ok (MAdd x) = ok x"
| "match_arg ok (MDel x) = ok x"
| "match_arg ok MClear = True"

locale match_table =
  fixes inv :: "'s \<Rightarrow> bool" and abs :: "'s \<Rightarrow> 'a multiset" and cap :: "'s \<Rightarrow> nat" and ok :: "'a \<Rightarrow> bool"
    and add :: "u16 \<Rightarrow> 'a \<Rightarrow> 's \<Rightarrow> otError \<times> 's" and del :: "'a \<Rightarrow> 's \<Rightarrow> otError \<times> 's" and clear :: "'s \<Rightarrow> 's"
    and mem :: "'a \<Rightarrow> 's \<Rightarrow> bool"
  assumes add_room: "inv t \<Longrightarrow> ok x \<Longrightarrow> size (abs t) < cap t \<Longrightarrow>
      \<exists>u. add p x t = (OT_ERROR_NONE, u) \<and> inv u \<and> cap u = cap t \<and> abs u = add_mset x (abs t)"
    and add_full: "inv t \<Longrightarrow> \<not> size (abs t) < cap t \<Longrightarrow> add p x t = (OT_ERROR_NO_BUFS, t)"
    and del_found: "inv t \<Longrightarrow> ok x \<Longrightarrow> x \<in># abs t \<Longrightarrow>
      \<exists>u. del x t = (OT_ERROR_NONE, u) \<and> inv u \<and> cap u = cap t \<and> abs u = abs t - {#x#}"
    and del_absent: "inv t \<Longrightarrow> ok x \<Longrightarrow> x \<notin># abs t \<Longrightarrow> del x t = (OT_ERROR_NO_ADDRESS, t)"
    and clear_all: "inv t \<Longrightarrow> inv (clear t) \<and> cap (clear t) = cap t \<and> abs (clear t) = {#}"
    and mem_iff: "inv t \<Longrightarrow> ok x \<Longrightarrow> mem x t \<longleftrightarrow> x \<in># abs t"
    and bounded: "inv t \<Longrightarrow> size (abs t) \<le> cap t"
begin

definition exec :: "u16 \<Rightarrow> 'a match_op \<Rightarrow> 's \<Rightarrow> otError \<times> 's" where
  "exec p oper t = (case oper of MAdd x \<Rightarrow> add p x t | MDel x \<Rightarrow> del x t | MClear \<Rightarrow> (OT_ERROR_NONE, clear t))"

lemma exec_refines:
  assumes "inv t" and "match_arg ok oper"
  obtains r u where "exec p oper t = (r, u)" "inv u" "cap u = cap t" "match_spec (cap t) oper (abs t) = (r, abs u)"
proof (cases oper)
  case (MAdd x)
  then show ?thesis
    using that add_room [of t x p] add_full [of t p x] assms by (cases "size (abs t) < cap t") (auto simp: exec_def)
next
  case (MDel x)
  then show ?thesis
    using that del_found [of t x] del_absent [of t x] assms by (cases "x \<in># abs t") (auto simp: exec_def)
next
  case MClear
  then show ?thesis using that clear_all [OF assms(1)] by (simp add: exec_def)
qed

text \<open>An address that was added is found until it has been cleared as often as it was added.\<close>

lemma add_then_mem:
  assumes "inv t" and "ok x" and "add p x t = (OT_ERROR_NONE, u)"
  shows "mem x u"
  using assms add_room [of t x p] add_full [of t p x] mem_iff by (cases "size (abs t) < cap t") fastforce+

end

section \<open>Both tables keep the contract\<close>

definition short_ok :: "src_match \<Rightarrow> bool" where "short_ok t \<longleftrightarrow> length (sFpShortAddr t) \<le> 64"

definition ext_ok :: "src_match \<Rightarrow> bool" where
  "ext_ok t \<longleftrightarrow> length (sFpExtAddr t) \<le> 64 \<and> (\<forall>i \<in> fp_valid (length (sFpExtAddr t)) (sFpExtAddrMask t). length (extAddr (sFpExtAddr t ! i)) = 8)"

definition src_match_ok :: "src_match \<Rightarrow> bool" where "src_match_ok t \<longleftrightarrow> short_ok t \<and> ext_ok t"

definition short_addrs :: "src_match \<Rightarrow> u16 multiset" where
  "short_addrs t = fp_mset macAddress (sFpShortAddr t) (sFpShortAddrMask t)"

definition ext_addrs :: "src_match \<Rightarrow> bytes multiset" where
  "ext_addrs t = fp_mset (\<lambda>e. rev (extAddr e)) (sFpExtAddr t) (sFpExtAddrMask t)"

text \<open>Numbers read from different addresses of eight bytes differ.\<close>

definition rd64_inj :: "(bytes \<Rightarrow> u64) \<Rightarrow> bool" where
  "rd64_inj rd64 \<longleftrightarrow> inj_on rd64 {xs. length xs = 8}"

lemma findShort_None: "findShort a t = None \<longleftrightarrow> a \<notin># short_addrs t"
  by (auto simp: findShort_def firstIdx_None short_addrs_def fp_mset_mem)

lemma findShort_Some:
  "findShort a t = Some i \<Longrightarrow> i < length (sFpShortAddr t) \<and> BIT_TST (sFpShortAddrMask t) i \<and> macAddress (sFpShortAddr t ! i) = a"
  unfolding findShort_def by (drule firstIdx_Some) simp

interpretation short_table: match_table short_ok short_addrs "\<lambda>t. length (sFpShortAddr t)" "\<lambda>_. True"
  k32_otPlatRadioAddSrcMatchShortEntry k32_otPlatRadioClearSrcMatchShortEntry k32_otPlatRadioClearSrcMatchShortEntries
  "\<lambda>a t. findShort a t \<noteq> None"
proof (standard, goal_cases)
  case (1 t x p)
  then show ?case
    using fp_first_free [of macAddress "sFpShortAddr t" "sFpShortAddrMask t"]
    by (fastforce simp: k32_otPlatRadioAddSrcMatchShortEntry_def short_ok_def short_addrs_def fp_mset_add)
next
  case (2 t p x)
  then show ?case by (simp add: k32_otPlatRadioAddSrcMatchShortEntry_def short_addrs_def fp_first_full)
next
  case (3 t x)
  then obtain i where i: "findShort x t = Some i" using findShort_None [of x t] by auto
  with 3 show ?case
    using findShort_Some [OF i] by (simp add: k32_otPlatRadioClearSrcMatchShortEntry_def short_ok_def short_addrs_def fp_mset_del)
next
  case (4 t x)
  then show ?case by (simp add: k32_otPlatRadioClearSrcMatchShortEntry_def findShort_None [symmetric])
next
  case (5 t)
  then show ?case by (simp add: k32_otPlatRadioClearSrcMatchShortEntries_def short_ok_def short_addrs_def)
next
  case (6 t x)
  then show ?case using findShort_None [of x t] by auto
next
  case (7 t)
  then show ?case by (simp add: short_addrs_def fp_mset_size)
qed

lemma findExt_None:
  assumes "rd64_inj rd64" and "ext_ok t" and "length x = 8"
  shows "findExt rd64 (rd64 (rev x)) t = None \<longleftrightarrow> x \<notin># ext_addrs t"
proof -
  have "rd64 (extAddr (sFpExtAddr t ! i)) = rd64 (rev x) \<longleftrightarrow> rev (extAddr (sFpExtAddr t ! i)) = x"
    if "i < length (sFpExtAddr t)" "BIT_TST (sFpExtAddrMask t) i" for i
  proof -
    have "length (extAddr (sFpExtAddr t ! i)) = 8" using assms(2) that by (simp add: ext_ok_def fp_valid_def)
    then show ?thesis using inj_on_eq_iff [OF assms(1) [unfolded rd64_inj_def], of _ "rev x"] assms(3) by auto
  qed
  then show ?thesis by (auto simp: findExt_def firstIdx_None ext_addrs_def fp_mset_mem)
qed

lemma findExt_Some:
  assumes "rd64_inj rd64" and "ext_ok t" and "length x = 8" and "findExt rd64 (rd64 (rev x)) t = Some i"
  shows "i < length (sFpExtAddr t) \<and> BIT_TST (sFpExtAddrMask t) i \<and> rev (extAddr (sFpExtAddr t ! i)) = x"
proof -
  have i: "i < length (sFpExtAddr t)" "BIT_TST (sFpExtAddrMask t) i" "rd64 (extAddr (sFpExtAddr t ! i)) = rd64 (rev x)"
    using firstIdx_Some [OF assms(4) [unfolded findExt_def]] by auto
  moreover have "length (extAddr (sFpExtAddr t ! i)) = 8" using assms(2) i by (simp add: ext_ok_def fp_valid_def)
  ultimately show ?thesis using inj_onD [OF assms(1) [unfolded rd64_inj_def]] assms(3) by force
qed

lemma ext_ok_add:
  assumes "ext_ok t" and "i < length (sFpExtAddr t)" and "length (extAddr e) = 8"
  shows "ext_ok (t\<lparr>sFpExtAddr := (sFpExtAddr t)[i := e], sFpExtAddrMask := BIT_SET (sFpExtAddrMask t) i\<rparr>)"
  using assms by (auto simp: ext_ok_def fp_valid_def BIT_TST_SET nth_list_update)

lemma ext_table_laws:
  assumes "rd64_inj rd64"
  shows "match_table ext_ok ext_addrs (\<lambda>t. length (sFpExtAddr t)) (\<lambda>x. length x = 8)
    k32_otPlatRadioAddSrcMatchExtEntry (k32_otPlatRadioClearSrcMatchExtEntry rd64) k32_otPlatRadioClearSrcMatchExtEntries
    (\<lambda>x t. findExt rd64 (rd64 (rev x)) t \<noteq> None)"
proof (standard, goal_cases)
  case (1 t x p)
  then obtain i where "firstIdx (\<lambda>idx. \<not> BIT_TST (sFpExtAddrMask t) idx) (length (sFpExtAddr t)) 0 = Some i"
      "i < length (sFpExtAddr t)" "\<not> BIT_TST (sFpExtAddrMask t) i"
    unfolding ext_addrs_def by (metis fp_first_free)
  moreover have "length (sFpExtAddr t) \<le> 64" using 1(1) by (simp add: ext_ok_def)
  ultimately show ?case
    using 1(1,2) by (simp add: k32_otPlatRadioAddSrcMatchExtEntry_def ext_addrs_def fp_mset_add ext_ok_add)
next
  case (2 t p x)
  then show ?case by (simp add: k32_otPlatRadioAddSrcMatchExtEntry_def ext_addrs_def fp_first_full)
next
  case (3 t x)
  then obtain i where i: "findExt rd64 (rd64 (rev x)) t = Some i" using findExt_None [OF assms, of t x] by auto
  note f = findExt_Some [OF assms 3(1,2) i]
  have "ext_ok (t\<lparr>sFpExtAddrMask := BIT_CLR (sFpExtAddrMask t) i\<rparr>)"
    using 3(1) by (auto simp: ext_ok_def fp_valid_def BIT_TST_CLR)
  then show ?case using i f by (simp add: k32_otPlatRadioClearSrcMatchExtEntry_def ext_addrs_def fp_mset_del)
next
  case (4 t x)
  then show ?case by (simp add: k32_otPlatRadioClearSrcMatchExtEntry_def findExt_None [OF assms, symmetric])
next
  case (5 t)
  then show ?case
    by (simp add: k32_otPlatRadioClearSrcMatchExtEntries_def ext_ok_def ext_addrs_def fp_valid_def BIT_TST_bit)
next
  case (6 t x)
  then show ?case using findExt_None [OF assms, of t x] by auto
next
  case (7 t)
  then show ?case by (simp add: ext_addrs_def fp_mset_size)
qed

section \<open>The calls of OpenThread\<close>

datatype src_call = OnShort "u16 match_op" | OnExt "bytes match_op"

fun src_exec :: "(bytes \<Rightarrow> u64) \<Rightarrow> u16 \<times> src_call \<Rightarrow> src_match \<Rightarrow> otError \<times> src_match" where
  "src_exec rd64 (p, OnShort oper) t = (case oper of
       MAdd a \<Rightarrow> k32_otPlatRadioAddSrcMatchShortEntry p a t
     | MDel a \<Rightarrow> k32_otPlatRadioClearSrcMatchShortEntry a t
     | MClear \<Rightarrow> (OT_ERROR_NONE, k32_otPlatRadioClearSrcMatchShortEntries t))"
| "src_exec rd64 (p, OnExt oper) t = (case oper of
       MAdd a \<Rightarrow> k32_otPlatRadioAddSrcMatchExtEntry p a t
     | MDel a \<Rightarrow> k32_otPlatRadioClearSrcMatchExtEntry rd64 a t
     | MClear \<Rightarrow> (OT_ERROR_NONE, k32_otPlatRadioClearSrcMatchExtEntries t))"

fun src_run :: "(bytes \<Rightarrow> u64) \<Rightarrow> (u16 \<times> src_call) list \<Rightarrow> src_match \<Rightarrow> otError list \<times> src_match" where
  "src_run rd64 [] t = ([], t)"
| "src_run rd64 (c # cs) t = (let (r, u) = src_exec rd64 c t; (rs, v) = src_run rd64 cs u in (r # rs, v))"

text \<open>The reference: two multisets of at most \<^verbatim>\<open>MAX_FP_ADDRS\<close> addresses.\<close>

fun src_spec :: "nat \<Rightarrow> nat \<Rightarrow> (u16 \<times> src_call) list \<Rightarrow> u16 multiset \<Rightarrow> bytes multiset \<Rightarrow> otError list \<times> u16 multiset \<times> bytes multiset" where
  "src_spec m n [] S X = ([], S, X)"
| "src_spec m n ((p, OnShort oper) # cs) S X =
     (let (r, S1) = match_spec m oper S; (rs, R) = src_spec m n cs S1 X in (r # rs, R))"
| "src_spec m n ((p, OnExt oper) # cs) S X =
     (let (r, X1) = match_spec n oper X; (rs, R) = src_spec m n cs S X1 in (r # rs, R))"

fun src_arg :: "u16 \<times> src_call \<Rightarrow> bool" where
  "src_arg (p, OnShort oper) = True"
| "src_arg (p, OnExt oper) = match_arg (\<lambda>x. length x = 8) oper"

text \<open>An operation on one table leaves the other one alone.\<close>

definition short_part :: "src_match \<Rightarrow> fpNeighShortAddr list \<times> u64" where
  "short_part t = (sFpShortAddr t, sFpShortAddrMask t)"

definition ext_part :: "src_match \<Rightarrow> fpNeighExtAddr list \<times> u64" where
  "ext_part t = (sFpExtAddr t, sFpExtAddrMask t)"

lemmas src_defs = k32_otPlatRadioAddSrcMatchShortEntry_def k32_otPlatRadioClearSrcMatchShortEntry_def
  k32_otPlatRadioClearSrcMatchShortEntries_def k32_otPlatRadioAddSrcMatchExtEntry_def
  k32_otPlatRadioClearSrcMatchExtEntry_def k32_otPlatRadioClearSrcMatchExtEntries_def

lemma src_frame:
  "src_exec rd64 (p, OnShort s) t = (r, u) \<Longrightarrow> ext_part u = ext_part t"
  "src_exec rd64 (p, OnExt x) t = (r, u) \<Longrightarrow> short_part u = short_part t"
  by (auto simp: src_defs ext_part_def short_part_def split: match_op.splits option.splits)

lemma part_cong:
  "ext_part u = ext_part t \<Longrightarrow> ext_ok u = ext_ok t \<and> ext_addrs u = ext_addrs t \<and> length (sFpExtAddr u) = length (sFpExtAddr t)"
  "short_part u = short_part t \<Longrightarrow> short_ok u = short_ok t \<and> short_addrs u = short_addrs t \<and> length (sFpShortAddr u) = length (sFpShortAddr t)"
  by (simp_all add: ext_part_def short_part_def ext_ok_def short_ok_def ext_addrs_def short_addrs_def)

lemma match_arg_True [simp]: "match_arg (\<lambda>_. True) oper"
  by (cases oper) simp_all

lemma src_run_refines:
  assumes "rd64_inj rd64"
  shows "src_match_ok t \<Longrightarrow> (\<forall>c \<in> set cs. src_arg c) \<Longrightarrow> src_run rd64 cs t = (rs, u) \<Longrightarrow>
    src_match_ok u \<and> length (sFpShortAddr u) = length (sFpShortAddr t) \<and> length (sFpExtAddr u) = length (sFpExtAddr t) \<and>
    src_spec (length (sFpShortAddr t)) (length (sFpExtAddr t)) cs (short_addrs t) (ext_addrs t) = (rs, short_addrs u, ext_addrs u)"
proof (induction cs arbitrary: t rs)
  case (Cons c cs)
  obtain r v rs1 where step: "src_exec rd64 c t = (r, v)" "src_run rd64 cs v = (rs1, u)" "rs = r # rs1"
    using Cons.prems(3) by (auto simp: Let_def split: prod.splits)
  show ?case
  proof (cases c)
    case (Pair p call)
    show ?thesis
    proof (cases call)
      case (OnShort oper)
      have "short_table.exec p oper t = (r, v)"
        using step(1) Pair OnShort by (simp add: short_table.exec_def split: match_op.splits)
      then have v: "short_ok v" "length (sFpShortAddr v) = length (sFpShortAddr t)"
        "match_spec (length (sFpShortAddr t)) oper (short_addrs t) = (r, short_addrs v)"
        using short_table.exec_refines [of t oper p] Cons.prems(1) by (auto simp: src_match_ok_def)
      note frame = part_cong(1) [OF src_frame(1) [OF step(1) [unfolded Pair OnShort]]]
      show ?thesis
        using Cons.IH [OF _ _ step(2)] Cons.prems v frame Pair OnShort step(3) by (simp add: src_match_ok_def)
    next
      case (OnExt oper)
      note laws = ext_table_laws [OF assms]
      have "match_table.exec k32_otPlatRadioAddSrcMatchExtEntry (k32_otPlatRadioClearSrcMatchExtEntry rd64)
          k32_otPlatRadioClearSrcMatchExtEntries p oper t = (r, v)"
        using step(1) Pair OnExt by (simp add: match_table.exec_def [OF laws] split: match_op.splits)
      then have v: "ext_ok v" "length (sFpExtAddr v) = length (sFpExtAddr t)"
        "match_spec (length (sFpExtAddr t)) oper (ext_addrs t) = (r, ext_addrs v)"
        using match_table.exec_refines [OF laws, of t oper p] Cons.prems(1,2) Pair OnExt by (auto simp: src_match_ok_def)
      note frame = part_cong(2) [OF src_frame(2) [OF step(1) [unfolded Pair OnExt]]]
      show ?thesis
        using Cons.IH [OF _ _ step(2)] Cons.prems v frame Pair OnExt step(3) by (simp add: src_match_ok_def)
    qed
  qed
qed simp

section \<open>Properties\<close>

text \<open>
  C10. The source-match tables are two multisets of at most \<^verbatim>\<open>MAX_FP_ADDRS\<close> addresses: any sequence of the six calls
  answers as the reference does (\<open>OT_ERROR_NO_BUFS\<close> exactly when the table is full, \<open>OT_ERROR_NO_ADDRESS\<close> exactly when
  the address is not in it) and leaves the multisets the reference computes, and afterwards the lookups the interrupt
  handler does on the over-the-air byte order of an address find exactly the addresses in them.
\<close>

theorem k32_src_match_refines:
  assumes "rd64_inj rd64" and "src_match_ok t" and "\<forall>c \<in> set cs. src_arg c" and "src_run rd64 cs t = (rs, u)"
  shows "src_spec (length (sFpShortAddr t)) (length (sFpExtAddr t)) cs (short_addrs t) (ext_addrs t) = (rs, short_addrs u, ext_addrs u) \<and>
    (\<forall>a. findShort a u \<noteq> None \<longleftrightarrow> a \<in># short_addrs u) \<and>
    (\<forall>x. length x = 8 \<longrightarrow> (findExt rd64 (rd64 x) u \<noteq> None \<longleftrightarrow> rev x \<in># ext_addrs u))"
proof -
  note run = src_run_refines [OF assms(1-4)]
  have "findExt rd64 (rd64 x) u \<noteq> None \<longleftrightarrow> rev x \<in># ext_addrs u" if "length x = 8" for x
    using findExt_None [OF assms(1), of u "rev x"] run that by (auto simp: src_match_ok_def)
  then show ?thesis using run findShort_None by auto
qed

fun le_nat :: "bytes \<Rightarrow> nat" where
  "le_nat [] = 0"
| "le_nat (b # bs) = unat b + 256 * le_nat bs"

definition rd64_le :: "bytes \<Rightarrow> u64" where "rd64_le xs = of_nat (le_nat xs)"

lemma le_nat_less: "le_nat xs < 256 ^ length xs"
proof (induction xs)
  case (Cons b bs)
  have "unat b < 256" using unsigned_less [of b] by simp
  with Cons show ?case by simp
qed simp

lemma le_nat_inj: "length xs = length ys \<Longrightarrow> le_nat xs = le_nat ys \<Longrightarrow> xs = ys"
proof (induction xs ys rule: list_induct2)
  case (Cons x xs y ys)
  have b: "unat x < 256" "unat y < 256" using unsigned_less [of x] unsigned_less [of y] by simp_all
  have "unat x = le_nat (x # xs) mod 256" "unat y = le_nat (y # ys) mod 256" using b by simp_all
  then have "unat x = unat y" by (simp only: Cons.prems)
  with Cons show ?case by (simp add: word_unat_eq_iff)
qed simp

lemma rd64_le_inj: "rd64_inj rd64_le"
  unfolding rd64_inj_def
proof (rule inj_onI)
  fix xs ys assume len: "xs \<in> {xs. length xs = 8}" "ys \<in> {xs. length xs = 8}" and eq: "rd64_le xs = rd64_le ys"
  have "le_nat xs < 2 ^ 64" "le_nat ys < 2 ^ 64" using le_nat_less [of xs] le_nat_less [of ys] len by simp_all
  then have "le_nat xs = le_nat ys"
    using arg_cong [OF eq, of unat] by (simp add: rd64_le_def unat_of_nat)
  then show "xs = ys" using len by (intro le_nat_inj) simp_all
qed

definition src_boot :: "nat \<Rightarrow> src_match" where
  "src_boot n = \<lparr>sFpShortAddr = replicate n \<lparr>macAddress = 0, fpShortPanId = 0\<rparr>, sFpShortAddrMask = 0,
     sFpExtAddr = replicate n \<lparr>extAddr = replicate 8 0, fpExtPanId = 0\<rparr>, sFpExtAddrMask = 0\<rparr>"

lemma src_boot_ok: "n \<le> 64 \<Longrightarrow> src_match_ok (src_boot n)" "short_addrs (src_boot n) = {#}" "ext_addrs (src_boot n) = {#}"
  by (simp_all add: src_boot_def src_match_ok_def short_ok_def ext_ok_def short_addrs_def ext_addrs_def fp_valid_def)

definition src_sample :: "(u16 \<times> src_call) list" where
  "src_sample = [(7, OnShort (MAdd 1)), (7, OnShort (MAdd 2)), (7, OnShort (MAdd 3)), (7, OnShort (MDel 1)),
     (7, OnShort (MDel 9)), (7, OnExt (MAdd [1, 2, 3, 4, 5, 6, 7, 8]))]"

theorem k32_src_match_refines_witness:
  "\<exists>u. src_run rd64_le src_sample (src_boot 2) =
      ([OT_ERROR_NONE, OT_ERROR_NONE, OT_ERROR_NO_BUFS, OT_ERROR_NONE, OT_ERROR_NO_ADDRESS, OT_ERROR_NONE], u) \<and>
    findShort 2 u \<noteq> None \<and> findShort 1 u = None \<and> findExt rd64_le (rd64_le [8, 7, 6, 5, 4, 3, 2, 1]) u \<noteq> None"
proof -
  obtain rs u where run: "src_run rd64_le src_sample (src_boot 2) = (rs, u)" by force
  have "\<forall>c \<in> set src_sample. src_arg c" by (simp add: src_sample_def)
  note c = k32_src_match_refines [OF rd64_le_inj src_boot_ok(1) this run]
  have "rs = [OT_ERROR_NONE, OT_ERROR_NONE, OT_ERROR_NO_BUFS, OT_ERROR_NONE, OT_ERROR_NO_ADDRESS, OT_ERROR_NONE]"
    "short_addrs u = {#2#}" "ext_addrs u = {#[1, 2, 3, 4, 5, 6, 7, 8]#}"
    using c by (auto simp: src_boot_ok) (simp_all add: src_boot_def src_sample_def)
  moreover from this c have "findShort 2 u \<noteq> None" "\<not> findShort 1 u \<noteq> None"
    "findExt rd64_le (rd64_le [8, 7, 6, 5, 4, 3, 2, 1]) u \<noteq> None" by simp_all
  ultimately show ?thesis using run by (intro exI [of _ u]) simp
qed

end
