(* ===== verification/K32w0_Radio.thy ===== *)
theory K32w0_Radio
  imports K32w0_Rx_Ring K32w0_Src_Match
begin

text \<open>
  \<^verbatim>\<open>src/k32w0/platform/radio.c\<close>: the radio driver of k32w0 over the MMAC library, for Thread 1.2 with a CSL receiver
  and link metrics, without the delays of the RCP build. The file-scope variables \<open>sX\<close> are the fields \<open>kX\<close> of
  \<open>k32_radio\<close>; the two pieces of a ring entry, the MAC frame and the OpenThread frame that shares its payload, are one
  record. Every call to MMAC, to the application and to OpenThread is appended to the trace \<open>kTrace\<close>, together with two
  entries of the model, the interrupts taken and the frames queued. MMAC, the clocks and the frame helpers of OpenThread
  are fields of the parameter \<open>k32_mac\<close>, and an answer may depend on the whole trace so far. What OpenThread does when a
  frame or the end of a transmission is reported is a list of calls into the driver; interrupts are taken between the
  calls, in the waits and between the steps of the main loop, where \<open>irqs\<close> says. \<open>None\<close> stands for a wait that does not end.
\<close>

section \<open>Data\<close>

datatype k32_state = K32_DISABLED | K32_SLEEP | K32_RECEIVE | K32_TRANSMIT | K32_RX_DISABLED

record rxRingBufferEntry =
  au8Byte :: bytes
  u8PayloadLength :: u8
  padFp :: u8
  padLm :: u8
  ofLength :: u16
  ofChannel :: u8
  ofTimestamp :: u64
  ofLqi :: u8
  ofRssi :: u8
  ofAckedWithFramePending :: bool
  ofAckedWithSecEnhAck :: bool
  ofAckKeyId :: u8
  ofAckFrameCounter :: u32

record k32_txframe =
  txPsdu :: bytes
  txLength :: u16
  txChannel :: u8
  txDelay :: u32
  txDelayBaseTime :: u32
  txCsmaCaEnabled :: bool
  txIsSecurityProcessed :: bool
  txIsHeaderUpdated :: bool

record teTxOption =
  E_MMAC_TX_ENC :: bool
  E_MMAC_TX_HDR_UPD :: bool
  E_MMAC_TX_USE_CCA :: bool
  E_MMAC_TX_DELAY_START :: bool

text \<open>An interrupt of the MAC, with what the MAC has written to the buffer it was given.\<close>

record mac_irq =
  E_MMAC_INT_RX_HEADER :: bool
  E_MMAC_INT_RX_COMPLETE :: bool
  E_MMAC_INT_TX_COMPLETE :: bool
  irqBytes :: bytes
  irqLen :: u8

datatype k32_irq = IrqMac mac_irq | IrqVsIe

record tx_errors =
  E_MMAC_TXSTAT_CCA_BUSY :: bool
  E_MMAC_TXSTAT_NO_ACK :: bool
  E_MMAC_TXSTAT_ABORTED :: bool
  E_MMAC_TXSTAT_TXPCTO :: bool
  E_MMAC_TXSTAT_TXTO :: bool

datatype mac_address = AddrNone | AddrShort u16 | AddrExt bytes

datatype k32_call =
    V2MMAC_Enable | V2MMAC_RegisterIntHandler | vMMAC_ConfigureRadio | V2MMAC_RegisterEncFn
  | V2MMAC_RegisterEnhAckVsIeFn | vMMAC_Disable | vMMAC_RadioToOffAndWait
  | vMMAC_SetChannelAndPower u8 u8 | vMMAC_SetRxExtendedAddr bytes | vMMAC_SetRxPanId u16 | vMMAC_SetRxShortAddr u16
  | vMMAC_StartV2MacReceive u16 bool | vMMAC_SetRxFrame | vMMAC_SetTxParameters
  | vMMAC_StartV2MacTransmit u8 teTxOption u32 | vMMAC_SetTxPend bool | vMMAC_WriteCcaThreshold u8
  | V2MMAC_SetMacKey u8 bytes bytes bytes | V2MMAC_SetMacFrameCounter u32 | V2MMAC_EnableCsl u32 | V2MMAC_SetCslSampleTime u32
  | u32MMAC_GetTime | v2MAC_is_rx_ongoing | otPlatTimeGet | i16MMAC_GetRSSI
  | OSA_InterruptDisable | OSA_InterruptEnable | BOARD_LedDongleToggle | otSysEventSignalPending | otLinkMetricsInit int
  | App_AllowDeviceToSleep | App_DisallowDeviceToSleep
  | otPlatRadioTxStarted | otPlatRadioTxDone "rxRingBufferEntry option" otError | otPlatRadioReceiveDone rxRingBufferEntry
  | MacIrq mac_irq | FrameQueued rxRingBufferEntry

record k32_radio =
  kState :: k32_state
  kTxPwrLevel :: u8
  kChannel :: u8
  kIsFpEnabled :: bool
  kPanId :: u16
  kShortAddress :: u16
  kExtAddress :: bytes
  kRevExtAddr :: bytes
  kCustomExtAddr :: bytes
  kSrcMatch :: src_match
  kRxRing :: "rxRingBufferEntry k32_ring"
  kRxAddressMatch :: bool
  kTxMacLength :: u8
  kAck :: rxRingBufferEntry
  kRadioInitForLp :: bool
  kPromiscuousEnable :: bool
  kTxDone :: bool
  kTxStatus :: otError
  kTxOtFrame :: k32_txframe
  kMacFrameCounter :: u32
  kKeyId :: u8
  kCslPeriod :: u32
  kAllowDeviceToSleep :: bool
  kTrace :: "k32_call list"

text \<open>The calls OpenThread makes; a transmission fills the driver's transmit buffer first.\<close>

datatype radio_call =
    CEnable | CDisable | CSleep | CReceive u8 | CTransmit k32_txframe | CGetRssi | CSetTransmitPower u8
  | CSetPromiscuous bool | CSetPanId u16 | CSetExtendedAddress "bytes option" | CSetShortAddress u16
  | CEnableSrcMatch bool | CSrcMatch src_call | CSetMacKey u8 bytes bytes bytes | CSetMacFrameCounter u32
  | CSetMacFrameCounterIfLarger u32 | CEnableCsl u32 | CUpdateCslSampleTime u32 | CSetCcaThreshold u8

record k32_mac =
  mmacTime :: "k32_call list \<Rightarrow> u32"
  platTime :: "k32_call list \<Rightarrow> u64"
  rxOngoing :: "k32_call list \<Rightarrow> bool"
  irqs :: "k32_call list \<Rightarrow> k32_irq list"
  rxErrors :: "k32_call list \<Rightarrow> u32"
  txErrors :: "k32_call list \<Rightarrow> tx_errors"
  rxTimestamp :: "k32_call list \<Rightarrow> u32"
  rxLqi :: "k32_call list \<Rightarrow> u8"
  lastPacketRssi :: "k32_call list \<Rightarrow> u8"
  mmacRssi :: "k32_call list \<Rightarrow> 16 word"
  MMAC_INVALID_RSSI :: "16 word"
  i16Radio_BoundRssiValue :: "16 word \<Rightarrow> 16 word"
  i16Radio_GetRSSIfromED :: "u8 \<Rightarrow> 16 word"
  u8Radio_GetEDfromRSSI :: "16 word \<Rightarrow> u8"
  frmIsVersion2015 :: "bytes \<Rightarrow> u16 \<Rightarrow> bool"
  frmIsCommand :: "bytes \<Rightarrow> u16 \<Rightarrow> bool"
  frmIsData :: "bytes \<Rightarrow> u16 \<Rightarrow> bool"
  frmIsDataRequest :: "bytes \<Rightarrow> u16 \<Rightarrow> bool"
  frmIsSecurityEnabled :: "bytes \<Rightarrow> u16 \<Rightarrow> bool"
  frmIsKeyIdMode1 :: "bytes \<Rightarrow> u16 \<Rightarrow> bool"
  frmIsAckRequested :: "bytes \<Rightarrow> u16 \<Rightarrow> bool"
  frmGetKeyId :: "bytes \<Rightarrow> u16 \<Rightarrow> u8"
  frmGetSrcAddr :: "bytes \<Rightarrow> u16 \<Rightarrow> mac_address option"
  readUint64Le :: "bytes \<Rightarrow> u64"
  enhAckDataLen :: "bytes \<Rightarrow> u16 \<Rightarrow> u8"
  probingIeLen :: "u8 \<Rightarrow> u8"
  onReceiveDone :: "k32_call list \<Rightarrow> radio_call list"
  onTxDone :: "k32_call list \<Rightarrow> radio_call list"

definition TX_TO :: u32 where "TX_TO = 544"
definition US_PER_SYMBOL :: nat where "US_PER_SYMBOL = 16"
definition K32W_RADIO_MIN_TX_POWER_DBM :: int where "K32W_RADIO_MIN_TX_POWER_DBM = -30"
definition K32W_RADIO_MAX_TX_POWER_DBM :: int where "K32W_RADIO_MAX_TX_POWER_DBM = 15"
definition K32W_RADIO_RX_SENSITIVITY_DBM :: int where "K32W_RADIO_RX_SENSITIVITY_DBM = -100"
definition K32W_RADIO_RX_MAX_DBM :: int where "K32W_RADIO_RX_MAX_DBM = 10"
definition K32W_RADIO_DEFAULT_CHANNEL :: u8 where "K32W_RADIO_DEFAULT_CHANNEL = 11"
definition K32W0_RADIO_NUM_OF_RX_BUFS :: nat where "K32W0_RADIO_NUM_OF_RX_BUFS = 8"

definition kcall :: "k32_call \<Rightarrow> k32_radio \<Rightarrow> k32_radio" where
  "kcall a s = s\<lparr>kTrace := kTrace s @ [a]\<rparr>"

definition set_slot :: "u16 \<Rightarrow> rxRingBufferEntry \<Rightarrow> k32_radio \<Rightarrow> k32_radio" where
  "set_slot n e s = s\<lparr>kRxRing := (kRxRing s)\<lparr>buffer := (buffer (kRxRing s))[unat n := e]\<rparr>\<rparr>"

definition slot :: "u16 \<Rightarrow> k32_radio \<Rightarrow> rxRingBufferEntry" where
  "slot n s = buffer (kRxRing s) ! unat n"

section \<open>The MAC's buffer\<close>

text \<open>
  The buffer the MAC was last told to write to and has not finished with: a reception ends with its interrupt or when
  the radio is switched off, and a transmission redirects the MAC to the buffer for the acknowledgement.
\<close>

datatype mac_buf = MacIdle | MacSlot u16 | MacAck

definition mac_next :: "mac_buf \<Rightarrow> k32_call \<Rightarrow> mac_buf" where
  "mac_next b a = (case a of
       vMMAC_StartV2MacReceive i _ \<Rightarrow> MacSlot i
     | vMMAC_SetRxFrame \<Rightarrow> MacAck
     | vMMAC_RadioToOffAndWait \<Rightarrow> MacIdle
     | vMMAC_Disable \<Rightarrow> MacIdle
     | MacIrq q \<Rightarrow> (if E_MMAC_INT_RX_COMPLETE q \<and> b \<noteq> MacAck \<or> E_MMAC_INT_TX_COMPLETE q \<and> b = MacAck then MacIdle else b)
     | _ \<Rightarrow> b)"

definition mac_target :: "k32_call list \<Rightarrow> mac_buf" where
  "mac_target tr = foldl mac_next MacIdle tr"

lemma mac_target_snoc [simp]: "mac_target (tr @ [a]) = mac_next (mac_target tr) a"
  by (simp add: mac_target_def)

definition mac_writes :: "mac_irq \<Rightarrow> k32_radio \<Rightarrow> k32_radio" where
  "mac_writes q s = kcall (MacIrq q)
     (case mac_target (kTrace s) of
        MacIdle \<Rightarrow> s
      | MacSlot n \<Rightarrow> set_slot n ((slot n s)\<lparr>au8Byte := irqBytes q, u8PayloadLength := irqLen q\<rparr>) s
      | MacAck \<Rightarrow> s\<lparr>kAck := (kAck s)\<lparr>au8Byte := irqBytes q, u8PayloadLength := irqLen q\<rparr>\<rparr>)"


section \<open>Clocks and receiving\<close>

definition kReadMac :: "k32_mac \<Rightarrow> k32_radio \<Rightarrow> u32 \<times> k32_radio" where
  "kReadMac env s = (mmacTime env (kTrace s), kcall u32MMAC_GetTime s)"

definition kReadPlat :: "k32_mac \<Rightarrow> k32_radio \<Rightarrow> u64 \<times> k32_radio" where
  "kReadPlat env s = (platTime env (kTrace s), kcall otPlatTimeGet s)"

definition K32WEnableReceive :: "k32_radio \<Rightarrow> k32_radio" where
  "K32WEnableReceive s =
     (case enable_slot (kRxRing s) of
        (None, r) \<Rightarrow> s\<lparr>kRxRing := r, kState := K32_RX_DISABLED\<rparr>
      | (Some n, r) \<Rightarrow> kcall (vMMAC_StartV2MacReceive n (kRxAddressMatch s)) (s\<lparr>kRxRing := r\<rparr>))"

definition K32WFrameConversion :: "k32_mac \<Rightarrow> rxRingBufferEntry \<Rightarrow> k32_radio \<Rightarrow> rxRingBufferEntry \<times> k32_radio" where
  "K32WFrameConversion env e s =
     (let (plat, s1) = kReadPlat env s; (now, s2) = kReadMac env s1;
          ago = ucast (now - rxTimestamp env (kTrace s2)) :: u64
      in (e\<lparr>ofLength := ucast (u8PayloadLength e), ofTimestamp := plat - ago * of_nat US_PER_SYMBOL,
            ofLqi := rxLqi env (kTrace s2), ofRssi := lastPacketRssi env (kTrace s2)\<rparr>, s2))"

definition security_check :: "rxRingBufferEntry \<Rightarrow> k32_radio \<Rightarrow> bool" where
  "security_check e s \<longleftrightarrow> kCslPeriod s \<noteq> 0 \<or> padLm e \<noteq> 0"

text \<open>The key index is compared as an integer, one below, equal to or one above the current one.\<close>

definition key_near :: "u8 \<Rightarrow> u8 \<Rightarrow> bool" where
  "key_near keyId cur \<longleftrightarrow> keyId \<noteq> 0 \<and> (keyId = cur \<or> int (unat keyId) = int (unat cur) - 1 \<or> int (unat keyId) = int (unat cur) + 1)"

definition sec_enh_ack :: "k32_mac \<Rightarrow> rxRingBufferEntry \<Rightarrow> k32_radio \<Rightarrow> bool" where
  "sec_enh_ack env e s \<longleftrightarrow> (let p = au8Byte e; l = ofLength e in
     security_check e s \<and> frmIsVersion2015 env p l \<and> frmIsAckRequested env p l \<and> frmIsSecurityEnabled env p l \<and>
     frmIsKeyIdMode1 env p l \<and> key_near (frmGetKeyId env p l) (kKeyId s))"

definition K32WGetRxFrameInfo :: "k32_mac \<Rightarrow> rxRingBufferEntry \<Rightarrow> k32_radio \<Rightarrow> rxRingBufferEntry \<times> k32_radio" where
  "K32WGetRxFrameInfo env e s =
     (let e0 = e\<lparr>ofTimestamp := 0, ofLqi := 0, ofRssi := 0, ofAckedWithFramePending := False, ofAckedWithSecEnhAck := False,
                 ofAckKeyId := 0, ofAckFrameCounter := 0\<rparr>;
          (e1, s1) = K32WFrameConversion env e0 s;
          e2 = e1\<lparr>ofChannel := kChannel s1, ofAckedWithFramePending := padFp e1 \<noteq> 0\<rparr>
      in if sec_enh_ack env e2 s1
         then (e2\<lparr>ofAckedWithSecEnhAck := True, ofAckKeyId := frmGetKeyId env (au8Byte e2) (ofLength e2),
                  ofAckFrameCounter := kMacFrameCounter s1\<rparr>,
               s1\<lparr>kMacFrameCounter := kMacFrameCounter s1 + 1\<rparr>)
         else (e2, s1))"

section \<open>Frame pending\<close>

definition K32WCheckIfFpRequired :: "k32_mac \<Rightarrow> rxRingBufferEntry \<Rightarrow> k32_radio \<Rightarrow> bool" where
  "K32WCheckIfFpRequired env e s =
     (let p = au8Byte e; l = ucast (u8PayloadLength e) :: u16 in
      if \<not> (frmIsVersion2015 env p l \<and> frmIsCommand env p l \<or> frmIsData env p l \<or> frmIsDataRequest env p l) then False
      else if \<not> kIsFpEnabled s then True
      else (case frmGetSrcAddr env p l of
          None \<Rightarrow> False
        | Some AddrNone \<Rightarrow> True
        | Some (AddrShort a) \<Rightarrow> findShort a (kSrcMatch s) \<noteq> None
        | Some (AddrExt x) \<Rightarrow> findExt (readUint64Le env) (readUint64Le env x) (kSrcMatch s) \<noteq> None))"

definition K32WProcessMacHeader :: "k32_mac \<Rightarrow> u16 \<Rightarrow> k32_radio \<Rightarrow> k32_radio" where
  "K32WProcessMacHeader env n s =
     (let s1 = set_slot n ((slot n s)\<lparr>padFp := 0, padLm := 0\<rparr>) s;
          isFpRequired = K32WCheckIfFpRequired env (slot n s1) s1;
          s2 = kcall (vMMAC_SetTxPend isFpRequired) s1
      in set_slot n ((slot n s2)\<lparr>padFp := of_bool isFpRequired\<rparr>) s2)"

text \<open>Asked by the MAC while it acknowledges the frame in the given slot.\<close>

definition K32WGetVsIeLen :: "k32_mac \<Rightarrow> u16 \<Rightarrow> k32_radio \<Rightarrow> u8 \<times> k32_radio" where
  "K32WGetVsIeLen env n s =
     (let e = slot n s; d = enhAckDataLen env (au8Byte e) (ucast (u8PayloadLength e));
          len = (if d > 0 then probingIeLen env d else d)
      in (len, if len \<noteq> 0 then set_slot n (e\<lparr>padLm := 1\<rparr>) s else s))"

section \<open>The interrupt handler\<close>

definition tx_outcome :: "tx_errors \<Rightarrow> otError \<Rightarrow> otError" where
  "tx_outcome err cur =
     (if E_MMAC_TXSTAT_CCA_BUSY err then OT_ERROR_CHANNEL_ACCESS_FAILURE
      else if E_MMAC_TXSTAT_NO_ACK err then OT_ERROR_NO_ACK
      else if E_MMAC_TXSTAT_ABORTED err then OT_ERROR_ABORT
      else if E_MMAC_TXSTAT_TXPCTO err \<or> E_MMAC_TXSTAT_TXTO err then OT_ERROR_CHANNEL_ACCESS_FAILURE
      else cur)"

definition tx_failed :: "tx_errors \<Rightarrow> bool" where
  "tx_failed err \<longleftrightarrow> E_MMAC_TXSTAT_CCA_BUSY err \<or> E_MMAC_TXSTAT_NO_ACK err \<or> E_MMAC_TXSTAT_ABORTED err \<or>
     E_MMAC_TXSTAT_TXPCTO err \<or> E_MMAC_TXSTAT_TXTO err"

definition rx_complete :: "k32_mac \<Rightarrow> k32_radio \<Rightarrow> k32_radio" where
  "rx_complete env s =
     (if rxErrors env (kTrace s) = 0
      then (let n = rbNext (kRxRing s); (e, s1) = K32WGetRxFrameInfo env (slot n s) s;
                s2 = kcall (FrameQueued e) (set_slot n e s1)
            in K32WEnableReceive (s2\<lparr>kRxRing := K32WPushRxRingBuffer (kRxRing s2)\<rparr>))
      else K32WEnableReceive s)"

definition tx_complete :: "k32_mac \<Rightarrow> k32_radio \<Rightarrow> k32_radio" where
  "tx_complete env s =
     (let err = txErrors env (kTrace s);
          s1 = (if tx_failed err then s\<lparr>kTxStatus := tx_outcome err (kTxStatus s)\<rparr>
                else (let (a, t) = K32WFrameConversion env (kAck s) s in t\<lparr>kAck := a\<lparr>ofChannel := txChannel (kTxOtFrame t)\<rparr>\<rparr>));
          s2 = s1\<lparr>kTxDone := True\<rparr>;
          s3 = (if kChannel s2 \<noteq> txChannel (kTxOtFrame s2) then kcall (vMMAC_SetChannelAndPower (kChannel s2) (kTxPwrLevel s2)) s2 else s2)
      in K32WEnableReceive ((kcall BOARD_LedDongleToggle s3)\<lparr>kState := K32_RECEIVE\<rparr>))"

definition K32WISR :: "k32_mac \<Rightarrow> mac_irq \<Rightarrow> k32_radio \<Rightarrow> k32_radio" where
  "K32WISR env q s = kcall otSysEventSignalPending
     (case kState s of
        K32_RECEIVE \<Rightarrow>
          (let s1 = (if E_MMAC_INT_RX_HEADER q then K32WProcessMacHeader env (rbNext (kRxRing s)) s else s);
               s2 = (if E_MMAC_INT_RX_COMPLETE q then rx_complete env s1 else s1)
           in kcall BOARD_LedDongleToggle s2)
      | K32_TRANSMIT \<Rightarrow> (if E_MMAC_INT_TX_COMPLETE q then tx_complete env s else s)
      | _ \<Rightarrow> s)"

definition take_irq :: "k32_mac \<Rightarrow> k32_irq \<Rightarrow> k32_radio \<Rightarrow> k32_radio" where
  "take_irq env i s = (case i of
       IrqMac q \<Rightarrow> K32WISR env q (mac_writes q s)
     | IrqVsIe \<Rightarrow> (case mac_target (kTrace s) of MacSlot n \<Rightarrow> snd (K32WGetVsIeLen env n s) | _ \<Rightarrow> s))"

definition serve :: "k32_mac \<Rightarrow> k32_radio \<Rightarrow> k32_radio" where
  "serve env s = fold (take_irq env) (irqs env (kTrace s)) s"

section \<open>Calls of OpenThread\<close>

partial_function (option) wait_rx :: "k32_mac \<Rightarrow> u32 \<Rightarrow> k32_radio \<Rightarrow> k32_radio option" where
  "wait_rx env txTime s =
     (if rxOngoing env (kTrace (serve env s))
      then (if mmacTime env (kTrace (kcall v2MAC_is_rx_ongoing (serve env s))) - txTime < TX_TO
            then wait_rx env txTime (kcall u32MMAC_GetTime (kcall v2MAC_is_rx_ongoing (serve env s)))
            else Some (kcall u32MMAC_GetTime (kcall v2MAC_is_rx_ongoing (serve env s))))
      else Some (kcall v2MAC_is_rx_ongoing (serve env s)))"

definition wait_rx_done :: "k32_mac \<Rightarrow> k32_radio \<Rightarrow> k32_radio option" where
  "wait_rx_done env s = (let (txTime, s1) = kReadMac env s in wait_rx env txTime s1)"

definition K32WRadioInit :: "k32_radio \<Rightarrow> k32_radio" where
  "K32WRadioInit s = kcall (otLinkMetricsInit (K32W_RADIO_RX_SENSITIVITY_DBM - K32W_RADIO_RX_MAX_DBM)) s"

definition App_SetCustomEui64 :: "bytes \<Rightarrow> k32_radio \<Rightarrow> k32_radio" where
  "App_SetCustomEui64 aIeeeEui64 s = s\<lparr>kCustomExtAddr := take 8 aIeeeEui64\<rparr>"

definition k32_otPlatRadioGetIeeeEui64 :: "bytes \<Rightarrow> k32_radio \<Rightarrow> bytes" where
  "k32_otPlatRadioGetIeeeEui64 macAddr s = (if \<forall>b \<in> set (kCustomExtAddr s). b = 0 then macAddr else kCustomExtAddr s)"

definition k32_otPlatRadioSetPanId :: "u16 \<Rightarrow> k32_radio \<Rightarrow> k32_radio" where
  "k32_otPlatRadioSetPanId aPanId s = kcall (vMMAC_SetRxPanId aPanId) (s\<lparr>kPanId := aPanId\<rparr>)"

definition k32_otPlatRadioSetExtendedAddress :: "bytes option \<Rightarrow> k32_radio \<Rightarrow> k32_radio" where
  "k32_otPlatRadioSetExtendedAddress aExtAddress s = (case aExtAddress of
       None \<Rightarrow> s
     | Some a \<Rightarrow> (kcall (vMMAC_SetRxExtendedAddr a) (s\<lparr>kExtAddress := a\<rparr>))\<lparr>kRevExtAddr := rev a\<rparr>)"

definition k32_otPlatRadioSetShortAddress :: "u16 \<Rightarrow> k32_radio \<Rightarrow> k32_radio" where
  "k32_otPlatRadioSetShortAddress aShortAddress s = kcall (vMMAC_SetRxShortAddr aShortAddress) (s\<lparr>kShortAddress := aShortAddress\<rparr>)"

definition k32_otPlatRadioIsEnabled :: "k32_radio \<Rightarrow> bool" where
  "k32_otPlatRadioIsEnabled s \<longleftrightarrow> kState s \<noteq> K32_DISABLED"

definition k32_otPlatRadioEnable :: "k32_radio \<Rightarrow> otError \<times> k32_radio" where
  "k32_otPlatRadioEnable s =
     (let s1 = s\<lparr>kAllowDeviceToSleep := True, kRxRing := K32WResetRxRingBuffer (kRxRing s)\<rparr>;
          s2 = kcall vMMAC_ConfigureRadio (kcall V2MMAC_RegisterIntHandler (kcall V2MMAC_Enable s1));
          s3 = (if kRadioInitForLp s2 \<or> (\<exists>b \<in> set (kExtAddress s2). b \<noteq> 0)
                then kcall (vMMAC_SetRxShortAddr (kShortAddress s2)) (kcall (vMMAC_SetRxPanId (kPanId s2))
                      (kcall (vMMAC_SetRxExtendedAddr (kExtAddress s2))
                        (kcall (vMMAC_SetChannelAndPower (kChannel s2) (kTxPwrLevel s2)) (s2\<lparr>kRadioInitForLp := False\<rparr>))))
                else s2);
          s4 = kcall V2MMAC_RegisterEnhAckVsIeFn (kcall V2MMAC_RegisterEncFn s3)
      in (OT_ERROR_NONE, s4\<lparr>kState := K32_SLEEP\<rparr>))"

definition k32_otPlatRadioDisable :: "k32_radio \<Rightarrow> otError \<times> k32_radio" where
  "k32_otPlatRadioDisable s =
     (if k32_otPlatRadioIsEnabled s
      then (let s1 = (kcall vMMAC_RadioToOffAndWait s)\<lparr>kState := K32_DISABLED\<rparr>;
                s2 = s1\<lparr>kRxRing := K32WResetRxRingBuffer (kRxRing s1)\<rparr>
            in (OT_ERROR_NONE, kcall vMMAC_Disable s2))
      else (OT_ERROR_INVALID_STATE, s))"

definition allow_sleep :: "k32_radio \<Rightarrow> k32_radio" where
  "allow_sleep s = (if \<not> kAllowDeviceToSleep s then (kcall App_AllowDeviceToSleep s)\<lparr>kAllowDeviceToSleep := True\<rparr> else s)"

definition disallow_sleep :: "k32_radio \<Rightarrow> k32_radio" where
  "disallow_sleep s = (if kAllowDeviceToSleep s then (kcall App_DisallowDeviceToSleep s)\<lparr>kAllowDeviceToSleep := False\<rparr> else s)"

definition k32_otPlatRadioSleep :: "k32_radio \<Rightarrow> otError \<times> k32_radio" where
  "k32_otPlatRadioSleep s =
     (if kState s \<noteq> K32_TRANSMIT \<and> kState s \<noteq> K32_DISABLED
      then (OT_ERROR_NONE, allow_sleep ((kcall vMMAC_RadioToOffAndWait (s\<lparr>kRadioInitForLp := True\<rparr>))\<lparr>kState := K32_SLEEP\<rparr>))
      else (OT_ERROR_INVALID_STATE, s))"

definition k32_otPlatRadioReceive :: "k32_mac \<Rightarrow> u8 \<Rightarrow> k32_radio \<Rightarrow> (otError \<times> k32_radio) option" where
  "k32_otPlatRadioReceive env aChannel s =
     (if kState s = K32_TRANSMIT \<or> kState s = K32_DISABLED then Some (OT_ERROR_INVALID_STATE, s)
      else if \<not> (kChannel s \<noteq> aChannel \<or> kState s \<noteq> K32_RECEIVE \<and> kState s \<noteq> K32_RX_DISABLED) then Some (OT_ERROR_NONE, s)
      else do {
        s1 \<leftarrow> wait_rx_done env s;
        let s2 = disallow_sleep ((kcall vMMAC_RadioToOffAndWait s1)\<lparr>kState := K32_RECEIVE\<rparr>);
        let s3 = s2\<lparr>kChannel := aChannel\<rparr>;
        Some (OT_ERROR_NONE, K32WEnableReceive (kcall (vMMAC_SetChannelAndPower (kChannel s3) (kTxPwrLevel s3)) s3))
      })"

text \<open>The frame is the driver's own transmit buffer, which shares its payload with the MAC frame.\<close>

definition tx_options :: "k32_mac \<Rightarrow> k32_txframe \<Rightarrow> teTxOption" where
  "tx_options env f =
     (let enc = frmIsSecurityEnabled env (txPsdu f) (txLength f) \<and> frmIsKeyIdMode1 env (txPsdu f) (txLength f) \<and> \<not> txIsSecurityProcessed f
      in \<lparr>E_MMAC_TX_ENC = enc, E_MMAC_TX_HDR_UPD = enc \<and> \<not> txIsHeaderUpdated f,
          E_MMAC_TX_USE_CCA = txDelay f \<noteq> 0 \<or> txCsmaCaEnabled f, E_MMAC_TX_DELAY_START = txDelay f \<noteq> 0\<rparr>)"

definition tx_time :: "k32_mac \<Rightarrow> k32_radio \<Rightarrow> u32 \<times> k32_radio" where
  "tx_time env s =
     (let f = kTxOtFrame s in
      if txDelay f \<noteq> 0
      then (let (now, s1) = kReadMac env s; (plat, s2) = kReadPlat env s1
            in (now + (txDelay f + txDelayBaseTime f - ucast plat) div of_nat US_PER_SYMBOL, s2))
      else (0, s))"

definition k32_otPlatRadioTransmit :: "k32_mac \<Rightarrow> k32_radio \<Rightarrow> (otError \<times> k32_radio) option" where
  "k32_otPlatRadioTransmit env s =
     (if kState s = K32_SLEEP \<or> kState s = K32_RECEIVE \<or> kState s = K32_RX_DISABLED
      then do {
        s1 \<leftarrow> wait_rx_done env s;
        let s2 = disallow_sleep ((kcall vMMAC_RadioToOffAndWait s1)\<lparr>kState := K32_TRANSMIT, kTxStatus := OT_ERROR_NONE\<rparr>);
        let f = kTxOtFrame s2;
        let opts = tx_options env f;
        let (txTime, s3) = tx_time env s2;
        let s4 = (if kChannel s3 \<noteq> txChannel f
                  then kcall (vMMAC_SetChannelAndPower (txChannel f) (kTxPwrLevel s3)) (s3\<lparr>kChannel := txChannel f\<rparr>) else s3);
        let s5 = kcall vMMAC_SetTxParameters s4;
        let len = (ucast (txLength f - 2) :: u8);
        let s6 = s5\<lparr>kTxMacLength := (if E_MMAC_TX_ENC opts then len - 4 else len)\<rparr>;
        let s7 = kcall (vMMAC_StartV2MacTransmit (kTxMacLength s6) opts txTime) (kcall vMMAC_SetRxFrame s6);
        let s8 = (if E_MMAC_TX_ENC opts
                  then (let t = s7\<lparr>kTxOtFrame := f\<lparr>txIsSecurityProcessed := True\<rparr>\<rparr>
                        in if E_MMAC_TX_HDR_UPD opts
                           then t\<lparr>kTxOtFrame := (kTxOtFrame t)\<lparr>txIsHeaderUpdated := True\<rparr>, kMacFrameCounter := kMacFrameCounter t + 1\<rparr>
                           else t)
                  else s7);
        Some (OT_ERROR_NONE, kcall otPlatRadioTxStarted s8)
      }
      else Some (OT_ERROR_INVALID_STATE, s))"

definition OT_RADIO_RSSI_INVALID :: u8 where "OT_RADIO_RSSI_INVALID = 127"

definition k32_otPlatRadioGetRssi :: "k32_mac \<Rightarrow> k32_radio \<Rightarrow> u8 \<times> k32_radio" where
  "k32_otPlatRadioGetRssi env s =
     (if kState s = K32_SLEEP \<or> kState s = K32_RECEIVE \<or> kState s = K32_RX_DISABLED
      then (let s1 = kcall OSA_InterruptDisable s;
                stateChanged = (kState s1 = K32_RECEIVE \<or> kState s1 = K32_RX_DISABLED);
                s2 = (if stateChanged then (kcall vMMAC_RadioToOffAndWait s1)\<lparr>kState := K32_SLEEP\<rparr> else s1);
                rssi = mmacRssi env (kTrace s2);
                s3 = kcall i16MMAC_GetRSSI s2;
                s4 = (if stateChanged then K32WEnableReceive (s3\<lparr>kState := K32_RECEIVE\<rparr>) else s3);
                s5 = kcall OSA_InterruptEnable s4
            in if rssi = MMAC_INVALID_RSSI env then (OT_RADIO_RSSI_INVALID, s5)
               else (ucast (signed_drop_bit 2 (i16Radio_BoundRssiValue env rssi)), s5))
      else (OT_RADIO_RSSI_INVALID, s))"

definition k32_otPlatRadioSetPromiscuous :: "bool \<Rightarrow> k32_radio \<Rightarrow> k32_radio" where
  "k32_otPlatRadioSetPromiscuous aEnable s =
     (if kPromiscuousEnable s \<noteq> aEnable then s\<lparr>kPromiscuousEnable := aEnable, kRxAddressMatch := \<not> aEnable\<rparr> else s)"

definition k32_otPlatRadioEnergyScan :: "u8 \<Rightarrow> u16 \<Rightarrow> otError" where
  "k32_otPlatRadioEnergyScan aScanChannel aScanDuration = OT_ERROR_NOT_IMPLEMENTED"

definition trim_power :: "u8 \<Rightarrow> u8" where
  "trim_power aPower =
     (if sint aPower < K32W_RADIO_MIN_TX_POWER_DBM then word_of_int K32W_RADIO_MIN_TX_POWER_DBM
      else if sint aPower > K32W_RADIO_MAX_TX_POWER_DBM then word_of_int K32W_RADIO_MAX_TX_POWER_DBM
      else aPower)"

definition k32_otPlatRadioSetTransmitPower :: "u8 \<Rightarrow> k32_radio \<Rightarrow> otError \<times> k32_radio" where
  "k32_otPlatRadioSetTransmitPower aPower s =
     (if kState s \<noteq> K32_TRANSMIT \<and> kState s \<noteq> K32_DISABLED
      then (let p = trim_power aPower;
                s1 = (kcall vMMAC_RadioToOffAndWait s)\<lparr>kTxPwrLevel := p\<rparr>;
                s2 = kcall (vMMAC_SetChannelAndPower (if kChannel s1 \<noteq> 0 then kChannel s1 else K32W_RADIO_DEFAULT_CHANNEL) p) s1
            in (OT_ERROR_NONE,
                if kState s2 = K32_RECEIVE \<or> kState s2 = K32_RX_DISABLED then K32WEnableReceive (s2\<lparr>kState := K32_RECEIVE\<rparr>) else s2))
      else (OT_ERROR_INVALID_STATE, s))"

text \<open>Whether the caller passed a place for the result, and what the radio library reads.\<close>

definition k32_otPlatRadioGetTransmitPower :: "bool \<Rightarrow> u8 \<Rightarrow> otError \<times> u8 option" where
  "k32_otPlatRadioGetTransmitPower aPower level = (if \<not> aPower then (OT_ERROR_INVALID_ARGS, None) else (OT_ERROR_NONE, Some level))"

definition k32_otPlatRadioGetCcaEnergyDetectThreshold :: "k32_mac \<Rightarrow> bool \<Rightarrow> u8 \<Rightarrow> otError \<times> u8 option" where
  "k32_otPlatRadioGetCcaEnergyDetectThreshold env aThreshold edThreshold =
     (if \<not> aThreshold then (OT_ERROR_INVALID_ARGS, None)
      else (OT_ERROR_NONE, Some (ucast (signed_drop_bit 2 (i16Radio_GetRSSIfromED env edThreshold)))))"

definition k32_otPlatRadioSetCcaEnergyDetectThreshold :: "k32_mac \<Rightarrow> u8 \<Rightarrow> k32_radio \<Rightarrow> otError \<times> k32_radio" where
  "k32_otPlatRadioSetCcaEnergyDetectThreshold env aThreshold s =
     (if sint aThreshold < K32W_RADIO_RX_SENSITIVITY_DBM \<or> sint aThreshold > K32W_RADIO_RX_MAX_DBM then (OT_ERROR_INVALID_ARGS, s)
      else (OT_ERROR_NONE, kcall (vMMAC_WriteCcaThreshold (u8Radio_GetEDfromRSSI env (push_bit 2 (scast aThreshold)))) s))"

definition k32_otPlatRadioSetMacKey :: "u8 \<Rightarrow> bytes \<Rightarrow> bytes \<Rightarrow> bytes \<Rightarrow> k32_radio \<Rightarrow> k32_radio" where
  "k32_otPlatRadioSetMacKey aKeyId aPrevKey aCurrKey aNextKey s =
     kcall (V2MMAC_SetMacKey aKeyId aPrevKey aCurrKey aNextKey) (s\<lparr>kKeyId := aKeyId\<rparr>)"

definition k32_otPlatRadioSetMacFrameCounter :: "u32 \<Rightarrow> k32_radio \<Rightarrow> k32_radio" where
  "k32_otPlatRadioSetMacFrameCounter aMacFrameCounter s =
     kcall (V2MMAC_SetMacFrameCounter aMacFrameCounter) (s\<lparr>kMacFrameCounter := aMacFrameCounter\<rparr>)"

definition k32_otPlatRadioSetMacFrameCounterIfLarger :: "u32 \<Rightarrow> k32_radio \<Rightarrow> k32_radio" where
  "k32_otPlatRadioSetMacFrameCounterIfLarger aMacFrameCounter s =
     (if aMacFrameCounter > kMacFrameCounter s then k32_otPlatRadioSetMacFrameCounter aMacFrameCounter s else s)"

definition k32_otPlatRadioEnableCsl :: "u32 \<Rightarrow> k32_radio \<Rightarrow> otError \<times> k32_radio" where
  "k32_otPlatRadioEnableCsl aCslPeriod s = (OT_ERROR_NONE, kcall (V2MMAC_EnableCsl aCslPeriod) (s\<lparr>kCslPeriod := aCslPeriod\<rparr>))"

definition k32_otPlatRadioUpdateCslSampleTime :: "k32_mac \<Rightarrow> u32 \<Rightarrow> k32_radio \<Rightarrow> k32_radio" where
  "k32_otPlatRadioUpdateCslSampleTime env aCslSampleTime s =
     (let (now, s1) = kReadMac env s; (plat, s2) = kReadPlat env s1
      in kcall (V2MMAC_SetCslSampleTime (now * of_nat US_PER_SYMBOL + (aCslSampleTime - ucast plat))) s2)"

definition K32WEncFrame :: "(bytes \<Rightarrow> u16 \<Rightarrow> bytes \<Rightarrow> bytes \<Rightarrow> bytes) \<Rightarrow> bytes \<Rightarrow> u8 \<Rightarrow> bytes \<Rightarrow> k32_radio \<Rightarrow> bytes" where
  "K32WEncFrame aesCcm psdu payloadLength key s = aesCcm psdu (ucast payloadLength) key (kRevExtAddr s)"

text \<open>The signal strength for link metrics, shifted from \<open>[-100, 10]\<close> to \<open>[-110, 0]\<close> dBm.\<close>

definition vs_ie_rssi :: "u8 \<Rightarrow> u8" where
  "vs_ie_rssi rssi = rssi - word_of_int K32W_RADIO_RX_MAX_DBM"

definition K32WGetVsIeGen :: "(bytes \<Rightarrow> u16 \<Rightarrow> u8 \<Rightarrow> u8 \<Rightarrow> bytes) \<Rightarrow> (bytes \<Rightarrow> bytes) \<Rightarrow> k32_mac \<Rightarrow> rxRingBufferEntry \<Rightarrow> k32_radio \<Rightarrow> bytes option" where
  "K32WGetVsIeGen genData probingIe env e s =
     (let d = genData (au8Byte e) (ucast (u8PayloadLength e)) (rxLqi env (kTrace s)) (vs_ie_rssi (lastPacketRssi env (kTrace s)))
      in if d \<noteq> [] then Some (probingIe d) else None)"

section \<open>The main loop\<close>

definition api_exec :: "k32_mac \<Rightarrow> radio_call \<Rightarrow> k32_radio \<Rightarrow> k32_radio option" where
  "api_exec env c s = (case c of
       CEnable \<Rightarrow> Some (snd (k32_otPlatRadioEnable s))
     | CDisable \<Rightarrow> Some (snd (k32_otPlatRadioDisable s))
     | CSleep \<Rightarrow> Some (snd (k32_otPlatRadioSleep s))
     | CReceive ch \<Rightarrow> map_option snd (k32_otPlatRadioReceive env ch s)
     | CTransmit f \<Rightarrow> map_option snd (k32_otPlatRadioTransmit env (s\<lparr>kTxOtFrame := f\<rparr>))
     | CGetRssi \<Rightarrow> Some (snd (k32_otPlatRadioGetRssi env s))
     | CSetTransmitPower p \<Rightarrow> Some (snd (k32_otPlatRadioSetTransmitPower p s))
     | CSetPromiscuous b \<Rightarrow> Some (k32_otPlatRadioSetPromiscuous b s)
     | CSetPanId p \<Rightarrow> Some (k32_otPlatRadioSetPanId p s)
     | CSetExtendedAddress a \<Rightarrow> Some (k32_otPlatRadioSetExtendedAddress a s)
     | CSetShortAddress a \<Rightarrow> Some (k32_otPlatRadioSetShortAddress a s)
     | CEnableSrcMatch b \<Rightarrow> Some (s\<lparr>kIsFpEnabled := b\<rparr>)
     | CSrcMatch c \<Rightarrow> Some (s\<lparr>kSrcMatch := snd (src_exec (readUint64Le env) (kPanId s, c) (kSrcMatch s))\<rparr>)
     | CSetMacKey k p c n \<Rightarrow> Some (k32_otPlatRadioSetMacKey k p c n s)
     | CSetMacFrameCounter n \<Rightarrow> Some (k32_otPlatRadioSetMacFrameCounter n s)
     | CSetMacFrameCounterIfLarger n \<Rightarrow> Some (k32_otPlatRadioSetMacFrameCounterIfLarger n s)
     | CEnableCsl p \<Rightarrow> Some (snd (k32_otPlatRadioEnableCsl p s))
     | CUpdateCslSampleTime t \<Rightarrow> Some (k32_otPlatRadioUpdateCslSampleTime env t s)
     | CSetCcaThreshold t \<Rightarrow> Some (snd (k32_otPlatRadioSetCcaEnergyDetectThreshold env t s)))"

fun call_run :: "k32_mac \<Rightarrow> radio_call list \<Rightarrow> k32_radio \<Rightarrow> k32_radio option" where
  "call_run env [] s = Some s"
| "call_run env (c # cs) s = Option.bind (api_exec env c (serve env s)) (call_run env cs)"

definition ack_requested :: "k32_txframe \<Rightarrow> bool" where
  "ack_requested f \<longleftrightarrow> (case txPsdu f of [] \<Rightarrow> False | c # _ \<Rightarrow> bit c 5)"

definition K32WProcessTxFrame :: "k32_mac \<Rightarrow> k32_radio \<Rightarrow> k32_radio option" where
  "K32WProcessTxFrame env s =
     (if kTxDone s
      then (let s1 = s\<lparr>kTxDone := False\<rparr>;
                ack = (if ack_requested (kTxOtFrame s1) \<and> kTxStatus s1 = OT_ERROR_NONE then Some (kAck s1) else None);
                s2 = kcall (otPlatRadioTxDone ack (kTxStatus s1)) s1
            in call_run env (onTxDone env (kTrace s2)) s2)
      else Some s)"

definition restart_rx :: "k32_radio \<Rightarrow> k32_radio" where
  "restart_rx s = (if kState s = K32_RX_DISABLED then K32WEnableReceive (s\<lparr>kState := K32_RECEIVE\<rparr>) else s)"

text \<open>One frame: report it, let OpenThread react, release its slot.\<close>

definition rx_deliver :: "k32_mac \<Rightarrow> u16 \<Rightarrow> k32_radio \<Rightarrow> k32_radio option" where
  "rx_deliver env i s =
     (let s1 = kcall (otPlatRadioReceiveDone (slot i s)) s in
      map_option (\<lambda>t. let t1 = serve env t in restart_rx (t1\<lparr>kRxRing := K32WPopRxRingBuffer (kRxRing t1)\<rparr>))
        (call_run env (onReceiveDone env (kTrace s1)) s1))"

partial_function (option) K32WProcessRxFrames :: "k32_mac \<Rightarrow> k32_radio \<Rightarrow> k32_radio option" where
  "K32WProcessRxFrames env s =
     (case K32WGetRxRingBuffer (kRxRing (serve env s)) of
        (None, r) \<Rightarrow> Some (restart_rx (serve env s))
      | (Some i, r) \<Rightarrow> Option.bind (rx_deliver env i ((serve env s)\<lparr>kRxRing := r\<rparr>)) (K32WProcessRxFrames env))"

definition K32WRadioProcess :: "k32_mac \<Rightarrow> k32_radio \<Rightarrow> k32_radio option" where
  "K32WRadioProcess env s = Option.bind (K32WProcessTxFrame env s) (K32WProcessRxFrames env)"

text \<open>A run of the driver: calls, interrupts and turns of the main loop in any order.\<close>

datatype k32_event = EvCall radio_call | EvIrq k32_irq | EvProcess

fun k32_step :: "k32_mac \<Rightarrow> k32_event \<Rightarrow> k32_radio \<Rightarrow> k32_radio option" where
  "k32_step env (EvCall c) s = api_exec env c s"
| "k32_step env (EvIrq i) s = Some (take_irq env i s)"
| "k32_step env EvProcess s = K32WRadioProcess env s"

fun k32_run :: "k32_mac \<Rightarrow> k32_event list \<Rightarrow> k32_radio \<Rightarrow> k32_radio option" where
  "k32_run env [] s = Some s"
| "k32_run env (e # es) s = Option.bind (k32_step env e s) (k32_run env es)"

end
