(* ===== verification/K32w0_Radio_Run.thy ===== *)
theory K32w0_Radio_Run
  imports K32w0_Radio
begin

text \<open>
  Runs of the k32w0 radio driver: a well-formedness invariant of its state that every call, every interrupt and every
  turn of the main loop keeps, and what it means for the frames received, for the MAC and for low power.
\<close>

section \<open>What a trace says\<close>

definition queued :: "k32_call list \<Rightarrow> rxRingBufferEntry list" where
  "queued tr = concat (map (\<lambda>a. case a of FrameQueued e \<Rightarrow> [e] | _ \<Rightarrow> []) tr)"

definition delivered :: "k32_call list \<Rightarrow> rxRingBufferEntry list" where
  "delivered tr = concat (map (\<lambda>a. case a of otPlatRadioReceiveDone e \<Rightarrow> [e] | _ \<Rightarrow> []) tr)"

definition sleep_vote :: "k32_call \<Rightarrow> int" where
  "sleep_vote a = (case a of App_DisallowDeviceToSleep \<Rightarrow> 1 | App_AllowDeviceToSleep \<Rightarrow> -1 | _ \<Rightarrow> 0)"

definition sleep_votes :: "k32_call list \<Rightarrow> int" where "sleep_votes tr = sum_list (map sleep_vote tr)"

lemma trace_snoc [simp]:
  "queued (tr @ [a]) = queued tr @ (case a of FrameQueued e \<Rightarrow> [e] | _ \<Rightarrow> [])"
  "delivered (tr @ [a]) = delivered tr @ (case a of otPlatRadioReceiveDone e \<Rightarrow> [e] | _ \<Rightarrow> [])"
  "sleep_votes (tr @ [a]) = sleep_votes tr + sleep_vote a"
  by (simp_all add: queued_def delivered_def sleep_votes_def)

text \<open>The part of the state the invariant is about.\<close>

record k32_view =
  vState :: k32_state
  vRing :: "rxRingBufferEntry k32_ring"
  vAllow :: bool
  vMac :: mac_buf
  vQueued :: "rxRingBufferEntry list"
  vDelivered :: "rxRingBufferEntry list"
  vVotes :: int

definition kview :: "k32_radio \<Rightarrow> k32_view" where
  "kview s = \<lparr>vState = kState s, vRing = kRxRing s, vAllow = kAllowDeviceToSleep s, vMac = mac_target (kTrace s),
     vQueued = queued (kTrace s), vDelivered = delivered (kTrace s), vVotes = sleep_votes (kTrace s)\<rparr>"

definition neutral :: "k32_call \<Rightarrow> bool" where
  "neutral a \<longleftrightarrow> (case a of vMMAC_StartV2MacReceive _ _ \<Rightarrow> False | vMMAC_SetRxFrame \<Rightarrow> False | vMMAC_RadioToOffAndWait \<Rightarrow> False
     | vMMAC_Disable \<Rightarrow> False | MacIrq _ \<Rightarrow> False | FrameQueued _ \<Rightarrow> False | otPlatRadioReceiveDone _ \<Rightarrow> False
     | App_DisallowDeviceToSleep \<Rightarrow> False | App_AllowDeviceToSleep \<Rightarrow> False | _ \<Rightarrow> True)"

lemma kview_kcall: "kview (kcall a s) = (kview s)\<lparr>vMac := mac_next (mac_target (kTrace s)) a,
    vQueued := queued (kTrace s) @ (case a of FrameQueued e \<Rightarrow> [e] | _ \<Rightarrow> []),
    vDelivered := delivered (kTrace s) @ (case a of otPlatRadioReceiveDone e \<Rightarrow> [e] | _ \<Rightarrow> []),
    vVotes := sleep_votes (kTrace s) + sleep_vote a\<rparr>"
  by (simp add: kview_def kcall_def)

lemma kview_neutral [simp]: "neutral a \<Longrightarrow> kview (kcall a s) = kview s"
  by (cases a) (simp_all add: kview_kcall neutral_def mac_next_def sleep_vote_def, simp_all add: kview_def)

lemma neutral_simps [simp]:
  "neutral V2MMAC_Enable" "neutral V2MMAC_RegisterIntHandler" "neutral vMMAC_ConfigureRadio" "neutral V2MMAC_RegisterEncFn"
  "neutral V2MMAC_RegisterEnhAckVsIeFn" "neutral (vMMAC_SetChannelAndPower c p)" "neutral (vMMAC_SetRxExtendedAddr x)"
  "neutral (vMMAC_SetRxPanId i)" "neutral (vMMAC_SetRxShortAddr i)" "neutral vMMAC_SetTxParameters"
  "neutral (vMMAC_StartV2MacTransmit l opts t)" "neutral (vMMAC_SetTxPend b)" "neutral (vMMAC_WriteCcaThreshold c)"
  "neutral (V2MMAC_SetMacKey c x y z)" "neutral (V2MMAC_SetMacFrameCounter t)" "neutral (V2MMAC_EnableCsl t)"
  "neutral (V2MMAC_SetCslSampleTime t)" "neutral u32MMAC_GetTime" "neutral v2MAC_is_rx_ongoing" "neutral otPlatTimeGet"
  "neutral i16MMAC_GetRSSI" "neutral OSA_InterruptDisable" "neutral OSA_InterruptEnable" "neutral BOARD_LedDongleToggle"
  "neutral otSysEventSignalPending" "neutral (otLinkMetricsInit n)" "neutral otPlatRadioTxStarted" "neutral (otPlatRadioTxDone a err)"
  by (simp_all add: neutral_def)

lemma kview_upd [simp]:
  "kview (s\<lparr>kState := st\<rparr>) = (kview s)\<lparr>vState := st\<rparr>"
  "kview (s\<lparr>kRxRing := r\<rparr>) = (kview s)\<lparr>vRing := r\<rparr>"
  "kview (s\<lparr>kAllowDeviceToSleep := b\<rparr>) = (kview s)\<lparr>vAllow := b\<rparr>"
  "kview (s\<lparr>kTxPwrLevel := c\<rparr>) = kview s" "kview (s\<lparr>kChannel := c\<rparr>) = kview s" "kview (s\<lparr>kIsFpEnabled := b\<rparr>) = kview s"
  "kview (s\<lparr>kPanId := p\<rparr>) = kview s" "kview (s\<lparr>kShortAddress := p\<rparr>) = kview s" "kview (s\<lparr>kExtAddress := x\<rparr>) = kview s"
  "kview (s\<lparr>kRevExtAddr := x\<rparr>) = kview s" "kview (s\<lparr>kCustomExtAddr := x\<rparr>) = kview s" "kview (s\<lparr>kSrcMatch := m\<rparr>) = kview s"
  "kview (s\<lparr>kRxAddressMatch := b\<rparr>) = kview s" "kview (s\<lparr>kTxMacLength := c\<rparr>) = kview s" "kview (s\<lparr>kAck := e\<rparr>) = kview s"
  "kview (s\<lparr>kRadioInitForLp := b\<rparr>) = kview s" "kview (s\<lparr>kPromiscuousEnable := b\<rparr>) = kview s" "kview (s\<lparr>kTxDone := b\<rparr>) = kview s"
  "kview (s\<lparr>kTxStatus := err\<rparr>) = kview s" "kview (s\<lparr>kTxOtFrame := f\<rparr>) = kview s" "kview (s\<lparr>kMacFrameCounter := n\<rparr>) = kview s"
  "kview (s\<lparr>kKeyId := c\<rparr>) = kview s" "kview (s\<lparr>kCslPeriod := n\<rparr>) = kview s"
  by (simp_all add: kview_def)

lemma kview_sel [simp]:
  "vState (kview s) = kState s" "vRing (kview s) = kRxRing s" "vAllow (kview s) = kAllowDeviceToSleep s"
  "vMac (kview s) = mac_target (kTrace s)" "vQueued (kview s) = queued (kTrace s)"
  "vDelivered (kview s) = delivered (kTrace s)" "vVotes (kview s) = sleep_votes (kTrace s)"
  by (simp_all add: kview_def)

lemma kviewD:
  "kview s = v \<Longrightarrow> kState s = vState v" "kview s = v \<Longrightarrow> kRxRing s = vRing v" "kview s = v \<Longrightarrow> kAllowDeviceToSleep s = vAllow v"
  "kview s = v \<Longrightarrow> mac_target (kTrace s) = vMac v" "kview s = v \<Longrightarrow> queued (kTrace s) = vQueued v"
  "kview s = v \<Longrightarrow> delivered (kTrace s) = vDelivered v" "kview s = v \<Longrightarrow> sleep_votes (kTrace s) = vVotes v"
  by auto

lemma kview_calls [simp]:
  "kview (kcall (vMMAC_StartV2MacReceive n b) s) = (kview s)\<lparr>vMac := MacSlot n\<rparr>"
  "kview (kcall vMMAC_SetRxFrame s) = (kview s)\<lparr>vMac := MacAck\<rparr>"
  "kview (kcall vMMAC_RadioToOffAndWait s) = (kview s)\<lparr>vMac := MacIdle\<rparr>"
  "kview (kcall vMMAC_Disable s) = (kview s)\<lparr>vMac := MacIdle\<rparr>"
  "kview (kcall (MacIrq q) s) = (kview s)\<lparr>vMac := mac_next (mac_target (kTrace s)) (MacIrq q)\<rparr>"
  "kview (kcall (FrameQueued e) s) = (kview s)\<lparr>vQueued := queued (kTrace s) @ [e]\<rparr>"
  "kview (kcall (otPlatRadioReceiveDone e) s) = (kview s)\<lparr>vDelivered := delivered (kTrace s) @ [e]\<rparr>"
  "kview (kcall App_DisallowDeviceToSleep s) = (kview s)\<lparr>vVotes := sleep_votes (kTrace s) + 1\<rparr>"
  "kview (kcall App_AllowDeviceToSleep s) = (kview s)\<lparr>vVotes := sleep_votes (kTrace s) - 1\<rparr>"
  by (simp_all add: kview_kcall mac_next_def sleep_vote_def)

section \<open>The invariant\<close>

text \<open>
  The indices of the ring are in range. The MAC writes to a slot of the ring only while the driver receives, and then to
  the one slot after the queue; while a frame is sent it writes to the buffer for the acknowledgement. The receiver is
  stopped only because the ring is full. The driver forbids low power while it receives, is stopped or sends, and allows
  it while it sleeps.
\<close>

definition view_ok :: "k32_view \<Rightarrow> bool" where
  "view_ok v \<longleftrightarrow> kring_ok (vRing v) \<and>
     (\<forall>n. vMac v = MacSlot n \<longrightarrow> vState v = K32_RECEIVE \<and> n = rbNext (vRing v) \<and> is_free (vRing v) n) \<and>
     (vState v = K32_RECEIVE \<longrightarrow> vMac v = MacSlot (rbNext (vRing v))) \<and>
     (vState v = K32_TRANSMIT \<longrightarrow> vMac v = MacAck) \<and>
     (vState v = K32_RX_DISABLED \<longrightarrow> kfull (vRing v)) \<and>
     (vState v = K32_SLEEP \<longrightarrow> vAllow v) \<and>
     (vState v \<in> {K32_RECEIVE, K32_TRANSMIT, K32_RX_DISABLED} \<longrightarrow> \<not> vAllow v)"

definition k32_inv :: "k32_radio \<Rightarrow> bool" where "k32_inv s \<longleftrightarrow> view_ok (kview s)"

text \<open>
  What everything but a reset of the ring and the release of a slot does to it: the queue grows at its end by the frames
  queued, nothing is delivered, the balance of the votes against low power follows the flag, and the radio is not disabled.
\<close>

definition vote_debt :: "k32_view \<Rightarrow> int" where "vote_debt v = vVotes v - of_bool (\<not> vAllow v)"

definition grows :: "k32_view \<Rightarrow> k32_view \<Rightarrow> bool" where
  "grows v w \<longleftrightarrow> rbLast (vRing w) = rbLast (vRing v) \<and> rbTail (vRing w) = rbTail (vRing v) \<and>
     length (buffer (vRing w)) = length (buffer (vRing v)) \<and> vDelivered w = vDelivered v \<and> vote_debt w = vote_debt v \<and>
     (vState w = K32_DISABLED \<longrightarrow> vState v = K32_DISABLED \<and> vAllow w = vAllow v) \<and>
     (\<exists>fs. kq (vRing w) = kq (vRing v) @ fs \<and> vQueued w = vQueued v @ fs)"

text \<open>A disabled radio does not forbid low power.\<close>

definition off_ok :: "k32_view \<Rightarrow> bool" where "off_ok v \<longleftrightarrow> (vState v = K32_DISABLED \<longrightarrow> vAllow v)"

lemma grows_off: "grows v w \<Longrightarrow> off_ok v \<Longrightarrow> off_ok w"
  by (simp add: grows_def off_ok_def)

definition good :: "k32_radio \<Rightarrow> k32_radio \<Rightarrow> bool" where
  "good s t \<longleftrightarrow> k32_inv t \<and> grows (kview s) (kview t)"

lemma grows_refl [simp]: "grows v v"
  by (simp add: grows_def)

lemma grows_trans: "grows u v \<Longrightarrow> grows v w \<Longrightarrow> grows u w"
  by (auto simp: grows_def)

lemma good_trans: "good s t \<Longrightarrow> good t u \<Longrightarrow> good s u"
  by (auto simp: good_def intro: grows_trans)

lemma good_refl: "k32_inv s \<Longrightarrow> good s s"
  by (simp add: good_def)

lemma good_inv: "good s t \<Longrightarrow> k32_inv t"
  by (simp add: good_def)

lemma good_view: "kview t = kview s \<Longrightarrow> k32_inv s \<Longrightarrow> good s t"
  by (simp add: good_def k32_inv_def)

text \<open>The MAC is not receiving and the driver is about to.\<close>

definition rx_ready :: "k32_view \<Rightarrow> bool" where
  "rx_ready v \<longleftrightarrow> kring_ok (vRing v) \<and> (\<forall>n. vMac v \<noteq> MacSlot n) \<and> vState v = K32_RECEIVE \<and> \<not> vAllow v"

lemma enable_receive:
  assumes "rx_ready (kview s)"
  shows "good s (K32WEnableReceive s)"
proof (cases "kfull (kRxRing s)")
  case True
  then have "enable_slot (kRxRing s) = (None, (kRxRing s)\<lparr>ovf_cnt := ovf_cnt (kRxRing s) + 1\<rparr>)"
    using assms enable_slot_free(1) by (auto simp: rx_ready_def)
  then show ?thesis
    using assms True kring_core [of "(kRxRing s)\<lparr>ovf_cnt := ovf_cnt (kRxRing s) + 1\<rparr>" "kRxRing s"]
    by (simp add: K32WEnableReceive_def good_def k32_inv_def view_ok_def rx_ready_def grows_def vote_debt_def)
next
  case False
  then obtain n where "enable_slot (kRxRing s) = (Some n, (kRxRing s)\<lparr>rbNext := n\<rparr>)" "is_free (kRxRing s) n"
    using assms enable_slot_free(2) by (auto simp: rx_ready_def)
  then show ?thesis
    using assms kring_core [of "(kRxRing s)\<lparr>rbNext := n\<rparr>" "kRxRing s"]
    by (simp add: K32WEnableReceive_def good_def k32_inv_def view_ok_def rx_ready_def grows_def vote_debt_def)
qed

lemma grows_ready: "grows (kview s) (kview u) \<Longrightarrow> rx_ready (kview u) \<Longrightarrow> good s (K32WEnableReceive u)"
  using enable_receive [of u] grows_trans by (auto simp: good_def)

section \<open>Interrupts\<close>

definition put_slot :: "u16 \<Rightarrow> rxRingBufferEntry \<Rightarrow> k32_view \<Rightarrow> k32_view" where
  "put_slot n e v = v\<lparr>vRing := (vRing v)\<lparr>buffer := (buffer (vRing v))[unat n := e]\<rparr>\<rparr>"

lemma kview_set_slot [simp]: "kview (set_slot n e s) = put_slot n e (kview s)"
  by (simp add: set_slot_def put_slot_def)

lemma put_slot_twice: "put_slot n e (put_slot n d v) = put_slot n e v"
  by (simp add: put_slot_def)

lemma put_slot_sel [simp]:
  "vState (put_slot n e v) = vState v" "vAllow (put_slot n e v) = vAllow v" "vMac (put_slot n e v) = vMac v"
  "vQueued (put_slot n e v) = vQueued v" "vDelivered (put_slot n e v) = vDelivered v" "vVotes (put_slot n e v) = vVotes v"
  "rbNext (vRing (put_slot n e v)) = rbNext (vRing v)" "rbLast (vRing (put_slot n e v)) = rbLast (vRing v)"
  "rbTail (vRing (put_slot n e v)) = rbTail (vRing v)" "length (buffer (vRing (put_slot n e v))) = length (buffer (vRing v))"
  by (simp_all add: put_slot_def)

lemma put_slot_free:
  assumes "kring_ok (vRing v)" and "is_free (vRing v) n"
  shows "kring_ok (vRing (put_slot n e v))" "kq (vRing (put_slot n e v)) = kq (vRing v)"
    "kfull (vRing (put_slot n e v)) = kfull (vRing v)" "is_free (vRing (put_slot n e v)) = is_free (vRing v)"
    "buffer (vRing (put_slot n e v)) ! unat n = e"
  using write_free [OF assms, of "vRing (put_slot n e v)" e] by (simp_all add: put_slot_def)

lemma put_slot_grows:
  "kring_ok (vRing v) \<Longrightarrow> is_free (vRing v) n \<Longrightarrow> grows v (put_slot n e v)"
  by (simp add: grows_def vote_debt_def put_slot_free)

lemma kview_read [simp]: "kview (snd (kReadPlat env s)) = kview s" "kview (snd (kReadMac env s)) = kview s"
  by (simp_all add: kReadPlat_def kReadMac_def)

lemma kview_conv [simp]: "kview (snd (K32WFrameConversion env e s)) = kview s"
  by (simp add: K32WFrameConversion_def kReadPlat_def kReadMac_def)

lemma kview_info [simp]: "kview (snd (K32WGetRxFrameInfo env e s)) = kview s"
proof -
  obtain e1 s1 where c: "K32WFrameConversion env (e\<lparr>ofTimestamp := 0, ofLqi := 0, ofRssi := 0, ofAckedWithFramePending := False,
      ofAckedWithSecEnhAck := False, ofAckKeyId := 0, ofAckFrameCounter := 0\<rparr>) s = (e1, s1)" by force
  then have "kview s1 = kview s" using kview_conv by (metis snd_conv)
  then show ?thesis unfolding K32WGetRxFrameInfo_def Let_def c by simp
qed

lemma kview_header: "\<exists>e. kview (K32WProcessMacHeader env n s) = put_slot n e (kview s)"
  by (auto simp: K32WProcessMacHeader_def Let_def put_slot_twice)

text \<open>The MAC has finished with the slot after the queue.\<close>

definition rx_done :: "k32_view \<Rightarrow> bool" where
  "rx_done v \<longleftrightarrow> rx_ready v \<and> is_free (vRing v) (rbNext (vRing v))"

lemma rx_complete_good:
  assumes "rx_done (kview s)"
  shows "good s (rx_complete env s)"
proof (cases "rxErrors env (kTrace s) = 0")
  case False
  then show ?thesis using assms enable_receive by (simp add: rx_complete_def rx_done_def)
next
  case True
  let ?n = "rbNext (kRxRing s)"
  obtain e t where info: "K32WGetRxFrameInfo env (slot ?n s) s = (e, t)" by force
  then have t: "kview t = kview s" using kview_info [of env "slot ?n s" s] by simp
  let ?v = "put_slot ?n e (kview s)"
  let ?w = "?v\<lparr>vQueued := queued (kTrace s) @ [e], vRing := K32WPushRxRingBuffer (vRing ?v)\<rparr>"
  have free: "kring_ok (vRing (kview s))" "is_free (vRing (kview s)) ?n" using assms by (simp_all add: rx_done_def rx_ready_def)
  note p = put_slot_free [OF free, of e]
  have "is_free (vRing ?v) (rbNext (vRing ?v))" using p(4) free(2) by simp
  note q = kq_push [OF p(1) this]
  let ?u = "(kcall (FrameQueued e) (set_slot ?n e t))\<lparr>kRxRing := K32WPushRxRingBuffer (kRxRing (set_slot ?n e t))\<rparr>"
  have "kRxRing (set_slot ?n e t) = vRing ?v" "queued (kTrace (set_slot ?n e t)) = queued (kTrace s)"
    using t by (metis kview_sel(2) kview_set_slot) (metis kview_sel(5) kview_set_slot put_slot_sel(4) t)
  then have u: "kview ?u = ?w" using t by simp
  have "grows (kview s) ?w"
    using q(2) p(2,5) by (simp add: grows_def vote_debt_def) (simp add: K32WPushRxRingBuffer_def)
  moreover have "rx_ready ?w" using assms q(1) by (simp add: rx_done_def rx_ready_def)
  ultimately have "good s (K32WEnableReceive ?u)" using grows_ready [of s ?u] u by simp
  moreover have "rx_complete env s = K32WEnableReceive ?u"
    using True info by (simp add: rx_complete_def Let_def kcall_def set_slot_def)
  ultimately show ?thesis by simp
qed

lemma tx_complete_good:
  assumes "rx_ready ((kview s)\<lparr>vState := K32_RECEIVE\<rparr>)"
  shows "good s (tx_complete env s)"
proof -
  obtain u where u: "tx_complete env s = K32WEnableReceive u" "kview u = (kview s)\<lparr>vState := K32_RECEIVE\<rparr>"
  proof -
    obtain a t where conv: "K32WFrameConversion env (kAck s) s = (a, t)" by force
    then have "kview t = kview s" using kview_conv [of env "kAck s" s] by simp
    with conv that show ?thesis by (simp add: tx_complete_def Let_def)
  qed
  have "grows (kview s) (kview u)" using u(2) by (simp add: grows_def vote_debt_def)
  then show ?thesis using grows_ready [of s u] u assms by simp
qed

lemma k32_invD:
  assumes "k32_inv s"
  shows "kring_ok (kRxRing s)" "kState s = K32_RECEIVE \<Longrightarrow> mac_target (kTrace s) = MacSlot (rbNext (kRxRing s))"
    "kState s = K32_TRANSMIT \<Longrightarrow> mac_target (kTrace s) = MacAck" "kState s = K32_RX_DISABLED \<Longrightarrow> kfull (kRxRing s)"
    "kState s = K32_SLEEP \<Longrightarrow> kAllowDeviceToSleep s"
    "kState s \<in> {K32_RECEIVE, K32_TRANSMIT, K32_RX_DISABLED} \<Longrightarrow> \<not> kAllowDeviceToSleep s"
  using assms unfolding k32_inv_def view_ok_def kview_sel by blast+

lemma mac_slotD:
  assumes "k32_inv s" and "mac_target (kTrace s) = MacSlot n"
  shows "kState s = K32_RECEIVE" "rbNext (kRxRing s) = n" "is_free (vRing (kview s)) n" "kring_ok (vRing (kview s))"
    "\<not> kAllowDeviceToSleep s"
  using assms unfolding k32_inv_def view_ok_def kview_sel by blast+

lemma put_slot_inv:
  assumes "k32_inv s" and "mac_target (kTrace s) = MacSlot n" and "kview t = put_slot n e (kview s)"
  shows "good s t"
proof -
  note m = mac_slotD [OF assms(1,2)]
  have "view_ok (put_slot n e (kview s))"
    using assms(2) m(1,2,5) put_slot_free [OF m(4,3)] m(3) by (simp add: view_ok_def)
  then show ?thesis using put_slot_grows [OF m(4,3)] by (simp add: good_def k32_inv_def assms(3))
qed

lemma view_mac_writes:
  "mac_target (kTrace s) = MacSlot n \<Longrightarrow> \<exists>e. kview (mac_writes q s) = (put_slot n e (kview s))\<lparr>vMac := mac_next (MacSlot n) (MacIrq q)\<rparr>"
  "mac_target (kTrace s) = b \<Longrightarrow> b = MacIdle \<or> b = MacAck \<Longrightarrow> kview (mac_writes q s) = (kview s)\<lparr>vMac := mac_next b (MacIrq q)\<rparr>"
  by (auto simp: mac_writes_def set_slot_def put_slot_def)

lemma irq_mac_slot:
  assumes inv: "k32_inv s" and mac: "mac_target (kTrace s) = MacSlot n"
  shows "good s (K32WISR env q (mac_writes q s))"
proof -
  note st = mac_slotD [OF inv mac]
  let ?m = "mac_writes q s"
  let ?h = "if E_MMAC_INT_RX_HEADER q then K32WProcessMacHeader env (rbNext (kRxRing ?m)) ?m else ?m"
  let ?b = "mac_next (MacSlot n) (MacIrq q)"
  obtain d where d: "kview ?m = (put_slot n d (kview s))\<lparr>vMac := ?b\<rparr>" using view_mac_writes(1) [OF mac] by blast
  have m: "rbNext (kRxRing ?m) = n" "kState ?m = K32_RECEIVE"
    using kviewD(1,2) [OF d] st(1,2) by simp_all
  obtain e where h: "kview ?h = (put_slot n e (kview s))\<lparr>vMac := ?b\<rparr>"
  proof (cases "E_MMAC_INT_RX_HEADER q")
    case True
    obtain e where "kview (K32WProcessMacHeader env n ?m) = put_slot n e (kview ?m)" using kview_header by blast
    then show ?thesis using that [of e] True m(1) d by (simp add: put_slot_def)
  qed (use d that in simp)
  have isr: "kview (K32WISR env q ?m) = kview (if E_MMAC_INT_RX_COMPLETE q then rx_complete env ?h else ?h)"
    using m(2) by (simp add: K32WISR_def Let_def)
  show ?thesis
  proof (cases "E_MMAC_INT_RX_COMPLETE q")
    case False
    then have "?b = MacSlot n" by (simp add: mac_next_def)
    then have "kview ?h = put_slot n e (kview s)" using h mac by (simp add: put_slot_def kview_def)
    then show ?thesis using put_slot_inv [OF inv mac, of "K32WISR env q ?m"] isr False by simp
  next
    case True
    then have b: "?b = MacIdle" by (simp add: mac_next_def)
    note p = put_slot_free [OF st(4,3), of e]
    have "rx_done (kview ?h)"
      unfolding h b rx_done_def rx_ready_def using p st by simp
    then have "good ?h (rx_complete env ?h)" by (rule rx_complete_good)
    moreover have "grows (kview s) (kview ?h)"
      unfolding h using put_slot_grows [OF st(4,3), of e] by (simp add: grows_def vote_debt_def)
    ultimately have "good s (rx_complete env ?h)" using grows_trans by (auto simp: good_def)
    then show ?thesis using isr True by (simp add: good_def k32_inv_def)
  qed
qed

lemma irq_no_slot:
  assumes inv: "k32_inv s" and mac: "mac_target (kTrace s) = b" "b = MacIdle \<or> b = MacAck"
  shows "good s (K32WISR env q (mac_writes q s))"
proof -
  let ?m = "mac_writes q s"
  have st: "kState s \<noteq> K32_RECEIVE" "kState s = K32_TRANSMIT \<Longrightarrow> b = MacAck"
    using k32_invD(2,3) [OF inv] mac by auto
  note m = view_mac_writes(2) [OF mac, of q]
  have ms: "kState ?m = kState s" using kviewD(1) [OF m] by simp
  show ?thesis
  proof (cases "kState s = K32_TRANSMIT \<and> E_MMAC_INT_TX_COMPLETE q")
    case True
    have "rx_ready ((kview ?m)\<lparr>vState := K32_RECEIVE\<rparr>)"
      using inv True st(2) m by (simp add: rx_ready_def k32_inv_def view_ok_def mac_next_def)
    from tx_complete_good [OF this] have "good ?m (tx_complete env ?m)" .
    moreover have "grows (kview s) (kview ?m)" using m by (simp add: grows_def vote_debt_def)
    ultimately have "good s (tx_complete env ?m)" using grows_trans by (auto simp: good_def)
    then show ?thesis using True ms by (simp add: K32WISR_def good_def k32_inv_def)
  next
    case False
    then have "kview (K32WISR env q ?m) = kview ?m" using st(1) ms by (simp add: K32WISR_def split: k32_state.splits)
    moreover have "view_ok (kview ?m)"
      using inv False st mac unfolding m k32_inv_def view_ok_def by (auto simp: mac_next_def)
    moreover have "grows (kview s) (kview ?m)" using m by (simp add: grows_def vote_debt_def)
    ultimately show ?thesis by (simp add: good_def k32_inv_def)
  qed
qed

lemma take_irq_good:
  assumes "k32_inv s"
  shows "good s (take_irq env i s)"
proof (cases i)
  case (IrqMac q)
  then show ?thesis
    using irq_mac_slot [OF assms] irq_no_slot [OF assms] by (cases "mac_target (kTrace s)") (auto simp: take_irq_def)
next
  case IrqVsIe
  show ?thesis
  proof (cases "mac_target (kTrace s)")
    case (MacSlot n)
    then show ?thesis
      using IrqVsIe put_slot_inv [OF assms MacSlot] good_refl [OF assms] by (simp add: take_irq_def K32WGetVsIeLen_def Let_def)
  qed (use IrqVsIe good_refl [OF assms] in \<open>simp_all add: take_irq_def\<close>)
qed

lemma fold_irq_good: "k32_inv t \<Longrightarrow> good t (fold (take_irq env) qs t)"
proof (induction qs arbitrary: t)
  case (Cons q qs)
  note i = take_irq_good [OF Cons.prems, of env q]
  then show ?case using good_trans [OF i Cons.IH] by (simp add: good_inv)
qed (simp add: good_refl)

lemma serve_good: "k32_inv s \<Longrightarrow> good s (serve env s)"
  by (simp add: serve_def fold_irq_good)


section \<open>Calls\<close>

lemma kcall_sel [simp]:
  "kState (kcall a s) = kState s" "kRxRing (kcall a s) = kRxRing s" "kAllowDeviceToSleep (kcall a s) = kAllowDeviceToSleep s"
  "kChannel (kcall a s) = kChannel s" "kTxPwrLevel (kcall a s) = kTxPwrLevel s" "kTrace (kcall a s) = kTrace s @ [a]"
  by (simp_all add: kcall_def)

lemma wait_rx_good: "wait_rx env t0 s = Some t \<Longrightarrow> k32_inv s \<Longrightarrow> good s t"
proof (induction rule: wait_rx.raw_induct [rotated 1, consumes 1])
  case (1 wait env t0 s t)
  note g = serve_good [OF 1(3), of env]
  have o: "good s (kcall v2MAC_is_rx_ongoing (serve env s))" "good s (kcall u32MMAC_GetTime (kcall v2MAC_is_rx_ongoing (serve env s)))"
    using g by (simp_all add: good_def k32_inv_def)
  show ?case
  proof (cases "rxOngoing env (kTrace (serve env s)) \<and>
      mmacTime env (kTrace (kcall v2MAC_is_rx_ongoing (serve env s))) - t0 < TX_TO")
    case True
    then have "wait env t0 (kcall u32MMAC_GetTime (kcall v2MAC_is_rx_ongoing (serve env s))) = Some t" using 1(2) by simp
    from 1(1) [OF this good_inv [OF o(2)]] show ?thesis using o(2) good_trans by blast
  next
    case False
    then show ?thesis using 1(2) o by (auto split: if_splits)
  qed
qed

lemma wait_rx_done_good: "wait_rx_done env s = Some t \<Longrightarrow> k32_inv s \<Longrightarrow> good s t"
  using wait_rx_good [of env _ "kcall u32MMAC_GetTime s" t] by (simp add: wait_rx_done_def kReadMac_def good_def k32_inv_def)

lemma kview_disallow: "kview (disallow_sleep s) = (kview s)\<lparr>vAllow := False, vVotes := sleep_votes (kTrace s) + of_bool (kAllowDeviceToSleep s)\<rparr>"
  by (simp add: disallow_sleep_def)

lemma kview_allow: "kview (allow_sleep s) = (kview s)\<lparr>vAllow := True, vVotes := sleep_votes (kTrace s) - of_bool (\<not> kAllowDeviceToSleep s)\<rparr>"
  by (simp add: allow_sleep_def)

lemma receive_good:
  assumes "k32_inv s" and "k32_otPlatRadioReceive env ch s = Some (r, t)"
  shows "good s t"
proof (cases "t = s")
  case False
  then obtain s1 where w: "wait_rx_done env s = Some s1"
    and t: "t = K32WEnableReceive (kcall (vMMAC_SetChannelAndPower ch (kTxPwrLevel (disallow_sleep ((kcall vMMAC_RadioToOffAndWait s1)\<lparr>kState := K32_RECEIVE\<rparr>))))
      ((disallow_sleep ((kcall vMMAC_RadioToOffAndWait s1)\<lparr>kState := K32_RECEIVE\<rparr>))\<lparr>kChannel := ch\<rparr>))"
    using assms(2) by (auto simp: k32_otPlatRadioReceive_def Let_def split: if_splits bind_splits)
  note g = wait_rx_done_good [OF w assms(1)]
  let ?u = "kcall (vMMAC_SetChannelAndPower ch (kTxPwrLevel (disallow_sleep ((kcall vMMAC_RadioToOffAndWait s1)\<lparr>kState := K32_RECEIVE\<rparr>))))
      ((disallow_sleep ((kcall vMMAC_RadioToOffAndWait s1)\<lparr>kState := K32_RECEIVE\<rparr>))\<lparr>kChannel := ch\<rparr>)"
  have "grows (kview s1) (kview ?u)" by (simp add: kview_disallow grows_def vote_debt_def) (simp add: kcall_def sleep_vote_def)
  moreover have "rx_ready (kview ?u)" using k32_invD(1) [OF good_inv [OF g]] by (simp add: kview_disallow rx_ready_def)
  ultimately have "good s1 (K32WEnableReceive ?u)" by (rule grows_ready)
  then show ?thesis using g good_trans t by blast
qed (use good_refl [OF assms(1)] in simp)

lemma kview_tx_time [simp]: "kview (snd (tx_time env s)) = kview s"
  by (simp add: tx_time_def kReadMac_def kReadPlat_def Let_def)

lemma transmit_good:
  assumes "k32_inv s" and "k32_otPlatRadioTransmit env s = Some (r, t)"
  shows "good s t"
proof (cases "kState s = K32_SLEEP \<or> kState s = K32_RECEIVE \<or> kState s = K32_RX_DISABLED")
  case True
  then obtain s1 where w: "wait_rx_done env s = Some s1" using assms(2)
    by (auto simp: k32_otPlatRadioTransmit_def split: bind_splits)
  let ?s2 = "disallow_sleep ((kcall vMMAC_RadioToOffAndWait s1)\<lparr>kState := K32_TRANSMIT, kTxStatus := OT_ERROR_NONE\<rparr>)"
  obtain tm s3 where tm: "tx_time env ?s2 = (tm, s3)" by force
  then have s3: "kview s3 = kview ?s2" using kview_tx_time [of env ?s2] by simp
  note g = wait_rx_done_good [OF w assms(1)]
  have "kview t = (kview s3)\<lparr>vMac := MacAck\<rparr>"
    using assms(2) True w tm by (auto simp: k32_otPlatRadioTransmit_def Let_def)
  then have t: "kview t = (kview s1)\<lparr>vMac := MacAck, vState := K32_TRANSMIT, vAllow := False,
      vVotes := sleep_votes (kTrace s1) + of_bool (kAllowDeviceToSleep s1)\<rparr>"
    using s3 by (simp add: kview_disallow) (simp add: kview_def kcall_def sleep_vote_def)
  have "view_ok (kview t)" unfolding t using k32_invD(1) [OF good_inv [OF g]] by (simp add: view_ok_def)
  moreover have "grows (kview s1) (kview t)" unfolding t by (simp add: grows_def vote_debt_def)
  ultimately have "good s1 t" by (simp add: good_def k32_inv_def)
  then show ?thesis using g good_trans by blast
next
  case False
  then show ?thesis using assms good_refl by (auto simp: k32_otPlatRadioTransmit_def)
qed

lemma mac_off_trace [simp]: "sleep_votes (kTrace (kcall vMMAC_RadioToOffAndWait s)) = sleep_votes (kTrace s)"
  by (simp add: kcall_def sleep_vote_def)

lemma sleep_good:
  assumes "k32_inv s"
  shows "good s (snd (k32_otPlatRadioSleep s))"
proof (cases "kState s \<noteq> K32_TRANSMIT \<and> kState s \<noteq> K32_DISABLED")
  case True
  let ?t = "snd (k32_otPlatRadioSleep s)"
  have t: "kview ?t = (kview s)\<lparr>vMac := MacIdle, vState := K32_SLEEP, vAllow := True,
      vVotes := sleep_votes (kTrace s) - of_bool (\<not> kAllowDeviceToSleep s)\<rparr>"
    using True by (simp add: k32_otPlatRadioSleep_def kview_allow) (simp add: kcall_def sleep_vote_def)
  have "view_ok (kview ?t)" unfolding t using k32_invD(1) [OF assms] by (simp add: view_ok_def)
  moreover have "grows (kview s) (kview ?t)" unfolding t by (simp add: grows_def vote_debt_def)
  ultimately show ?thesis by (simp add: good_def k32_inv_def)
qed (auto simp: k32_otPlatRadioSleep_def good_refl [OF assms])

text \<open>The radio is switched off for a moment and receives again.\<close>

lemma off_on_good:
  assumes "k32_inv s" and "kState s = K32_RECEIVE \<or> kState s = K32_RX_DISABLED"
    and "kview u = (kview s)\<lparr>vMac := MacIdle, vState := K32_RECEIVE\<rparr>"
  shows "good s (K32WEnableReceive u)"
proof (rule grows_ready)
  show "grows (kview s) (kview u)" unfolding assms(3) by (simp add: grows_def vote_debt_def)
  show "rx_ready (kview u)" unfolding assms(3) using k32_invD(1,6) [OF assms(1)] assms(2) by (auto simp: rx_ready_def)
qed

lemma inv_mac_idle: "k32_inv s \<Longrightarrow> kState s = K32_SLEEP \<Longrightarrow> kview t = (kview s)\<lparr>vMac := MacIdle\<rparr> \<Longrightarrow> good s t"
proof -
  assume a: "k32_inv s" "kState s = K32_SLEEP" and t: "kview t = (kview s)\<lparr>vMac := MacIdle\<rparr>"
  have "view_ok (kview t)" unfolding t using k32_invD(1,5) [OF a(1)] a(2) by (simp add: view_ok_def)
  moreover have "grows (kview s) (kview t)" unfolding t by (simp add: grows_def vote_debt_def)
  ultimately show "good s t" by (simp add: good_def k32_inv_def)
qed

lemma rssi_good:
  assumes "k32_inv s"
  shows "good s (snd (k32_otPlatRadioGetRssi env s))"
proof -
  let ?u = "(kcall i16MMAC_GetRSSI ((kcall vMMAC_RadioToOffAndWait (kcall OSA_InterruptDisable s))\<lparr>kState := K32_SLEEP\<rparr>))\<lparr>kState := K32_RECEIVE\<rparr>"
  consider (rx) "kState s = K32_RECEIVE \<or> kState s = K32_RX_DISABLED" | (sleep) "kState s = K32_SLEEP"
    | (other) "kState s = K32_TRANSMIT \<or> kState s = K32_DISABLED" by (cases "kState s") auto
  then show ?thesis
  proof cases
    case rx
    then have "kview (snd (k32_otPlatRadioGetRssi env s)) = kview (K32WEnableReceive ?u)"
      by (auto simp: k32_otPlatRadioGetRssi_def Let_def)
    moreover have "good s (K32WEnableReceive ?u)" by (rule off_on_good [OF assms rx]) simp
    ultimately show ?thesis by (simp add: good_def k32_inv_def)
  next
    case sleep
    then show ?thesis by (intro good_view [OF _ assms]) (simp add: k32_otPlatRadioGetRssi_def Let_def)
  next
    case other
    then show ?thesis by (auto simp: k32_otPlatRadioGetRssi_def good_refl [OF assms])
  qed
qed

lemma power_good:
  assumes "k32_inv s"
  shows "good s (snd (k32_otPlatRadioSetTransmitPower p s))"
proof -
  let ?u = "kcall (vMMAC_SetChannelAndPower (if kChannel s \<noteq> 0 then kChannel s else K32W_RADIO_DEFAULT_CHANNEL) (trim_power p))
    ((kcall vMMAC_RadioToOffAndWait s)\<lparr>kTxPwrLevel := trim_power p\<rparr>)"
  consider (rx) "kState s = K32_RECEIVE \<or> kState s = K32_RX_DISABLED" | (sleep) "kState s = K32_SLEEP"
    | (other) "kState s = K32_TRANSMIT \<or> kState s = K32_DISABLED" by (cases "kState s") auto
  then show ?thesis
  proof cases
    case rx
    then have "snd (k32_otPlatRadioSetTransmitPower p s) = K32WEnableReceive (?u\<lparr>kState := K32_RECEIVE\<rparr>)"
      by (auto simp: k32_otPlatRadioSetTransmitPower_def Let_def)
    moreover have "good s (K32WEnableReceive (?u\<lparr>kState := K32_RECEIVE\<rparr>))" by (rule off_on_good [OF assms rx]) simp
    ultimately show ?thesis by simp
  next
    case sleep
    then have "kview (snd (k32_otPlatRadioSetTransmitPower p s)) = (kview s)\<lparr>vMac := MacIdle\<rparr>"
      by (simp add: k32_otPlatRadioSetTransmitPower_def Let_def)
    then show ?thesis by (rule inv_mac_idle [OF assms sleep])
  next
    case other
    then show ?thesis by (auto simp: k32_otPlatRadioSetTransmitPower_def good_refl [OF assms])
  qed
qed

text \<open>Every call but the two that reset the ring.\<close>

definition keeps_ring :: "radio_call \<Rightarrow> bool" where
  "keeps_ring c \<longleftrightarrow> c \<noteq> CEnable \<and> c \<noteq> CDisable"

lemmas plain_calls = k32_otPlatRadioSetPromiscuous_def k32_otPlatRadioSetPanId_def k32_otPlatRadioSetExtendedAddress_def
  k32_otPlatRadioSetShortAddress_def k32_otPlatRadioSetMacKey_def k32_otPlatRadioSetMacFrameCounter_def
  k32_otPlatRadioSetMacFrameCounterIfLarger_def k32_otPlatRadioEnableCsl_def k32_otPlatRadioUpdateCslSampleTime_def
  k32_otPlatRadioSetCcaEnergyDetectThreshold_def

definition plain :: "radio_call \<Rightarrow> bool" where
  "plain c \<longleftrightarrow> (case c of CEnable \<Rightarrow> False | CDisable \<Rightarrow> False | CSleep \<Rightarrow> False | CReceive _ \<Rightarrow> False | CTransmit _ \<Rightarrow> False
     | CGetRssi \<Rightarrow> False | CSetTransmitPower _ \<Rightarrow> False | _ \<Rightarrow> True)"

lemma plain_view: "plain c \<Longrightarrow> api_exec env c s = Some t \<Longrightarrow> kview t = kview s"
  by (cases c) (auto simp: plain_def api_exec_def plain_calls kReadMac_def kReadPlat_def Let_def split: option.splits)

lemma api_exec_good:
  assumes inv: "k32_inv s" and "keeps_ring c" and run: "api_exec env c s = Some t"
  shows "good s t"
proof (cases "plain c")
  case True
  then show ?thesis using plain_view [OF _ run] good_view inv by blast
next
  case False
  have "k32_inv (s\<lparr>kTxOtFrame := f\<rparr>)" for f using inv by (simp add: k32_inv_def)
  then have "good s u" if "k32_otPlatRadioTransmit env (s\<lparr>kTxOtFrame := f\<rparr>) = Some (r, u)" for f r u
    using transmit_good [OF _ that] by (simp add: good_def)
  then show ?thesis
    using False assms(2) run receive_good [OF inv] sleep_good [OF inv] rssi_good [OF inv] power_good [OF inv]
    by (cases c) (auto simp: plain_def keeps_ring_def api_exec_def)
qed

lemma api_run_good: "k32_inv s \<Longrightarrow> \<forall>c \<in> set cs. keeps_ring c \<Longrightarrow> call_run env cs s = Some t \<Longrightarrow> good s t"
proof (induction cs arbitrary: s)
  case (Cons c cs)
  then obtain u where u: "api_exec env c (serve env s) = Some u" "call_run env cs u = Some t" by (auto split: bind_splits)
  note g = serve_good [OF Cons.prems(1), of env]
  have e: "good (serve env s) u" using api_exec_good [OF good_inv [OF g] _ u(1)] Cons.prems(2) by simp
  from Cons.IH [OF good_inv [OF e] _ u(2)] Cons.prems(2) have "good u t" by simp
  then show ?case using g e good_trans by blast
qed (simp add: good_refl)

section \<open>The main loop\<close>

text \<open>OpenThread does not enable or disable the radio while a frame or the end of a transmission is reported to it.\<close>

definition reacts :: "k32_mac \<Rightarrow> bool" where
  "reacts env \<longleftrightarrow> (\<forall>tr. (\<forall>c \<in> set (onReceiveDone env tr). keeps_ring c) \<and> (\<forall>c \<in> set (onTxDone env tr). keeps_ring c))"

lemma process_tx_good:
  assumes "reacts env" and "k32_inv s" and "K32WProcessTxFrame env s = Some t"
  shows "good s t"
proof (cases "kTxDone s")
  case True
  then obtain ack err where r: "call_run env (onTxDone env (kTrace (kcall (otPlatRadioTxDone ack err) (s\<lparr>kTxDone := False\<rparr>))))
      (kcall (otPlatRadioTxDone ack err) (s\<lparr>kTxDone := False\<rparr>)) = Some t"
    using assms(3) by (simp add: K32WProcessTxFrame_def Let_def)
  have v: "kview (kcall (otPlatRadioTxDone ack err) (s\<lparr>kTxDone := False\<rparr>)) = kview s" by simp
  then have "k32_inv (kcall (otPlatRadioTxDone ack err) (s\<lparr>kTxDone := False\<rparr>))" using assms(2) by (simp add: k32_inv_def)
  from api_run_good [OF this _ r] assms(1) v show ?thesis by (simp add: good_def reacts_def)
qed (use assms good_refl in \<open>auto simp: K32WProcessTxFrame_def\<close>)

lemma restart_good:
  assumes "k32_inv s"
  shows "good s (restart_rx s)"
proof (cases "kState s = K32_RX_DISABLED")
  case True
  have "kring_ok (kRxRing s)" by (rule k32_invD(1) [OF assms])
  then have "enable_slot (kRxRing s) = (None, (kRxRing s)\<lparr>ovf_cnt := ovf_cnt (kRxRing s) + 1\<rparr>)"
    using enable_slot_free(1) k32_invD(4) [OF assms True] by blast
  then have t: "kview (restart_rx s) = (kview s)\<lparr>vRing := (kRxRing s)\<lparr>ovf_cnt := ovf_cnt (kRxRing s) + 1\<rparr>\<rparr>"
    using True by (simp add: restart_rx_def K32WEnableReceive_def)
  note core = kring_core [of "(kRxRing s)\<lparr>ovf_cnt := ovf_cnt (kRxRing s) + 1\<rparr>" "kRxRing s"]
  have "view_ok (kview (restart_rx s))"
    using assms core True unfolding t k32_inv_def view_ok_def by simp
  moreover have "grows (kview s) (kview (restart_rx s))" unfolding t using core by (simp add: grows_def vote_debt_def)
  ultimately show ?thesis by (simp add: good_def k32_inv_def)
qed (use good_refl [OF assms] in \<open>simp add: restart_rx_def\<close>)

lemma view_ok_ring:
  assumes "view_ok v" and "kring_ok r" and "rbNext r = rbNext (vRing v)" and "\<And>n. is_free (vRing v) n \<Longrightarrow> is_free r n"
    and "vState v = K32_RX_DISABLED \<Longrightarrow> kfull r"
  shows "view_ok (v\<lparr>vRing := r\<rparr>)"
proof -
  have sel: "vState (v\<lparr>vRing := r\<rparr>) = vState v" "vRing (v\<lparr>vRing := r\<rparr>) = r" "vAllow (v\<lparr>vRing := r\<rparr>) = vAllow v"
    "vMac (v\<lparr>vRing := r\<rparr>) = vMac v" by simp_all
  show ?thesis using assms unfolding view_ok_def sel by metis
qed

lemma view_ok_delivered [simp]: "view_ok (v\<lparr>vDelivered := d\<rparr>) = view_ok v"
  by (simp add: view_ok_def)

text \<open>The slot of the frame just delivered is released.\<close>

lemma pop_inv:
  assumes "k32_inv s" and "is_oldest (kRxRing s) (rbLast (kRxRing s))"
    and "t = restart_rx (s\<lparr>kRxRing := K32WPopRxRingBuffer (kRxRing s)\<rparr>)"
  shows "k32_inv t" "kq (kRxRing t) = tl (kq (kRxRing s))" "queued (kTrace t) = queued (kTrace s)"
    "delivered (kTrace t) = delivered (kTrace s)" "vote_debt (kview t) = vote_debt (kview s)"
    "off_ok (kview s) \<Longrightarrow> off_ok (kview t)"
proof -
  let ?p = "s\<lparr>kRxRing := K32WPopRxRingBuffer (kRxRing s)\<rparr>"
  note pop = kq_pop [OF k32_invD(1) [OF assms(1)] assms(2)]
  have nxt: "rbNext (K32WPopRxRingBuffer (kRxRing s)) = rbNext (kRxRing s)" by (simp add: K32WPopRxRingBuffer_def)
  have g: "k32_inv t \<and> grows (kview ?p) (kview t)"
  proof (cases "kState s = K32_RX_DISABLED")
    case True
    have "rx_ready (kview (?p\<lparr>kState := K32_RECEIVE\<rparr>))"
      using assms(1) True pop(1) k32_invD(6) [OF assms(1)] by (auto simp: rx_ready_def k32_inv_def view_ok_def)
    moreover have "grows (kview ?p) (kview (?p\<lparr>kState := K32_RECEIVE\<rparr>))" by (simp add: grows_def vote_debt_def)
    ultimately show ?thesis
      using grows_ready [of ?p "?p\<lparr>kState := K32_RECEIVE\<rparr>"] True assms(3) by (simp add: restart_rx_def good_def)
  next
    case False
    then have "t = ?p" using assms(3) by (simp add: restart_rx_def)
    moreover have "view_ok (kview ?p)"
      using view_ok_ring [OF _ pop(1) _ _, of "kview s"] assms(1) False pop(4) nxt by (simp add: k32_inv_def)
    ultimately show ?thesis by (simp add: k32_inv_def)
  qed
  then obtain fs where fs: "kq (kRxRing t) = kq (K32WPopRxRingBuffer (kRxRing s)) @ fs" "queued (kTrace t) = queued (kTrace s) @ fs"
    by (auto simp: grows_def)
  show "k32_inv t" using g by simp
  have "queued (kTrace t) = queued (kTrace s)"
    using assms(3) by (simp add: restart_rx_def K32WEnableReceive_def split: prod.splits option.splits)
  then show "queued (kTrace t) = queued (kTrace s)" "kq (kRxRing t) = tl (kq (kRxRing s))" using fs pop(2) by simp_all
  show "delivered (kTrace t) = delivered (kTrace s)" "vote_debt (kview t) = vote_debt (kview s)"
    using g by (simp_all add: grows_def vote_debt_def)
  show "off_ok (kview t)" if "off_ok (kview s)"
    using grows_off [of "kview ?p" "kview t"] g that by (simp add: off_ok_def)
qed

text \<open>One turn of the loop over the ring.\<close>

lemma deliver_one:
  assumes re: "reacts env" and inv: "k32_inv s" and q: "kq (kRxRing s) = e # es"
    and get: "K32WGetRxRingBuffer (kRxRing s) = (Some i, r)" and run: "rx_deliver env i (s\<lparr>kRxRing := r\<rparr>) = Some t"
  shows "k32_inv t" "delivered (kTrace t) = delivered (kTrace s) @ [e]" "vote_debt (kview t) = vote_debt (kview s)"
    "\<exists>fs. kq (kRxRing t) = es @ fs \<and> queued (kTrace t) = queued (kTrace s) @ fs" "off_ok (kview s) \<Longrightarrow> off_ok (kview t)"
proof -
  have r: "r = (kRxRing s)\<lparr>rbLast := i\<rparr>" "is_oldest (kRxRing s) i" "buffer (kRxRing s) ! unat i = e"
    using kq_get(2) [OF k32_invD(1) [OF inv] q] get by auto
  note core = kring_core [of r "kRxRing s"]
  let ?s1 = "kcall (otPlatRadioReceiveDone e) (s\<lparr>kRxRing := r\<rparr>)"
  have v1: "kview ?s1 = ((kview s)\<lparr>vRing := r\<rparr>)\<lparr>vDelivered := delivered (kTrace s) @ [e]\<rparr>" by simp
  have "view_ok ((kview s)\<lparr>vRing := r\<rparr>)"
    using view_ok_ring [of "kview s" r] inv core k32_invD(1,4) [OF inv] by (simp add: k32_inv_def r(1))
  then have "view_ok (kview ?s1)" by (simp add: v1)
  then have i1: "k32_inv ?s1" by (simp add: k32_inv_def)
  obtain u where u: "call_run env (onReceiveDone env (kTrace ?s1)) ?s1 = Some u"
    "t = restart_rx ((serve env u)\<lparr>kRxRing := K32WPopRxRingBuffer (kRxRing (serve env u))\<rparr>)"
    using run r(1,3) by (auto simp: rx_deliver_def slot_def Let_def)
  have g1: "good ?s1 u" using api_run_good [OF i1 _ u(1)] re by (simp add: reacts_def)
  have g: "good ?s1 (serve env u)" using good_trans [OF g1 serve_good [OF good_inv [OF g1]]] .
  then obtain fs where fs: "kq (kRxRing (serve env u)) = (e # es) @ fs" "queued (kTrace (serve env u)) = queued (kTrace s) @ fs"
    using core q r(1) unfolding good_def grows_def v1 by auto
  have same: "rbLast (kRxRing (serve env u)) = i" "rbTail (kRxRing (serve env u)) = rbTail (kRxRing s)"
    "length (buffer (kRxRing (serve env u))) = length (buffer (kRxRing s))"
    "delivered (kTrace (serve env u)) = delivered (kTrace s) @ [e]" "vote_debt (kview (serve env u)) = vote_debt (kview s)"
    using g unfolding good_def grows_def v1 by (simp_all add: r(1) vote_debt_def)
  have "is_oldest (kRxRing (serve env u)) (rbLast (kRxRing (serve env u)))"
    using r(2) same fs by (simp add: is_oldest_def)
  note p = pop_inv [OF good_inv [OF g] this u(2)]
  show "k32_inv t" "delivered (kTrace t) = delivered (kTrace s) @ [e]" "vote_debt (kview t) = vote_debt (kview s)"
    "\<exists>fs. kq (kRxRing t) = es @ fs \<and> queued (kTrace t) = queued (kTrace s) @ fs"
    using p same fs by auto
  show "off_ok (kview t)" if "off_ok (kview s)"
  proof (rule p(6), rule grows_off)
    show "grows (kview ?s1) (kview (serve env u))" using g by (simp add: good_def)
    show "off_ok (kview ?s1)" using that by (simp add: v1 off_ok_def)
  qed
qed

end
