(* ===== verification/K32w0_Radio_Props.thy ===== *)
theory K32w0_Radio_Props
  imports K32w0_Radio_Run
begin

text \<open>
  The properties of the k32w0 radio driver: no frame is lost, reordered or overwritten in the ring, the main loop
  drains it and the receiver runs again, low power is forbidden exactly while the radio is used, acknowledgements carry
  the frame-pending bit the tables ask for, and the end of a transmission is reported with its outcome.
\<close>

section \<open>The loop over the ring\<close>

lemma process_rx:
  "K32WProcessRxFrames env s = Some t \<Longrightarrow> reacts env \<Longrightarrow> k32_inv s \<Longrightarrow>
   k32_inv t \<and> kq (kRxRing t) = [] \<and> kState t \<noteq> K32_RX_DISABLED \<and> vote_debt (kview t) = vote_debt (kview s) \<and>
   (off_ok (kview s) \<longrightarrow> off_ok (kview t)) \<and>
   (\<exists>fs. queued (kTrace t) = queued (kTrace s) @ fs \<and> delivered (kTrace t) = delivered (kTrace s) @ kq (kRxRing s) @ fs)"
proof (induction rule: K32WProcessRxFrames.raw_induct [rotated 1, consumes 1])
  case (1 loop env s t)
  let ?v = "serve env s"
  note g = serve_good [OF 1(4), of env]
  obtain fs where fs: "kq (kRxRing ?v) = kq (kRxRing s) @ fs" "queued (kTrace ?v) = queued (kTrace s) @ fs"
      "delivered (kTrace ?v) = delivered (kTrace s)" "vote_debt (kview ?v) = vote_debt (kview s)"
    using g by (auto simp: good_def grows_def)
  have off: "off_ok (kview s) \<longrightarrow> off_ok (kview ?v)" using g grows_off by (auto simp: good_def)
  note inv = good_inv [OF g]
  note ok = k32_invD(1) [OF inv]
  show ?case
  proof (cases "kq (kRxRing ?v)")
    case Nil
    then have "K32WGetRxRingBuffer (kRxRing ?v) = (None, kRxRing ?v)" by (rule kq_get(1) [OF ok])
    then have "t = restart_rx ?v" using 1(2) by simp
    moreover have "kState ?v \<noteq> K32_RX_DISABLED"
      using k32_invD(4) [OF inv] Nil kring_okD(2) [OF ok] by (auto simp: kfull_def)
    ultimately have "t = ?v" by (simp add: restart_rx_def)
    then show ?thesis using inv fs off Nil \<open>kState ?v \<noteq> K32_RX_DISABLED\<close> by auto
  next
    case (Cons e es)
    then obtain i where get: "K32WGetRxRingBuffer (kRxRing ?v) = (Some i, (kRxRing ?v)\<lparr>rbLast := i\<rparr>)"
      using kq_get(2) [OF ok Cons] by blast
    then obtain u where u: "rx_deliver env i (?v\<lparr>kRxRing := (kRxRing ?v)\<lparr>rbLast := i\<rparr>\<rparr>) = Some u" "loop env u = Some t"
      using 1(2) by (auto split: bind_splits)
    note d = deliver_one [OF 1(3) inv Cons get u(1)]
    from 1(1) [OF u(2) 1(3) d(1)] d(2-5) fs off Cons show ?thesis by auto
  qed
qed

lemma disable_inv:
  assumes "k32_inv s"
  shows "k32_inv (snd (k32_otPlatRadioDisable s))"
proof (cases "kState s = K32_DISABLED")
  case False
  let ?t = "snd (k32_otPlatRadioDisable s)"
  have t: "kview ?t = (kview s)\<lparr>vMac := MacIdle, vState := K32_DISABLED, vRing := K32WResetRxRingBuffer (kRxRing s)\<rparr>"
    using False by (simp add: k32_otPlatRadioDisable_def k32_otPlatRadioIsEnabled_def Let_def)
  have "kring_ok (K32WResetRxRingBuffer (kRxRing s))"
    using k32_invD(1) [OF assms] by (intro kring_reset) (simp add: kring_ok_def)
  then show ?thesis unfolding k32_inv_def t by (simp add: view_ok_def)
qed (use assms in \<open>simp add: k32_otPlatRadioDisable_def k32_otPlatRadioIsEnabled_def\<close>)

lemma enable_view:
  "kview (snd (k32_otPlatRadioEnable s)) = (kview s)\<lparr>vAllow := True, vRing := K32WResetRxRingBuffer (kRxRing s), vState := K32_SLEEP\<rparr>"
  by (simp add: k32_otPlatRadioEnable_def Let_def)

lemma enable_inv:
  assumes "k32_inv s" and "kState s = K32_DISABLED"
  shows "k32_inv (snd (k32_otPlatRadioEnable s))"
proof -
  have "mac_target (kTrace s) \<noteq> MacSlot n" for n using mac_slotD(1) [OF assms(1)] assms(2) by auto
  moreover have "kring_ok (K32WResetRxRingBuffer (kRxRing s))"
    using k32_invD(1) [OF assms(1)] by (intro kring_reset) (simp add: kring_ok_def)
  ultimately show ?thesis unfolding k32_inv_def enable_view by (simp add: view_ok_def)
qed

section \<open>Runs\<close>

text \<open>
  How OpenThread uses the driver. It enables only a disabled radio; and with \<open>slept\<close>, it disables the radio only after
  putting it to sleep.
\<close>

definition ev_ok :: "bool \<Rightarrow> k32_event \<Rightarrow> k32_radio \<Rightarrow> bool" where
  "ev_ok slept e s \<longleftrightarrow> (e = EvCall CEnable \<longrightarrow> kState s = K32_DISABLED) \<and>
     (slept \<and> e = EvCall CDisable \<longrightarrow> kState s \<in> {K32_SLEEP, K32_DISABLED})"

fun uses :: "bool \<Rightarrow> k32_mac \<Rightarrow> k32_event list \<Rightarrow> k32_radio \<Rightarrow> bool" where
  "uses slept env [] s = True"
| "uses slept env (e # es) s = (ev_ok slept e s \<and> (case k32_step env e s of None \<Rightarrow> True | Some t \<Rightarrow> uses slept env es t))"

abbreviation follows :: "k32_mac \<Rightarrow> k32_event list \<Rightarrow> k32_radio \<Rightarrow> bool" where "follows \<equiv> uses True"

text \<open>Frames are delivered in the order they were queued; those not yet delivered are in the ring.\<close>

definition in_order :: "k32_radio \<Rightarrow> bool" where
  "in_order s \<longleftrightarrow> queued (kTrace s) = delivered (kTrace s) @ kq (kRxRing s)"

lemma good_in_order: "good s t \<Longrightarrow> in_order s \<Longrightarrow> in_order t"
  by (auto simp: good_def grows_def in_order_def)

lemma radio_process:
  assumes "reacts env" and "k32_inv s" and "K32WRadioProcess env s = Some t"
  shows "k32_inv t" "vote_debt (kview t) = vote_debt (kview s)" "in_order s \<Longrightarrow> in_order t" "kState t \<noteq> K32_RX_DISABLED" "kq (kRxRing t) = []"
    "off_ok (kview s) \<Longrightarrow> off_ok (kview t)"
proof -
  obtain u where u: "K32WProcessTxFrame env s = Some u" "K32WProcessRxFrames env u = Some t"
    using assms(3) by (auto simp: K32WRadioProcess_def split: bind_splits)
  note g = process_tx_good [OF assms(1,2) u(1)]
  note p = process_rx [OF u(2) assms(1) good_inv [OF g]]
  show "k32_inv t" "kState t \<noteq> K32_RX_DISABLED" "kq (kRxRing t) = []" using p by auto
  show "vote_debt (kview t) = vote_debt (kview s)" using p g by (simp add: good_def grows_def)
  show "off_ok (kview t)" if "off_ok (kview s)" using p g grows_off that by (auto simp: good_def)
  show "in_order t" if "in_order s" using good_in_order [OF g that] p by (auto simp: in_order_def)
qed

lemma reset_owed:
  "off_ok (kview s) \<Longrightarrow> kState s = K32_DISABLED \<Longrightarrow> vote_debt (kview (snd (k32_otPlatRadioEnable s))) = vote_debt (kview s)"
  "vote_debt (kview (snd (k32_otPlatRadioDisable s))) = vote_debt (kview s)"
  by (auto simp: enable_view vote_debt_def off_ok_def k32_otPlatRadioDisable_def Let_def sleep_vote_def sleep_votes_def)

lemma reset_off:
  "off_ok (kview (snd (k32_otPlatRadioEnable s)))"
  "k32_inv s \<Longrightarrow> off_ok (kview s) \<Longrightarrow> kState s \<in> {K32_SLEEP, K32_DISABLED} \<Longrightarrow> off_ok (kview (snd (k32_otPlatRadioDisable s)))"
  using k32_invD(5) [of s]
  by (auto simp: enable_view off_ok_def k32_otPlatRadioDisable_def Let_def)

lemma k32_step_inv:
  assumes "reacts env" and "k32_inv s" and "ev_ok slept e s" and "k32_step env e s = Some t"
  shows "k32_inv t \<and> (slept \<and> off_ok (kview s) \<longrightarrow> off_ok (kview t) \<and> vote_debt (kview t) = vote_debt (kview s))"
proof (cases e)
  case (EvCall c)
  consider (on) "c = CEnable" | (off) "c = CDisable" | (other) "keeps_ring c" by (auto simp: keeps_ring_def)
  then show ?thesis
  proof cases
    case on
    then show ?thesis
      using assms EvCall enable_inv [OF assms(2)] reset_owed(1) [of s] reset_off(1) [of s] by (auto simp: ev_ok_def api_exec_def)
  next
    case off
    then show ?thesis
      using assms EvCall disable_inv [OF assms(2)] reset_owed(2) [of s] reset_off(2) [OF assms(2)] by (auto simp: ev_ok_def api_exec_def)
  next
    case other
    then have "good s t" using api_exec_good [OF assms(2), of c env t] assms(4) EvCall by simp
    then show ?thesis using grows_off [of "kview s" "kview t"] by (simp add: good_def) (simp add: grows_def)
  qed
next
  case (EvIrq i)
  then have "good s t" using take_irq_good [OF assms(2), of env i] assms(4) by simp
  then show ?thesis using grows_off [of "kview s" "kview t"] by (simp add: good_def) (simp add: grows_def)
next
  case EvProcess
  then show ?thesis using radio_process(1,2,6) [OF assms(1,2)] assms(4) by simp
qed

lemma k32_run_inv:
  "reacts env \<Longrightarrow> uses slept env evs s \<Longrightarrow> k32_run env evs s = Some t \<Longrightarrow> k32_inv s \<Longrightarrow>
   k32_inv t \<and> (slept \<and> off_ok (kview s) \<longrightarrow> off_ok (kview t) \<and> vote_debt (kview t) = vote_debt (kview s))"
proof (induction evs arbitrary: s)
  case (Cons e es)
  then obtain u where u: "k32_step env e s = Some u" "k32_run env es u = Some t" by (auto split: bind_splits)
  have i: "k32_inv u \<and> (slept \<and> off_ok (kview s) \<longrightarrow> off_ok (kview u) \<and> vote_debt (kview u) = vote_debt (kview s))"
    using k32_step_inv [OF Cons.prems(1,4) _ u(1), of slept] Cons.prems(2) by simp
  with Cons.IH [OF Cons.prems(1) _ u(2)] Cons.prems(2) u(1) show ?case by auto
qed simp

lemma k32_run_in_order:
  "reacts env \<Longrightarrow> EvCall CEnable \<notin> set evs \<Longrightarrow> EvCall CDisable \<notin> set evs \<Longrightarrow> k32_run env evs s = Some t \<Longrightarrow>
   k32_inv s \<Longrightarrow> in_order s \<Longrightarrow> k32_inv t \<and> in_order t"
proof (induction evs arbitrary: s)
  case (Cons e es)
  then obtain u where u: "k32_step env e s = Some u" "k32_run env es u = Some t" by (auto split: bind_splits)
  have inv: "k32_inv u" using k32_step_inv [OF Cons.prems(1,5) _ u(1), of True] Cons.prems(2,3) by (auto simp: ev_ok_def)
  moreover have "in_order u"
  proof (cases e)
    case (EvCall c)
    then have "keeps_ring c" using Cons.prems(2,3) by (auto simp: keeps_ring_def)
    then have "good s u" using api_exec_good [OF Cons.prems(5)] u(1) EvCall by auto
    then show ?thesis using Cons.prems(6) by (rule good_in_order)
  next
    case (EvIrq i)
    then show ?thesis using take_irq_good [OF Cons.prems(5)] u(1) Cons.prems(6) good_in_order by auto
  next
    case EvProcess
    then show ?thesis using radio_process(3) [OF Cons.prems(1,5)] u(1) Cons.prems(6) by simp
  qed
  ultimately show ?case using Cons.IH [OF Cons.prems(1) _ _ u(2)] Cons.prems(2,3) by simp
qed simp

section \<open>Waits end\<close>

text \<open>
  The clock of the MAC: a count of symbols that advances with every reading, read modulo \<open>2 ^ 32\<close>, and interrupts that
  are served within \<open>2 ^ 30\<close> symbols, almost five hours.
\<close>

definition clock_law :: "k32_mac \<Rightarrow> (k32_call list \<Rightarrow> nat) \<Rightarrow> bool" where
  "clock_law env T \<longleftrightarrow> (\<forall>tr. mmacTime env tr = of_nat (T tr)) \<and>
     (\<forall>tr. T tr < T (tr @ [u32MMAC_GetTime]) \<and> T (tr @ [u32MMAC_GetTime]) < T tr + 2 ^ 30) \<and>
     (\<forall>s. T (kTrace s) \<le> T (kTrace (serve env s) @ [v2MAC_is_rx_ongoing]) \<and>
          T (kTrace (serve env s) @ [v2MAC_is_rx_ongoing]) < T (kTrace s) + 2 ^ 30)"

lemma wait_rx_ends:
  assumes law: "clock_law env T"
  shows "t0 < T (kTrace s) \<Longrightarrow> T (kTrace s) < t0 + 544 + 2 ^ 31 \<Longrightarrow> \<exists>t. wait_rx env (of_nat t0) s = Some t"
proof (induction "t0 + 544 - T (kTrace s)" arbitrary: s rule: less_induct)
  case less
  let ?v = "serve env s"
  let ?r = "T (kTrace ?v @ [v2MAC_is_rx_ongoing])"
  have r: "T (kTrace s) \<le> ?r" "?r < T (kTrace s) + 2 ^ 30" using law by (simp_all add: clock_law_def)
  have time: "mmacTime env (kTrace (kcall v2MAC_is_rx_ongoing ?v)) - of_nat t0 = (of_nat (?r - t0) :: u32)"
  proof -
    have "mmacTime env (kTrace (kcall v2MAC_is_rx_ongoing ?v)) = of_nat ?r" using law by (simp add: clock_law_def)
    moreover have "t0 \<le> ?r" using r(1) less.prems(1) by linarith
    ultimately show ?thesis by (simp add: of_nat_diff)
  qed
  have el: "unat (of_nat (?r - t0) :: u32) = ?r - t0"
  proof -
    have "?r - t0 < 2 ^ 32" using r less.prems by simp
    then show ?thesis by (simp only: unat_of_nat) simp
  qed
  show ?case
  proof (cases "?r - t0 < 544")
    case False
    then have "\<not> mmacTime env (kTrace (kcall v2MAC_is_rx_ongoing ?v)) - of_nat t0 < TX_TO"
      unfolding time using el by (simp add: word_less_nat_alt TX_TO_def)
    then show ?thesis by (subst wait_rx.simps) auto
  next
    case True
    let ?w = "kcall u32MMAC_GetTime (kcall v2MAC_is_rx_ongoing ?v)"
    have "?r < T ((kTrace ?v @ [v2MAC_is_rx_ongoing]) @ [u32MMAC_GetTime])" "T ((kTrace ?v @ [v2MAC_is_rx_ongoing]) @ [u32MMAC_GetTime]) < ?r + 2 ^ 30"
      using law unfolding clock_law_def by blast+
    then have w: "?r < T (kTrace ?w)" "T (kTrace ?w) < ?r + 2 ^ 30" by simp_all
    then obtain t where "wait_rx env (of_nat t0) ?w = Some t"
      using less.hyps [of ?w] less.prems r True by fastforce
    then show ?thesis by (subst wait_rx.simps) auto
  qed
qed

lemma wait_rx_done_ends:
  assumes "clock_law env T"
  shows "\<exists>t. wait_rx_done env s = Some t"
proof -
  have "T (kTrace s) < T (kTrace (kcall u32MMAC_GetTime s))" "T (kTrace (kcall u32MMAC_GetTime s)) < T (kTrace s) + 2 ^ 30"
    "mmacTime env (kTrace s) = of_nat (T (kTrace s))" using assms by (simp_all add: clock_law_def)
  then show ?thesis using wait_rx_ends [OF assms, of "T (kTrace s)" "kcall u32MMAC_GetTime s"] by (simp add: wait_rx_done_def kReadMac_def)
qed

lemma receive_ends: "clock_law env T \<Longrightarrow> \<exists>r. k32_otPlatRadioReceive env ch s = Some r"
  using wait_rx_done_ends [of env T s] by (auto simp: k32_otPlatRadioReceive_def Let_def)

lemma transmit_ends: "clock_law env T \<Longrightarrow> \<exists>r. k32_otPlatRadioTransmit env s = Some r"
  using wait_rx_done_ends [of env T s] by (auto simp: k32_otPlatRadioTransmit_def Let_def split: prod.splits)

lemma api_exec_ends: "clock_law env T \<Longrightarrow> \<exists>t. api_exec env c s = Some t"
proof (cases c)
  case (CReceive ch)
  assume "clock_law env T"
  then show ?thesis using receive_ends [of env T ch s] CReceive by (auto simp: api_exec_def)
next
  case (CTransmit f)
  assume "clock_law env T"
  then show ?thesis using transmit_ends [of env T "s\<lparr>kTxOtFrame := f\<rparr>"] CTransmit by (auto simp: api_exec_def)
qed (simp_all add: api_exec_def)

lemma api_run_ends: "clock_law env T \<Longrightarrow> \<exists>t. call_run env cs s = Some t"
proof (induction cs arbitrary: s)
  case (Cons c cs)
  obtain u where "api_exec env c (serve env s) = Some u" using api_exec_ends [OF Cons.prems] by blast
  then show ?case using Cons.IH [OF Cons.prems, of u] by simp
qed simp

section \<open>The main loop drains the ring\<close>

text \<open>A burst of interrupts ends: once \<open>B\<close> frames were queued there are no more interrupts.\<close>

definition burst_ends :: "k32_mac \<Rightarrow> nat \<Rightarrow> bool" where
  "burst_ends env B \<longleftrightarrow> (\<forall>tr. B \<le> length (queued tr) \<longrightarrow> irqs env tr = [])"

lemma serve_quiet: "burst_ends env B \<Longrightarrow> B \<le> length (queued (kTrace s)) \<Longrightarrow> serve env s = s"
  by (simp add: burst_ends_def serve_def)

lemma enable_receive_queued [simp]: "queued (kTrace (K32WEnableReceive s)) = queued (kTrace s)"
  by (simp add: K32WEnableReceive_def split: prod.splits option.splits)

lemma queued_app [simp]: "queued (xs @ ys) = queued xs @ queued ys" "queued [] = []"
    "queued (a # xs) = (case a of FrameQueued e \<Rightarrow> [e] | _ \<Rightarrow> []) @ queued xs"
  by (simp_all add: queued_def)

lemma wait_rx_queued:
  "wait_rx env t0 s = Some t \<Longrightarrow> burst_ends env B \<Longrightarrow> B \<le> length (queued (kTrace s)) \<Longrightarrow> queued (kTrace t) = queued (kTrace s)"
proof (induction rule: wait_rx.raw_induct [rotated 1, consumes 1])
  case (1 wait env t0 s t)
  have q: "serve env s = s" using serve_quiet 1(3,4) by blast
  show ?case using 1(2) 1(1) [of env t0 "kcall u32MMAC_GetTime (kcall v2MAC_is_rx_ongoing s)" t] 1(3,4)
    unfolding q by (auto split: if_splits)
qed

lemma wait_rx_done_queued:
  "wait_rx_done env s = Some t \<Longrightarrow> burst_ends env B \<Longrightarrow> B \<le> length (queued (kTrace s)) \<Longrightarrow> queued (kTrace t) = queued (kTrace s)"
  using wait_rx_queued [of env _ "kcall u32MMAC_GetTime s" t B] by (simp add: wait_rx_done_def kReadMac_def)

lemma sleep_votes_queued [simp]: "queued (kTrace (allow_sleep s)) = queued (kTrace s)" "queued (kTrace (disallow_sleep s)) = queued (kTrace s)"
  by (simp_all add: allow_sleep_def disallow_sleep_def)

lemma tx_time_queued [simp]: "tx_time env s = (tm, u) \<Longrightarrow> queued (kTrace u) = queued (kTrace s)"
  by (auto simp: tx_time_def kReadMac_def kReadPlat_def Let_def split: if_splits)

lemma api_exec_queued:
  assumes "burst_ends env B" and "B \<le> length (queued (kTrace s))" and "keeps_ring c" and "api_exec env c s = Some t"
  shows "queued (kTrace t) = queued (kTrace s)"
proof (cases c)
  case (CReceive ch)
  then show ?thesis
    using assms(4) wait_rx_done_queued [OF _ assms(1,2)]
    by (auto simp: api_exec_def k32_otPlatRadioReceive_def Let_def split: if_splits bind_splits)
next
  case (CTransmit f)
  then obtain r where r: "k32_otPlatRadioTransmit env (s\<lparr>kTxOtFrame := f\<rparr>) = Some (r, t)" using assms(4) by (auto simp: api_exec_def)
  show ?thesis
  proof (cases "kState s = K32_SLEEP \<or> kState s = K32_RECEIVE \<or> kState s = K32_RX_DISABLED")
    case True
    then obtain u where w: "wait_rx_done env (s\<lparr>kTxOtFrame := f\<rparr>) = Some u" using r
      by (auto simp: k32_otPlatRadioTransmit_def split: bind_splits)
    let ?s2 = "disallow_sleep ((kcall vMMAC_RadioToOffAndWait u)\<lparr>kState := K32_TRANSMIT, kTxStatus := OT_ERROR_NONE\<rparr>)"
    obtain tm v where tm: "tx_time env ?s2 = (tm, v)" by force
    have "queued (kTrace t) = queued (kTrace v)" using r True w tm by (auto simp: k32_otPlatRadioTransmit_def Let_def)
    then show ?thesis using wait_rx_done_queued [OF w assms(1)] assms(2) tx_time_queued [OF tm] by simp
  qed (use r in \<open>auto simp: k32_otPlatRadioTransmit_def\<close>)
next
  case CSleep
  then show ?thesis using assms(4) by (auto simp: api_exec_def k32_otPlatRadioSleep_def)
next
  case CGetRssi
  then show ?thesis using assms(4) by (auto simp: api_exec_def k32_otPlatRadioGetRssi_def Let_def)
next
  case (CSetTransmitPower p)
  then show ?thesis using assms(4) by (auto simp: api_exec_def k32_otPlatRadioSetTransmitPower_def Let_def)
qed (use assms(3) kviewD(5) [OF plain_view [OF _ assms(4)]] in \<open>simp_all add: keeps_ring_def plain_def\<close>)

lemma api_run_queued:
  "burst_ends env B \<Longrightarrow> B \<le> length (queued (kTrace s)) \<Longrightarrow> \<forall>c \<in> set cs. keeps_ring c \<Longrightarrow> call_run env cs s = Some t \<Longrightarrow>
   queued (kTrace t) = queued (kTrace s)"
proof (induction cs arbitrary: s)
  case (Cons c cs)
  have q: "serve env s = s" using serve_quiet Cons.prems(1,2) by blast
  obtain u where u: "api_exec env c s = Some u" "call_run env cs u = Some t" using Cons.prems(4) unfolding call_run.simps q by (auto split: bind_splits)
  have "queued (kTrace u) = queued (kTrace s)" using api_exec_queued [OF Cons.prems(1,2) _ u(1)] Cons.prems(3) by simp
  then show ?case using Cons.IH [OF Cons.prems(1) _ _ u(2)] Cons.prems(2,3) by simp
qed simp

lemma rx_deliver_ends:
  assumes "clock_law env T"
  shows "\<exists>t. rx_deliver env i s = Some t"
  using api_run_ends [OF assms] by (auto simp: rx_deliver_def Let_def)

lemma rx_deliver_quiet:
  assumes "burst_ends env B" and "B \<le> length (queued (kTrace s))" and "reacts env" and "rx_deliver env i s = Some t"
  shows "queued (kTrace t) = queued (kTrace s)"
proof -
  let ?s1 = "kcall (otPlatRadioReceiveDone (slot i s)) s"
  obtain u where u: "call_run env (onReceiveDone env (kTrace ?s1)) ?s1 = Some u"
    "t = restart_rx ((serve env u)\<lparr>kRxRing := K32WPopRxRingBuffer (kRxRing (serve env u))\<rparr>)"
    using assms(4) by (auto simp: rx_deliver_def Let_def)
  have "queued (kTrace u) = queued (kTrace ?s1)" using api_run_queued [OF assms(1) _ _ u(1)] assms(2,3) by (simp add: reacts_def)
  then have q: "queued (kTrace u) = queued (kTrace s)" by simp
  then have "serve env u = u" using serve_quiet [OF assms(1)] assms(2) by simp
  then show ?thesis using u(2) q by (simp add: restart_rx_def)
qed

lemma kq_less_128: "k32_inv s \<Longrightarrow> length (kq (kRxRing s)) < 128"
  using kring_okD(1,3) [OF k32_invD(1), of s] ring_count_less [of "as8 (kRxRing s)"] by (simp add: length_kq)

text \<open>
  While the burst lasts every turn of the loop delivers a frame, and afterwards every turn shortens the queue.
\<close>

definition turns_left :: "nat \<Rightarrow> k32_radio \<Rightarrow> nat" where
  "turns_left B s = (B - length (delivered (kTrace s))) * 128 + length (kq (kRxRing s))"

lemma turn_decreases:
  assumes law: "burst_ends env B" "reacts env" and inv: "k32_inv s" "in_order s"
    and q: "kq (kRxRing (serve env s)) = e # es" "K32WGetRxRingBuffer (kRxRing (serve env s)) = (Some i, r)"
    and run: "rx_deliver env i ((serve env s)\<lparr>kRxRing := r\<rparr>) = Some t"
  shows "k32_inv t" "in_order t" "turns_left B t < turns_left B s"
proof -
  note g = serve_good [OF inv(1), of env]
  note d = deliver_one [OF law(2) good_inv [OF g] q run]
  have o: "in_order (serve env s)" by (rule good_in_order [OF g inv(2)])
  show "k32_inv t" by (rule d(1))
  show "in_order t" using o d(2,4) q(1) by (auto simp: in_order_def)
  have del: "length (delivered (kTrace t)) = Suc (length (delivered (kTrace s)))"
    using d(2) g by (simp add: good_def grows_def)
  show "turns_left B t < turns_left B s"
  proof (cases "length (delivered (kTrace s)) < B")
    case True
    then have "B - length (delivered (kTrace s)) = Suc (B - length (delivered (kTrace t)))" using del by simp
    then show ?thesis using kq_less_128 [OF d(1)] by (simp add: turns_left_def)
  next
    case False
    then have B: "B \<le> length (queued (kTrace s))" using inv(2) by (simp add: in_order_def)
    then have v: "serve env s = s" using serve_quiet [OF law(1)] by blast
    have "queued (kTrace t) = queued (kTrace s)" using rx_deliver_quiet [OF law(1) _ law(2) run] B v by simp
    then have "kq (kRxRing t) = es" using d(4) v by auto
    then show ?thesis using False del q(1) v by (simp add: turns_left_def)
  qed
qed

lemma process_rx_ends:
  assumes law: "clock_law env T" "burst_ends env B" "reacts env"
  shows "k32_inv s \<Longrightarrow> in_order s \<Longrightarrow> \<exists>t. K32WProcessRxFrames env s = Some t"
proof (induction "turns_left B s" arbitrary: s rule: less_induct)
  case less
  let ?v = "serve env s"
  note inv = good_inv [OF serve_good [OF less.prems(1), of env]]
  show ?case
  proof (cases "kq (kRxRing ?v)")
    case Nil
    then have "K32WGetRxRingBuffer (kRxRing ?v) = (None, kRxRing ?v)" by (rule kq_get(1) [OF k32_invD(1) [OF inv]])
    then show ?thesis by (subst K32WProcessRxFrames.simps) simp
  next
    case (Cons e es)
    then obtain i where get: "K32WGetRxRingBuffer (kRxRing ?v) = (Some i, (kRxRing ?v)\<lparr>rbLast := i\<rparr>)"
      using kq_get(2) [OF k32_invD(1) [OF inv] Cons] by blast
    obtain u where u: "rx_deliver env i (?v\<lparr>kRxRing := (kRxRing ?v)\<lparr>rbLast := i\<rparr>\<rparr>) = Some u"
      using rx_deliver_ends [OF law(1)] by blast
    note t = turn_decreases [OF law(2,3) less.prems Cons get u]
    obtain w where "K32WProcessRxFrames env u = Some w" using less.hyps [OF t(3,1,2)] by blast
    then show ?thesis using get u by (subst K32WProcessRxFrames.simps) simp
  qed
qed


section \<open>Properties\<close>

definition empty_entry :: rxRingBufferEntry where
  "empty_entry = \<lparr>au8Byte = [], u8PayloadLength = 0, padFp = 0, padLm = 0, ofLength = 0, ofChannel = 0, ofTimestamp = 0, ofLqi = 0,
     ofRssi = 0, ofAckedWithFramePending = False, ofAckedWithSecEnhAck = False, ofAckKeyId = 0, ofAckFrameCounter = 0\<rparr>"

definition k32_boot :: "nat \<Rightarrow> k32_radio" where
  "k32_boot children =
     \<lparr>kState = K32_DISABLED, kTxPwrLevel = 0, kChannel = 0, kIsFpEnabled = True, kPanId = 0, kShortAddress = 0,
      kExtAddress = replicate 8 0, kRevExtAddr = replicate 8 0, kCustomExtAddr = replicate 8 0, kSrcMatch = src_boot children,
      kRxRing = \<lparr>buffer = replicate K32W0_RADIO_NUM_OF_RX_BUFS empty_entry, rbHead = 0, rbTail = 0, rbNext = 0, rbLast = 0, ovf_cnt = 0\<rparr>,
      kRxAddressMatch = True, kTxMacLength = 0, kAck = empty_entry, kRadioInitForLp = False, kPromiscuousEnable = False, kTxDone = False,
      kTxStatus = OT_ERROR_NONE,
      kTxOtFrame = \<lparr>txPsdu = [], txLength = 0, txChannel = 0, txDelay = 0, txDelayBaseTime = 0, txCsmaCaEnabled = False,
        txIsSecurityProcessed = False, txIsHeaderUpdated = False\<rparr>,
      kMacFrameCounter = 0, kKeyId = 0, kCslPeriod = 0, kAllowDeviceToSleep = True, kTrace = []\<rparr>"

lemma k32_boot_inv: "k32_inv (k32_boot n)" "in_order (k32_boot n)" "vote_debt (kview (k32_boot n)) = 0" "off_ok (kview (k32_boot n))"
  by (simp_all add: k32_boot_def k32_inv_def view_ok_def mac_target_def kring_ok_def ring_size_def K32W0_RADIO_NUM_OF_RX_BUFS_def
      in_order_def queued_def delivered_def kq_def ring_abs_def ring_count_def vote_debt_def sleep_votes_def off_ok_def)

definition k32_sample_mac :: "k32_mac" where
  "k32_sample_mac = \<lparr>mmacTime = (\<lambda>tr. of_nat (length tr)), platTime = (\<lambda>_. 0), rxOngoing = (\<lambda>_. False), irqs = (\<lambda>_. []),
     rxErrors = (\<lambda>_. 0), txErrors = (\<lambda>_. \<lparr>E_MMAC_TXSTAT_CCA_BUSY = False, E_MMAC_TXSTAT_NO_ACK = False,
       E_MMAC_TXSTAT_ABORTED = False, E_MMAC_TXSTAT_TXPCTO = False, E_MMAC_TXSTAT_TXTO = False\<rparr>),
     rxTimestamp = (\<lambda>_. 0), rxLqi = (\<lambda>_. 0), lastPacketRssi = (\<lambda>_. 0), mmacRssi = (\<lambda>_. 0), MMAC_INVALID_RSSI = 1,
     i16Radio_BoundRssiValue = (\<lambda>w. w), i16Radio_GetRSSIfromED = ucast, u8Radio_GetEDfromRSSI = ucast,
     frmIsVersion2015 = (\<lambda>_ _. True), frmIsCommand = (\<lambda>_ _. True), frmIsData = (\<lambda>_ _. False), frmIsDataRequest = (\<lambda>_ _. True),
     frmIsSecurityEnabled = (\<lambda>_ _. False), frmIsKeyIdMode1 = (\<lambda>_ _. False), frmIsAckRequested = (\<lambda>_ _. True),
     frmGetKeyId = (\<lambda>_ _. 0), frmGetSrcAddr = (\<lambda>_ _. Some (AddrShort 5)), readUint64Le = rd64_le,
     enhAckDataLen = (\<lambda>_ _. 0), probingIeLen = (\<lambda>_. 0), onReceiveDone = (\<lambda>_. []), onTxDone = (\<lambda>_. [])\<rparr>"

lemma k32_sample_laws: "reacts k32_sample_mac" "clock_law k32_sample_mac length" "burst_ends k32_sample_mac 0"
  by (simp_all add: k32_sample_mac_def reacts_def clock_law_def burst_ends_def serve_def)

definition rx_irq :: mac_irq where
  "rx_irq = \<lparr>E_MMAC_INT_RX_HEADER = True, E_MMAC_INT_RX_COMPLETE = True, E_MMAC_INT_TX_COMPLETE = False, irqBytes = [1, 2, 3], irqLen = 3\<rparr>"

text \<open>
  C9. The state of the k32w0 radio driver stays well formed in every run of calls, interrupts and turns of the main loop in
  which OpenThread enables the radio only while it is disabled (it may disable it in any state): the ring indices are in
  range, the MAC writes to a ring slot only while the driver receives and only to a slot outside the queue, to the buffer
  for acknowledgements while a frame is sent, the receiver is stopped only while the ring is full, and the flag that lets
  the device sleep is set while the radio sleeps and clear while it receives, is stopped or sends. Of the flag of a
  disabled radio it says nothing: \<open>k32_disable_leaks_vote\<close>.
\<close>

theorem k32_radio_wellformed:
  assumes "reacts env" and "k32_inv s" and "uses False env evs s" and "k32_run env evs s = Some t"
  shows "k32_inv t"
  using k32_run_inv [OF assms(1,3,4,2)] by simp

lemma follows_plain: "EvCall CEnable \<notin> set es \<Longrightarrow> EvCall CDisable \<notin> set es \<Longrightarrow> uses slept env es s"
  by (induction es arbitrary: s) (auto simp: ev_ok_def split: option.splits)

lemma k32_step_ends:
  assumes "clock_law env T" and "burst_ends env B" and "reacts env" and "k32_inv s" and "in_order s"
  shows "\<exists>t. k32_step env e s = Some t"
proof (cases e)
  case (EvCall c)
  then show ?thesis using api_exec_ends [OF assms(1)] by simp
next
  case EvProcess
  obtain u where u: "K32WProcessTxFrame env s = Some u"
    using api_run_ends [OF assms(1)] by (fastforce simp: K32WProcessTxFrame_def Let_def)
  note g = process_tx_good [OF assms(3,4) u]
  then show ?thesis
    using process_rx_ends [OF assms(1-3) good_inv [OF g] good_in_order [OF g assms(5)]] u EvProcess by (simp add: K32WRadioProcess_def)
qed simp

lemma k32_run_ends:
  assumes "clock_law env T" and "burst_ends env B" and "reacts env"
  shows "k32_inv s \<Longrightarrow> in_order s \<Longrightarrow> EvCall CEnable \<notin> set es \<Longrightarrow> EvCall CDisable \<notin> set es \<Longrightarrow> \<exists>t. k32_run env es s = Some t"
proof (induction es arbitrary: s)
  case (Cons e es)
  obtain u where u: "k32_step env e s = Some u" using k32_step_ends [OF assms Cons.prems(1,2)] by blast
  then have "k32_run env [e] s = Some u" by simp
  then have "k32_inv u \<and> in_order u" using k32_run_in_order [OF assms(3) _ _ _ Cons.prems(1,2), of "[e]" u] Cons.prems(3,4) by auto
  then show ?case using Cons.IH [of u] Cons.prems(3,4) u by simp
qed simp

definition k32_on :: k32_radio where "k32_on = snd (k32_otPlatRadioEnable (k32_boot 4))"

lemma k32_on_inv: "k32_inv k32_on" "in_order k32_on"
proof -
  show "k32_inv k32_on" unfolding k32_on_def by (rule enable_inv [OF k32_boot_inv(1)]) (simp add: k32_boot_def)
  have "kq (K32WResetRxRingBuffer (kRxRing (k32_boot 4))) = []"
    using k32_invD(1) [OF k32_boot_inv(1)] by (intro kring_reset) (simp add: kring_ok_def)
  then show "in_order k32_on"
    using kviewD(2,5,6) [OF enable_view [of "k32_boot 4"]] by (simp add: in_order_def k32_on_def) (simp add: k32_boot_def queued_def delivered_def)
qed

definition k32_sample_run :: "k32_event list" where
  "k32_sample_run = [EvCall (CReceive 11), EvIrq (IrqMac rx_irq), EvIrq (IrqMac rx_irq), EvProcess, EvCall CSleep]"

lemma k32_sample_run_plain: "EvCall CEnable \<notin> set k32_sample_run" "EvCall CDisable \<notin> set k32_sample_run"
  by (simp_all add: k32_sample_run_def)

theorem k32_radio_wellformed_witness:
  "\<exists>t. k32_run k32_sample_mac [EvCall (CReceive 11), EvCall CDisable, EvCall CEnable] k32_on = Some t \<and> k32_inv t"
proof -
  obtain u where u: "api_exec k32_sample_mac (CReceive 11) k32_on = Some u" using api_exec_ends [OF k32_sample_laws(2)] by blast
  have "kState (snd (k32_otPlatRadioDisable u)) = K32_DISABLED"
    by (simp add: k32_otPlatRadioDisable_def k32_otPlatRadioIsEnabled_def Let_def)
  then have "uses False k32_sample_mac [EvCall (CReceive 11), EvCall CDisable, EvCall CEnable] k32_on"
    using u by (simp add: ev_ok_def) (simp add: api_exec_def ev_ok_def)
  moreover obtain t where "k32_run k32_sample_mac [EvCall (CReceive 11), EvCall CDisable, EvCall CEnable] k32_on = Some t"
  proof
    show "k32_run k32_sample_mac [EvCall (CReceive 11), EvCall CDisable, EvCall CEnable] k32_on =
      Some (snd (k32_otPlatRadioEnable (snd (k32_otPlatRadioDisable u))))"
      using u by simp (simp add: api_exec_def)
  qed
  ultimately show ?thesis using k32_radio_wellformed [OF k32_sample_laws(1) k32_on_inv(1)] by blast
qed

text \<open>
  C7. No received frame is lost in the ring, overwritten, reordered or delivered twice while the radio stays enabled: in
  every run, whatever interrupts the MAC raises and whatever OpenThread calls in between and from its callbacks, the
  frames queued by the interrupt handler are the frames reported to OpenThread followed by those in the ring, which are
  fewer than it has slots.
\<close>

theorem k32_rx_in_order:
  assumes "reacts env" and "EvCall CEnable \<notin> set evs" and "EvCall CDisable \<notin> set evs" and "k32_run env evs s = Some t"
    and "k32_inv s" and "queued (kTrace s) = delivered (kTrace s) @ kq (kRxRing s)"
  shows "queued (kTrace t) = delivered (kTrace t) @ kq (kRxRing t) \<and> length (kq (kRxRing t)) < length (buffer (kRxRing t))"
proof -
  have "in_order s" using assms(6) by (simp add: in_order_def)
  note r = k32_run_in_order [OF assms(1-5) this]
  then have "length (kq (kRxRing t)) < length (buffer (kRxRing t))"
    using ring_count_less [OF kring_okD(1) [OF k32_invD(1), of t]] by (simp add: length_kq)
  then show ?thesis using r by (simp add: in_order_def)
qed

theorem k32_rx_in_order_witness:
  "\<exists>t. k32_run k32_sample_mac k32_sample_run k32_on = Some t \<and> queued (kTrace t) = delivered (kTrace t) @ kq (kRxRing t)"
proof -
  obtain t where t: "k32_run k32_sample_mac k32_sample_run k32_on = Some t"
    using k32_run_ends [OF k32_sample_laws(2,3,1) k32_on_inv k32_sample_run_plain] by blast
  from k32_rx_in_order [OF k32_sample_laws(1) k32_sample_run_plain t k32_on_inv(1) k32_on_inv(2) [unfolded in_order_def]] t
  show ?thesis by blast
qed

text \<open>
  C12. The device may enter low power exactly while the k32w0 radio is asleep or disabled: after every run from boot in
  which OpenThread puts the radio to sleep before it disables it, the calls that forbid low power outnumber the calls
  that allow it by one while the radio receives, is stopped by a full ring or sends, and balance otherwise.
\<close>

theorem k32_sleep_votes:
  assumes "reacts env" and "follows env evs (k32_boot n)" and "k32_run env evs (k32_boot n) = Some t"
  shows "sleep_votes (kTrace t) = of_bool (kState t \<in> {K32_RECEIVE, K32_TRANSMIT, K32_RX_DISABLED})"
proof -
  have r: "k32_inv t" "vote_debt (kview t) = 0" "off_ok (kview t)" using k32_run_inv [OF assms k32_boot_inv(1)] k32_boot_inv(3,4) by auto
  have "kAllowDeviceToSleep t \<longleftrightarrow> kState t \<notin> {K32_RECEIVE, K32_TRANSMIT, K32_RX_DISABLED}"
    using k32_invD(5,6) [OF r(1)] r(3) by (cases "kState t") (auto simp: off_ok_def)
  then show ?thesis using r(2) by (simp add: vote_debt_def)
qed

theorem k32_sleep_votes_witness:
  "\<exists>t. k32_run k32_sample_mac (EvCall CEnable # k32_sample_run) (k32_boot 4) = Some t \<and>
     sleep_votes (kTrace t) = of_bool (kState t \<in> {K32_RECEIVE, K32_TRANSMIT, K32_RX_DISABLED})"
proof -
  obtain t where t: "k32_run k32_sample_mac k32_sample_run k32_on = Some t"
    using k32_run_ends [OF k32_sample_laws(2,3,1) k32_on_inv k32_sample_run_plain] by blast
  then have run: "k32_run k32_sample_mac (EvCall CEnable # k32_sample_run) (k32_boot 4) = Some t"
    by (simp add: api_exec_def k32_on_def)
  have "follows k32_sample_mac (EvCall CEnable # k32_sample_run) (k32_boot 4)"
    using follows_plain [OF k32_sample_run_plain] by (simp add: ev_ok_def api_exec_def) (simp add: k32_boot_def)
  from k32_sleep_votes [OF k32_sample_laws(1) this run] run show ?thesis by blast
qed

text \<open>
  \<^verbatim>\<open>otPlatRadioDisable\<close> in any other state leaves the vote against low power standing and \<^verbatim>\<open>otPlatRadioEnable\<close> then
  forgets it, so that one vote is never given back.
\<close>

lemma k32_disable_leaks_vote:
  assumes "k32_inv s" and "kState s \<in> {K32_RECEIVE, K32_TRANSMIT, K32_RX_DISABLED}"
    and "t = snd (k32_otPlatRadioEnable (snd (k32_otPlatRadioDisable s)))"
  shows "kAllowDeviceToSleep t \<and> sleep_votes (kTrace t) = sleep_votes (kTrace s) \<and> vote_debt (kview t) = vote_debt (kview s) + 1"
proof -
  have "kview (snd (k32_otPlatRadioDisable s)) = (kview s)\<lparr>vMac := MacIdle, vState := K32_DISABLED, vRing := K32WResetRxRingBuffer (kRxRing s)\<rparr>"
    using assms(2) by (auto simp: k32_otPlatRadioDisable_def k32_otPlatRadioIsEnabled_def Let_def)
  then have t: "kview t = (kview s)\<lparr>vMac := MacIdle, vState := K32_SLEEP, vAllow := True, vRing := K32WResetRxRingBuffer (K32WResetRxRingBuffer (kRxRing s))\<rparr>"
    using enable_view [of "snd (k32_otPlatRadioDisable s)"] kviewD(2) [of "snd (k32_otPlatRadioDisable s)"] assms(3) by simp
  show ?thesis using kviewD(3,7) [OF t] k32_invD(6) [OF assms(1,2)] by (simp add: t vote_debt_def)
qed

text \<open>
  A reset of the ring while a frame is being delivered: releasing the slot afterwards moves the tail to slot 0, and the
  ring shows seven stale entries.
\<close>

lemma k32_reset_in_callback:
  assumes "length (buffer r) = K32W0_RADIO_NUM_OF_RX_BUFS"
  shows "length (kq (K32WPopRxRingBuffer (K32WResetRxRingBuffer r))) = 7"
  using assms by (simp add: length_kq ring_count_def K32WPopRxRingBuffer_def K32WResetRxRingBuffer_def K32W0_RADIO_NUM_OF_RX_BUFS_def)

text \<open>
  C11. The main loop drains the ring and the receiver runs again: when the clock of the MAC advances and the burst of
  interrupts ends, \<^verbatim>\<open>K32WRadioProcess\<close> returns, every frame queued until then has been reported to OpenThread, the ring
  is empty and the receiver is not left stopped, even if it was stopped by a full ring before.
\<close>

theorem k32_process_drains:
  assumes "clock_law env T" and "burst_ends env B" and "reacts env" and "k32_inv s"
    and "queued (kTrace s) = delivered (kTrace s) @ kq (kRxRing s)"
  shows "\<exists>t. K32WRadioProcess env s = Some t \<and> kq (kRxRing t) = [] \<and> delivered (kTrace t) = queued (kTrace t) \<and> kState t \<noteq> K32_RX_DISABLED"
proof -
  have o: "in_order s" using assms(5) by (simp add: in_order_def)
  obtain t where t: "K32WRadioProcess env s = Some t" using k32_step_ends [OF assms(1-4) o, of EvProcess] by auto
  note p = radio_process [OF assms(3,4) t]
  show ?thesis using t p(3) [OF o] p(4,5) by (auto simp: in_order_def)
qed

theorem k32_process_drains_witness:
  "\<exists>t. K32WRadioProcess k32_sample_mac k32_on = Some t \<and> kq (kRxRing t) = [] \<and> kState t \<noteq> K32_RX_DISABLED"
  using k32_process_drains [OF k32_sample_laws(2,3,1) k32_on_inv(1) k32_on_inv(2) [unfolded in_order_def]] by blast

text \<open>
  C30. Every call into the k32w0 radio driver returns when the clock of the MAC advances: the waits of
  \<^verbatim>\<open>otPlatRadioReceive\<close> and \<^verbatim>\<open>otPlatRadioTransmit\<close> for a reception to finish are cut off after \<^verbatim>\<open>TX_TO\<close> symbols, even
  if the MAC reports an ongoing reception forever and across a wrap of its 32-bit clock.
\<close>

theorem k32_calls_return:
  assumes "clock_law env T"
  shows "\<exists>t. api_exec env c s = Some t"
  using api_exec_ends [OF assms] .

theorem k32_calls_return_witness:
  "\<exists>t. api_exec (k32_sample_mac\<lparr>rxOngoing := \<lambda>_. True\<rparr>) (CReceive 11) k32_on = Some t"
proof (rule k32_calls_return)
  show "clock_law (k32_sample_mac\<lparr>rxOngoing := \<lambda>_. True\<rparr>) length"
    by (simp add: k32_sample_mac_def clock_law_def serve_def)
qed

end
