(* ===== verification/K32w0_Radio_Frames.thy ===== *)
theory K32w0_Radio_Frames
  imports K32w0_Radio_Props
begin

text \<open>
  What the k32w0 radio driver says about single frames: the frame-pending bit of an acknowledgement, the report of a
  transmission, and the ranges of its settings.
\<close>

section \<open>Frame pending\<close>

text \<open>When the frame that starts with \<open>p\<close> is to be acknowledged with the frame-pending bit.\<close>

definition fp_wanted :: "k32_mac \<Rightarrow> bytes \<Rightarrow> u16 \<Rightarrow> k32_radio \<Rightarrow> bool" where
  "fp_wanted env p l s \<longleftrightarrow>
     (frmIsVersion2015 env p l \<and> frmIsCommand env p l \<or> frmIsData env p l \<or> frmIsDataRequest env p l) \<and>
     (kIsFpEnabled s \<longrightarrow> (case frmGetSrcAddr env p l of
        None \<Rightarrow> False
      | Some AddrNone \<Rightarrow> True
      | Some (AddrShort a) \<Rightarrow> a \<in># short_addrs (kSrcMatch s)
      | Some (AddrExt x) \<Rightarrow> rev x \<in># ext_addrs (kSrcMatch s)))"

definition frame_laws :: "k32_mac \<Rightarrow> bool" where
  "frame_laws env \<longleftrightarrow> rd64_inj (readUint64Le env) \<and> (\<forall>p l x. frmGetSrcAddr env p l = Some (AddrExt x) \<longrightarrow> length x = 8)"

lemma check_fp:
  assumes "frame_laws env" and "src_match_ok (kSrcMatch s)"
  shows "K32WCheckIfFpRequired env e s = fp_wanted env (au8Byte e) (ucast (u8PayloadLength e)) s"
proof -
  have "findExt (readUint64Le env) (readUint64Le env x) (kSrcMatch s) \<noteq> None \<longleftrightarrow> rev x \<in># ext_addrs (kSrcMatch s)" if "length x = 8" for x
    using findExt_None [of "readUint64Le env" "kSrcMatch s" "rev x"] assms that by (simp add: frame_laws_def src_match_ok_def)
  moreover have "findShort a (kSrcMatch s) \<noteq> None \<longleftrightarrow> a \<in># short_addrs (kSrcMatch s)" for a
    using findShort_None [of a "kSrcMatch s"] by simp
  ultimately show ?thesis
    using assms(1) by (auto simp: K32WCheckIfFpRequired_def fp_wanted_def frame_laws_def Let_def split: option.splits mac_address.splits)
qed

lemma fp_wanted_cong:
  "kSrcMatch u = kSrcMatch s \<Longrightarrow> kIsFpEnabled u = kIsFpEnabled s \<Longrightarrow> fp_wanted env p l u = fp_wanted env p l s"
  by (simp only: fp_wanted_def)

lemma slot_set_slot [simp]: "unat n < length (buffer (kRxRing s)) \<Longrightarrow> slot n (set_slot n e s) = e"
  by (simp add: slot_def set_slot_def)

lemma slot_kcall [simp]: "slot n (kcall a s) = slot n s" "kSrcMatch (kcall a s) = kSrcMatch s" "kIsFpEnabled (kcall a s) = kIsFpEnabled s"
  by (simp_all add: slot_def kcall_def)

lemma set_slot_sel [simp]: "kTrace (set_slot n e s) = kTrace s" "kSrcMatch (set_slot n e s) = kSrcMatch s" "kIsFpEnabled (set_slot n e s) = kIsFpEnabled s"
  "kState (set_slot n e s) = kState s" "rbNext (kRxRing (set_slot n e s)) = rbNext (kRxRing s)"
  "length (buffer (kRxRing (set_slot n e s))) = length (buffer (kRxRing s))"
  by (simp_all add: set_slot_def)

text \<open>The header interrupt: the answer for the acknowledgement, and where it is kept for the report.\<close>

lemma header_answer:
  assumes "frame_laws env" and "src_match_ok (kSrcMatch s)" and "k32_inv s" and "kState s = K32_RECEIVE"
    and "E_MMAC_INT_RX_HEADER q" and "\<not> E_MMAC_INT_RX_COMPLETE q" and "t = take_irq env (IrqMac q) s"
    and "b = fp_wanted env (irqBytes q) (ucast (irqLen q)) s"
  shows "kTrace t = kTrace s @ [MacIrq q, vMMAC_SetTxPend b, BOARD_LedDongleToggle, otSysEventSignalPending] \<and>
    padFp (slot (rbNext (kRxRing t)) t) = of_bool b \<and> kState t = K32_RECEIVE"
proof -
  let ?n = "rbNext (kRxRing s)"
  have mac: "mac_target (kTrace s) = MacSlot ?n" by (rule k32_invD(2) [OF assms(3,4)])
  have "is_free (kRxRing s) ?n" "kring_ok (kRxRing s)" using mac_slotD(3,4) [OF assms(3) mac] by simp_all
  then have n: "unat ?n < length (buffer (kRxRing s))" using is_freeD(1) by blast
  let ?e = "(slot ?n s)\<lparr>au8Byte := irqBytes q, u8PayloadLength := irqLen q\<rparr>"
  have m: "mac_writes q s = kcall (MacIrq q) (set_slot ?n ?e s)" using mac by (simp add: mac_writes_def)
  have fp: "K32WCheckIfFpRequired env (?e\<lparr>padFp := 0, padLm := 0\<rparr>) u = b"
    if "kSrcMatch u = kSrcMatch s" "kIsFpEnabled u = kIsFpEnabled s" for u
    using check_fp [OF assms(1), of u "?e\<lparr>padFp := 0, padLm := 0\<rparr>"] assms(2) that fp_wanted_cong [OF that] by (simp add: assms(8))
  have "t = kcall otSysEventSignalPending (kcall BOARD_LedDongleToggle (K32WProcessMacHeader env ?n (mac_writes q s)))"
    using assms(4-7) m by (simp add: take_irq_def K32WISR_def)
  moreover have "K32WProcessMacHeader env ?n (mac_writes q s) =
      set_slot ?n (?e\<lparr>padLm := 0, padFp := of_bool b\<rparr>) (kcall (vMMAC_SetTxPend b) (set_slot ?n (?e\<lparr>padFp := 0, padLm := 0\<rparr>) (mac_writes q s)))"
    unfolding K32WProcessMacHeader_def Let_def using n by (simp add: m fp)
  ultimately show ?thesis using n assms(4) by (simp add: m)
qed

text \<open>While the MAC acknowledges the frame it may ask for the length of an information element; the answer stays.\<close>

lemma vs_ie_keeps:
  assumes "mac_target (kTrace w) = MacSlot n" and "unat n < length (buffer (kRxRing w))"
    and "x = fold (take_irq env) (replicate k IrqVsIe) w"
  shows "kTrace x = kTrace w \<and> kState x = kState w \<and> padFp (slot n x) = padFp (slot n w)"
  using assms
proof (induction k arbitrary: w)
  case (Suc k)
  define y where "y = take_irq env IrqVsIe w"
  have y: "kTrace y = kTrace w" "kState y = kState w" "length (buffer (kRxRing y)) = length (buffer (kRxRing w))"
    "padFp (slot n y) = padFp (slot n w)"
    using Suc.prems(1,2) by (simp_all add: y_def take_irq_def K32WGetVsIeLen_def Let_def)
  have "x = fold (take_irq env) (replicate k IrqVsIe) y" using Suc.prems(3) by (simp add: y_def)
  from Suc.IH [OF _ _ this] Suc.prems(1,2) y show ?case by simp
qed simp

text \<open>The frame that is queued when the reception ends says what the padding field of its slot said.\<close>

lemma rx_frame_info:
  assumes "K32WGetRxFrameInfo env e s = (f, t)"
  shows "au8Byte f = au8Byte e \<and> u8PayloadLength f = u8PayloadLength e \<and> ofAckedWithFramePending f = (padFp e \<noteq> 0) \<and>
    queued (kTrace t) = queued (kTrace s)"
proof -
  have "kview t = kview s" using kview_info [of env e s] assms by simp
  then have "queued (kTrace t) = queued (kTrace s)" by (metis kview_sel(5))
  moreover have "au8Byte f = au8Byte e \<and> u8PayloadLength f = u8PayloadLength e \<and> ofAckedWithFramePending f = (padFp e \<noteq> 0)"
    using assms by (auto simp: K32WGetRxFrameInfo_def K32WFrameConversion_def kReadPlat_def kReadMac_def Let_def split: if_splits)
  ultimately show ?thesis by simp
qed

lemma rx_complete_queues:
  assumes "n = rbNext (kRxRing s)"
  shows "if rxErrors env (kTrace s) = 0
    then \<exists>e. queued (kTrace (rx_complete env s)) = queued (kTrace s) @ [e] \<and> au8Byte e = au8Byte (slot n s) \<and>
      u8PayloadLength e = u8PayloadLength (slot n s) \<and> ofAckedWithFramePending e = (padFp (slot n s) \<noteq> 0)
    else queued (kTrace (rx_complete env s)) = queued (kTrace s)"
proof -
  obtain e t where "K32WGetRxFrameInfo env (slot n s) s = (e, t)" by force
  from this rx_frame_info [OF this] show ?thesis by (simp add: rx_complete_def assms Let_def)
qed

lemma process_reports:
  assumes "reacts env" and "k32_inv s" and "in_order s" and "K32WRadioProcess env s = Some t"
  shows "\<exists>fs. delivered (kTrace t) = queued (kTrace s) @ fs"
proof -
  obtain u where u: "K32WProcessTxFrame env s = Some u" "K32WProcessRxFrames env u = Some t"
    using assms(4) by (auto simp: K32WRadioProcess_def split: bind_splits)
  note g = process_tx_good [OF assms(1,2) u(1)]
  from process_rx [OF u(2) assms(1) good_inv [OF g]] g
  have "\<exists>fs. queued (kTrace t) = queued (kTrace s) @ fs" by (auto simp: good_def grows_def)
  then show ?thesis using radio_process(3,5) [OF assms(1,2,4)] assms(3) by (simp add: in_order_def)
qed

text \<open>
  C28. Acknowledgements carry the right frame-pending bit, and OpenThread learns it: when the header of a frame arrives,
  before the MAC sends the acknowledgement, it is told to set the bit exactly if the frame is a data request, a data
  frame or a version 2015 command and its source is in the source-match tables (or matching is switched off, or there is
  no source address). When the reception then ends, after any number of requests for information elements in between,
  a frame with an error is dropped and any other one is queued with that same answer, and the next turn of the main loop
  returns and reports it to OpenThread right after the frames queued before it.
\<close>

theorem k32_frame_pending:
  assumes "frame_laws env" and "src_match_ok (kSrcMatch s)" and "k32_inv s" and "kState s = K32_RECEIVE"
    and "E_MMAC_INT_RX_HEADER q" and "\<not> E_MMAC_INT_RX_COMPLETE q" and "t = take_irq env (IrqMac q) s"
    and "b = fp_wanted env (irqBytes q) (ucast (irqLen q)) s"
    and "E_MMAC_INT_RX_COMPLETE c" and "\<not> E_MMAC_INT_RX_HEADER c"
    and "u = take_irq env (IrqMac c) (fold (take_irq env) (replicate k IrqVsIe) t)"
    and "clock_law env T" and "burst_ends env B" and "reacts env" and "in_order s"
  shows "kTrace t = kTrace s @ [MacIrq q, vMMAC_SetTxPend b, BOARD_LedDongleToggle, otSysEventSignalPending] \<and>
    (if rxErrors env (kTrace t @ [MacIrq c]) = 0
     then \<exists>e v fs. queued (kTrace u) = queued (kTrace s) @ [e] \<and> au8Byte e = irqBytes c \<and> ofAckedWithFramePending e = b \<and>
       K32WRadioProcess env u = Some v \<and> delivered (kTrace v) = queued (kTrace s) @ e # fs
     else queued (kTrace u) = queued (kTrace s))"
proof -
  note h = header_answer [OF assms(1-8)]
  let ?n = "rbNext (kRxRing t)"
  have gt: "good s t" unfolding assms(7) by (rule take_irq_good [OF assms(3)])
  define x where "x = fold (take_irq env) (replicate k IrqVsIe) t"
  have gx: "good t x" unfolding x_def by (rule fold_irq_good [OF good_inv [OF gt]])
  have mac: "mac_target (kTrace t) = MacSlot ?n" using k32_invD(2) [OF good_inv [OF gt]] h by simp
  have len: "unat ?n < length (buffer (kRxRing t))"
    using is_freeD(1) [OF mac_slotD(4,3) [OF good_inv [OF gt] mac]] by simp
  note x = vs_ie_keeps [OF mac len x_def]
  have next_x: "rbNext (kRxRing x) = ?n" using mac_slotD(2) [OF good_inv [OF gx]] mac x by simp
  have lx: "unat ?n < length (buffer (kRxRing x))"
    using is_freeD(1) [OF mac_slotD(4,3) [OF good_inv [OF gx], of ?n]] mac x by simp
  define m where "m = mac_writes c x"
  have m: "kTrace m = kTrace t @ [MacIrq c]" "kState m = K32_RECEIVE" "rbNext (kRxRing m) = ?n" "slot ?n m = (slot ?n x)\<lparr>au8Byte := irqBytes c, u8PayloadLength := irqLen c\<rparr>"
    using mac x h next_x lx by (simp_all add: m_def mac_writes_def)
  have u: "u = kcall otSysEventSignalPending (kcall BOARD_LedDongleToggle (rx_complete env m))"
    using assms(9-11) m(2) by (simp add: take_irq_def K32WISR_def m_def x_def)
  then have qu: "queued (kTrace u) = queued (kTrace (rx_complete env m))" by simp
  have qs: "queued (kTrace m) = queued (kTrace s)" using h m(1) by simp
  have gu: "good s u" unfolding assms(11) using good_trans [OF gt good_trans [OF gx take_irq_good [OF good_inv [OF gx]]]] by (simp add: x_def)
  have ou: "in_order u" using good_in_order [OF gu assms(15)] .
  obtain v where v: "K32WRadioProcess env u = Some v"
    using k32_step_ends [OF assms(12-14) good_inv [OF gu] ou, of EvProcess] by auto
  from process_reports [OF assms(14) good_inv [OF gu] ou v] obtain fs where fs: "delivered (kTrace v) = queued (kTrace u) @ fs" ..
  have "(padFp (slot ?n m) \<noteq> 0) = b" using m(4) x h by simp
  with rx_complete_queues [of ?n m env] m qs qu v fs h show ?thesis by (auto split: if_splits)
qed

definition k32_rx :: k32_radio where
  "k32_rx = k32_on\<lparr>kState := K32_RECEIVE, kAllowDeviceToSleep := False, kTrace := [vMMAC_StartV2MacReceive 0 True], kRxRing := (kRxRing k32_on)\<lparr>rbNext := 0\<rparr>,
     kSrcMatch := snd (k32_otPlatRadioAddSrcMatchShortEntry 7 5 (src_boot 4))\<rparr>"

lemma k32_rx_inv: "k32_inv k32_rx" "src_match_ok (kSrcMatch k32_rx)" "short_addrs (kSrcMatch k32_rx) = {#5#}" "kIsFpEnabled k32_rx"
  "frame_laws k32_sample_mac"
proof -
  let ?r = "kRxRing k32_on"
  have ok: "kring_ok ?r" by (rule k32_invD(1) [OF k32_on_inv(1)])
  have "kq ?r = []"
    using k32_on_inv(2) by (simp add: in_order_def k32_on_def k32_otPlatRadioEnable_def k32_boot_def queued_def delivered_def kcall_def)
  note r = this ok
  have idx: "rbHead ?r = 7" "rbTail ?r = 7" "length (buffer ?r) = 8" "rbNext ?r = 0"
    by (simp_all add: k32_on_def k32_otPlatRadioEnable_def k32_boot_def kcall_def K32WResetRxRingBuffer_def K32W0_RADIO_NUM_OF_RX_BUFS_def)
  have "is_free ?r 0" using idx r(1) by (simp add: is_free_def free_index_def length_kq [symmetric] kfull_def)
  then show "k32_inv k32_rx"
    using r idx kring_core [of "?r\<lparr>rbNext := 0\<rparr>" ?r] unfolding k32_rx_def k32_inv_def view_ok_def
    by (simp add: mac_target_def mac_next_def)
  obtain u where "k32_otPlatRadioAddSrcMatchShortEntry 7 5 (src_boot 4) = (OT_ERROR_NONE, u)" "short_ok u" "short_addrs u = {#5#}"
  proof -
    have "length (sFpShortAddr (src_boot 4)) = 4" by (simp add: src_boot_def)
    then show ?thesis
      using that short_table.add_room [where t = "src_boot 4" and x = 5 and p = 7] src_boot_ok [of 4] by (auto simp: src_match_ok_def)
  qed
  moreover have ext: "ext_part u = ext_part (src_boot 4)" using src_frame(1) [of rd64_le 7 "MAdd 5" "src_boot 4"] calculation(1) by simp
  have "ext_ok u" using part_cong(1) [OF ext] src_boot_ok(1) [of 4] by (simp add: src_match_ok_def)
  ultimately show "src_match_ok (kSrcMatch k32_rx)" "short_addrs (kSrcMatch k32_rx) = {#5#}"
    by (simp_all add: k32_rx_def src_match_ok_def)
  show "kIsFpEnabled k32_rx" by (simp add: k32_rx_def k32_on_def k32_otPlatRadioEnable_def k32_boot_def kcall_def)
  show "frame_laws k32_sample_mac" by (simp add: frame_laws_def k32_sample_mac_def rd64_le_inj)
qed

lemma k32_rx_ordered: "in_order k32_rx"
proof -
  let ?r = "kRxRing k32_on"
  have "kq ?r = []"
    using k32_on_inv(2) by (simp add: in_order_def k32_on_def k32_otPlatRadioEnable_def k32_boot_def queued_def delivered_def kcall_def)
  moreover have "kq (?r\<lparr>rbNext := 0\<rparr>) = kq ?r" using kring_core [of "?r\<lparr>rbNext := 0\<rparr>" ?r] by simp
  ultimately show ?thesis by (simp add: in_order_def k32_rx_def queued_def delivered_def)
qed

theorem k32_frame_pending_witness:
  "let q = IrqMac (rx_irq\<lparr>E_MMAC_INT_RX_COMPLETE := False\<rparr>); c = IrqMac (rx_irq\<lparr>E_MMAC_INT_RX_HEADER := False\<rparr>);
       t = take_irq k32_sample_mac q k32_rx; u = take_irq k32_sample_mac c (take_irq k32_sample_mac IrqVsIe t)
   in kTrace t = [vMMAC_StartV2MacReceive 0 True, MacIrq (rx_irq\<lparr>E_MMAC_INT_RX_COMPLETE := False\<rparr>), vMMAC_SetTxPend True,
        BOARD_LedDongleToggle, otSysEventSignalPending] \<and>
      (\<exists>v e fs. K32WRadioProcess k32_sample_mac u = Some v \<and> delivered (kTrace v) = e # fs \<and> au8Byte e = [1, 2, 3] \<and>
         ofAckedWithFramePending e)"
proof -
  have "fp_wanted k32_sample_mac [1, 2, 3] 3 k32_rx" using k32_rx_inv(3) by (simp add: fp_wanted_def k32_sample_mac_def)
  moreover have "kState k32_rx = K32_RECEIVE" "kTrace k32_rx = [vMMAC_StartV2MacReceive 0 True]" by (simp_all add: k32_rx_def)
  moreover have "rxErrors k32_sample_mac tr = 0" for tr by (simp add: k32_sample_mac_def)
  ultimately show ?thesis
    using k32_frame_pending [OF k32_rx_inv(5,2,1) _ _ _ refl refl _ _ refl k32_sample_laws(2,3,1) k32_rx_ordered,
        of "rx_irq\<lparr>E_MMAC_INT_RX_COMPLETE := False\<rparr>" "rx_irq\<lparr>E_MMAC_INT_RX_HEADER := False\<rparr>" 1]
    unfolding Let_def by (simp add: rx_irq_def queued_def) metis
qed

section \<open>The report of a transmission\<close>

lemma disallow_sel [simp]:
  "kState (disallow_sleep s) = kState s" "kTxStatus (disallow_sleep s) = kTxStatus s" "kTxOtFrame (disallow_sleep s) = kTxOtFrame s"
  by (simp_all add: disallow_sleep_def kcall_def)

lemma kcall_tx [simp]: "kTxStatus (kcall a s) = kTxStatus s" "kTxOtFrame (kcall a s) = kTxOtFrame s" "kAck (kcall a s) = kAck s" "kTxDone (kcall a s) = kTxDone s"
  by (simp_all add: kcall_def)

lemma tx_time_sel:
  "tx_time env s = (tm, u) \<Longrightarrow> kState u = kState s \<and> kTxStatus u = kTxStatus s \<and> kTxOtFrame u = kTxOtFrame s"
  by (auto simp: tx_time_def kReadMac_def kReadPlat_def Let_def split: if_splits)

lemma enable_receive_tx [simp]:
  "kTxDone (K32WEnableReceive s) = kTxDone s" "kTxStatus (K32WEnableReceive s) = kTxStatus s"
  "kTxOtFrame (K32WEnableReceive s) = kTxOtFrame s" "kAck (K32WEnableReceive s) = kAck s"
  by (simp_all add: K32WEnableReceive_def split: prod.splits option.splits)

text \<open>What an accepted transmission leaves behind.\<close>

lemma transmit_started:
  assumes "k32_otPlatRadioTransmit env s = Some (OT_ERROR_NONE, u)"
  shows "kState u = K32_TRANSMIT" "kTxStatus u = OT_ERROR_NONE"
proof -
  have st: "kState s = K32_SLEEP \<or> kState s = K32_RECEIVE \<or> kState s = K32_RX_DISABLED"
    using assms by (auto simp: k32_otPlatRadioTransmit_def split: if_splits)
  then obtain v where w: "wait_rx_done env s = Some v" using assms
    by (auto simp: k32_otPlatRadioTransmit_def split: bind_splits)
  let ?s2 = "disallow_sleep ((kcall vMMAC_RadioToOffAndWait v)\<lparr>kState := K32_TRANSMIT, kTxStatus := OT_ERROR_NONE\<rparr>)"
  obtain tm x where tm: "tx_time env ?s2 = (tm, x)" by force
  note sel = tx_time_sel [OF tm]
  have "kState u = kState x \<and> kTxStatus u = kTxStatus x" using assms st w tm by (auto simp: k32_otPlatRadioTransmit_def Let_def)
  then show "kState u = K32_TRANSMIT" "kTxStatus u = OT_ERROR_NONE" using sel by simp_all
qed

lemma transmit_psdu:
  assumes "k32_otPlatRadioTransmit env s = Some (OT_ERROR_NONE, u)" and "wait_rx_done env s = Some v"
  shows "txPsdu (kTxOtFrame u) = txPsdu (kTxOtFrame v)"
proof -
  let ?s2 = "disallow_sleep ((kcall vMMAC_RadioToOffAndWait v)\<lparr>kState := K32_TRANSMIT, kTxStatus := OT_ERROR_NONE\<rparr>)"
  obtain tm x where tm: "tx_time env ?s2 = (tm, x)" by force
  have "txPsdu (kTxOtFrame u) = txPsdu (kTxOtFrame x)"
    using assms tm tx_time_sel [OF tm] by (auto simp: k32_otPlatRadioTransmit_def Let_def split: if_splits)
  then show ?thesis using tx_time_sel [OF tm] by simp
qed

lemma conv_sel: "K32WFrameConversion env e s = (a, t) \<Longrightarrow> au8Byte a = au8Byte e \<and> kTxStatus t = kTxStatus s \<and> kTxOtFrame t = kTxOtFrame s"
  by (auto simp: K32WFrameConversion_def kReadPlat_def kReadMac_def)

lemma tx_complete_result:
  "kTxDone (tx_complete env s)" "kTxOtFrame (tx_complete env s) = kTxOtFrame s"
  "kTxStatus (tx_complete env s) = (if tx_failed (txErrors env (kTrace s)) then tx_outcome (txErrors env (kTrace s)) (kTxStatus s) else kTxStatus s)"
  "au8Byte (kAck (tx_complete env s)) = au8Byte (kAck s)"
proof -
  obtain a t where c: "K32WFrameConversion env (kAck s) s = (a, t)" by force
  note sel = conv_sel [OF c]
  show "kTxDone (tx_complete env s)" "kTxOtFrame (tx_complete env s) = kTxOtFrame s"
    "kTxStatus (tx_complete env s) = (if tx_failed (txErrors env (kTrace s)) then tx_outcome (txErrors env (kTrace s)) (kTxStatus s) else kTxStatus s)"
    "au8Byte (kAck (tx_complete env s)) = au8Byte (kAck s)"
    using sel by (simp_all add: tx_complete_def Let_def c)
qed

text \<open>
  C29. The end of a transmission is reported once, with its outcome: after an accepted \<^verbatim>\<open>otPlatRadioTransmit\<close>, the interrupt
  for its end makes the next turn of the main loop call \<^verbatim>\<open>otPlatRadioTxDone\<close> with \<open>CHANNEL_ACCESS_FAILURE\<close>, \<open>NO_ACK\<close>, \<open>ABORT\<close>
  or \<open>NONE\<close> as the MAC's errors say, and with the acknowledgement that was received exactly if the frame asked for one
  and there was no error; the turn after that reports nothing.
\<close>

theorem k32_tx_reported:
  assumes "k32_inv s" and "k32_otPlatRadioTransmit env s = Some (OT_ERROR_NONE, u)" and "E_MMAC_INT_TX_COMPLETE q"
    and "err = txErrors env (kTrace u @ [MacIrq q])" and "t = take_irq env (IrqMac q) u"
  shows "\<exists>a v. au8Byte a = irqBytes q \<and> kTxDone t \<and> \<not> kTxDone v \<and>
    kTrace v = kTrace t @ [otPlatRadioTxDone (if ack_requested (kTxOtFrame u) \<and> \<not> tx_failed err then Some a else None) (tx_outcome err OT_ERROR_NONE)] \<and>
    K32WProcessTxFrame env t = call_run env (onTxDone env (kTrace v)) v \<and> K32WProcessTxFrame env v = Some v"
proof -
  note st = transmit_started [OF assms(2)]
  have "k32_inv u" using transmit_good [OF assms(1,2)] by (rule good_inv)
  then have mac: "mac_target (kTrace u) = MacAck" using k32_invD(3) st(1) by blast
  let ?m = "kcall (MacIrq q) (u\<lparr>kAck := (kAck u)\<lparr>au8Byte := irqBytes q, u8PayloadLength := irqLen q\<rparr>\<rparr>)"
  have t: "t = kcall otSysEventSignalPending (tx_complete env ?m)"
    using assms(3,5) mac st(1) by (simp add: take_irq_def K32WISR_def mac_writes_def)
  note res = tx_complete_result [of env ?m]
  have tr: "kTrace ?m = kTrace u @ [MacIrq q]" by simp
  have fin: "kTxDone t" "kTxStatus t = tx_outcome err OT_ERROR_NONE" "kTxOtFrame t = kTxOtFrame u" "au8Byte (kAck t) = irqBytes q"
    using res st(2) unfolding t tr assms(4) by (simp_all add: tx_outcome_def tx_failed_def)
  have ok: "tx_outcome err OT_ERROR_NONE = OT_ERROR_NONE \<longleftrightarrow> \<not> tx_failed err"
    by (auto simp: tx_outcome_def tx_failed_def)
  let ?v = "kcall (otPlatRadioTxDone (if ack_requested (kTxOtFrame u) \<and> \<not> tx_failed err then Some (kAck t) else None) (tx_outcome err OT_ERROR_NONE)) (t\<lparr>kTxDone := False\<rparr>)"
  have "K32WProcessTxFrame env t = call_run env (onTxDone env (kTrace ?v)) ?v"
    using fin ok by (auto simp: K32WProcessTxFrame_def Let_def)
  moreover have "K32WProcessTxFrame env ?v = Some ?v" by (simp add: K32WProcessTxFrame_def)
  ultimately show ?thesis using fin by (intro exI [of _ "kAck t"] exI [of _ ?v]) simp
qed

lemma transmit_accepted:
  assumes "clock_law env T" and "kState s = K32_SLEEP"
  shows "\<exists>u. k32_otPlatRadioTransmit env s = Some (OT_ERROR_NONE, u)"
  using wait_rx_done_ends [OF assms(1), of s] assms(2) by (auto simp: k32_otPlatRadioTransmit_def Let_def split: prod.splits)

definition tx_irq :: mac_irq where
  "tx_irq = \<lparr>E_MMAC_INT_RX_HEADER = False, E_MMAC_INT_RX_COMPLETE = False, E_MMAC_INT_TX_COMPLETE = True, irqBytes = [2, 0, 7], irqLen = 3\<rparr>"

theorem k32_tx_reported_witness:
  "\<exists>u v. k32_otPlatRadioTransmit k32_sample_mac k32_on = Some (OT_ERROR_NONE, u) \<and>
     kTrace v = kTrace (take_irq k32_sample_mac (IrqMac tx_irq) u) @ [otPlatRadioTxDone None OT_ERROR_NONE] \<and>
     K32WProcessTxFrame k32_sample_mac (take_irq k32_sample_mac (IrqMac tx_irq) u) = call_run k32_sample_mac [] v"
proof -
  have "kState k32_on = K32_SLEEP" by (simp add: k32_on_def k32_otPlatRadioEnable_def Let_def)
  then obtain u where u: "k32_otPlatRadioTransmit k32_sample_mac k32_on = Some (OT_ERROR_NONE, u)"
    using transmit_accepted [OF k32_sample_laws(2)] by blast
  have e: "\<not> tx_failed (txErrors k32_sample_mac tr)" "tx_outcome (txErrors k32_sample_mac tr) OT_ERROR_NONE = OT_ERROR_NONE"
    "onTxDone k32_sample_mac tr = []" for tr
    by (simp_all add: tx_failed_def tx_outcome_def k32_sample_mac_def)
  have "wait_rx_done k32_sample_mac k32_on = Some (kcall v2MAC_is_rx_ongoing (kcall u32MMAC_GetTime k32_on))"
  proof -
    have "\<not> rxOngoing k32_sample_mac tr" "irqs k32_sample_mac tr = []" for tr by (simp_all add: k32_sample_mac_def)
    then show ?thesis unfolding wait_rx_done_def kReadMac_def by (simp, subst wait_rx.simps, simp add: serve_def)
  qed
  from transmit_psdu [OF u this] have "txPsdu (kTxOtFrame u) = txPsdu (kTxOtFrame k32_on)" by simp
  then have na: "\<not> ack_requested (kTxOtFrame u)"
    by (simp add: ack_requested_def k32_on_def k32_otPlatRadioEnable_def k32_boot_def Let_def)
  from k32_tx_reported [OF k32_on_inv(1) u _ refl refl, of tx_irq] e na u show ?thesis
    by (auto simp: tx_irq_def)
qed

section \<open>Settings\<close>

text \<open>
  The transmit power of k32w0 is trimmed to what the radio can do: an accepted \<^verbatim>\<open>otPlatRadioSetTransmitPower\<close> keeps the
  requested value between -30 and 15 dBm, the nearer bound outside, and tells the MAC the same value on the current
  channel, or on channel 11 before one was set; while a frame is sent or the radio is disabled it changes nothing.
\<close>

theorem k32_power_trimmed:
  "case k32_otPlatRadioSetTransmitPower p s of (r, t) \<Rightarrow>
     if kState s = K32_TRANSMIT \<or> kState s = K32_DISABLED then r = OT_ERROR_INVALID_STATE \<and> t = s
     else r = OT_ERROR_NONE \<and> sint (kTxPwrLevel t) = max (-30) (min 15 (sint p)) \<and>
       vMMAC_SetChannelAndPower (if kChannel s = 0 then 11 else kChannel s) (kTxPwrLevel t) \<in> set (kTrace t)"
proof -
  have trim: "sint (trim_power p) = max (-30) (min 15 (sint p))"
    by (auto simp: trim_power_def K32W_RADIO_MIN_TX_POWER_DBM_def K32W_RADIO_MAX_TX_POWER_DBM_def)
  have ker: "kTxPwrLevel (K32WEnableReceive u) = kTxPwrLevel u" "set (kTrace u) \<subseteq> set (kTrace (K32WEnableReceive u))" for u
    by (auto simp: K32WEnableReceive_def split: prod.splits option.splits)
  show ?thesis
    using trim subsetD [OF ker(2)] by (auto simp: k32_otPlatRadioSetTransmitPower_def K32W_RADIO_DEFAULT_CHANNEL_def ker(1) Let_def)
qed

text \<open>
  A delayed frame starts at its time: with the base time, the delay and the platform clock in microseconds and the
  target at most \<open>2 ^ 32\<close> microseconds ahead of now, the start handed to the MAC is its clock plus the whole symbols until then.
\<close>

lemma k32_tx_time_exact:
  assumes "txDelay (kTxOtFrame s) \<noteq> 0" and "txDelay (kTxOtFrame s) + txDelayBaseTime (kTxOtFrame s) = of_nat (now + d)"
    and "(ucast (platTime env (kTrace s @ [u32MMAC_GetTime])) :: u32) = of_nat now" and "d < 2 ^ 32"
  shows "fst (tx_time env s) = mmacTime env (kTrace s) + of_nat (d div 16)"
proof -
  have "txDelay (kTxOtFrame s) + txDelayBaseTime (kTxOtFrame s) - ucast (platTime env (kTrace s @ [u32MMAC_GetTime])) = (of_nat d :: u32)"
    unfolding assms(2,3) by simp
  moreover have "(of_nat d :: u32) div of_nat US_PER_SYMBOL = of_nat (d div 16)"
    using assms(4) by (simp add: word_unat_eq_iff unat_div US_PER_SYMBOL_def unat_of_nat)
  ultimately show ?thesis using assms(1) by (simp add: tx_time_def kReadMac_def kReadPlat_def Let_def)
qed

text \<open>
  The threshold that is read back is the one that was set, for every value the driver accepts, if the conversions of the
  radio library between energy and signal strength are inverse to each other there.
\<close>

lemma k32_cca_roundtrip:
  assumes "i16Radio_GetRSSIfromED env (u8Radio_GetEDfromRSSI env (push_bit 2 (scast a))) = push_bit 2 (scast a)"
    and "k32_otPlatRadioSetCcaEnergyDetectThreshold env a s = (OT_ERROR_NONE, t)"
  shows "\<exists>ed. t = kcall (vMMAC_WriteCcaThreshold ed) s \<and> k32_otPlatRadioGetCcaEnergyDetectThreshold env True ed = (OT_ERROR_NONE, Some a)"
proof -
  have "ucast (signed_drop_bit 2 (push_bit 2 (scast a :: 16 word)) :: 16 word) = a"
  proof (rule bit_word_eqI)
    fix n assume "n < LENGTH(8)"
    then show "bit (ucast (signed_drop_bit 2 (push_bit 2 (scast a :: 16 word)) :: 16 word) :: u8) n = bit a n"
      by (cases "n = 7") (auto simp: bit_simps min_def)
  qed
  then show ?thesis using assms by (auto simp: k32_otPlatRadioSetCcaEnergyDetectThreshold_def k32_otPlatRadioGetCcaEnergyDetectThreshold_def split: if_splits)
qed

end
