(* ===== verification/Printf_Numbers.thy ===== *)
theory Printf_Numbers
  imports OtNxp_Prelude
begin

text \<open>
  The conversions \<^verbatim>\<open>%x\<close>, \<^verbatim>\<open>%u\<close> and \<^verbatim>\<open>%d\<close> of \<^verbatim>\<open>sprintf\<close>: numbers printed in a base of at most sixteen with lower-case
  digits, their parser and the round trip. Printed numbers are told apart, contain no separator and are as long as
  their size says.
\<close>

section \<open>Printing\<close>

definition digit_char :: "nat \<Rightarrow> char" where
  "digit_char d = ''0123456789abcdef'' ! d"

fun print_base :: "nat \<Rightarrow> nat \<Rightarrow> string" where
  "print_base b n = (if n < b \<or> b < 2 then [digit_char n] else print_base b (n div b) @ [digit_char (n mod b)])"

declare print_base.simps [simp del]

definition print_x :: "u16 \<Rightarrow> string" where "print_x w = print_base 16 (unat w)"
definition print_u :: "nat \<Rightarrow> string" where "print_u n = print_base 10 n"
definition print_d :: "int \<Rightarrow> string" where "print_d i = (if i < 0 then CHR ''-'' # print_u (nat (- i)) else print_u (nat i))"

section \<open>Parsing\<close>

definition digit_val :: "char \<Rightarrow> nat" where
  "digit_val c = (let n = of_char c in if n < 58 then n - 48 else n - 87)"

definition parse_base :: "nat \<Rightarrow> string \<Rightarrow> nat" where
  "parse_base b = foldl (\<lambda>a c. a * b + digit_val c) 0"

lemma below_16: "(d :: nat) < 16 \<Longrightarrow> d \<in> {0, 1, 2, 3, 4, 5, 6, 7, 8, 9, 10, 11, 12, 13, 14, 15}"
  by simp arith

lemma digit_val_char [simp]: "d < 16 \<Longrightarrow> digit_val (digit_char d) = d"
  using below_16 [of d] by (auto simp: digit_val_def digit_char_def Let_def)

lemma digit_char_not_slash: "d < 16 \<Longrightarrow> digit_char d \<noteq> CHR ''/'' \<and> digit_char d \<noteq> CHR ''-''"
  using below_16 [of d] by (auto simp: digit_char_def)

lemma of_char_digit: "d < 10 \<Longrightarrow> of_char (digit_char d) = (48 + d :: nat)"
  using below_16 [of d] by (auto simp: digit_char_def)

lemma parse_print: "2 \<le> b \<Longrightarrow> b \<le> 16 \<Longrightarrow> parse_base b (print_base b n) = n"
proof (induction b n rule: print_base.induct)
  case (1 b n)
  show ?case
  proof (cases "n < b")
    case True
    with 1 show ?thesis by (simp add: print_base.simps [of b n] parse_base_def)
  next
    case False
    then have "parse_base b (print_base b (n div b)) = n div b" using 1 by simp
    moreover have "n mod b < 16" using mod_less_divisor [of b n] 1(2,3) by linarith
    ultimately show ?thesis using False 1(2) by (simp add: print_base.simps [of b n] parse_base_def)
  qed
qed

lemma print_base_inj: "2 \<le> b \<Longrightarrow> b \<le> 16 \<Longrightarrow> print_base b n = print_base b m \<longleftrightarrow> n = m"
  by (metis parse_print)

lemma set_print_base: "2 \<le> b \<Longrightarrow> b \<le> 16 \<Longrightarrow> c \<in> set (print_base b n) \<Longrightarrow> \<exists>d < b. c = digit_char d"
proof (induction b n rule: print_base.induct)
  case (1 b n)
  then show ?case
    by (cases "n < b") (auto simp: print_base.simps [of b n] intro: exI [of _ n] exI [of _ "n mod b"])
qed

lemma print_base_plain: "2 \<le> b \<Longrightarrow> b \<le> 16 \<Longrightarrow> c \<in> set (print_base b n) \<Longrightarrow> c \<noteq> CHR ''/'' \<and> c \<noteq> CHR ''-''"
proof -
  assume b: "2 \<le> b" "b \<le> 16" and "c \<in> set (print_base b n)"
  then obtain d where "d < b" "c = digit_char d" using set_print_base by blast
  with b(2) show ?thesis using digit_char_not_slash [of d] by simp
qed

lemma print_base_not_Nil [simp]: "print_base b n \<noteq> []"
  by (simp add: print_base.simps [of b n])

lemma length_print_base: "2 \<le> b \<Longrightarrow> n < b ^ Suc m \<Longrightarrow> length (print_base b n) \<le> Suc m"
proof (induction m arbitrary: n)
  case 0
  then show ?case by (simp add: print_base.simps [of b n])
next
  case (Suc m)
  then have "n div b < b ^ Suc m" by (simp add: less_mult_imp_div_less mult.commute)
  with Suc show ?case by (cases "n < b") (simp_all add: print_base.simps [of b n])
qed

section \<open>The conversions of the sources\<close>

lemma print_x_inj [simp]: "print_x a = print_x b \<longleftrightarrow> a = b"
  by (simp add: print_x_def print_base_inj word_unat_eq_iff)

lemma print_u_inj [simp]: "print_u a = print_u b \<longleftrightarrow> a = b"
  by (simp add: print_u_def print_base_inj)

lemma no_slash [simp]: "CHR ''/'' \<notin> set (print_x a)" "CHR ''/'' \<notin> set (print_u n)"
  using print_base_plain [of 16 "CHR ''/''" "unat a"] print_base_plain [of 10 "CHR ''/''" n]
  by (auto simp: print_x_def print_u_def)

lemma length_print_x: "length (print_x a) \<le> 4"
  using length_print_base [of 16 "unat a" 3] unat_u16_less [of a] by (simp add: print_x_def)

lemma length_print_u: "n < 10 ^ Suc m \<Longrightarrow> length (print_u n) \<le> Suc m"
  by (simp add: print_u_def length_print_base)

lemma print_u_digit: "n < 10 \<Longrightarrow> print_u n = [digit_char n]"
  by (simp add: print_u_def print_base.simps)

lemma print_d_nonneg [simp]: "print_d (int n) = print_u n"
  by (simp add: print_d_def)

lemma split_at_slash:
  assumes "CHR ''/'' \<notin> set a" and "CHR ''/'' \<notin> set c" and "a @ CHR ''/'' # b = c @ CHR ''/'' # d"
  shows "a = c \<and> b = d"
  using assms by (auto simp: append_eq_append_conv2 append_eq_Cons_conv Cons_eq_append_conv)

end
