(* ===== verification/Flash_Nvs.thy ===== *)
theory Flash_Nvs
  imports Settings_Spec Printf_Numbers
begin

text \<open>
  \<^verbatim>\<open>src/common/flash_nvs.c\<close>: the settings backend over the settings subsystem of Zephyr. Every value is an entry of
  its own under the name \<^verbatim>\<open>ot/<key in hex>/<index>\<close>; there is no buffer in RAM. The subsystem is the parameter
  \<open>nvs_env\<close>; the \<^verbatim>\<open>void *\<close> that it hands to the callbacks is the union \<open>cb_param\<close>. \<open>None\<close> is a write past a buffer: the
  names are built by \<^verbatim>\<open>sprintf\<close> in arrays of sixteen characters, and a value is read into the buffer of the caller.

  The backend differs from the others in what an index means, so its specification is a store of slots: a key has a
  partial map from indices to values, whose holes are visible.
\<close>

section \<open>Data\<close>

definition KEY_DATA_OK :: u16 where "KEY_DATA_OK = 0"
definition KEY_NOT_FOUND :: u16 where "KEY_NOT_FOUND = 1"
definition KEY_BUFFER_OVERFLOW :: u16 where "KEY_BUFFER_OVERFLOW = 2"
definition KEY_READ_FAILED :: u16 where "KEY_READ_FAILED = 4"

definition OT_KEY_PREFIX :: string where "OT_KEY_PREFIX = ''ot''"

definition KEY_NAME_SIZE :: nat where "KEY_NAME_SIZE = 16"

definition KEY_NAME_TO_UINT :: "string \<Rightarrow> int" where
  "KEY_NAME_TO_UINT key = (case key of [] \<Rightarrow> 0 | c # _ \<Rightarrow> of_char c) - 48"

record key_data =
  kdName :: string
  kdIndex :: int
  kdLen :: u16
  kdFlags :: u16
  kdData :: "bytes option"

datatype cb_param = PKey key_data | PCount u32 | PName "string option"

text \<open>\<^verbatim>\<open>read_cb\<close> answers a number of bytes with the count or the error of \<^verbatim>\<open>ssize_t\<close> and the bytes it wrote.\<close>

type_synonym read_cb = "nat \<Rightarrow> int \<times> bytes"
type_synonym 'z subtree_cb = "string \<Rightarrow> nat \<Rightarrow> read_cb \<Rightarrow> cb_param \<Rightarrow> 'z \<Rightarrow> (int \<times> cb_param \<times> 'z) option"

record 'z nvs_env =
  settings_save_one :: "'z \<Rightarrow> string \<Rightarrow> bytes \<Rightarrow> int \<times> 'z"
  settings_delete :: "'z \<Rightarrow> string \<Rightarrow> int \<times> 'z"
  settings_load_subtree_direct :: "'z \<Rightarrow> string \<Rightarrow> 'z subtree_cb \<Rightarrow> cb_param \<Rightarrow> (int \<times> cb_param \<times> 'z) option"
  flash_area_open :: "'z \<Rightarrow> int"
  flash_init :: "'z \<Rightarrow> int \<times> 'z"
  settings_subsys_init :: "'z \<Rightarrow> int \<times> 'z"

record 'z nvs_state =
  nvsInitialized :: bool
  nvsSettings :: 'z

section \<open>Callbacks\<close>

text \<open>\<^verbatim>\<open>sprintf\<close> into an array of \<open>KEY_NAME_SIZE\<close> characters, with the terminating zero.\<close>

definition sprintf_name :: "string \<Rightarrow> string option" where
  "sprintf_name s = (if length s < KEY_NAME_SIZE then Some s else None)"

definition read_into :: "read_cb \<Rightarrow> key_data \<Rightarrow> bytes \<Rightarrow> key_data option" where
  "read_into rd k dst =
     (case rd (unat (kdLen k)) of (cnt, xs) \<Rightarrow>
        do { dst \<leftarrow> wr_bytes 0 xs dst;
             let k = k\<lparr>kdData := Some dst\<rparr>;
             Some (if cnt > 0 then k\<lparr>kdLen := of_int cnt\<rparr>
                   else k\<lparr>kdLen := 0, kdFlags := kdFlags k OR (if cnt = 0 then KEY_NOT_FOUND else KEY_READ_FAILED)\<rparr>) })"

fun subtree_cb_read_value :: "'z subtree_cb" where
  "subtree_cb_read_value key len rd (PKey k) z =
     (if kdIndex k \<noteq> KEY_NAME_TO_UINT key then Some (0, PKey k, z)
      else let k = k\<lparr>kdFlags := KEY_DATA_OK\<rparr> in
        case kdData k of
          None \<Rightarrow> Some (1, PKey (k\<lparr>kdLen := of_nat len, kdFlags := kdFlags k OR (if len = 0 then KEY_NOT_FOUND else 0)\<rparr>), z)
        | Some dst \<Rightarrow>
            if kdLen k = 0
            then Some (1, PKey (k\<lparr>kdLen := of_nat len, kdFlags := kdFlags k OR (if len = 0 then KEY_NOT_FOUND else 0)\<rparr>), z)
            else do { k \<leftarrow> read_into rd (k\<lparr>kdFlags := kdFlags k OR (if unat (kdLen k) < len then KEY_BUFFER_OVERFLOW else 0)\<rparr>) dst;
                      Some (1, PKey k, z) })"
| "subtree_cb_read_value key len rd p z = None"

fun subtree_cb_count_values :: "'z subtree_cb" where
  "subtree_cb_count_values key len rd (PCount cnt) z = Some (0, PCount (cnt + 1), z)"
| "subtree_cb_count_values key len rd p z = None"

fun subtree_cb_wipe :: "'z nvs_env \<Rightarrow> 'z subtree_cb" where
  "subtree_cb_wipe env key len rd (PName p) z =
     do { name \<leftarrow> sprintf_name ((case p of Some s \<Rightarrow> s | None \<Rightarrow> OT_KEY_PREFIX) @ ''/'' @ key);
          case settings_delete env z name of (err, z) \<Rightarrow> Some (if err \<noteq> 0 then 1 else 0, PName p, z) }"
| "subtree_cb_wipe env key len rd p z = None"

section \<open>The settings interface\<close>

definition nvs_otPlatSettingsInit :: "'z nvs_env \<Rightarrow> 'z nvs_state \<Rightarrow> 'z nvs_state" where
  "nvs_otPlatSettingsInit env s =
     (if nvsInitialized s then s
      else if flash_area_open env (nvsSettings s) \<noteq> 0 then s
      else case flash_init env (nvsSettings s) of (err, z) \<Rightarrow>
        if err \<noteq> 0 then s\<lparr>nvsSettings := z\<rparr>
        else case settings_subsys_init env z of (err, z) \<Rightarrow> s\<lparr>nvsSettings := z, nvsInitialized := (err = 0)\<rparr>)"

definition nvs_otPlatSettingsDeinit :: "'z nvs_state \<Rightarrow> 'z nvs_state" where
  "nvs_otPlatSettingsDeinit s = s\<lparr>nvsInitialized := False\<rparr>"

definition nvs_otPlatSettingsGet ::
  "'z nvs_env \<Rightarrow> 'z nvs_state \<Rightarrow> u16 \<Rightarrow> int \<Rightarrow> bytes option \<Rightarrow> u16 option \<Rightarrow> ((otError \<times> bytes option \<times> u16 option) \<times> 'z nvs_state) option" where
  "nvs_otPlatSettingsGet env s aKey aIndex aValue aValueLength =
     do { l \<leftarrow> aValueLength;
          name \<leftarrow> sprintf_name (OT_KEY_PREFIX @ ''/'' @ print_x aKey);
          (err, p, z) \<leftarrow> settings_load_subtree_direct env (nvsSettings s) name subtree_cb_read_value
            (PKey \<lparr>kdName = name, kdIndex = aIndex, kdLen = l, kdFlags = KEY_NOT_FOUND, kdData = aValue\<rparr>);
          k \<leftarrow> (case p of PKey k \<Rightarrow> Some k | _ \<Rightarrow> None);
          Some (if err \<noteq> 0 \<or> kdFlags k AND KEY_NOT_FOUND \<noteq> 0 \<or> kdFlags k AND KEY_READ_FAILED \<noteq> 0
                then (OT_ERROR_NOT_FOUND, kdData k, Some 0) else (OT_ERROR_NONE, kdData k, Some (kdLen k)),
                s\<lparr>nvsSettings := z\<rparr>) }"

definition nvs_save :: "'z nvs_env \<Rightarrow> 'z nvs_state \<Rightarrow> string \<Rightarrow> bytes \<Rightarrow> u16 \<Rightarrow> (otError \<times> 'z nvs_state) option" where
  "nvs_save env s name aValue aValueLength =
     do { v \<leftarrow> rd_bytes 0 (unat aValueLength) aValue;
          case settings_save_one env (nvsSettings s) name v of (err, z) \<Rightarrow>
            Some (if err \<noteq> 0 then OT_ERROR_NO_BUFS else OT_ERROR_NONE, s\<lparr>nvsSettings := z\<rparr>) }"

definition nvs_otPlatSettingsAdd :: "'z nvs_env \<Rightarrow> 'z nvs_state \<Rightarrow> u16 \<Rightarrow> bytes \<Rightarrow> u16 \<Rightarrow> (otError \<times> 'z nvs_state) option" where
  "nvs_otPlatSettingsAdd env s aKey aValue aValueLength =
     do { name \<leftarrow> sprintf_name (OT_KEY_PREFIX @ ''/'' @ print_x aKey);
          (err, p, z) \<leftarrow> settings_load_subtree_direct env (nvsSettings s) name subtree_cb_count_values (PCount 0);
          cnt \<leftarrow> (case p of PCount cnt \<Rightarrow> Some cnt | _ \<Rightarrow> None);
          let s = s\<lparr>nvsSettings := z\<rparr>;
          if err \<noteq> 0 then Some (OT_ERROR_NO_BUFS, s)
          else do { name \<leftarrow> sprintf_name (OT_KEY_PREFIX @ ''/'' @ print_x aKey @ ''/'' @ print_u (unat cnt));
                    nvs_save env s name aValue aValueLength } }"

definition nvs_otPlatSettingsSet :: "'z nvs_env \<Rightarrow> 'z nvs_state \<Rightarrow> u16 \<Rightarrow> bytes \<Rightarrow> u16 \<Rightarrow> (otError \<times> 'z nvs_state) option" where
  "nvs_otPlatSettingsSet env s aKey aValue aValueLength =
     do { name \<leftarrow> sprintf_name (OT_KEY_PREFIX @ ''/'' @ print_x aKey @ ''/0'');
          nvs_save env s name aValue aValueLength }"

definition nvs_otPlatSettingsDelete :: "'z nvs_env \<Rightarrow> 'z nvs_state \<Rightarrow> u16 \<Rightarrow> int \<Rightarrow> (otError \<times> 'z nvs_state) option" where
  "nvs_otPlatSettingsDelete env s aKey aIndex =
     (if aIndex = -1
      then do { name \<leftarrow> sprintf_name (OT_KEY_PREFIX @ ''/'' @ print_x aKey);
                (err, p, z) \<leftarrow> settings_load_subtree_direct env (nvsSettings s) name (subtree_cb_wipe env) (PName (Some name));
                Some (if err \<noteq> 0 then OT_ERROR_NOT_FOUND else OT_ERROR_NONE, s\<lparr>nvsSettings := z\<rparr>) }
      else do { name \<leftarrow> sprintf_name (OT_KEY_PREFIX @ ''/'' @ print_x aKey @ ''/'' @ print_d aIndex);
                case settings_delete env (nvsSettings s) name of (err, z) \<Rightarrow>
                  Some (if err \<noteq> 0 then OT_ERROR_NOT_FOUND else OT_ERROR_NONE, s\<lparr>nvsSettings := z\<rparr>) })"

definition nvs_otPlatSettingsWipe :: "'z nvs_env \<Rightarrow> 'z nvs_state \<Rightarrow> 'z nvs_state option" where
  "nvs_otPlatSettingsWipe env s =
     do { (err, p, z) \<leftarrow> settings_load_subtree_direct env (nvsSettings s) OT_KEY_PREFIX (subtree_cb_wipe env) (PName None);
          Some (s\<lparr>nvsSettings := z\<rparr>) }"

definition nvs_exec :: "'z nvs_env \<Rightarrow> 'z nvs_state \<Rightarrow> settings_cmd \<Rightarrow> (otError \<times> 'z nvs_state) option" where
  "nvs_exec env = exec_cmd (nvs_otPlatSettingsAdd env) (nvs_otPlatSettingsSet env) (nvs_otPlatSettingsDelete env) (nvs_otPlatSettingsWipe env)"


section \<open>What the subsystem documents\<close>

text \<open>
  The entries are a map from names to values. Saving a value and deleting a name change one name or fail; loading a
  subtree fails before it starts or hands every entry below the name to the callback, in some order, until the callback
  answers something else than zero. The list of entries is fixed when the load starts.
\<close>

fun visit :: "'z subtree_cb \<Rightarrow> (string \<times> bytes) list \<Rightarrow> cb_param \<Rightarrow> 'z \<Rightarrow> (cb_param \<times> 'z) option" where
  "visit cb [] p z = Some (p, z)"
| "visit cb ((key, v) # es) p z =
     do { (r, p, z) \<leftarrow> cb key (length v) (\<lambda>n. (int (min n (length v)), take n v)) p z;
          if r \<noteq> 0 then Some (p, z) else visit cb es p z }"

definition lists_subtree :: "(string \<rightharpoonup> bytes) \<Rightarrow> string \<Rightarrow> (string \<times> bytes) list \<Rightarrow> bool" where
  "lists_subtree c t es \<longleftrightarrow> distinct (map fst es) \<and> (\<forall>key v. (key, v) \<in> set es \<longleftrightarrow> c (t @ ''/'' @ key) = Some v)"

definition zephyr_documented :: "'z nvs_env \<Rightarrow> ('z \<Rightarrow> string \<rightharpoonup> bytes) \<Rightarrow> bool" where
  "zephyr_documented env contents \<longleftrightarrow>
     (\<forall>z n v err z'. settings_save_one env z n v = (err, z') \<longrightarrow> v \<noteq> [] \<longrightarrow>
        contents z' = (if err = 0 then (contents z)(n \<mapsto> v) else contents z)) \<and>
     (\<forall>z n err z'. settings_delete env z n = (err, z') \<longrightarrow>
        contents z' = (if err = 0 then (contents z)(n := None) else contents z)) \<and>
     (\<forall>z t cb p. (\<exists>err. err \<noteq> 0 \<and> settings_load_subtree_direct env z t cb p = Some (err, p, z)) \<or>
        (\<exists>es. lists_subtree (contents z) t es \<and>
              settings_load_subtree_direct env z t cb p = map_option (Pair 0) (visit cb es p z)))"

text \<open>Loading and deleting do not fail; saving still may, when the flash is full.\<close>

definition nvs_reliable :: "'z nvs_env \<Rightarrow> bool" where
  "nvs_reliable env \<longleftrightarrow>
     (\<forall>z t cb p err q z'. settings_load_subtree_direct env z t cb p = Some (err, q, z') \<longrightarrow> err = 0) \<and>
     (\<forall>z n. fst (settings_delete env z n) = 0)"

lemma zephyr_save:
  "zephyr_documented env contents \<Longrightarrow> settings_save_one env z n v = (err, z') \<Longrightarrow> v \<noteq> [] \<Longrightarrow>
   contents z' = (if err = 0 then (contents z)(n \<mapsto> v) else contents z)"
  by (simp add: zephyr_documented_def)

lemma zephyr_delete:
  assumes "zephyr_documented env contents" and "nvs_reliable env"
  obtains z' where "settings_delete env z n = (0, z')" and "contents z' = (contents z)(n := None)"
proof -
  obtain err z' where d: "settings_delete env z n = (err, z')" by fastforce
  then have "err = 0" using assms(2) by (metis nvs_reliable_def fst_conv)
  with d assms(1) show ?thesis by (intro that) (auto simp: zephyr_documented_def)
qed

lemma zephyr_load:
  assumes "zephyr_documented env contents" and "nvs_reliable env"
  obtains es where "lists_subtree (contents z) t es"
    and "settings_load_subtree_direct env z t cb p = map_option (Pair 0) (visit cb es p z)"
proof -
  have "\<not> (\<exists>err. err \<noteq> 0 \<and> settings_load_subtree_direct env z t cb p = Some (err, p, z))"
    using assms(2) unfolding nvs_reliable_def by blast
  with assms(1) show ?thesis unfolding zephyr_documented_def using that by blast
qed

section \<open>Slots\<close>

type_synonym slots = "u16 \<Rightarrow> nat \<rightharpoonup> bytes"

definition slot_name :: "u16 \<Rightarrow> nat \<Rightarrow> string" where
  "slot_name k i = ''ot/'' @ print_x k @ ''/'' @ print_u i"

definition holds :: "(string \<rightharpoonup> bytes) \<Rightarrow> slots \<Rightarrow> bool" where
  "holds c \<sigma> \<longleftrightarrow>
     (\<forall>x. c (''ot/'' @ x) \<noteq> None \<longrightarrow> (\<exists>k i. i < 10 ^ 7 \<and> x = print_x k @ ''/'' @ print_u i)) \<and>
     (\<forall>k i. c (slot_name k i) = \<sigma> k i) \<and> (\<forall>k i. \<sigma> k i \<noteq> Some [])"

definition key_name :: "u16 \<Rightarrow> string" where "key_name k = ''ot/'' @ print_x k"

lemma name_inj [simp]: "print_x k @ CHR ''/'' # print_u i = print_x k' @ CHR ''/'' # x \<longleftrightarrow> k = k' \<and> x = print_u i"
  using split_at_slash [of "print_x k" "print_x k'" "print_u i" x] by auto

lemma slot_name_inj [simp]: "slot_name k i = slot_name k' i' \<longleftrightarrow> k = k' \<and> i = i'"
  by (auto simp: slot_name_def)

lemma slot_name_fits: "i < 10 ^ 7 \<Longrightarrow> length (slot_name k i) < KEY_NAME_SIZE"
  using length_print_x [of k] length_print_u [of i 6] by (simp add: slot_name_def KEY_NAME_SIZE_def)

lemma holds_bound: "holds c \<sigma> \<Longrightarrow> \<sigma> k i = Some v \<Longrightarrow> i < 10 ^ 7"
proof -
  assume h: "holds c \<sigma>" and v: "\<sigma> k i = Some v"
  then have "c (''ot/'' @ print_x k @ ''/'' @ print_u i) \<noteq> None" by (auto simp: holds_def slot_name_def)
  with h obtain k' i' where "i' < 10 ^ 7" "print_x k @ ''/'' @ print_u i = print_x k' @ ''/'' @ print_u i'"
    unfolding holds_def by blast
  then show ?thesis by auto
qed

lemma holds_name: "holds c \<sigma> \<Longrightarrow> c (''ot/'' @ x) = Some v \<Longrightarrow> \<exists>k i. x = print_x k @ ''/'' @ print_u i \<and> \<sigma> k i = Some v \<and> i < 10 ^ 7"
proof -
  assume h: "holds c \<sigma>" and v: "c (''ot/'' @ x) = Some v"
  then obtain k i where ki: "i < 10 ^ 7" "x = print_x k @ ''/'' @ print_u i" unfolding holds_def by blast
  then have "c (slot_name k i) = Some v" using v by (simp add: slot_name_def)
  with h ki show ?thesis by (auto simp: holds_def)
qed

lemma holds_update:
  assumes "holds c \<sigma>" and "i < 10 ^ 7" and "v \<noteq> Some []"
  shows "holds (c(slot_name k i := v)) (\<sigma>(k := (\<sigma> k)(i := v)))"
  using assms unfolding holds_def by (auto simp: slot_name_def split: if_splits)

lemma holds_restrict: "holds c \<sigma> \<Longrightarrow> holds (c |` (- N)) (\<lambda>k i. if slot_name k i \<in> N then None else \<sigma> k i)"
  by (simp add: holds_def restrict_map_def)

lemma slot_below_key: "slot_name j i \<in> range (\<lambda>x. key_name k @ ''/'' @ x) \<longleftrightarrow> j = k"
  by (auto simp: slot_name_def key_name_def)

lemma slot_below_prefix: "slot_name j i \<in> range (\<lambda>x. OT_KEY_PREFIX @ ''/'' @ x)"
  by (auto simp: slot_name_def OT_KEY_PREFIX_def)

text \<open>The entries below a key, as the subsystem lists them.\<close>

lemma key_entries:
  assumes "holds c \<sigma>" and "lists_subtree c (key_name k) es"
  shows "(key, v) \<in> set es \<longleftrightarrow> (\<exists>i. key = print_u i \<and> \<sigma> k i = Some v)"
proof
  assume "(key, v) \<in> set es"
  then have "c (''ot/'' @ print_x k @ ''/'' @ key) = Some v" using assms(2) by (simp add: lists_subtree_def key_name_def)
  from holds_name [OF assms(1) this] show "\<exists>i. key = print_u i \<and> \<sigma> k i = Some v"
    by (auto dest: split_at_slash [rotated 2])
next
  assume "\<exists>i. key = print_u i \<and> \<sigma> k i = Some v"
  then show "(key, v) \<in> set es" using assms by (auto simp: lists_subtree_def holds_def slot_name_def key_name_def)
qed

lemma count_entries:
  assumes "holds c \<sigma>" and "lists_subtree c (key_name k) es"
  shows "length es = card (dom (\<sigma> k))"
proof -
  have "fst ` set es = print_u ` dom (\<sigma> k)"
  proof (intro equalityI subsetI)
    fix key assume "key \<in> fst ` set es"
    then obtain v where "(key, v) \<in> set es" by auto
    then show "key \<in> print_u ` dom (\<sigma> k)" unfolding key_entries [OF assms] by auto
  next
    fix key assume "key \<in> print_u ` dom (\<sigma> k)"
    then obtain i v where "key = print_u i" "\<sigma> k i = Some v" by auto
    then have "(key, v) \<in> set es" unfolding key_entries [OF assms] by auto
    then show "key \<in> fst ` set es" by force
  qed
  moreover have "card (fst ` set es) = length es"
    using assms(2) by (metis distinct_card length_map list.set_map lists_subtree_def)
  moreover have "card (print_u ` dom (\<sigma> k)) = card (dom (\<sigma> k))" by (rule card_image) (simp add: inj_on_def)
  ultimately show ?thesis by simp
qed

section \<open>Loops over the entries\<close>

lemma visit_count: "visit subtree_cb_count_values es (PCount n) z = Some (PCount (n + of_nat (length es)), z)"
  by (induction es arbitrary: n) (auto simp: algebra_simps)

lemma visit_wipe:
  assumes "zephyr_documented env contents" and "nvs_reliable env"
    and "\<forall>key \<in> fst ` set es. length (b @ ''/'' @ key) < KEY_NAME_SIZE" and "b = (case p of Some s \<Rightarrow> s | None \<Rightarrow> OT_KEY_PREFIX)"
  shows "\<exists>z'. visit (subtree_cb_wipe env) es (PName p) z = Some (PName p, z') \<and>
    contents z' = contents z |` (- (\<lambda>key. b @ ''/'' @ key) ` fst ` set es)"
  using assms(3)
proof (induction es arbitrary: z)
  case Nil
  then show ?case by simp
next
  case (Cons e es)
  obtain key v where e: "e = (key, v)" by force
  obtain z1 where z1: "settings_delete env z (b @ ''/'' @ key) = (0, z1)" "contents z1 = (contents z)(b @ ''/'' @ key := None)"
    by (rule zephyr_delete [OF assms(1,2)])
  from Cons obtain z' where z': "visit (subtree_cb_wipe env) es (PName p) z1 = Some (PName p, z')"
    "contents z' = contents z1 |` (- (\<lambda>key. b @ ''/'' @ key) ` fst ` set es)" by force
  have "contents z' = contents z |` (- (\<lambda>key. b @ ''/'' @ key) ` fst ` set (e # es))"
    unfolding z'(2) z1(2) e by (auto simp: fun_eq_iff restrict_map_def)
  with e z1(1) z'(1) Cons(2) assms(4) show ?case by (simp add: sprintf_name_def)
qed

lemma read_stops: "KEY_NAME_TO_UINT key = kdIndex k \<Longrightarrow> subtree_cb_read_value key len rd (PKey k) z = Some (r, q) \<Longrightarrow> r = 1"
  by (auto simp: Let_def split: option.splits if_splits bind_splits)

lemma visit_read:
  "visit subtree_cb_read_value es (PKey k) z =
     (case find (\<lambda>(key, v). KEY_NAME_TO_UINT key = kdIndex k) es of
        None \<Rightarrow> Some (PKey k, z)
      | Some (key, v) \<Rightarrow> map_option snd (subtree_cb_read_value key (length v) (\<lambda>n. (int (min n (length v)), take n v)) (PKey k) z))"
proof (induction es)
  case (Cons e es)
  obtain key v where e: "e = (key, v)" by force
  show ?case
  proof (cases "KEY_NAME_TO_UINT key = kdIndex k")
    case True
    then show ?thesis unfolding e
      by (auto simp del: subtree_cb_read_value.simps dest: read_stops split: bind_splits)
  next
    case False
    then show ?thesis using Cons e by simp
  qed
qed simp

section \<open>Every call on the slots\<close>

fun slots_after :: "slots \<Rightarrow> settings_cmd \<Rightarrow> slots" where
  "slots_after \<sigma> (CAdd k v) = \<sigma>(k := (\<sigma> k)(card (dom (\<sigma> k)) \<mapsto> v))"
| "slots_after \<sigma> (CSet k v) = \<sigma>(k := (\<sigma> k)(0 \<mapsto> v))"
| "slots_after \<sigma> (CDelete k i) = \<sigma>(k := if i = -1 then Map.empty else (\<sigma> k)(nat i := None))"
| "slots_after \<sigma> CWipe = (\<lambda>_. Map.empty)"


fun nvs_cmd_ok :: "settings_cmd \<Rightarrow> bool" where
  "nvs_cmd_ok (CAdd k v) = (v \<noteq> [] \<and> length v < 65536)"
| "nvs_cmd_ok (CSet k v) = (v \<noteq> [] \<and> length v < 65536)"
| "nvs_cmd_ok (CDelete k i) = (-1 \<le> i \<and> i < 10 ^ 7)"
| "nvs_cmd_ok CWipe = True"

definition same_others :: "(string \<rightharpoonup> bytes) \<Rightarrow> (string \<rightharpoonup> bytes) \<Rightarrow> bool" where
  "same_others c d \<longleftrightarrow> (\<forall>n. take 3 n \<noteq> ''ot/'' \<longrightarrow> c n = d n)"

lemma same_others_update [simp]: "same_others c (d(slot_name k i := v)) \<longleftrightarrow> same_others c d"
proof -
  have "take 3 (slot_name k i) = ''ot/''" by (simp add: slot_name_def)
  then show ?thesis by (fastforce simp: same_others_def)
qed

lemma same_others_refl [simp]: "same_others c c"
  by (simp add: same_others_def)


text \<open>A step of the specification: done, or out of space on a write.\<close>

definition nvs_ends :: "('z \<Rightarrow> string \<rightharpoonup> bytes) \<Rightarrow> 'z nvs_state \<Rightarrow> slots \<Rightarrow> settings_cmd \<Rightarrow> (otError \<times> 'z nvs_state) option \<Rightarrow> bool" where
  "nvs_ends contents s \<sigma> c r \<longleftrightarrow>
     (\<exists>e t. r = Some (e, t) \<and> same_others (contents (nvsSettings s)) (contents (nvsSettings t)) \<and>
        (e = OT_ERROR_NONE \<and> holds (contents (nvsSettings t)) (slots_after \<sigma> c) \<or>
         e = OT_ERROR_NO_BUFS \<and> (\<exists>k v. c = CAdd k v \<or> c = CSet k v) \<and> holds (contents (nvsSettings t)) \<sigma>))"

lemma nvs_save_ends:
  assumes "zephyr_documented env contents" and "holds (contents (nvsSettings s)) \<sigma>" and "i < 10 ^ 7"
    and "v \<noteq> []" and "length v = unat l"
    and "slots_after \<sigma> c = \<sigma>(k := (\<sigma> k)(i \<mapsto> v))" and "c = CAdd k v \<or> c = CSet k v"
  shows "nvs_ends contents s \<sigma> c (nvs_save env s (slot_name k i) v l)"
proof -
  obtain err z where z: "settings_save_one env (nvsSettings s) (slot_name k i) v = (err, z)" by fastforce
  note c = zephyr_save [OF assms(1) z assms(4)]
  show ?thesis
    using z c assms(2-7) holds_update [OF assms(2,3), of "Some v" k] unfolding nvs_ends_def nvs_save_def
    by (auto simp: rd_bytes_def)
qed

lemma key_name_fits: "sprintf_name (OT_KEY_PREFIX @ CHR ''/'' # print_x k) = Some (key_name k)"
  using length_print_x [of k] by (simp add: sprintf_name_def OT_KEY_PREFIX_def KEY_NAME_SIZE_def key_name_def)

lemma slot_name_sprintf: "i < 10 ^ 7 \<Longrightarrow> sprintf_name (OT_KEY_PREFIX @ CHR ''/'' # print_x k @ CHR ''/'' # print_u i) = Some (slot_name k i)"
  using slot_name_fits [of i k] by (simp add: sprintf_name_def OT_KEY_PREFIX_def slot_name_def)

lemma print_u_0: "print_u 0 = ''0''"
  by (simp add: print_u_digit digit_char_def)

lemma nvs_add_ends:
  assumes "zephyr_documented env contents" and "nvs_reliable env" and "holds (contents (nvsSettings s)) \<sigma>"
    and "card (dom (\<sigma> k)) < 10 ^ 7" and "v \<noteq> []" and "length v = unat l"
  shows "nvs_ends contents s \<sigma> (CAdd k v) (nvs_otPlatSettingsAdd env s k v l)"
proof -
  obtain es where es: "lists_subtree (contents (nvsSettings s)) (key_name k) es"
    and l: "settings_load_subtree_direct env (nvsSettings s) (key_name k) subtree_cb_count_values (PCount 0) =
      map_option (Pair 0) (visit subtree_cb_count_values es (PCount 0) (nvsSettings s))"
    by (rule zephyr_load [OF assms(1,2)])
  have n: "unat (of_nat (length es) :: u32) = card (dom (\<sigma> k))"
    using count_entries [OF assms(3) es] assms(4) by (simp add: unat_of_nat)
  have "nvs_otPlatSettingsAdd env s k v l = nvs_save env s (slot_name k (card (dom (\<sigma> k)))) v l"
    using assms(4) by (simp add: nvs_otPlatSettingsAdd_def key_name_fits l visit_count n slot_name_sprintf Let_def)
  with nvs_save_ends [OF assms(1,3,4,5,6), of "CAdd k v" k] show ?thesis by simp
qed

lemma nvs_set_ends:
  assumes "zephyr_documented env contents" and "holds (contents (nvsSettings s)) \<sigma>" and "v \<noteq> []" and "length v = unat l"
  shows "nvs_ends contents s \<sigma> (CSet k v) (nvs_otPlatSettingsSet env s k v l)"
  using nvs_save_ends [OF assms(1,2) _ assms(3,4), of 0 "CSet k v" k] slot_name_sprintf [of 0 k]
  by (simp add: nvs_otPlatSettingsSet_def print_u_0)

text \<open>Deleting every entry below a name.\<close>

lemma nvs_wiped:
  assumes "zephyr_documented env contents" and "nvs_reliable env" and "holds (contents z) \<sigma>"
    and "b = (case p of Some s \<Rightarrow> s | None \<Rightarrow> OT_KEY_PREFIX)" and "take 3 (b @ ''/'') = ''ot/''"
  shows "\<exists>z'. settings_load_subtree_direct env z b (subtree_cb_wipe env) (PName p) = Some (0, PName p, z') \<and>
    contents z' = contents z |` (- range (\<lambda>x. b @ ''/'' @ x))"
proof -
  obtain es where es: "lists_subtree (contents z) b es"
    and l: "settings_load_subtree_direct env z b (subtree_cb_wipe env) (PName p) =
      map_option (Pair 0) (visit (subtree_cb_wipe env) es (PName p) z)"
    by (rule zephyr_load [OF assms(1,2)])
  obtain r where r: "b @ ''/'' = ''ot/'' @ r" using assms(5) by (metis append_take_drop_id)
  have fits: "length (b @ ''/'' @ key) < KEY_NAME_SIZE" if key: "(key, v) \<in> set es" for key v
  proof -
    have "contents z (''ot/'' @ r @ key) = Some v"
      using es key r by (metis append_assoc lists_subtree_def)
    from holds_name [OF assms(3) this] obtain k i where "r @ key = print_x k @ ''/'' @ print_u i" "i < 10 ^ 7" by blast
    with r slot_name_fits [of i k] show ?thesis by (metis append_assoc slot_name_def)
  qed
  then obtain z' where z': "visit (subtree_cb_wipe env) es (PName p) z = Some (PName p, z')"
    "contents z' = contents z |` (- (\<lambda>key. b @ ''/'' @ key) ` fst ` set es)"
    using visit_wipe [OF assms(1,2), of es b p z] assms(4) by fastforce
  have "contents z' = contents z |` (- range (\<lambda>x. b @ ''/'' @ x))"
  proof
    fix n
    show "contents z' n = (contents z |` (- range (\<lambda>x. b @ ''/'' @ x))) n"
      using es unfolding z'(2) restrict_map_def lists_subtree_def
      by (cases "contents z n") (auto simp: image_iff, (metis fst_conv)+)
  qed
  with l z'(1) show ?thesis by simp
qed

lemma nvs_delete_all_ends:
  assumes "zephyr_documented env contents" and "nvs_reliable env" and "holds (contents (nvsSettings s)) \<sigma>"
  shows "nvs_ends contents s \<sigma> (CDelete k (-1)) (nvs_otPlatSettingsDelete env s k (-1))"
proof -
  obtain z' where z': "settings_load_subtree_direct env (nvsSettings s) (key_name k) (subtree_cb_wipe env) (PName (Some (key_name k))) = Some (0, PName (Some (key_name k)), z')"
    "contents z' = contents (nvsSettings s) |` (- range (\<lambda>x. key_name k @ ''/'' @ x))"
    using nvs_wiped [OF assms, of "key_name k" "Some (key_name k)"] by (auto simp: key_name_def)
  have "same_others (contents (nvsSettings s)) (contents z')"
    unfolding z'(2) same_others_def by (auto simp: restrict_map_def key_name_def)
  moreover have "(\<lambda>j i. if j = k then None else \<sigma> j i) = \<sigma>(k := Map.empty)" by (intro ext) simp
  then have "holds (contents z') (\<sigma>(k := Map.empty))"
    using holds_restrict [OF assms(3), of "range (\<lambda>x. key_name k @ ''/'' @ x)"] unfolding z'(2) slot_below_key
    by simp
  ultimately show ?thesis using z'(1) by (simp add: nvs_ends_def nvs_otPlatSettingsDelete_def key_name_fits)
qed

lemma nvs_delete_one_ends:
  assumes "zephyr_documented env contents" and "nvs_reliable env" and "holds (contents (nvsSettings s)) \<sigma>" and "i < 10 ^ 7"
  shows "nvs_ends contents s \<sigma> (CDelete k (int i)) (nvs_otPlatSettingsDelete env s k (int i))"
proof -
  obtain z where z: "settings_delete env (nvsSettings s) (slot_name k i) = (0, z)"
    "contents z = (contents (nvsSettings s))(slot_name k i := None)"
    by (rule zephyr_delete [OF assms(1,2)])
  with holds_update [OF assms(3,4), of None k] assms(4) show ?thesis
    by (simp add: nvs_ends_def nvs_otPlatSettingsDelete_def slot_name_sprintf)
qed

lemma nvs_wipe_ends:
  assumes "zephyr_documented env contents" and "nvs_reliable env" and "holds (contents (nvsSettings s)) \<sigma>"
  shows "\<exists>t. nvs_otPlatSettingsWipe env s = Some t \<and> same_others (contents (nvsSettings s)) (contents (nvsSettings t)) \<and>
    holds (contents (nvsSettings t)) (\<lambda>_. Map.empty)"
proof -
  obtain z' where z': "settings_load_subtree_direct env (nvsSettings s) OT_KEY_PREFIX (subtree_cb_wipe env) (PName None) = Some (0, PName None, z')"
    "contents z' = contents (nvsSettings s) |` (- range (\<lambda>x. OT_KEY_PREFIX @ ''/'' @ x))"
    using nvs_wiped [OF assms, of OT_KEY_PREFIX None] by (auto simp: OT_KEY_PREFIX_def)
  have "same_others (contents (nvsSettings s)) (contents z')"
    unfolding z'(2) same_others_def by (auto simp: restrict_map_def OT_KEY_PREFIX_def)
  moreover have "holds (contents z') (\<lambda>_. Map.empty)"
    using holds_restrict [OF assms(3), of "range (\<lambda>x. OT_KEY_PREFIX @ ''/'' @ x)"] unfolding z'(2)
    by (simp only: slot_below_prefix if_True)
  ultimately show ?thesis using z'(1) by (simp add: nvs_otPlatSettingsWipe_def)
qed

lemma nvs_exec_ends:
  assumes "zephyr_documented env contents" and "nvs_reliable env" and "holds (contents (nvsSettings s)) \<sigma>"
    and "nvs_cmd_ok c" and "\<forall>k. card (dom (\<sigma> k)) < 10 ^ 7"
  shows "nvs_ends contents s \<sigma> c (nvs_exec env s c)"
proof (cases c)
  case (CAdd k v)
  then show ?thesis using nvs_add_ends [OF assms(1-3), of k v "of_nat (length v)"] assms(4,5) by (simp add: nvs_exec_def u16_simps)
next
  case (CSet k v)
  then show ?thesis using nvs_set_ends [OF assms(1,3), of v "of_nat (length v)" k] assms(4) by (simp add: nvs_exec_def u16_simps)
next
  case (CDelete k i)
  then show ?thesis
    using nvs_delete_all_ends [OF assms(1-3), of k] nvs_delete_one_ends [OF assms(1-3), of "nat i" k] assms(4)
    by (cases "i = -1") (simp_all add: nvs_exec_def nat_less_iff)
next
  case CWipe
  then show ?thesis using nvs_wipe_ends [OF assms(1-3)] by (auto simp: nvs_exec_def nvs_ends_def)
qed





section \<open>Reading\<close>

lemma slot_index: "i < 10 \<Longrightarrow> KEY_NAME_TO_UINT (print_u i) = int i"
  using below_16 [of i] by (auto simp: print_u_digit KEY_NAME_TO_UINT_def digit_char_def)

text \<open>With one digit per index the entry that the read callback stops at is the slot asked for.\<close>

lemma find_slot:
  assumes "holds c \<sigma>" and "lists_subtree c (key_name k) es" and "\<forall>i \<in> dom (\<sigma> k). i < 10"
  shows "find (\<lambda>(key, v). KEY_NAME_TO_UINT key = i) es =
    (if 0 \<le> i then map_option (Pair (print_u (nat i))) (\<sigma> k (nat i)) else None)" (is "?f = ?r")
proof (cases ?f)
  case None
  have False if i: "0 \<le> i" "\<sigma> k (nat i) = Some v" for v
  proof -
    have "(print_u (nat i), v) \<in> set es" using key_entries [OF assms(1,2)] i by blast
    then show False using None i slot_index [of "nat i"] assms(3) by (fastforce simp: find_None_iff)
  qed
  then show ?thesis unfolding None by (cases "\<sigma> k (nat i)") auto
next
  case (Some e)
  obtain key v where e: "e = (key, v)" by force
  with Some have "(key, v) \<in> set es" and x: "KEY_NAME_TO_UINT key = i" by (auto simp: find_Some_iff in_set_conv_nth)
  then obtain j where j: "key = print_u j" "\<sigma> k j = Some v" using key_entries [OF assms(1,2)] by blast
  then have "i = int j" using slot_index [of j] assms(3) x by auto
  with Some e j show ?thesis by simp
qed

text \<open>What a read returns for the value of a slot: at most as many bytes as the caller has room for.\<close>

definition read_result :: "bytes option \<Rightarrow> bytes \<Rightarrow> u16 \<Rightarrow> otError \<times> bytes option \<times> u16 option" where
  "read_result slot dst l = (case slot of
      None \<Rightarrow> (OT_ERROR_NOT_FOUND, Some dst, Some 0)
    | Some v \<Rightarrow> (OT_ERROR_NONE, Some (take (unat l) v @ drop (min (length v) (unat l)) dst), Some (of_nat (min (length v) (unat l)))))"

lemma flags_zero: "(0 :: u16) AND KEY_NOT_FOUND = 0" "KEY_BUFFER_OVERFLOW AND KEY_NOT_FOUND = 0" "KEY_BUFFER_OVERFLOW AND KEY_READ_FAILED = 0"
  "KEY_NOT_FOUND AND KEY_NOT_FOUND \<noteq> 0" "KEY_DATA_OK = 0"
  by (simp_all add: KEY_NOT_FOUND_def KEY_BUFFER_OVERFLOW_def KEY_READ_FAILED_def KEY_DATA_OK_def)

lemma nvs_get_slot:
  assumes "zephyr_documented env contents" and "nvs_reliable env" and "holds (contents (nvsSettings s)) \<sigma>"
    and "\<forall>j \<in> dom (\<sigma> k). j < 10" and "0 < l" and "unat l \<le> length dst"
  shows "nvs_otPlatSettingsGet env s k i (Some dst) (Some l) =
    Some (read_result (if 0 \<le> i then \<sigma> k (nat i) else None) dst l, s)"
proof -
  let ?p = "PKey \<lparr>kdName = key_name k, kdIndex = i, kdLen = l, kdFlags = KEY_NOT_FOUND, kdData = Some dst\<rparr>"
  obtain es where es: "lists_subtree (contents (nvsSettings s)) (key_name k) es"
    and ld: "settings_load_subtree_direct env (nvsSettings s) (key_name k) subtree_cb_read_value ?p =
      map_option (Pair 0) (visit subtree_cb_read_value es ?p (nvsSettings s))"
    by (rule zephyr_load [OF assms(1,2)])
  note f = find_slot [OF assms(3) es assms(4), of i]
  show ?thesis
  proof (cases "if 0 \<le> i then \<sigma> k (nat i) else None")
    case None
    then have "visit subtree_cb_read_value es ?p (nvsSettings s) = Some (?p, nvsSettings s)"
      by (simp add: visit_read f split: if_splits)
    with ld None show ?thesis by (simp add: nvs_otPlatSettingsGet_def key_name_fits KEY_NOT_FOUND_def read_result_def)
  next
    case (Some v)
    then have i: "0 \<le> i" "\<sigma> k (nat i) = Some v" by (auto split: if_splits)
    then have ix: "KEY_NAME_TO_UINT (print_u (nat i)) = i" and v: "v \<noteq> []"
      using slot_index [of "nat i"] assms(3,4) by (auto simp: holds_def)
    have "unat l \<noteq> 0" using assms(5) by (simp add: word_less_nat_alt)
    then have pos: "0 < int (min (unat l) (length v))" using v by simp
    have len: "(of_int (int (min (unat l) (length v))) :: u16) = of_nat (min (length v) (unat l))" by (simp add: min.commute)
    show ?thesis
      using ld Some i ix v pos assms(5,6)
      by (auto simp: nvs_otPlatSettingsGet_def key_name_fits visit_read f read_into_def wr_bytes_def flags_zero read_result_def
          Let_def min_def)
  qed
qed

section \<open>An instance\<close>

text \<open>A subsystem that keeps its entries in a list and never fills up; it serves the witnesses.\<close>

definition entries_below :: "(string \<times> bytes) list \<Rightarrow> string \<Rightarrow> (string \<times> bytes) list" where
  "entries_below z t = map (\<lambda>n. (drop (Suc (length t)) n, the (map_of z n)))
     (filter (\<lambda>n. take (Suc (length t)) n = t @ ''/'') (remdups (map fst z)))"

definition list_env :: "(string \<times> bytes) list nvs_env" where
  "list_env = \<lparr>settings_save_one = \<lambda>z n v. (0, (n, v) # z), settings_delete = \<lambda>z n. (0, filter (\<lambda>e. fst e \<noteq> n) z),
     settings_load_subtree_direct = \<lambda>z t cb p. map_option (Pair 0) (visit cb (entries_below z t) p z),
     flash_area_open = \<lambda>z. 0, flash_init = Pair 0, settings_subsys_init = Pair 0\<rparr>"

lemma list_env_lists: "lists_subtree (map_of z) t (entries_below z t)"
proof -
  let ?P = "\<lambda>n. take (Suc (length t)) n = t @ ''/''"
  have "inj_on (drop (Suc (length t))) {n. ?P n}"
    by (rule inj_onI) (metis append_take_drop_id mem_Collect_eq)
  then have "distinct (map (drop (Suc (length t))) (filter ?P (remdups (map fst z))))"
    by (simp add: distinct_map inj_on_def)
  then have "distinct (map fst (entries_below z t))" by (simp add: entries_below_def comp_def)
  moreover have "(key, v) \<in> set (entries_below z t) \<longleftrightarrow> map_of z (t @ ''/'' @ key) = Some v" for key v
  proof
    assume "(key, v) \<in> set (entries_below z t)"
    then obtain n where n: "n \<in> fst ` set z" "?P n" "key = drop (Suc (length t)) n" "v = the (map_of z n)"
      by (auto simp: entries_below_def)
    then have "n = t @ ''/'' @ key" using append_take_drop_id [of "Suc (length t)" n] by simp
    with n show "map_of z (t @ ''/'' @ key) = Some v" by (metis map_of_eq_None_iff option.collapse)
  next
    assume m: "map_of z (t @ ''/'' @ key) = Some v"
    then have "t @ ''/'' @ key \<in> fst ` set z" by (metis map_of_eq_None_iff option.distinct(1))
    with m show "(key, v) \<in> set (entries_below z t)"
      unfolding entries_below_def set_map set_filter set_remdups by (intro image_eqI [of _ _ "t @ ''/'' @ key"]) auto
  qed
  ultimately show ?thesis by (simp add: lists_subtree_def)
qed

lemma map_of_filter_name: "map_of (filter (\<lambda>e. fst e \<noteq> n) z) = (map_of z)(n := None)"
  by (induction z) (auto simp: fun_eq_iff)

lemma list_env_documented: "zephyr_documented list_env map_of"
  unfolding zephyr_documented_def using list_env_lists by (auto simp: list_env_def map_of_filter_name)

lemma list_env_reliable: "nvs_reliable list_env"
  by (auto simp: nvs_reliable_def list_env_def)

lemma holds_empty: "holds (map_of []) (\<lambda>_. Map.empty)"
  by (simp add: holds_def)

section \<open>Behaviour outside the specification\<close>

text \<open>Deleting all values of a key reports success when the subsystem fails to delete them.\<close>

lemma nvs_delete_all_hides_failure:
  assumes "zephyr_documented env contents" and "\<forall>z n. fst (settings_delete env z n) \<noteq> 0"
    and "\<forall>z t cb p err q z'. settings_load_subtree_direct env z t cb p = Some (err, q, z') \<longrightarrow> err = 0"
    and "holds (contents (nvsSettings s)) \<sigma>"
  shows "\<exists>t. nvs_otPlatSettingsDelete env s k (-1) = Some (OT_ERROR_NONE, t) \<and> holds (contents (nvsSettings t)) \<sigma>"
proof -
  let ?p = "PName (Some (key_name k))"
  have "\<not> (\<exists>err. err \<noteq> 0 \<and> settings_load_subtree_direct env (nvsSettings s) (key_name k) (subtree_cb_wipe env) ?p = Some (err, ?p, nvsSettings s))"
    using assms(3) by blast
  then obtain es where es: "lists_subtree (contents (nvsSettings s)) (key_name k) es"
    and l: "settings_load_subtree_direct env (nvsSettings s) (key_name k) (subtree_cb_wipe env) ?p =
      map_option (Pair 0) (visit (subtree_cb_wipe env) es ?p (nvsSettings s))"
    using assms(1) unfolding zephyr_documented_def by blast
  have "\<exists>z'. visit (subtree_cb_wipe env) es ?p (nvsSettings s) = Some (?p, z') \<and> contents z' = contents (nvsSettings s)"
  proof (cases es)
    case (Cons e es')
    then obtain i v where e: "e = (print_u i, v)" "i < 10 ^ 7"
      using key_entries [OF assms(4) es] holds_bound [OF assms(4)] by (metis list.set_intros(1) surj_pair)
    obtain err z' where d: "settings_delete env (nvsSettings s) (slot_name k i) = (err, z')" by fastforce
    with assms(2) have "err \<noteq> 0" by (metis fst_conv)
    moreover have "contents z' = contents (nvsSettings s)" using assms(1) d \<open>err \<noteq> 0\<close> by (simp add: zephyr_documented_def)
    ultimately show ?thesis
      using Cons e d slot_name_fits [OF e(2), of k] by (simp add: sprintf_name_def slot_name_def key_name_def)
  qed simp
  with l assms(4) show ?thesis by (auto simp: nvs_otPlatSettingsDelete_def key_name_fits)
qed

text \<open>An eleventh value hides the second one: its index starts with the same digit. It cannot be read itself.\<close>

lemma nvs_eleventh_value:
  "map_option fst (nvs_otPlatSettingsGet list_env \<lparr>nvsInitialized = True, nvsSettings = [(slot_name 3 10, [9]), (slot_name 3 1, [7])]\<rparr> 3 1 (Some [0]) (Some 1)) =
     Some (OT_ERROR_NONE, Some [9], Some 1)"
  "map_option fst (nvs_otPlatSettingsGet list_env \<lparr>nvsInitialized = True, nvsSettings = [(slot_name 3 10, [9]), (slot_name 3 1, [7])]\<rparr> 3 10 (Some [0]) (Some 1)) =
     Some (OT_ERROR_NOT_FOUND, Some [0], Some 0)"
  by code_simp+

section \<open>Properties\<close>



text \<open>
  C16. As long as every slot of the key has a number below ten, a read with room for at least one byte returns exactly
  what its slot holds: the first bytes of the value, as many as the caller has room for, with that number as the
  length, or the error and length zero for an empty slot or an index that no slot has, negative ones included. It
  changes nothing. The callback compares one digit only, so a slot numbered ten or above hides another one:
  \<open>nvs_eleventh_value\<close>.
\<close>

theorem nvs_get_exact:
  assumes "zephyr_documented env contents" and "nvs_reliable env" and "holds (contents (nvsSettings s)) \<sigma>"
    and "\<forall>j \<in> dom (\<sigma> k). j < 10" and "0 < l" and "unat l \<le> length dst"
  shows "nvs_otPlatSettingsGet env s k i (Some dst) (Some l) =
    Some (read_result (if 0 \<le> i then \<sigma> k (nat i) else None) dst l, s)"
  by (rule nvs_get_slot [OF assms])

theorem nvs_get_exact_witness:
  "nvs_otPlatSettingsGet list_env \<lparr>nvsInitialized = True, nvsSettings = [(slot_name 3 0, [7, 8])]\<rparr> 3 0 (Some [0, 0, 0]) (Some 1) =
     Some ((OT_ERROR_NONE, Some [7, 0, 0], Some 1), \<lparr>nvsInitialized = True, nvsSettings = [(slot_name 3 0, [7, 8])]\<rparr>)"
proof -
  have "holds (map_of [(slot_name 3 0, [7, 8])]) ((\<lambda>_. Map.empty)(3 := [0 \<mapsto> [7, 8]]))"
    using holds_update [OF holds_empty, of 0 "Some [7, 8]" 3] by (simp add: fun_upd_def)
  then show ?thesis
    using nvs_get_exact [OF list_env_documented list_env_reliable, of "\<lparr>nvsInitialized = True, nvsSettings = [(slot_name 3 0, [7, 8])]\<rparr>"
        "(\<lambda>_. Map.empty)(3 := [0 \<mapsto> [7, 8]])" 3 1 "[0, 0, 0]" 0]
    by (simp add: read_result_def)
qed

text \<open>
  C40. Deleting a value that is not the last of its key makes the next add overwrite the last one: with the slots below
  \<open>n\<close> filled, delete of slot \<open>i < n - 1\<close> followed by an add that is also accepted leaves the new value in
  the slot where the last value was and slot \<open>i\<close> empty; the value that was last is gone, all other slots keep theirs.
\<close>

theorem nvs_add_after_delete_overwrites:
  assumes "zephyr_documented env contents" and "nvs_reliable env" and "holds (contents (nvsSettings s)) \<sigma>"
    and "dom (\<sigma> k) = {..< n}" and "i + 1 < n" and "\<forall>j. card (dom (\<sigma> j)) < 10 ^ 7"
    and "v \<noteq> []" and "length v < 65536" and "exec_cmds (nvs_exec env) s [CDelete k (int i), CAdd k v] = Some (es, t)" and "set es = {OT_ERROR_NONE}"
  shows "holds (contents (nvsSettings t)) (\<sigma>(k := (\<sigma> k)(i := None, n - 1 \<mapsto> v)))"
proof -
  have n: "n < 10 ^ 7" using assms(4,6) by (metis card_lessThan)
  have c: "card (dom ((\<sigma> k)(i := None))) = n - 1" using assms(4,5) by simp
  have "\<forall>j. card (dom ((\<sigma>(k := (\<sigma> k)(i := None))) j)) < 10 ^ 7" using c n assms(6) by simp
  moreover obtain s1 e where "nvs_exec env s (CDelete k (int i)) = Some (OT_ERROR_NONE, s1)"
    "nvs_exec env s1 (CAdd k v) = Some (OT_ERROR_NONE, t)"
    using assms(9,10) by (auto split: bind_splits)
  ultimately show ?thesis
    using nvs_exec_ends [OF assms(1-3), of "CDelete k (int i)"] nvs_exec_ends [OF assms(1,2), of s1 "\<sigma>(k := (\<sigma> k)(i := None))" "CAdd k v"]
      assms(5-8) n c by (simp add: nvs_ends_def)
qed

theorem nvs_add_after_delete_overwrites_witness:
  "\<exists>t. exec_cmds (nvs_exec list_env) \<lparr>nvsInitialized = True, nvsSettings = [(slot_name 3 1, [9]), (slot_name 3 0, [7])]\<rparr>
      [CDelete 3 0, CAdd 3 [4]] = Some ([OT_ERROR_NONE, OT_ERROR_NONE], t) \<and>
    holds (map_of (nvsSettings t)) ((\<lambda>_. Map.empty)(3 := [1 \<mapsto> [4]]))"
proof -
  let ?s = "\<lparr>nvsInitialized = True, nvsSettings = [(slot_name 3 1, [9]), (slot_name 3 0, [7])]\<rparr>"
  let ?\<sigma> = "(\<lambda>_. Map.empty)(3 := [0 \<mapsto> [7], 1 \<mapsto> [9]]) :: slots"
  have "holds (map_of [(slot_name 3 1, [9]), (slot_name 3 0, [7])]) ?\<sigma>"
    using holds_update [OF holds_update [OF holds_empty, of 0 "Some [7]" 3], of 1 "Some [9]" 3] by simp
  then have h: "holds (map_of (nvsSettings ?s)) ?\<sigma>" by simp
  have d: "dom (?\<sigma> 3) = {..< 2}" by auto
  have c: "\<forall>j. card (dom (?\<sigma> j)) < 10 ^ 7" by simp
  have "map_option fst (exec_cmds (nvs_exec list_env) ?s [CDelete 3 (int 0), CAdd 3 [4]]) = Some [OT_ERROR_NONE, OT_ERROR_NONE]"
    by code_simp
  then obtain t where t: "exec_cmds (nvs_exec list_env) ?s [CDelete 3 (int 0), CAdd 3 [4]] = Some ([OT_ERROR_NONE, OT_ERROR_NONE], t)"
    by auto
  have "holds (map_of (nvsSettings t)) (?\<sigma>(3 := (?\<sigma> 3)(0 := None, 2 - 1 \<mapsto> [4])))"
    by (rule nvs_add_after_delete_overwrites [OF list_env_documented list_env_reliable h d _ c _ _ t]) simp_all
  moreover have "?\<sigma>(3 := (?\<sigma> 3)(0 := None, 2 - 1 \<mapsto> [4])) = (\<lambda>_. Map.empty)(3 := [1 \<mapsto> [4]])" by auto
  ultimately have "holds (map_of (nvsSettings t)) ((\<lambda>_. Map.empty)(3 := [1 \<mapsto> [4]]))" by (simp only:)
  moreover have "CDelete 3 (int 0) = CDelete 3 0" by simp
  ultimately show ?thesis using t by metis
qed

end
