(* ===== verification/K32w0_Flash.thy ===== *)
theory K32w0_Flash
  imports OtNxp_Prelude
begin

text \<open>
  \<^verbatim>\<open>src/k32w0/platform/flash.c\<close>: the flash interface of k32w0, which reads by blocks of 16 bytes and writes by pages.
  The flash driver of the SDK is the parameter \<open>flash_dev\<close> over a device state; a status is true when \<^verbatim>\<open>FLASH_DONE\<close> (or
  \<^verbatim>\<open>FLASH_FAIL\<close> for the blank check) is set. Addresses are 32 bits and wrap. \<open>None\<close> is a copy outside its buffers.
\<close>

section \<open>State and operations\<close>

definition BYTES_IN_ONE_READ :: u32 where "BYTES_IN_ONE_READ = 16"
definition BYTES_ALINGMENT :: u32 where "BYTES_ALINGMENT = 16"

record 'd flash_dev =
  FLASH_PAGE_SIZE :: u32
  FLASH_BlankCheck :: "'d \<Rightarrow> u32 \<Rightarrow> u32 \<Rightarrow> bool"
  FLASH_Erase :: "'d \<Rightarrow> u32 \<Rightarrow> u32 \<Rightarrow> bool \<times> 'd"
  FLASH_Program :: "'d \<Rightarrow> u32 \<Rightarrow> bytes \<Rightarrow> bool \<times> 'd"
  FLASH_Read :: "'d \<Rightarrow> u32 \<Rightarrow> bytes"

record 'd k32_flash =
  pageBuffer :: bytes
  sNvFlashStartAddr :: u32
  sNvFlashEndAddr :: u32
  flashDev :: 'd

definition otPlatFlashInit :: "u32 \<Rightarrow> u32 \<Rightarrow> 'd k32_flash \<Rightarrow> 'd k32_flash" where
  "otPlatFlashInit nv_start nv_end s = s\<lparr>sNvFlashStartAddr := nv_start, sNvFlashEndAddr := nv_end\<rparr>"

definition mapToNvFlashAddress :: "'d k32_flash \<Rightarrow> u32 \<Rightarrow> u32 option" where
  "mapToNvFlashAddress s aAddress =
     (let address = aAddress + sNvFlashStartAddr s in
      if address < sNvFlashStartAddr s \<or> address > sNvFlashEndAddr s then None else Some address)"

definition blankCheckAndErase :: "'d flash_dev \<Rightarrow> u32 \<Rightarrow> 'd \<Rightarrow> bool \<times> 'd" where
  "blankCheckAndErase dev pageAddr d =
     (if FLASH_BlankCheck dev d pageAddr (pageAddr + FLASH_PAGE_SIZE dev - 1)
      then FLASH_Erase dev d pageAddr (pageAddr + FLASH_PAGE_SIZE dev - 1)
      else (True, d))"

text \<open>\<open>pDst\<close> is the destination from its current position on, \<open>got\<close> what has been copied; reads \<open>i\<close> up to \<open>nbOfReads\<close> are left.\<close>

fun copyLoop :: "'d flash_dev \<Rightarrow> 'd \<Rightarrow> u32 \<Rightarrow> u32 \<Rightarrow> nat \<Rightarrow> nat \<Rightarrow> u32 \<Rightarrow> bytes \<Rightarrow> bytes" where
  "copyLoop dev d pSrc aligningOffset i 0 bytesLeft got = got"
| "copyLoop dev d pSrc aligningOffset i (Suc n) bytesLeft got =
     (let temp = FLASH_Read dev d (pSrc - aligningOffset + of_nat i * BYTES_IN_ONE_READ);
          room = (if i = 0 then BYTES_IN_ONE_READ - aligningOffset else BYTES_IN_ONE_READ);
          bytesToRead = (if bytesLeft < room then bytesLeft else room);
          part = take (unat bytesToRead) (if i = 0 then drop (unat aligningOffset) temp else temp)
      in copyLoop dev d pSrc aligningOffset (Suc i) n (bytesLeft - bytesToRead) (got @ part))"

definition copyFromFlash :: "'d flash_dev \<Rightarrow> 'd \<Rightarrow> bytes \<Rightarrow> u32 \<Rightarrow> u32 \<Rightarrow> bytes option" where
  "copyFromFlash dev d pDst pSrc cBytes =
     (let nbOfReads = cBytes div BYTES_IN_ONE_READ + (if cBytes mod BYTES_IN_ONE_READ \<noteq> 0 then 1 else 0)
      in wr_bytes 0 (copyLoop dev d pSrc (pSrc mod BYTES_ALINGMENT) 0 (unat nbOfReads) cBytes []) pDst)"

definition utilsFlashErasePage :: "'d flash_dev \<Rightarrow> u32 \<Rightarrow> 'd k32_flash \<Rightarrow> otError \<times> 'd k32_flash" where
  "utilsFlashErasePage dev aAddress s =
     (case mapToNvFlashAddress s aAddress of
        None \<Rightarrow> (OT_ERROR_INVALID_ARGS, s)
      | Some address \<Rightarrow>
          if address mod FLASH_PAGE_SIZE dev = 0
          then (case blankCheckAndErase dev address (flashDev s) of (ok, d) \<Rightarrow>
                  (if ok then OT_ERROR_NONE else OT_ERROR_FAILED, s\<lparr>flashDev := d\<rparr>))
          else (OT_ERROR_INVALID_ARGS, s))"

text \<open>Erase and program one page; the second value is false when a step failed, after which the write is given up.\<close>

definition page_program :: "'d flash_dev \<Rightarrow> u32 \<Rightarrow> bytes \<Rightarrow> 'd \<Rightarrow> bool \<times> 'd" where
  "page_program dev address data d =
     (case blankCheckAndErase dev address d of (ok, d1) \<Rightarrow> if \<not> ok then (False, d1) else FLASH_Program dev d1 address data)"

fun pagesLoop :: "'d flash_dev \<Rightarrow> nat \<Rightarrow> u32 \<Rightarrow> bytes \<Rightarrow> 'd \<Rightarrow> bool \<times> u32 \<times> bytes \<times> 'd" where
  "pagesLoop dev 0 address aData d = (True, address, aData, d)"
| "pagesLoop dev (Suc n) address aData d =
     (case page_program dev address (take (unat (FLASH_PAGE_SIZE dev)) aData) d of (ok, d1) \<Rightarrow>
        if \<not> ok then (False, address, aData, d1)
        else pagesLoop dev n (address + FLASH_PAGE_SIZE dev) (drop (unat (FLASH_PAGE_SIZE dev)) aData) d1)"

text \<open>The part of a write after the unaligned head: whole pages, then the start of one more page.\<close>

definition write_aligned :: "'d flash_dev \<Rightarrow> u32 \<Rightarrow> bytes \<Rightarrow> u32 \<Rightarrow> 'd k32_flash \<Rightarrow> 'd k32_flash" where
  "write_aligned dev address aData aSize s =
     (let bytes = aSize AND NOT (FLASH_PAGE_SIZE dev - 1) in
      case pagesLoop dev (unat (bytes div FLASH_PAGE_SIZE dev)) address aData (flashDev s) of (ok, address, aData, d) \<Rightarrow>
        let s = s\<lparr>flashDev := d\<rparr>; aSize = aSize - bytes in
        if \<not> ok \<or> aSize = 0 then s
        else s\<lparr>flashDev := snd (page_program dev address (take (unat aSize) aData) d)\<rparr>)"

definition write_head :: "'d flash_dev \<Rightarrow> u32 \<Rightarrow> u32 \<Rightarrow> bytes \<Rightarrow> u32 \<Rightarrow> 'd k32_flash \<Rightarrow> (bool \<times> 'd k32_flash) option" where
  "write_head dev alignAddr bytes aData unalignedBytes s =
     do { buf \<leftarrow> copyFromFlash dev (flashDev s) (pageBuffer s) alignAddr (FLASH_PAGE_SIZE dev);
          part \<leftarrow> rd_bytes 0 (unat unalignedBytes) aData;
          buf \<leftarrow> wr_bytes (unat bytes) part buf;
          case page_program dev alignAddr buf (flashDev s) of (ok, d) \<Rightarrow> Some (ok, s\<lparr>pageBuffer := buf, flashDev := d\<rparr>) }"

definition otPlatFlashWrite :: "'d flash_dev \<Rightarrow> u32 \<Rightarrow> bytes \<Rightarrow> u32 \<Rightarrow> 'd k32_flash \<Rightarrow> 'd k32_flash option" where
  "otPlatFlashWrite dev aOffset aData aSize s =
     (case mapToNvFlashAddress s aOffset of
        None \<Rightarrow> Some s
      | Some address \<Rightarrow>
          if address + aSize \<le> sNvFlashEndAddr s
          then (let alignAddr = address - address mod FLASH_PAGE_SIZE dev; bytes = address - alignAddr in
                if bytes \<noteq> 0
                then (let room = FLASH_PAGE_SIZE dev - bytes;
                          unalignedBytes = (if room > aSize then aSize else room)
                      in do { (ok, s) \<leftarrow> write_head dev alignAddr bytes aData unalignedBytes s;
                              Some (if ok then write_aligned dev (address + unalignedBytes) (drop (unat unalignedBytes) aData) (aSize - unalignedBytes) s
                                    else s) })
                else Some (write_aligned dev address aData aSize s))
          else Some s)"

definition otPlatFlashRead :: "'d flash_dev \<Rightarrow> u32 \<Rightarrow> bytes \<Rightarrow> u32 \<Rightarrow> 'd k32_flash \<Rightarrow> bytes option" where
  "otPlatFlashRead dev aOffset aData aSize s =
     (case mapToNvFlashAddress s aOffset of
        None \<Rightarrow> Some aData
      | Some address \<Rightarrow>
          if address + aSize \<le> sNvFlashEndAddr s then copyFromFlash dev (flashDev s) aData address aSize else Some aData)"

end
