(* ===== verification/K32w0_Flash_Props.thy ===== *)
theory K32w0_Flash_Props
  imports K32w0_Flash
begin

text \<open>
  What the flash interface of k32w0 reads and writes, in terms of the bytes of the flash: exact effect of a write on
  every byte, exact result of a read, the round trip, and the two cases in which they fall short.
\<close>

section \<open>What the flash driver documents\<close>

text \<open>
  \<open>cells\<close> are the bytes of the device by address and \<open>e\<close> is the value of an erased byte. Reads return the 16 bytes at an
  aligned address. A page that is not reported as written is blank; erasing a page and programming bytes that are
  blank do what they say or report a failure.
\<close>

definition blank :: "('d \<Rightarrow> nat \<Rightarrow> u8) \<Rightarrow> u8 \<Rightarrow> 'd \<Rightarrow> nat \<Rightarrow> nat \<Rightarrow> bool" where
  "blank cells e d a n \<longleftrightarrow> (\<forall>x. a \<le> x \<and> x < a + n \<longrightarrow> cells d x = e)"

definition put_cells :: "(nat \<Rightarrow> u8) \<Rightarrow> nat \<Rightarrow> bytes \<Rightarrow> nat \<Rightarrow> u8" where
  "put_cells c a xs = (\<lambda>x. if a \<le> x \<and> x < a + length xs then xs ! (x - a) else c x)"

definition flash_documented :: "'d flash_dev \<Rightarrow> ('d \<Rightarrow> nat \<Rightarrow> u8) \<Rightarrow> u8 \<Rightarrow> bool" where
  "flash_documented dev cells e \<longleftrightarrow>
     (\<exists>k. 4 \<le> k \<and> k < 16 \<and> FLASH_PAGE_SIZE dev = 2 ^ k) \<and>
     (\<forall>d a. unat a mod 16 = 0 \<longrightarrow> FLASH_Read dev d a = map (cells d) [unat a..<unat a + 16]) \<and>
     (\<forall>d a. \<not> FLASH_BlankCheck dev d a (a + FLASH_PAGE_SIZE dev - 1) \<longrightarrow> blank cells e d (unat a) (unat (FLASH_PAGE_SIZE dev))) \<and>
     (\<forall>d a d'. FLASH_Erase dev d a (a + FLASH_PAGE_SIZE dev - 1) = (True, d') \<and> unat a mod unat (FLASH_PAGE_SIZE dev) = 0 \<longrightarrow>
        cells d' = put_cells (cells d) (unat a) (replicate (unat (FLASH_PAGE_SIZE dev)) e)) \<and>
     (\<forall>d a xs d'. FLASH_Program dev d a xs = (True, d') \<and> unat a mod unat (FLASH_PAGE_SIZE dev) = 0 \<and>
        length xs \<le> unat (FLASH_PAGE_SIZE dev) \<and> blank cells e d (unat a) (length xs) \<longrightarrow> cells d' = put_cells (cells d) (unat a) xs)"

definition flash_reliable :: "'d flash_dev \<Rightarrow> bool" where
  "flash_reliable dev \<longleftrightarrow> (\<forall>d a b. fst (FLASH_Erase dev d a b)) \<and> (\<forall>d a xs. fst (FLASH_Program dev d a xs))"

abbreviation psize :: "'d flash_dev \<Rightarrow> nat" where "psize dev \<equiv> unat (FLASH_PAGE_SIZE dev)"

lemma psize_facts:
  assumes "flash_documented dev cells e"
  shows "\<exists>k. psize dev = 2 ^ k \<and> FLASH_PAGE_SIZE dev = 2 ^ k \<and> 4 \<le> k \<and> k < 16" and "16 dvd psize dev" and "0 < psize dev" and "psize dev < 65536"
proof -
  obtain k where k: "4 \<le> k" "k < 16" "FLASH_PAGE_SIZE dev = 2 ^ k" using assms unfolding flash_documented_def by blast
  have "(2 :: nat) ^ k < 2 ^ 32" using k(2) by (intro power_strict_increasing) simp_all
  moreover have "psize dev = unat (of_nat (2 ^ k) :: u32)" using k(3) by simp
  ultimately have p: "psize dev = 2 ^ k" by (simp only: unat_of_nat) simp
  show "\<exists>k. psize dev = 2 ^ k \<and> FLASH_PAGE_SIZE dev = 2 ^ k \<and> 4 \<le> k \<and> k < 16" using k p by blast
  show "16 dvd psize dev" unfolding p using le_imp_power_dvd [OF k(1), of "2 :: nat"] by simp
  show "0 < psize dev" unfolding p by simp
  show "psize dev < 65536" unfolding p using power_strict_increasing [OF k(2), of "2 :: nat"] by simp
qed

section \<open>Reading\<close>

lemma upt_split: "a \<le> b \<Longrightarrow> b \<le> c \<Longrightarrow> [a..<c] = [a..<b] @ [b..<c]"
  by (metis le_Suc_ex upt_add_eq_append)

lemma min_step: "k \<le> 16 \<Longrightarrow> \<not> l \<le> 16 - k \<Longrightarrow> min l (16 * Suc n - k) = (16 - k) + min (l - (16 - k)) (16 * n)" for l :: nat
  by (simp add: min_def; arith)

lemma copyLoop_reads:
  assumes "flash_documented dev cells e" and "A mod 16 = 0" and "off < 16" and "unat pSrc = A + off" and "unat ao = off"
  shows "A + 16 * (i + n) \<le> 2 ^ 32 \<Longrightarrow>
    copyLoop dev d pSrc ao i n left got =
      got @ map (cells d) [A + 16 * i + (if i = 0 then off else 0)..<A + 16 * i + (if i = 0 then off else 0) + min (unat left) (16 * n - (if i = 0 then off else 0))]"
proof (induction n arbitrary: i left got)
  case (Suc n)
  let ?o = "if i = 0 then off else 0" and ?addr = "pSrc - ao + of_nat i * BYTES_IN_ONE_READ :: u32"
  let ?room = "if i = 0 then BYTES_IN_ONE_READ - ao else BYTES_IN_ONE_READ"
  let ?get = "if left < ?room then left else ?room"
  have "unat (pSrc - ao) = A" using assms(4,5) by (simp add: unat_sub word_le_nat_alt)
  then have addr: "unat ?addr = A + 16 * i"
    using Suc(2) by (simp add: unat_word_ariths BYTES_IN_ONE_READ_def unat_of_nat)
  have temp: "FLASH_Read dev d ?addr = map (cells d) [A + 16 * i..<A + 16 * i + 16]"
    using assms(1,2) addr unfolding flash_documented_def by (metis mod_mult_self2)
  have room: "unat ?room = 16 - ?o" using assms(3,5) by (simp add: BYTES_IN_ONE_READ_def unat_sub word_le_nat_alt)
  have get: "unat ?get = min (unat left) (16 - ?o)" using room by (simp add: word_less_nat_alt min_def)
  have part: "take (unat ?get) (if i = 0 then drop (unat ao) (FLASH_Read dev d ?addr) else FLASH_Read dev d ?addr) =
      map (cells d) [A + 16 * i + ?o..<A + 16 * i + ?o + unat ?get]"
    unfolding temp using assms(3,5) get by (auto simp: drop_map take_map)
  have rest: "unat (left - ?get) = unat left - unat ?get" by (intro unat_sub) (simp add: word_le_nat_alt get)
  have "copyLoop dev d pSrc ao i (Suc n) left got =
      copyLoop dev d pSrc ao (Suc i) n (left - ?get) (got @ map (cells d) [A + 16 * i + ?o..<A + 16 * i + ?o + unat ?get])"
    by (simp only: copyLoop.simps Let_def part)
  also have "\<dots> = got @ map (cells d) ([A + 16 * i + ?o..<A + 16 * i + ?o + unat ?get] @
      [A + 16 * Suc i..<A + 16 * Suc i + min (unat left - unat ?get) (16 * n)])"
    using Suc(1) [of "Suc i" "left - ?get"] Suc(2) by (simp add: rest)
  also have "[A + 16 * i + ?o..<A + 16 * i + ?o + unat ?get] @ [A + 16 * Suc i..<A + 16 * Suc i + min (unat left - unat ?get) (16 * n)] =
      [A + 16 * i + ?o..<A + 16 * i + ?o + min (unat left) (16 * Suc n - ?o)]"
  proof (cases "unat left \<le> 16 - ?o")
    case True
    then show ?thesis using get by simp
  next
    case False
    then have g: "unat ?get = 16 - ?o" using get by simp
    have o: "?o \<le> 16" using assms(3) by simp
    have m: "A + 16 * i + ?o + unat ?get = A + 16 * Suc i" using g o by simp
    have "min (unat left) (16 * Suc n - ?o) = (16 - ?o) + min (unat left - (16 - ?o)) (16 * n)" using min_step [OF o False] .
    then have "A + 16 * i + ?o + min (unat left) (16 * Suc n - ?o) = A + 16 * Suc i + min (unat left - unat ?get) (16 * n)" using g o by simp
    then show ?thesis unfolding m by (simp only:) (rule upt_split [symmetric], use g o in simp_all)
  qed
  finally show ?case .
qed simp

text \<open>How many bytes a copy delivers: the first block is cut by the offset of the source, and no block is added for that.\<close>

definition delivered_bytes :: "nat \<Rightarrow> nat \<Rightarrow> nat" where
  "delivered_bytes a n = min n (16 * ((n + 15) div 16) - a mod 16)"

lemma round_up: "((n :: nat) + 15) div 16 = n div 16 + (if n mod 16 \<noteq> 0 then 1 else 0)"
proof -
  have "n mod 16 < 16" by simp
  then have "(n mod 16 + 15) div 16 = (if n mod 16 \<noteq> 0 then 1 else 0)" by (auto intro: div_nat_eqI)
  then show ?thesis by (simp add: div_add1_eq [of n 15])
qed

lemma copyFromFlash_exact:
  assumes "flash_documented dev cells e" and "unat pSrc + unat n + 32 \<le> 2 ^ 32" and "unat n \<le> length dst"
  shows "copyFromFlash dev d dst pSrc n =
    Some (map (cells d) [unat pSrc..<unat pSrc + delivered_bytes (unat pSrc) (unat n)] @ drop (delivered_bytes (unat pSrc) (unat n)) dst)"
proof -
  let ?nb = "n div BYTES_IN_ONE_READ + (if n mod BYTES_IN_ONE_READ \<noteq> 0 then 1 else 0)" and ?a = "unat pSrc" and ?m = "delivered_bytes (unat pSrc) (unat n)"
  have "unat (n div 16) = unat n div 16" "unat (n mod 16) = unat n mod 16" by (simp_all add: unat_div_distrib unat_mod_distrib)
  then have nb: "unat ?nb = (unat n + 15) div 16"
    using assms(2) round_up [of "unat n"] by (auto simp: BYTES_IN_ONE_READ_def unat_word_ariths word_unat_eq_iff)
  have off: "unat (pSrc mod BYTES_ALINGMENT) = ?a mod 16" by (simp add: BYTES_ALINGMENT_def unat_mod_distrib)
  have "(?a - ?a mod 16) + 16 * (0 + unat ?nb) \<le> ?a + (unat n + 15)"
    unfolding nb by (intro add_mono) (simp_all only: diff_le_self add_0 times_div_less_eq_dividend)
  also have "\<dots> \<le> 2 ^ 32" using assms(2) by simp
  finally have "(?a - ?a mod 16) + 16 * (0 + unat ?nb) \<le> 2 ^ 32" .
  then have "copyLoop dev d pSrc (pSrc mod BYTES_ALINGMENT) 0 (unat ?nb) n [] = map (cells d) [?a..<?a + ?m]"
    using copyLoop_reads [OF assms(1), of "?a - ?a mod 16" "?a mod 16" pSrc "pSrc mod BYTES_ALINGMENT" 0 "unat ?nb" d n "[]"] off
    by (simp add: nb delivered_bytes_def)
  moreover have "?m \<le> length dst" using assms(3) by (simp add: delivered_bytes_def)
  ultimately show ?thesis by (simp add: copyFromFlash_def wr_bytes_def Let_def)
qed

section \<open>Writing\<close>

lemma put_cells_append: "put_cells (put_cells c a xs) (a + length xs) ys = put_cells c a (xs @ ys)"
  by (auto simp: put_cells_def fun_eq_iff nth_append)

lemma put_cells_over: "length xs \<le> length ys \<Longrightarrow> put_cells (put_cells c a xs) a ys = put_cells c a ys"
  by (auto simp: put_cells_def fun_eq_iff)

lemma put_cells_prefix: "length ys \<le> length xs \<Longrightarrow> put_cells (put_cells c a xs) a ys = put_cells c a (ys @ drop (length ys) xs)"
  by (auto simp: put_cells_def fun_eq_iff nth_append)

lemma put_cells_same: "put_cells c a (map c [a..<a + n]) = c"
  by (auto simp: put_cells_def fun_eq_iff)

lemma put_cells_Nil [simp]: "put_cells c a [] = c"
  by (auto simp: put_cells_def fun_eq_iff)

lemma flash_program:
  "flash_documented dev cells e \<Longrightarrow> FLASH_Program dev d a xs = (True, d') \<Longrightarrow> unat a mod psize dev = 0 \<Longrightarrow>
   length xs \<le> psize dev \<Longrightarrow> blank cells e d (unat a) (length xs) \<Longrightarrow> cells d' = put_cells (cells d) (unat a) xs"
  unfolding flash_documented_def by (elim conjE) simp

lemma blank_put: "blank cells e d a n \<Longrightarrow> put_cells (cells d) a (replicate n e) = cells d"
  by (auto simp: blank_def put_cells_def fun_eq_iff)

lemma put_blank: "cells d = put_cells c a (replicate n e) \<Longrightarrow> k \<le> n \<Longrightarrow> blank cells e d a k"
  by (auto simp: blank_def put_cells_def)

lemma erase_page:
  assumes "flash_documented dev cells e" and "flash_reliable dev" and "unat a mod psize dev = 0"
  shows "\<exists>d'. blankCheckAndErase dev a d = (True, d') \<and> cells d' = put_cells (cells d) (unat a) (replicate (psize dev) e)"
proof (cases "FLASH_BlankCheck dev d a (a + FLASH_PAGE_SIZE dev - 1)")
  case True
  obtain d' where "FLASH_Erase dev d a (a + FLASH_PAGE_SIZE dev - 1) = (True, d')"
    using assms(2) unfolding flash_reliable_def by (metis prod.collapse)
  then show ?thesis using True assms(1,3) unfolding flash_documented_def blankCheckAndErase_def by auto
next
  case False
  then have "blank cells e d (unat a) (psize dev)" using assms(1) unfolding flash_documented_def by blast
  then show ?thesis using False blank_put [of cells e d] by (simp add: blankCheckAndErase_def)
qed

lemma page_program_cells:
  assumes "flash_documented dev cells e" and "flash_reliable dev" and "unat a mod psize dev = 0" and "length xs \<le> psize dev"
  shows "\<exists>d'. page_program dev a xs d = (True, d') \<and> cells d' = put_cells (cells d) (unat a) (xs @ replicate (psize dev - length xs) e)"
proof -
  obtain d1 where d1: "blankCheckAndErase dev a d = (True, d1)" "cells d1 = put_cells (cells d) (unat a) (replicate (psize dev) e)"
    using erase_page [OF assms(1-3)] by blast
  obtain d' where d': "FLASH_Program dev d1 a xs = (True, d')" using assms(2) unfolding flash_reliable_def by (metis prod.collapse)
  have "blank cells e d1 (unat a) (length xs)" using d1(2) assms(4) by (rule put_blank)
  then have "cells d' = put_cells (cells d1) (unat a) xs" using flash_program [OF assms(1) d' assms(3,4)] by blast
  then show ?thesis using d1 d' assms(4) put_cells_prefix [of xs "replicate (psize dev) e"] by (simp add: page_program_def)
qed

lemma pagesLoop_cells:
  assumes "flash_documented dev cells e" and "flash_reliable dev"
  shows "unat a mod psize dev = 0 \<Longrightarrow> n * psize dev \<le> length data \<Longrightarrow> unat a + n * psize dev < 2 ^ 32 \<Longrightarrow>
    \<exists>a' d'. pagesLoop dev n a data d = (True, a', drop (n * psize dev) data, d') \<and> unat a' = unat a + n * psize dev \<and>
      cells d' = put_cells (cells d) (unat a) (take (n * psize dev) data)"
proof (induction n arbitrary: a data d)
  case (Suc n)
  let ?P = "psize dev" and ?a = "a + FLASH_PAGE_SIZE dev"
  have len: "length (take ?P data) = ?P" using Suc(3) by simp
  obtain d1 where d1: "page_program dev a (take ?P data) d = (True, d1)" "cells d1 = put_cells (cells d) (unat a) (take ?P data)"
    using page_program_cells [OF assms Suc(2), of "take ?P data" d] len by auto
  have a: "unat ?a = unat a + ?P" using Suc(4) by (simp add: unat_word_ariths)
  have "unat ?a mod ?P = 0" using a Suc(2) by simp
  then obtain a' d' where d': "pagesLoop dev n ?a (drop ?P data) d1 = (True, a', drop (n * ?P) (drop ?P data), d')"
    "unat a' = unat ?a + n * ?P" "cells d' = put_cells (cells d1) (unat ?a) (take (n * ?P) (drop ?P data))"
    using Suc(1) [of ?a "drop ?P data" d1] Suc(3,4) a by (auto simp: le_diff_conv2 algebra_simps)
  have "cells d' = put_cells (cells d) (unat a) (take ?P data @ take (n * ?P) (drop ?P data))"
    using d'(3) d1(2) a put_cells_append [of "cells d" "unat a" "take ?P data"] len by simp
  also have "take ?P data @ take (n * ?P) (drop ?P data) = take (Suc n * ?P) data" by (simp add: take_add)
  finally show ?case using d1(1) d' a by (simp add: add.commute)
qed simp

text \<open>The bytes of a whole number of pages, filled up with erased bytes.\<close>

definition padded :: "nat \<Rightarrow> u8 \<Rightarrow> bytes \<Rightarrow> bytes" where
  "padded n e xs = xs @ replicate ((n - length xs mod n) mod n) e"

lemma whole_pages:
  assumes "flash_documented dev cells e"
  shows "unat (n AND NOT (FLASH_PAGE_SIZE dev - 1)) = (unat n div psize dev) * psize dev"
proof -
  obtain k where k: "psize dev = 2 ^ k" "FLASH_PAGE_SIZE dev = 2 ^ k" "k < 16" using psize_facts(1) [OF assms] by blast
  have "n AND NOT (FLASH_PAGE_SIZE dev - 1) = push_bit k (drop_bit k n)"
    unfolding k(2) mask_eq_exp_minus_1 [symmetric] by (rule bit_word_eqI) (auto simp: bit_simps)
  moreover have "push_bit k (drop_bit k n) + take_bit k n = n" by (rule bits_ident)
  ultimately have "n AND NOT (FLASH_PAGE_SIZE dev - 1) = n - take_bit k n" by (simp add: eq_diff_eq)
  moreover have t: "unat (take_bit k n) = unat n mod 2 ^ k"
    by (simp only: unsigned_take_bit_eq) (simp only: take_bit_eq_mod)
  moreover have "take_bit k n \<le> n" unfolding word_le_nat_alt t by simp
  ultimately show ?thesis by (simp add: unat_sub k(1) minus_mod_eq_div_mult)
qed

lemma write_aligned_cells:
  assumes "flash_documented dev cells e" and "flash_reliable dev" and "unat a mod psize dev = 0" and "length data = unat n"
    and "unat a + unat n + psize dev < 2 ^ 32"
  shows "\<exists>d'. write_aligned dev a data n s = s\<lparr>flashDev := d'\<rparr> \<and> cells d' = put_cells (cells (flashDev s)) (unat a) (padded (psize dev) e data)"
proof -
  let ?P = "psize dev" and ?b = "n AND NOT (FLASH_PAGE_SIZE dev - 1)" and ?k = "unat n div psize dev"
  note b = whole_pages [OF assms(1), of n] and pos = psize_facts(3) [OF assms(1)]
  have kb: "unat (?b div FLASH_PAGE_SIZE dev) = ?k" using b pos by (simp add: unat_div_distrib)
  have le: "?k * ?P \<le> unat n" by simp
  obtain a' d1 where d1: "pagesLoop dev ?k a data (flashDev s) = (True, a', drop (?k * ?P) data, d1)" "unat a' = unat a + ?k * ?P"
    "cells d1 = put_cells (cells (flashDev s)) (unat a) (take (?k * ?P) data)"
    using pagesLoop_cells [OF assms(1,2,3), of ?k data "flashDev s"] assms(4,5) le by fastforce
  have left: "unat (n - ?b) = unat n mod ?P"
    using b le by (simp add: unat_sub word_le_nat_alt minus_div_mult_eq_mod)
  have data: "take (?k * ?P) data @ drop (?k * ?P) data = data" by simp
  show ?thesis
  proof (cases "unat n mod ?P = 0")
    case True
    then have "n - ?b = 0" using left by (simp add: unat_eq_zero)
    moreover have "take (?k * ?P) data = data" using True assms(4) by auto
    ultimately show ?thesis using d1 True assms(4) kb by (auto simp: write_aligned_def Let_def padded_def)
  next
    case False
    let ?t = "drop (?k * ?P) data"
    have len: "length ?t = unat n mod ?P" using assms(4) by (simp add: minus_div_mult_eq_mod)
    have ml: "unat n mod ?P < ?P" using pos by simp
    have "unat a' mod ?P = 0" using d1(2) assms(3) by simp
    then obtain d2 where d2: "page_program dev a' ?t d1 = (True, d2)"
      "cells d2 = put_cells (cells d1) (unat a') (?t @ replicate (?P - length ?t) e)"
      using page_program_cells [OF assms(1,2), of a' ?t d1] len ml by auto
    have "length (take (?k * ?P) data) = ?k * ?P" using assms(4) le by simp
    then have "cells d2 = put_cells (cells (flashDev s)) (unat a) (take (?k * ?P) data @ ?t @ replicate (?P - length ?t) e)"
      using d2(2) d1(2,3) put_cells_append [of "cells (flashDev s)" "unat a" "take (?k * ?P) data"] by metis
    also have "(?P - length data mod ?P) mod ?P = ?P - length ?t" using False ml len assms(4) by simp
    then have "take (?k * ?P) data @ ?t @ replicate (?P - length ?t) e = padded ?P e data"
      by (simp only: padded_def append_assoc [symmetric] append_take_drop_id)
    finally have "cells d2 = put_cells (cells (flashDev s)) (unat a) (padded ?P e data)" .
    moreover have "n - ?b \<noteq> 0" using left False by auto
    ultimately show ?thesis using d1(1) d2(1) kb len left by (auto simp: write_aligned_def Let_def)
  qed
qed

section \<open>The whole write\<close>

text \<open>The part of a write in the page where it starts, when it does not start at the beginning of that page.\<close>

definition head_len :: "nat \<Rightarrow> nat \<Rightarrow> nat \<Rightarrow> nat" where
  "head_len p a n = (if a mod p = 0 then 0 else min (p - a mod p) n)"

text \<open>The bytes after a write that it erases.\<close>

definition lost_bytes :: "nat \<Rightarrow> nat \<Rightarrow> nat \<Rightarrow> nat" where
  "lost_bytes p a n = (p - (n - head_len p a n) mod p) mod p"

definition flash_ok :: "'d flash_dev \<Rightarrow> 'd k32_flash \<Rightarrow> bool" where
  "flash_ok dev s \<longleftrightarrow> length (pageBuffer s) = psize dev \<and> unat (sNvFlashEndAddr s) + 2 * 65536 \<le> 2 ^ 32"

definition in_region :: "'d k32_flash \<Rightarrow> u32 \<Rightarrow> nat \<Rightarrow> bool" where
  "in_region s off n \<longleftrightarrow> unat (sNvFlashStartAddr s) + unat off + n \<le> unat (sNvFlashEndAddr s)"

abbreviation nv_addr :: "'d k32_flash \<Rightarrow> u32 \<Rightarrow> nat" where
  "nv_addr s off \<equiv> unat (sNvFlashStartAddr s) + unat off"

lemma map_address:
  assumes "in_region s off (unat n)"
  shows "mapToNvFlashAddress s off = Some (off + sNvFlashStartAddr s)" and "unat (off + sNvFlashStartAddr s) = nv_addr s off"
    and "off + sNvFlashStartAddr s + n \<le> sNvFlashEndAddr s"
proof -
  have e: "unat (sNvFlashEndAddr s) < 2 ^ 32" using unsigned_less [of "sNvFlashEndAddr s"] by simp
  then show a: "unat (off + sNvFlashStartAddr s) = nv_addr s off"
    using assms by (simp add: in_region_def unat_word_ariths)
  show "mapToNvFlashAddress s off = Some (off + sNvFlashStartAddr s)"
    using assms a by (simp add: mapToNvFlashAddress_def Let_def word_less_nat_alt in_region_def)
  have "unat (off + sNvFlashStartAddr s + n) = nv_addr s off + unat n"
    using assms a e by (simp add: in_region_def unat_word_ariths)
  then show "off + sNvFlashStartAddr s + n \<le> sNvFlashEndAddr s" using assms by (simp add: word_le_nat_alt in_region_def)
qed

lemma delivered_aligned: "a mod 16 = 0 \<Longrightarrow> delivered_bytes a n = n"
  unfolding delivered_bytes_def by (simp add: min_def)

lemma copy_page:
  assumes "flash_documented dev cells e" and "unat a mod psize dev = 0" and "unat a + 2 * 65536 \<le> 2 ^ 32" and "length dst = psize dev"
  shows "copyFromFlash dev d dst a (FLASH_PAGE_SIZE dev) = Some (map (cells d) [unat a..<unat a + psize dev])"
proof -
  have "unat a mod 16 = 0" using assms(2) psize_facts(2) [OF assms(1)] by (metis dvd_trans mod_0_imp_dvd dvd_imp_mod_0)
  then have "delivered_bytes (unat a) (psize dev) = psize dev" by (rule delivered_aligned)
  then show ?thesis
    using copyFromFlash_exact [OF assms(1), of a "FLASH_PAGE_SIZE dev" dst d] assms(3,4) psize_facts(4) [OF assms(1)] by simp
qed

lemma put_cells_inside:
  assumes "b + length xs \<le> n"
  shows "put_cells c a (take b (map c [a..<a + n]) @ xs @ drop (b + length xs) (map c [a..<a + n])) = put_cells c (a + b) xs"
  using assms by (auto simp: put_cells_def fun_eq_iff nth_append)

lemma write_head_cells:
  assumes "flash_documented dev cells e" and "flash_reliable dev" and "flash_ok dev s" and "unat a mod psize dev = 0"
    and "unat a + 2 * 65536 \<le> 2 ^ 32" and "unat b + unat m \<le> psize dev" and "unat m \<le> length data"
  shows "\<exists>t. write_head dev a b data m s = Some (True, t) \<and> cells (flashDev t) = put_cells (cells (flashDev s)) (unat a + unat b) (take (unat m) data) \<and>
    flash_ok dev t \<and> sNvFlashStartAddr t = sNvFlashStartAddr s \<and> sNvFlashEndAddr t = sNvFlashEndAddr s"
proof -
  let ?c = "cells (flashDev s)" and ?P = "psize dev" and ?xs = "take (unat m) data"
  let ?old = "map ?c [unat a..<unat a + ?P]"
  let ?buf = "take (unat b) ?old @ ?xs @ drop (unat b + length ?xs) ?old"
  have len: "length ?buf = ?P" using assms(6,7) by simp
  obtain d' where d': "page_program dev a ?buf (flashDev s) = (True, d')" "cells d' = put_cells ?c (unat a) ?buf"
    using page_program_cells [OF assms(1,2,4), of ?buf "flashDev s"] len by auto
  have buf: "wr_bytes (unat b) ?xs ?old = Some ?buf" using assms(6,7) by (simp add: wr_bytes_def)
  have c: "cells d' = put_cells ?c (unat a + unat b) ?xs" unfolding d'(2) using assms(6,7) by (intro put_cells_inside) simp
  have "copyFromFlash dev (flashDev s) (pageBuffer s) a (FLASH_PAGE_SIZE dev) = Some ?old"
    using copy_page [OF assms(1,4,5)] assms(3) by (simp add: flash_ok_def)
  moreover have "rd_bytes 0 (unat m) data = Some ?xs" using assms(7) by (simp add: rd_bytes_def)
  ultimately have "write_head dev a b data m s = Some (True, s\<lparr>pageBuffer := ?buf, flashDev := d'\<rparr>)"
    using buf d'(1) by (simp add: write_head_def del: length_take)
  moreover have "flash_ok dev (s\<lparr>pageBuffer := ?buf, flashDev := d'\<rparr>)" using assms(3) len by (simp add: flash_ok_def)
  ultimately show ?thesis using c by (intro exI [of _ "s\<lparr>pageBuffer := ?buf, flashDev := d'\<rparr>"]) simp
qed

lemma head_len_facts:
  assumes "0 < p" and "a mod p \<noteq> 0"
  shows "head_len p a n \<le> n" and "a mod p + head_len p a n \<le> p" and "head_len p a n = n \<or> (a + head_len p a n) mod p = 0"
proof -
  have lt: "a mod p < p" using assms(1) by simp
  show "head_len p a n \<le> n" "a mod p + head_len p a n \<le> p" using lt by (auto simp: head_len_def)
  have "(a + (p - a mod p)) mod p = 0" using lt by (metis add_diff_inverse_nat less_imp_not_less mod_add_left_eq mod_self)
  then show "head_len p a n = n \<or> (a + head_len p a n) mod p = 0" using assms(2) by (auto simp: head_len_def min_def)
qed

lemma write_unaligned_cells:
  assumes "flash_documented dev cells e" and "flash_reliable dev" and "flash_ok dev s" and "length aData = unat n"
    and "unat A mod psize dev \<noteq> 0" and "unat A + unat n + 2 * 65536 \<le> 2 ^ 32" and "unat b = unat A mod psize dev"
    and "unat al = unat A - unat A mod psize dev" and "unat u = head_len (psize dev) (unat A) (unat n)"
  shows "\<exists>t. do { (ok, s) \<leftarrow> write_head dev al b aData u s;
        Some (if ok then write_aligned dev (A + u) (drop (unat u) aData) (n - u) s else s) } = Some t \<and> flash_ok dev t \<and>
    sNvFlashStartAddr t = sNvFlashStartAddr s \<and> sNvFlashEndAddr t = sNvFlashEndAddr s \<and>
    cells (flashDev t) = put_cells (cells (flashDev s)) (unat A) (aData @ replicate (lost_bytes (psize dev) (unat A) (unat n)) e)"
proof -
  let ?P = "psize dev" and ?c = "cells (flashDev s)" and ?l = "drop (unat u) aData"
  note P = psize_facts [OF assms(1)] and h = head_len_facts [OF P(3) assms(5), of "unat n", folded assms(9)]
  have al: "unat al mod ?P = 0" "unat al + unat b = unat A" using assms(7,8) P(3) by (simp_all add: minus_mod_eq_mult_div [symmetric] mod_less_eq_dividend)
  obtain t where t: "write_head dev al b aData u s = Some (True, t)" "flash_ok dev t" "sNvFlashStartAddr t = sNvFlashStartAddr s"
    "sNvFlashEndAddr t = sNvFlashEndAddr s" "cells (flashDev t) = put_cells ?c (unat A) (take (unat u) aData)"
    using write_head_cells [OF assms(1-3) al(1), of b u aData] al(2) assms(4,6,7) h(1,2) by auto
  have au: "unat (A + u) = unat A + unat u" using assms(6) h(1) by (simp add: unat_word_ariths)
  have left: "unat (n - u) = unat n - unat u" using h(1) by (simp add: unat_sub word_le_nat_alt)
  have ll: "length ?l = unat (n - u)" using left assms(4) by simp
  have lu: "length (take (unat u) aData) = unat u" using h(1) assms(4) by simp
  have lost: "padded ?P e ?l = ?l @ replicate (lost_bytes ?P (unat A) (unat n)) e"
    by (simp add: padded_def lost_bytes_def assms(4) flip: assms(9))
  have "\<exists>d'. write_aligned dev (A + u) ?l (n - u) t = t\<lparr>flashDev := d'\<rparr> \<and> cells d' = put_cells (cells (flashDev t)) (unat (A + u)) (padded ?P e ?l)"
  proof (cases "unat u = unat n")
    case True
    then have "n - u = 0" using left by (simp add: word_unat_eq_iff)
    then show ?thesis using True assms(4) by (intro exI [of _ "flashDev t"]) (simp add: write_aligned_def padded_def)
  next
    case False
    then have "unat (A + u) mod ?P = 0" using h(3) au by simp
    moreover have "unat (A + u) + unat (n - u) + ?P < 2 ^ 32" using au left h(1) assms(6) P(4) by simp
    ultimately show ?thesis by (intro write_aligned_cells [OF assms(1,2) _ ll])
  qed
  then obtain d' where d': "write_aligned dev (A + u) ?l (n - u) t = t\<lparr>flashDev := d'\<rparr>"
    "cells d' = put_cells (cells (flashDev t)) (unat A + unat u) (padded ?P e ?l)"
    using au by auto
  have "cells d' = put_cells ?c (unat A) (take (unat u) aData @ padded ?P e ?l)"
    using d'(2) t(5) put_cells_append [of ?c "unat A" "take (unat u) aData"] lu by simp
  then have "cells d' = put_cells ?c (unat A) (aData @ replicate (lost_bytes ?P (unat A) (unat n)) e)"
    unfolding lost append_assoc [symmetric] append_take_drop_id .
  with t d'(1) show ?thesis by (auto simp: flash_ok_def)
qed

lemma flash_write_cells:
  assumes "flash_documented dev cells e" and "flash_reliable dev" and "flash_ok dev s" and "length aData = unat n" and "in_region s off (unat n)"
  shows "\<exists>t. otPlatFlashWrite dev off aData n s = Some t \<and> flash_ok dev t \<and>
    sNvFlashStartAddr t = sNvFlashStartAddr s \<and> sNvFlashEndAddr t = sNvFlashEndAddr s \<and>
    cells (flashDev t) = put_cells (cells (flashDev s)) (nv_addr s off) (aData @ replicate (lost_bytes (psize dev) (nv_addr s off) (unat n)) e)"
proof -
  define A where "A = off + sNvFlashStartAddr s"
  define al where "al = A - A mod FLASH_PAGE_SIZE dev"
  define b where "b = A - al"
  define u where "u = (if FLASH_PAGE_SIZE dev - b > n then n else FLASH_PAGE_SIZE dev - b)"
  let ?P = "psize dev"
  note m = map_address [OF assms(5), folded A_def] and P = psize_facts [OF assms(1)]
  have top: "unat A + unat n + 2 * 65536 \<le> 2 ^ 32" using assms(3,5) m(2) by (simp add: flash_ok_def in_region_def)
  have al: "unat al = unat A - unat A mod ?P" by (simp add: al_def unat_sub word_le_nat_alt unat_mod_distrib)
  have b: "unat b = unat A mod ?P" by (simp add: b_def al_def unat_mod_distrib)
  have w: "otPlatFlashWrite dev off aData n s = (if b \<noteq> 0
      then do { (ok, s) \<leftarrow> write_head dev al b aData u s; Some (if ok then write_aligned dev (A + u) (drop (unat u) aData) (n - u) s else s) }
      else Some (write_aligned dev A aData n s))"
    unfolding otPlatFlashWrite_def m(1) option.case Let_def if_P [OF m(3)] al_def [symmetric] b_def [symmetric] u_def [symmetric]
    by (rule refl)
  show ?thesis
  proof (cases "unat A mod ?P = 0")
    case True
    have "unat A + unat n + ?P < 2 ^ 32" using top P(4) by simp
    then obtain d' where d': "write_aligned dev A aData n s = s\<lparr>flashDev := d'\<rparr>" "cells d' = put_cells (cells (flashDev s)) (unat A) (padded ?P e aData)"
      using write_aligned_cells [OF assms(1,2) True assms(4)] by blast
    have "padded ?P e aData = aData @ replicate (lost_bytes ?P (unat A) (unat n)) e"
      using True assms(4) by (simp add: padded_def lost_bytes_def head_len_def)
    moreover have "b = 0" using b True by (simp add: unat_eq_zero)
    ultimately show ?thesis using w d' assms(3) m(2) by (auto simp: flash_ok_def)
  next
    case False
    have lt: "unat A mod ?P < ?P" using P(3) by simp
    then have "unat (FLASH_PAGE_SIZE dev - b) = ?P - unat A mod ?P" using b by (simp add: unat_sub word_le_nat_alt)
    then have u: "unat u = head_len ?P (unat A) (unat n)" using False by (simp add: u_def head_len_def word_less_nat_alt min_def)
    have "b \<noteq> 0" using b False by auto
    with w write_unaligned_cells [OF assms(1-4) False top b al u] m(2) show ?thesis by simp
  qed
qed

section \<open>An instance\<close>

text \<open>A flash with pages of sixteen bytes; it serves the witnesses.\<close>

definition small_flash :: "(nat \<Rightarrow> u8) flash_dev" where
  "small_flash = \<lparr>FLASH_PAGE_SIZE = 16, FLASH_BlankCheck = \<lambda>d a b. True,
     FLASH_Erase = \<lambda>d a b. (True, put_cells d (unat a) (replicate 16 255)), FLASH_Program = \<lambda>d a xs. (True, put_cells d (unat a) xs),
     FLASH_Read = \<lambda>d a. map d [unat a..<unat a + 16]\<rparr>"

definition small_state :: "(nat \<Rightarrow> u8) k32_flash" where
  "small_state = \<lparr>pageBuffer = replicate 16 0, sNvFlashStartAddr = 64, sNvFlashEndAddr = 256, flashDev = \<lambda>x. 1\<rparr>"

lemma small_flash_documented: "flash_documented small_flash (\<lambda>d. d) 255" "flash_reliable small_flash" "flash_ok small_flash small_state"
  by (auto simp: flash_documented_def small_flash_def flash_reliable_def flash_ok_def small_state_def intro!: exI [of _ "4 :: nat"])

section \<open>Properties\<close>

text \<open>
  C23. The exact effect of a write inside the storage region: the call returns, the bytes of its range are the data, bytes
  before the range and in other pages are unchanged, and the bytes that follow the range in its last page are erased,
  except when the range ends in the page in whose middle it starts (\<open>lost_bytes\<close> counts them).
\<close>

theorem k32_flash_write_exact:
  assumes "flash_documented dev cells e" and "flash_reliable dev" and "flash_ok dev s" and "length aData = unat n" and "in_region s off (unat n)"
  shows "\<exists>t. otPlatFlashWrite dev off aData n s = Some t \<and> flash_ok dev t \<and>
    cells (flashDev t) = put_cells (cells (flashDev s)) (nv_addr s off)
      (aData @ replicate (lost_bytes (unat (FLASH_PAGE_SIZE dev)) (nv_addr s off) (unat n)) e)"
  using flash_write_cells [OF assms] by blast

theorem k32_flash_write_exact_witness:
  "\<exists>t. otPlatFlashWrite small_flash 4 [7, 8, 9] 3 small_state = Some t \<and>
    flashDev t = put_cells (flashDev small_state) 68 [7, 8, 9]"
proof -
  have r: "in_region small_state 4 (unat (3 :: u32))" by (simp add: in_region_def small_state_def)
  have "lost_bytes (unat (FLASH_PAGE_SIZE small_flash)) (nv_addr small_state 4) (unat (3 :: u32)) = 0"
    by (simp add: lost_bytes_def head_len_def small_flash_def small_state_def)
  moreover have "nv_addr small_state 4 = 68" by (simp add: small_state_def)
  ultimately show ?thesis
    using k32_flash_write_exact [OF small_flash_documented, of "[7, 8, 9]" 3 4] r by auto
qed

text \<open>
  C24. What is written to the flash is read back: a read of any part of the range, from an address that is a multiple of
  16, returns the data of that part and leaves the rest of the destination alone.
\<close>

theorem k32_flash_roundtrip:
  assumes "flash_documented dev cells e" and "flash_reliable dev" and "flash_ok dev s" and "length aData = unat n" and "in_region s off (unat n)"
    and "otPlatFlashWrite dev off aData n s = Some t"
    and "unat (off + i) = unat off + unat i" and "unat i + unat k \<le> unat n" and "nv_addr s (off + i) mod 16 = 0" and "unat k \<le> length dst"
  shows "otPlatFlashRead dev (off + i) dst k t = Some (take (unat k) (drop (unat i) aData) @ drop (unat k) dst)"
proof -
  obtain t' where t': "otPlatFlashWrite dev off aData n s = Some t'" "flash_ok dev t'" "sNvFlashStartAddr t' = sNvFlashStartAddr s"
    "sNvFlashEndAddr t' = sNvFlashEndAddr s"
    "cells (flashDev t') = put_cells (cells (flashDev s)) (nv_addr s off) (aData @ replicate (lost_bytes (psize dev) (nv_addr s off) (unat n)) e)"
    using flash_write_cells [OF assms(1-5)] by blast
  then have t: "t' = t" using assms(6) by simp
  have r: "in_region t (off + i) (unat k)" using assms(5,7,8) t'(3,4) unfolding t by (simp add: in_region_def)
  note m = map_address [OF r]
  let ?a = "nv_addr t (off + i)"
  have "?a + unat k + 32 \<le> 2 ^ 32" using r t'(2) unfolding t by (simp add: flash_ok_def in_region_def)
  then have "otPlatFlashRead dev (off + i) dst k t =
      Some (map (cells (flashDev t)) [?a..<?a + delivered_bytes ?a (unat k)] @ drop (delivered_bytes ?a (unat k)) dst)"
    using copyFromFlash_exact [OF assms(1), of "off + i + sNvFlashStartAddr t" k dst "flashDev t"] m assms(10)
    by (simp add: otPlatFlashRead_def)
  moreover have "delivered_bytes ?a (unat k) = unat k" using delivered_aligned [of ?a] assms(9) t'(3) unfolding t by simp
  moreover have "map (cells (flashDev t)) [?a..<?a + unat k] = take (unat k) (drop (unat i) aData)"
    using t'(3,5) assms(4,7,8) unfolding t by (intro nth_equalityI) (auto simp: put_cells_def nth_append)
  ultimately show ?thesis by simp
qed

theorem k32_flash_roundtrip_witness:
  "\<exists>t. otPlatFlashWrite small_flash 12 [1, 2, 3, 4, 5, 6] 6 small_state = Some t \<and>
    otPlatFlashRead small_flash (12 + 4) [0, 0, 0] 2 t = Some [5, 6, 0]"
proof -
  have r: "in_region small_state 12 (unat (6 :: u32))" by (simp add: in_region_def small_state_def)
  obtain t where t: "otPlatFlashWrite small_flash 12 [1, 2, 3, 4, 5, 6] 6 small_state = Some t"
    using flash_write_cells [OF small_flash_documented, of "[1, 2, 3, 4, 5, 6]" 6 12] r by auto
  have "nv_addr small_state (12 + 4) mod 16 = 0" by (simp add: small_state_def)
  with t k32_flash_roundtrip [OF small_flash_documented _ r t, of 4 2 "[0, 0, 0]"] show ?thesis by simp
qed

text \<open>
  C25. The exact result of a read inside the storage region: it returns the bytes of the flash from its address on, but
  only as many as \<open>delivered_bytes\<close> says; the rest of the destination keeps what it held. All bytes arrive exactly if the
  address, counted from its 16-byte block, and the length fit into as many blocks as the length alone needs.
\<close>

theorem k32_flash_read_exact:
  assumes "flash_documented dev cells e" and "flash_ok dev s" and "in_region s off (unat n)" and "unat n \<le> length dst"
  shows "otPlatFlashRead dev off dst n s = Some (map (cells (flashDev s)) [nv_addr s off..<nv_addr s off + delivered_bytes (nv_addr s off) (unat n)] @
      drop (delivered_bytes (nv_addr s off) (unat n)) dst) \<and>
    (delivered_bytes (nv_addr s off) (unat n) = unat n \<longleftrightarrow> unat n = 0 \<or> nv_addr s off mod 16 + unat n \<le> 16 * ((unat n + 15) div 16))"
proof
  note m = map_address [OF assms(3)]
  have "nv_addr s off + unat n + 32 \<le> 2 ^ 32" using assms(2,3) by (simp add: flash_ok_def in_region_def)
  then show "otPlatFlashRead dev off dst n s = Some (map (cells (flashDev s)) [nv_addr s off..<nv_addr s off + delivered_bytes (nv_addr s off) (unat n)] @
      drop (delivered_bytes (nv_addr s off) (unat n)) dst)"
    using copyFromFlash_exact [OF assms(1), of "off + sNvFlashStartAddr s" n dst "flashDev s"] m assms(4) by (simp add: otPlatFlashRead_def)
  show "delivered_bytes (nv_addr s off) (unat n) = unat n \<longleftrightarrow> unat n = 0 \<or> nv_addr s off mod 16 + unat n \<le> 16 * ((unat n + 15) div 16)"
    by (auto simp: delivered_bytes_def min_def)
qed

theorem k32_flash_read_exact_witness:
  "otPlatFlashRead small_flash 8 (replicate 16 0) 16 small_state = Some (replicate 8 1 @ replicate 8 0)"
proof -
  have d: "delivered_bytes (nv_addr small_state 8) 16 = 8" by (simp add: delivered_bytes_def small_state_def)
  have "in_region small_state 8 (unat (16 :: u32))" by (simp add: in_region_def small_state_def)
  moreover have "map (flashDev small_state) [nv_addr small_state 8..<nv_addr small_state 8 + 8] = replicate 8 1"
    by (simp add: map_replicate_const small_state_def del: upt_rec_numeral upt_Suc)
  ultimately show ?thesis
    using k32_flash_read_exact [OF small_flash_documented(1,3), of 8 16 "replicate 16 0"] d by simp
qed

end
