(* ===== verification/Latest_Queue.thy ===== *)
theory Latest_Queue
  imports OtNxp_Prelude
begin

text \<open>
  The interface of a ring buffer that overwrites its oldest element when it is full: a queue that keeps the latest
  elements. The serial driver of k32w0 has one between its interrupt handler and the main loop.
\<close>

definition latest :: "nat \<Rightarrow> 'a list \<Rightarrow> 'a list" where
  "latest n xs = drop (length xs - n) xs"

lemma length_latest [simp]: "length (latest n xs) = min n (length xs)"
  by (simp add: latest_def)

lemma latest_fits: "length xs \<le> n \<Longrightarrow> latest n xs = xs"
  by (simp add: latest_def)

lemma latest_snoc: "latest n (latest n xs @ [x]) = latest n (xs @ [x])"
proof (cases "length xs \<le> n")
  case True
  then show ?thesis by (simp add: latest_fits)
next
  case False
  then have "latest n xs @ [x] = drop (length xs - n) (xs @ [x])" by (simp add: latest_def)
  then show ?thesis using False by (simp add: latest_def Suc_diff_le)
qed

locale latest_queue =
  fixes inv :: "'s \<Rightarrow> bool" and abs :: "'s \<Rightarrow> 'a list" and cap :: "'s \<Rightarrow> nat"
    and put :: "'a \<Rightarrow> 's \<Rightarrow> 's" and get :: "'s \<Rightarrow> ('a \<times> 's) option"
  assumes put_latest: "inv s \<Longrightarrow> inv (put x s) \<and> cap (put x s) = cap s \<and> abs (put x s) = latest (cap s) (abs s @ [x])"
    and get_first: "inv s \<Longrightarrow> (case get s of
        None \<Rightarrow> abs s = []
      | Some (x, t) \<Rightarrow> abs s = x # abs t \<and> inv t \<and> cap t = cap s)"
    and bounded: "inv s \<Longrightarrow> length (abs s) \<le> cap s"
begin

lemma puts_latest:
  "inv s \<Longrightarrow> inv (fold put xs s) \<and> cap (fold put xs s) = cap s \<and> abs (fold put xs s) = latest (cap s) (abs s @ xs)"
proof (induction xs rule: rev_induct)
  case Nil
  then show ?case using bounded by (simp add: latest_fits)
next
  case (snoc x xs)
  then show ?case using put_latest [of "fold put xs s" x] latest_snoc [of "cap s" "abs s @ xs" x] by simp
qed

lemma puts_fit: "inv s \<Longrightarrow> length (abs s) + length xs \<le> cap s \<Longrightarrow> abs (fold put xs s) = abs s @ xs"
  using puts_latest [of s xs] by (simp add: latest_fits)

lemma get_iff: "inv s \<Longrightarrow> get s = None \<longleftrightarrow> abs s = []"
  using get_first [of s] by (cases "get s") auto

lemma get_Some: "inv s \<Longrightarrow> get s = Some (x, t) \<Longrightarrow> abs s = x # abs t \<and> inv t \<and> cap t = cap s"
  using get_first [of s] by simp

end

end
