(* ===== verification/K32w0_Uart.thy ===== *)
theory K32w0_Uart
  imports Latest_Queue
begin

text \<open>
  \<^verbatim>\<open>src/k32w0/platform/uart.c\<close> built with \<^verbatim>\<open>UART_USE_DRIVER\<close>: the serial port on the USART itself. Every register that the
  interrupt handler reads is a volatile, so a run of the handler is given the list of the values it will read, one
  \<open>reading\<close> per access; \<open>None\<close> means that the handler is still running when the list ends, or that a byte is read or written
  outside its array. Calls to the hardware and to OpenThread are appended to the trace. The second part is the variant
  built with \<^verbatim>\<open>UART_USE_SERIAL_MGR\<close>, which keeps a count of the transmissions of the serial manager.
\<close>

section \<open>The receive ring\<close>

record uart_ring =
  urBuffer :: bytes
  urHead :: u8
  urTail :: u8
  urIsFull :: bool

definition OT_PLAT_UART_RX_BUFFER_SIZE :: "uart_ring \<Rightarrow> nat" where
  "OT_PLAT_UART_RX_BUFFER_SIZE r = length (urBuffer r)"

definition ring_inc :: "uart_ring \<Rightarrow> u8 \<Rightarrow> u8" where
  "ring_inc r i = of_nat ((unat i + 1) mod OT_PLAT_UART_RX_BUFFER_SIZE r)"

definition uart_PushRxRingBuffer :: "u8 \<Rightarrow> uart_ring \<Rightarrow> uart_ring" where
  "uart_PushRxRingBuffer aCharacter r =
     (let r1 = r\<lparr>urBuffer := (urBuffer r)[unat (urHead r) := aCharacter]\<rparr>;
          r2 = (if urIsFull r1 then r1\<lparr>urTail := ring_inc r1 (urTail r1)\<rparr> else r1);
          r3 = r2\<lparr>urHead := ring_inc r2 (urHead r2)\<rparr>
      in r3\<lparr>urIsFull := (urHead r3 = urTail r3)\<rparr>)"

definition uart_IsEmptyRxRingBuffer :: "uart_ring \<Rightarrow> bool" where
  "uart_IsEmptyRxRingBuffer r = (\<not> urIsFull r \<and> urHead r = urTail r)"

text \<open>The slot of the oldest character, which the caller reads later, and the ring without it.\<close>

definition uart_PopRxRingBuffer :: "uart_ring \<Rightarrow> u8 option \<times> uart_ring" where
  "uart_PopRxRingBuffer r =
     (if \<not> uart_IsEmptyRxRingBuffer r
      then (Some (urTail r), r\<lparr>urIsFull := False, urTail := ring_inc r (urTail r)\<rparr>)
      else (None, r))"

definition uart_ResetRxRingBuffer :: "uart_ring \<Rightarrow> uart_ring" where
  "uart_ResetRxRingBuffer r = r\<lparr>urHead := 0, urTail := 0, urIsFull := False\<rparr>"

section \<open>State\<close>

datatype uart_call =
    USART_Init | USART_Deinit | TxIrqOn | TxIrqOff | ClearRxErr | USART_ReadByte u8 | FIFOWR u8
  | UartEventPending | k32_UartReceived bytes | k32_UartSendDone

text \<open>\<open>uTxData\<close> is the memory from the transmit pointer on, \<open>None\<close> for \<^verbatim>\<open>NULL\<close>.\<close>

record k32_uart =
  uInitialized :: bool
  uTransmitDone :: bool
  uTxData :: "bytes option"
  uTxDataSize :: nat
  uRxRing :: uart_ring
  uTxFlush :: bool
  uTrace :: "uart_call list"

definition ucall :: "uart_call \<Rightarrow> k32_uart \<Rightarrow> k32_uart" where
  "ucall a s = s\<lparr>uTrace := uTrace s @ [a]\<rparr>"

definition k32_uart_boot :: "nat \<Rightarrow> k32_uart" where
  "k32_uart_boot n = \<lparr>uInitialized = False, uTransmitDone = False, uTxData = None, uTxDataSize = 0,
     uRxRing = \<lparr>urBuffer = replicate n 0, urHead = 0, urTail = 0, urIsFull = False\<rparr>, uTxFlush = False, uTrace = []\<rparr>"

section \<open>The interrupt handler\<close>

record reading =
  RXERR :: bool
  RXNOTEMPTY :: bool
  TXNOTFULL :: bool
  TXEMPTY :: bool
  FIFORD :: u8

fun rd_reg :: "reading list \<Rightarrow> (reading \<times> reading list) option" where
  "rd_reg [] = None"
| "rd_reg (r # rs) = Some (r, rs)"

definition irq_goes_on :: "bool \<Rightarrow> reading list \<Rightarrow> (bool \<times> reading list) option" where
  "irq_goes_on isSendEnabled rs =
     do { (a, rs) \<leftarrow> rd_reg rs;
          if RXNOTEMPTY a then Some (True, rs)
          else if isSendEnabled then do { (b, rs) \<leftarrow> rd_reg rs; Some (TXNOTFULL b, rs) }
          else Some (False, rs) }"

definition irq_rx :: "reading list \<Rightarrow> k32_uart \<Rightarrow> (reading list \<times> k32_uart) option" where
  "irq_rx rs s =
     do { (a, rs) \<leftarrow> rd_reg rs;
          if RXNOTEMPTY a
          then do { (b, rs) \<leftarrow> rd_reg rs;
                    let s = ucall (USART_ReadByte (FIFORD b)) s;
                    Some (rs, s\<lparr>uRxRing := uart_PushRxRingBuffer (FIFORD b) (uRxRing s)\<rparr>) }
          else Some (rs, s) }"

definition irq_spurious :: "reading list \<Rightarrow> k32_uart \<Rightarrow> (reading list \<times> k32_uart) option" where
  "irq_spurious rs s =
     (if uTxDataSize s = 0
      then do { (a, rs) \<leftarrow> rd_reg rs;
                if TXNOTFULL a
                then do { (b, rs) \<leftarrow> rd_reg rs; Some (rs, if TXEMPTY b then ucall TxIrqOff s else s) }
                else Some (rs, s) }
      else Some (rs, s))"

definition send_byte :: "k32_uart \<Rightarrow> k32_uart option" where
  "send_byte s =
     (case uTxData s of
        Some (c # cs) \<Rightarrow>
          (let s1 = (ucall (FIFOWR c) s)\<lparr>uTxDataSize := uTxDataSize s - 1, uTxData := Some cs\<rparr>
           in Some (if uTxDataSize s1 = 0 then (ucall TxIrqOff s1)\<lparr>uTxData := None, uTransmitDone := True\<rparr> else s1))
      | _ \<Rightarrow> None)"

definition irq_tx :: "bool \<Rightarrow> reading list \<Rightarrow> k32_uart \<Rightarrow> (bool \<times> reading list \<times> k32_uart) option" where
  "irq_tx isSendEnabled rs s =
     (if isSendEnabled
      then do { (a, rs) \<leftarrow> rd_reg rs;
                if TXNOTFULL a then do { s \<leftarrow> send_byte s; Some (uTxDataSize s \<noteq> 0, rs, s) }
                else Some (isSendEnabled, rs, s) }
      else Some (isSendEnabled, rs, s))"

partial_function (option) irqLoop :: "bool \<Rightarrow> reading list \<Rightarrow> k32_uart \<Rightarrow> k32_uart option" where
  "irqLoop isSendEnabled rs s =
     do { (go, rs) \<leftarrow> irq_goes_on isSendEnabled rs;
          if \<not> go then Some s
          else do { (rs, s) \<leftarrow> irq_rx rs s;
                    (rs, s) \<leftarrow> irq_spurious rs s;
                    (isSendEnabled, rs, s) \<leftarrow> irq_tx isSendEnabled rs s;
                    irqLoop isSendEnabled rs s } }"

declare irqLoop.simps [code]

definition USART0_IRQHandler :: "reading list \<Rightarrow> k32_uart \<Rightarrow> k32_uart option" where
  "USART0_IRQHandler rs s =
     do { let isSendEnabled = (uTxDataSize s \<noteq> 0);
          (a, rs) \<leftarrow> rd_reg rs;
          (rs, s) \<leftarrow> (if RXERR a then do { (b, rs) \<leftarrow> rd_reg rs; Some (rs, ucall ClearRxErr s) } else Some (rs, s));
          s \<leftarrow> irqLoop isSendEnabled rs s;
          Some (ucall UartEventPending s) }"

fun take_irqs :: "reading list list \<Rightarrow> k32_uart \<Rightarrow> k32_uart option" where
  "take_irqs [] s = Some s"
| "take_irqs (i # is) s = Option.bind (USART0_IRQHandler i s) (take_irqs is)"

section \<open>Main loop and calls\<close>

definition k32_otPlatUartEnable :: "bool \<Rightarrow> k32_uart \<Rightarrow> otError \<times> k32_uart" where
  "k32_otPlatUartEnable initOk s =
     (if \<not> uInitialized s
      then (let s1 = ucall USART_Init (s\<lparr>uTxData := None, uTxDataSize := 0\<rparr>) in
            if initOk then (OT_ERROR_NONE, s1\<lparr>uRxRing := uart_ResetRxRingBuffer (uRxRing s1), uInitialized := True\<rparr>)
            else (OT_ERROR_INVALID_ARGS, s1))
      else (OT_ERROR_NONE, s))"

definition k32_otPlatUartDisable :: "k32_uart \<Rightarrow> otError \<times> k32_uart" where
  "k32_otPlatUartDisable s = (OT_ERROR_NONE, ucall USART_Deinit (ucall USART_Deinit (s\<lparr>uInitialized := False\<rparr>)))"

definition k32_otPlatUartSend :: "bytes option \<Rightarrow> u16 \<Rightarrow> k32_uart \<Rightarrow> otError \<times> k32_uart" where
  "k32_otPlatUartSend aBuf aBufLength s =
     (if uTxData s \<noteq> None then (OT_ERROR_BUSY, s)
      else (OT_ERROR_NONE, ucall TxIrqOn (s\<lparr>uTxData := aBuf, uTxDataSize := unat aBufLength\<rparr>)))"

text \<open>What OpenThread sends from inside a callback, from what happened so far.\<close>

type_synonym uart_react = "uart_call list \<Rightarrow> (bytes option \<times> u16) list"

definition react_sends :: "uart_react \<Rightarrow> k32_uart \<Rightarrow> k32_uart" where
  "react_sends react s = fold (\<lambda>(b, l) s. snd (k32_otPlatUartSend b l s)) (react (uTrace s)) s"

definition txDone :: "uart_react \<Rightarrow> k32_uart \<Rightarrow> k32_uart" where
  "txDone react s = (if \<not> uTxFlush s then react_sends react (ucall k32_UartSendDone s) else s)"

definition K32WProcessTransmit :: "uart_react \<Rightarrow> k32_uart \<Rightarrow> k32_uart" where
  "K32WProcessTransmit react s = (if uTransmitDone s then txDone react (s\<lparr>uTransmitDone := False\<rparr>) else s)"

text \<open>
  One character: interrupts may be taken before the pop, which runs with the interrupt disabled, and between the pop and
  the read of the character from its slot. \<open>irqs\<close> lists them per round; none are taken when it is used up.
\<close>

fun receiveLoop :: "(reading list list \<times> reading list list) list \<Rightarrow> nat \<Rightarrow> bytes \<Rightarrow> k32_uart \<Rightarrow> (bytes \<times> k32_uart) option" where
  "receiveLoop irqs 0 rx s = None"
| "receiveLoop irqs (Suc fuel) rx s =
     do { let (is1, is2) = (case irqs of [] \<Rightarrow> ([], []) | i # _ \<Rightarrow> i);
          s \<leftarrow> take_irqs is1 s;
          case uart_PopRxRingBuffer (uRxRing s) of
            (None, r) \<Rightarrow> Some (rx, s)
          | (Some p, r) \<Rightarrow>
              do { s \<leftarrow> take_irqs is2 (s\<lparr>uRxRing := r\<rparr>);
                   if length rx < OT_PLAT_UART_RX_BUFFER_SIZE (uRxRing s)
                   then receiveLoop (tl irqs) fuel (rx @ [urBuffer (uRxRing s) ! unat p]) s
                   else None } }"

text \<open>The array \<^verbatim>\<open>rx\<close> ends the loop after one round more than its size, one way or the other: that many rounds are enough.\<close>

definition K32WProcessReceive :: "uart_react \<Rightarrow> (reading list list \<times> reading list list) list \<Rightarrow> k32_uart \<Rightarrow> k32_uart option" where
  "K32WProcessReceive react irqs s =
     do { (rx, s) \<leftarrow> receiveLoop irqs (OT_PLAT_UART_RX_BUFFER_SIZE (uRxRing s) + 2) [] s;
          Some (react_sends react (ucall (k32_UartReceived rx) s)) }"

definition K32WUartProcess :: "uart_react \<Rightarrow> (reading list list \<times> reading list list) list \<Rightarrow> k32_uart \<Rightarrow> k32_uart option" where
  "K32WUartProcess react irqs s =
     (if uInitialized s then K32WProcessReceive react irqs (K32WProcessTransmit react s) else Some s)"

definition FLUSH_TO :: u64 where "FLUSH_TO = 500"

text \<open>The wait of the flush: \<open>clock n\<close> is the time read in round \<open>n\<close>, \<open>irqs n\<close> the interrupts taken in it.\<close>

partial_function (option) uartFlushLoop ::
  "uart_react \<Rightarrow> (nat \<Rightarrow> reading list list \<times> (reading list list \<times> reading list list) list) \<Rightarrow> (nat \<Rightarrow> u64) \<Rightarrow> u64 \<Rightarrow> nat \<Rightarrow> k32_uart \<Rightarrow> k32_uart option" where
  "uartFlushLoop react irqs clock start n s =
     do { s \<leftarrow> take_irqs (fst (irqs n)) s;
          if uTxData s \<noteq> None
          then do { s \<leftarrow> K32WUartProcess react (snd (irqs n)) s;
                    if (clock n - start) div 1000 > FLUSH_TO then Some s
                    else uartFlushLoop react irqs clock start (Suc n) s }
          else Some s }"

declare uartFlushLoop.simps [code]

definition k32_otPlatUartFlush ::
  "uart_react \<Rightarrow> (nat \<Rightarrow> reading list list \<times> (reading list list \<times> reading list list) list) \<Rightarrow> (nat \<Rightarrow> u64) \<Rightarrow> u64 \<Rightarrow> k32_uart \<Rightarrow> (otError \<times> k32_uart) option" where
  "k32_otPlatUartFlush react irqs clock start s =
     (if uTxFlush s then Some (OT_ERROR_NONE, s)
      else do { s \<leftarrow> uartFlushLoop react irqs clock start 0 (s\<lparr>uTxFlush := True\<rparr>);
                Some (OT_ERROR_NONE, s\<lparr>uTxFlush := False\<rparr>) })"

section \<open>The variant over the serial manager\<close>

record sm_uart =
  smInitialized :: bool
  smTxCnt :: u8
  smTxFlush :: bool
  smTrace :: "uart_call list"

definition smcall :: "uart_call \<Rightarrow> sm_uart \<Rightarrow> sm_uart" where
  "smcall a s = s\<lparr>smTrace := smTrace s @ [a]\<rparr>"

text \<open>The three calls of the serial manager answer a status; their 8-bit sum has to be zero.\<close>

definition sm_otPlatUartEnable :: "u8 \<Rightarrow> u8 \<Rightarrow> u8 \<Rightarrow> sm_uart \<Rightarrow> otError \<times> sm_uart" where
  "sm_otPlatUartEnable ifStatus baudStatus cbStatus s =
     (if \<not> smInitialized s
      then (if ifStatus + baudStatus + cbStatus = 0 then (OT_ERROR_NONE, s\<lparr>smInitialized := True\<rparr>) else (OT_ERROR_FAILED, s))
      else (OT_ERROR_NONE, s))"

definition sm_otPlatUartSend :: "u8 \<Rightarrow> sm_uart \<Rightarrow> otError \<times> sm_uart" where
  "sm_otPlatUartSend status s =
     (let s1 = s\<lparr>smTxCnt := smTxCnt s + 1\<rparr> in
      if status = 0 then (OT_ERROR_NONE, s1) else (OT_ERROR_FAILED, s1\<lparr>smTxCnt := smTxCnt s1 - 1\<rparr>))"

definition sm_txDone :: "sm_uart \<Rightarrow> sm_uart" where
  "sm_txDone s = (if \<not> smTxFlush s then smcall k32_UartSendDone s else s)"

definition SerialMngr_TxCbApp :: "sm_uart \<Rightarrow> sm_uart" where
  "SerialMngr_TxCbApp s = sm_txDone (if smTxCnt s \<noteq> 0 then s\<lparr>smTxCnt := smTxCnt s - 1\<rparr> else s)"

text \<open>\<open>got\<close> is what \<^verbatim>\<open>Serial_Read\<close> put into \<^verbatim>\<open>sRxBuffer\<close>.\<close>

definition SerialMngr_RxCbApp :: "bytes \<Rightarrow> sm_uart \<Rightarrow> sm_uart" where
  "SerialMngr_RxCbApp got s = smcall (k32_UartReceived got) s"

end
