(* ===== verification/K32w0_Uart_Ring.thy ===== *)
theory K32w0_Uart_Ring
  imports K32w0_Uart
begin

text \<open>
  The receive ring of the k32w0 serial port keeps the latest characters: it is an instance of \<open>latest_queue\<close>. The slot
  that a pop hands out stays unchanged as long as the ring does not fill up.
\<close>

abbreviation rsize :: "uart_ring \<Rightarrow> nat" where "rsize \<equiv> OT_PLAT_UART_RX_BUFFER_SIZE"

definition rcount :: "uart_ring \<Rightarrow> nat" where
  "rcount r = (if urIsFull r then rsize r else (unat (urHead r) + rsize r - unat (urTail r)) mod rsize r)"

definition uq :: "uart_ring \<Rightarrow> bytes" where
  "uq r = map (\<lambda>i. urBuffer r ! ((unat (urTail r) + i) mod rsize r)) [0..<rcount r]"

definition uring_ok :: "uart_ring \<Rightarrow> bool" where
  "uring_ok r \<longleftrightarrow> rsize r \<le> 256 \<and> unat (urHead r) < rsize r \<and> unat (urTail r) < rsize r \<and> (urIsFull r \<longrightarrow> urHead r = urTail r)"

section \<open>Positions\<close>

lemma mod_count: "h < n \<Longrightarrow> t < n \<Longrightarrow> (t + (h + n - t) mod n) mod n = (h :: nat)"
  by (simp add: mod_add_right_eq)

lemma count_mod: "t < n \<Longrightarrow> c < n \<Longrightarrow> ((t + c) mod n + n - t) mod n = (c :: nat)"
proof (cases "t + c < n")
  case False
  assume "t < n" "c < n"
  with False have "(t + c) mod n = t + c - n" by (simp add: mod_if)
  with False \<open>c < n\<close> show ?thesis by simp
qed simp

lemma pos_inj: "t < n \<Longrightarrow> i < n \<Longrightarrow> j < n \<Longrightarrow> (t + i) mod n = (t + j) mod n \<longleftrightarrow> i = (j :: nat)"
  by (metis count_mod)

lemma unat_ring_inc:
  assumes "uring_ok r"
  shows "unat (ring_inc r i) = (unat i + 1) mod rsize r"
proof -
  have "(unat i + 1) mod rsize r < 256" using assms by (auto simp: uring_ok_def intro: less_le_trans [OF mod_less_divisor])
  then show ?thesis by (simp add: ring_inc_def unat_of_nat)
qed

text \<open>The head is \<open>rcount\<close> places after the tail, and the ring is full when that is its size.\<close>

lemma uring_okD:
  assumes "uring_ok r"
  shows "0 < rsize r" "unat (urTail r) < rsize r" "unat (urHead r) = (unat (urTail r) + rcount r) mod rsize r"
    "rcount r \<le> rsize r" "urIsFull r \<longleftrightarrow> rcount r = rsize r" "unat (urHead r) < rsize r" "rsize r \<le> 256"
  using assms mod_count [of "unat (urHead r)" "rsize r" "unat (urTail r)"]
  by (auto simp: uring_ok_def rcount_def less_imp_le)

lemma rcount_eqI:
  assumes "unat (urTail r) < rsize r" and "unat (urHead r) = (unat (urTail r) + c) mod rsize r" and "c \<le> rsize r"
    and "urIsFull r \<longleftrightarrow> c = rsize r"
  shows "rcount r = c"
  using assms count_mod [of "unat (urTail r)" "rsize r" c] by (auto simp: rcount_def)

lemma uring_okI:
  assumes "unat (urTail r) < rsize r" and "unat (urHead r) = (unat (urTail r) + c) mod rsize r" and "c \<le> rsize r"
    and "urIsFull r \<longleftrightarrow> c = rsize r" and "rsize r \<le> 256"
  shows "uring_ok r"
  using assms by (auto simp: uring_ok_def word_unat_eq_iff)

lemma length_uq [simp]: "length (uq r) = rcount r"
  by (simp add: uq_def)

section \<open>Operations\<close>

lemma rsize_simps [simp]:
  "rsize (uart_PushRxRingBuffer c r) = rsize r" "rsize (r\<lparr>urHead := h\<rparr>) = rsize r" "rsize (r\<lparr>urTail := t\<rparr>) = rsize r"
  "rsize (r\<lparr>urIsFull := f\<rparr>) = rsize r" "rsize (r\<lparr>urBuffer := (urBuffer r)[i := x]\<rparr>) = rsize r"
  by (simp_all add: OT_PLAT_UART_RX_BUFFER_SIZE_def uart_PushRxRingBuffer_def Let_def)

lemma ring_inc_simps [simp]:
  "ring_inc (r\<lparr>urHead := h\<rparr>) i = ring_inc r i" "ring_inc (r\<lparr>urTail := t\<rparr>) i = ring_inc r i"
  "ring_inc (r\<lparr>urIsFull := f\<rparr>) i = ring_inc r i" "ring_inc (r\<lparr>urBuffer := (urBuffer r)[j := x]\<rparr>) i = ring_inc r i"
  by (simp_all add: ring_inc_def)

lemma push_fields:
  "urBuffer (uart_PushRxRingBuffer c r) = (urBuffer r)[unat (urHead r) := c]"
  "urTail (uart_PushRxRingBuffer c r) = (if urIsFull r then ring_inc r (urTail r) else urTail r)"
  "urHead (uart_PushRxRingBuffer c r) = ring_inc r (urHead r)"
  "urIsFull (uart_PushRxRingBuffer c r) \<longleftrightarrow> ring_inc r (urHead r) = (if urIsFull r then ring_inc r (urTail r) else urTail r)"
  by (simp_all add: uart_PushRxRingBuffer_def Let_def)

lemma push_room:
  assumes "uring_ok r" and "rcount r < rsize r"
  shows "uring_ok (uart_PushRxRingBuffer c r)" "rcount (uart_PushRxRingBuffer c r) = Suc (rcount r)"
    "uq (uart_PushRxRingBuffer c r) = uq r @ [c]"
proof -
  note d = uring_okD [OF assms(1)]
  let ?p = "uart_PushRxRingBuffer c r" and ?t = "unat (urTail r)" and ?n = "rsize r"
  have nf: "\<not> urIsFull r" using assms(2) d(5) by simp
  have h: "unat (urHead ?p) = (?t + Suc (rcount r)) mod ?n"
    using d(3) by (simp add: push_fields unat_ring_inc [OF assms(1)] mod_Suc_eq)
  have "urIsFull ?p \<longleftrightarrow> (?t + Suc (rcount r)) mod ?n = ?t"
    using nf h by (simp add: push_fields word_unat_eq_iff)
  also have "\<dots> \<longleftrightarrow> Suc (rcount r) = ?n"
  proof (cases "Suc (rcount r) < ?n")
    case True
    then show ?thesis using pos_inj [of ?t ?n "Suc (rcount r)" 0] d(1,2) by auto
  next
    case False
    then have "Suc (rcount r) = ?n" using assms(2) by simp
    then show ?thesis using d(2) by (metis mod_add_self2 mod_less)
  qed
  finally have f: "urIsFull ?p \<longleftrightarrow> Suc (rcount r) = ?n" .
  have t: "urTail ?p = urTail r" using nf by (simp add: push_fields)
  show "uring_ok ?p" using uring_okI [of ?p "Suc (rcount r)"] d assms(2) h t f by simp
  show c: "rcount ?p = Suc (rcount r)" using rcount_eqI [of ?p "Suc (rcount r)"] d assms(2) h t f by simp
  have len: "length (urBuffer r) = ?n" by (simp add: OT_PLAT_UART_RX_BUFFER_SIZE_def)
  have "urBuffer ?p ! ((?t + i) mod ?n) = (uq r @ [c]) ! i" if "i < Suc (rcount r)" for i
    using that d pos_inj [of ?t ?n i "rcount r"] assms(2) len
    by (auto simp: push_fields d(3) nth_append uq_def nth_list_update less_Suc_eq)
  then show "uq ?p = uq r @ [c]" using c t by (intro nth_equalityI) (simp_all add: uq_def del: upt_Suc)
qed

lemma push_full:
  assumes "uring_ok r" and "rcount r = rsize r"
  shows "uring_ok (uart_PushRxRingBuffer c r)" "rcount (uart_PushRxRingBuffer c r) = rcount r"
    "uq (uart_PushRxRingBuffer c r) = tl (uq r) @ [c]"
proof -
  note d = uring_okD [OF assms(1)]
  let ?p = "uart_PushRxRingBuffer c r" and ?t = "unat (urTail r)" and ?n = "rsize r"
  have fl: "urIsFull r" and ht: "urHead r = urTail r" using assms d(5) by (auto simp: uring_ok_def)
  have t: "unat (urTail ?p) = (?t + 1) mod ?n" "urHead ?p = urTail ?p" "urIsFull ?p"
    using fl ht by (simp_all add: push_fields unat_ring_inc [OF assms(1)])
  have t': "unat (urTail ?p) < ?n" using t(1) d(1) by simp
  show "uring_ok ?p" using uring_okI [of ?p ?n] t t' d by simp
  show c: "rcount ?p = rcount r" using rcount_eqI [of ?p ?n] t t' d assms(2) by simp
  have len: "length (urBuffer r) = ?n" by (simp add: OT_PLAT_UART_RX_BUFFER_SIZE_def)
  have u: "unat (urHead r) = ?t" using ht by simp
  have "urBuffer ?p ! ((unat (urTail ?p) + i) mod ?n) = (tl (uq r) @ [c]) ! i" if i: "i < ?n" for i
  proof -
    have e: "(unat (urTail ?p) + i) mod ?n = (?t + Suc i) mod ?n" unfolding t(1) by (simp add: mod_simps)
    show ?thesis
    proof (cases "Suc i < ?n")
      case True
      then show ?thesis using e d(2) pos_inj [of ?t ?n "Suc i" 0] assms(2)
        by (simp add: push_fields u nth_append nth_tl uq_def len less_diff_conv)
    next
      case False
      then have si: "Suc i = ?n" using i by simp
      then have "\<not> i < rsize r - Suc 0" by linarith
      with si show ?thesis using e d(1,2) assms(2) len by (simp add: push_fields u nth_append)
    qed
  qed
  then show "uq ?p = tl (uq r) @ [c]"
    using c assms(2) d(1) by (intro nth_equalityI) (simp_all add: uq_def del: upt_Suc)
qed

lemma pop_Some:
  assumes "uring_ok r" and "uart_PopRxRingBuffer r = (Some p, r1)"
  shows "uring_ok r1" "rsize r1 = rsize r" "uq r = urBuffer r ! unat p # uq r1" "urBuffer r1 = urBuffer r"
    "unat p = (unat (urTail r1) + (rsize r - 1)) mod rsize r"
proof -
  note d = uring_okD [OF assms(1)]
  let ?t = "unat (urTail r)" and ?n = "rsize r"
  have ne: "\<not> uart_IsEmptyRxRingBuffer r" and p: "p = urTail r" and r1: "r1 = r\<lparr>urIsFull := False, urTail := ring_inc r (urTail r)\<rparr>"
    using assms(2) by (auto simp: uart_PopRxRingBuffer_def split: if_splits)
  have pos: "0 < rcount r"
    using ne d by (cases "rcount r = 0") (auto simp: uart_IsEmptyRxRingBuffer_def word_unat_eq_iff)
  have t: "unat (urTail r1) = (?t + 1) mod ?n" by (simp add: r1 unat_ring_inc [OF assms(1)])
  have t': "unat (urTail r1) < ?n" using t d(1) by simp
  obtain k where k: "rcount r = Suc k" using pos gr0_implies_Suc by blast
  have h: "unat (urHead r1) = (unat (urTail r1) + (rcount r - 1)) mod ?n"
    unfolding t using d(3) k by (simp add: r1 mod_simps)
  have f: "urIsFull r1 \<longleftrightarrow> rcount r - 1 = ?n" using d pos by (simp add: r1)
  show n: "rsize r1 = rsize r" by (simp add: r1 OT_PLAT_UART_RX_BUFFER_SIZE_def)
  show "uring_ok r1" using uring_okI [of r1 "rcount r - 1"] t' h f d n by simp
  have c: "rcount r1 = rcount r - 1" using rcount_eqI [of r1 "rcount r - 1"] t' h f d n by simp
  show b: "urBuffer r1 = urBuffer r" by (simp add: r1)
  have "[0..<rcount r] = 0 # map Suc [0..<rcount r1]" using c pos by (simp add: map_Suc_upt upt_conv_Cons)
  moreover have "(unat (urTail r1) + i) mod ?n = (?t + Suc i) mod ?n" for i unfolding t by (simp add: mod_simps)
  ultimately show "uq r = urBuffer r ! unat p # uq r1"
    using d(2) by (simp add: uq_def b n p comp_def)
  obtain m where m: "?n = Suc m" using d(1) gr0_implies_Suc by blast
  have "((?t + 1) mod ?n + m) mod ?n = (?t + ?n) mod ?n" using m by (simp add: mod_simps)
  also have "\<dots> = ?t" using d(2) by simp
  moreover have "?n - 1 = m" using m by simp
  ultimately show "unat p = (unat (urTail r1) + (?n - 1)) mod ?n" unfolding t p by (simp only:)
qed

lemma pop_None: "uring_ok r \<Longrightarrow> uart_PopRxRingBuffer r = (None, r1) \<longleftrightarrow> uq r = [] \<and> r1 = r"
proof -
  assume r: "uring_ok r"
  note d = uring_okD [OF r]
  have "uart_IsEmptyRxRingBuffer r \<longleftrightarrow> rcount r = 0"
  proof
    assume "uart_IsEmptyRxRingBuffer r"
    then show "rcount r = 0" by (simp add: uart_IsEmptyRxRingBuffer_def rcount_def)
  next
    assume "rcount r = 0"
    then show "uart_IsEmptyRxRingBuffer r" using d by (simp add: uart_IsEmptyRxRingBuffer_def word_unat_eq_iff)
  qed
  then show ?thesis by (auto simp: uart_PopRxRingBuffer_def simp flip: length_0_conv)
qed

text \<open>The character together with its removal, as the loop that reads it at once sees it.\<close>

definition uring_get :: "uart_ring \<Rightarrow> (u8 \<times> uart_ring) option" where
  "uring_get r = (case uart_PopRxRingBuffer r of (None, _) \<Rightarrow> None | (Some p, r1) \<Rightarrow> Some (urBuffer r ! unat p, r1))"

interpretation ur: latest_queue uring_ok uq OT_PLAT_UART_RX_BUFFER_SIZE uart_PushRxRingBuffer uring_get
proof
  fix r :: uart_ring and c :: u8 assume r: "uring_ok r"
  show "uring_ok (uart_PushRxRingBuffer c r) \<and> rsize (uart_PushRxRingBuffer c r) = rsize r \<and>
      uq (uart_PushRxRingBuffer c r) = latest (rsize r) (uq r @ [c])"
  proof (cases "rcount r = rsize r")
    case True
    moreover have "drop (Suc 0) (uq r @ [c]) = tl (uq r) @ [c]"
      using True uring_okD(1) [OF r] by (cases "uq r") (auto simp flip: length_uq)
    ultimately show ?thesis using push_full [OF r True] by (simp add: latest_def)
  next
    case False
    then show ?thesis using push_room [OF r] uring_okD(4) [OF r] by (simp add: latest_fits)
  qed
next
  fix r assume r: "uring_ok r"
  show "case uring_get r of None \<Rightarrow> uq r = [] | Some (x, t) \<Rightarrow> uq r = x # uq t \<and> uring_ok t \<and> rsize t = rsize r"
  proof (cases "uart_PopRxRingBuffer r")
    case (Pair p t)
    show ?thesis
    proof (cases p)
      case None
      then show ?thesis using Pair pop_None [OF r, of t] by (simp add: uring_get_def)
    next
      case (Some q)
      then show ?thesis using Pair pop_Some [OF r, of q t] by (auto simp: uring_get_def)
    qed
  qed
  show "length (uq r) \<le> rsize r" using uring_okD(4) [OF r] by simp
qed

lemma slot_safe:
  "uring_ok r \<Longrightarrow> rcount r + length cs < rsize r \<Longrightarrow> unat p = (unat (urTail r) + (rsize r - 1)) mod rsize r \<Longrightarrow>
   urBuffer (fold uart_PushRxRingBuffer cs r) ! unat p = urBuffer r ! unat p"
proof (induction cs arbitrary: r)
  case (Cons c cs)
  note d = uring_okD [OF Cons(2)]
  let ?r = "uart_PushRxRingBuffer c r"
  have nf: "\<not> urIsFull r" using Cons(3) d(5) by simp
  have "unat p \<noteq> unat (urHead r)"
    using pos_inj [of "unat (urTail r)" "rsize r" "rsize r - 1" "rcount r"] d Cons(3,4) by auto
  then have "urBuffer ?r ! unat p = urBuffer r ! unat p" by (simp add: push_fields)
  then show ?case using Cons(1) [of ?r] push_room [OF Cons(2), of c] Cons(3,4) nf by (simp add: push_fields)
qed simp

end
