(* ===== verification/K32w0_Uart_Props.thy ===== *)
theory K32w0_Uart_Props
  imports K32w0_Uart_Ring
begin

text \<open>
  The properties of the k32w0 serial port: what an interrupt does, that the handler returns, that the main loop hands
  every character on in order, and that a transmission goes out byte for byte and is reported once.
\<close>

section \<open>What a trace says\<close>

definition rx_bytes :: "uart_call list \<Rightarrow> bytes" where
  "rx_bytes tr = concat (map (\<lambda>a. case a of USART_ReadByte b \<Rightarrow> [b] | _ \<Rightarrow> []) tr)"

definition tx_bytes :: "uart_call list \<Rightarrow> bytes" where
  "tx_bytes tr = concat (map (\<lambda>a. case a of FIFOWR b \<Rightarrow> [b] | _ \<Rightarrow> []) tr)"

definition handed_on :: "uart_call list \<Rightarrow> bytes list" where
  "handed_on tr = concat (map (\<lambda>a. case a of k32_UartReceived bs \<Rightarrow> [bs] | _ \<Rightarrow> []) tr)"

definition send_dones :: "uart_call list \<Rightarrow> nat" where
  "send_dones tr = count_list tr k32_UartSendDone"

lemma trace_append [simp]:
  "rx_bytes (tr @ us) = rx_bytes tr @ rx_bytes us" "tx_bytes (tr @ us) = tx_bytes tr @ tx_bytes us"
  "handed_on (tr @ us) = handed_on tr @ handed_on us" "send_dones (tr @ us) = send_dones tr + send_dones us"
  by (simp_all add: rx_bytes_def tx_bytes_def handed_on_def send_dones_def)

lemma trace_Cons [simp]:
  "rx_bytes [] = []" "rx_bytes (a # tr) = (case a of USART_ReadByte b \<Rightarrow> [b] | _ \<Rightarrow> []) @ rx_bytes tr"
  "tx_bytes [] = []" "tx_bytes (a # tr) = (case a of FIFOWR b \<Rightarrow> [b] | _ \<Rightarrow> []) @ tx_bytes tr"
  "handed_on [] = []" "handed_on (a # tr) = (case a of k32_UartReceived bs \<Rightarrow> [bs] | _ \<Rightarrow> []) @ handed_on tr"
  "send_dones [] = 0" "send_dones (a # tr) = of_bool (a = k32_UartSendDone) + send_dones tr"
  by (simp_all add: rx_bytes_def tx_bytes_def handed_on_def send_dones_def)

lemma ucall_simps [simp]:
  "uTrace (ucall a s) = uTrace s @ [a]" "uRxRing (ucall a s) = uRxRing s" "uTxData (ucall a s) = uTxData s"
  "uTxDataSize (ucall a s) = uTxDataSize s" "uInitialized (ucall a s) = uInitialized s" "uTxFlush (ucall a s) = uTxFlush s"
  "uTransmitDone (ucall a s) = uTransmitDone s"
  by (simp_all add: ucall_def)

section \<open>Interrupts\<close>

text \<open>The bytes of the transmission that are not written yet.\<close>

definition tx_left :: "k32_uart \<Rightarrow> bytes" where
  "tx_left s = (case uTxData s of None \<Rightarrow> [] | Some xs \<Rightarrow> take (uTxDataSize s) xs)"

definition tx_ok :: "k32_uart \<Rightarrow> bool" where
  "tx_ok s \<longleftrightarrow> (case uTxData s of None \<Rightarrow> uTxDataSize s = 0 | Some xs \<Rightarrow> uTxDataSize s \<le> length xs)"

definition uart_ok :: "k32_uart \<Rightarrow> bool" where
  "uart_ok s \<longleftrightarrow> uring_ok (uRxRing s) \<and> tx_ok s"

text \<open>An interrupt moves the bytes \<open>bs\<close> into the ring and the next bytes of the transmission to the hardware.\<close>

definition irq_rel :: "bytes \<Rightarrow> k32_uart \<Rightarrow> k32_uart \<Rightarrow> bool" where
  "irq_rel bs s t \<longleftrightarrow>
     uRxRing t = fold uart_PushRxRingBuffer bs (uRxRing s) \<and> rx_bytes (uTrace t) = rx_bytes (uTrace s) @ bs \<and>
     (\<exists>ws. tx_bytes (uTrace t) = tx_bytes (uTrace s) @ ws \<and> tx_left s = ws @ tx_left t) \<and>
     handed_on (uTrace t) = handed_on (uTrace s) \<and> send_dones (uTrace t) = send_dones (uTrace s) \<and>
     uInitialized t = uInitialized s \<and> uTxFlush t = uTxFlush s \<and> tx_ok t \<and>
     (uTransmitDone t \<longleftrightarrow> uTransmitDone s \<or> uTxData s \<noteq> None \<and> uTxData t = None) \<and>
     (uTxData t = None \<longrightarrow> uTxData s = None \<or> tx_left s \<noteq> []) \<and> (uTxData s = None \<longrightarrow> uTxData t = None) \<and>
     (tx_left s \<noteq> [] \<and> tx_left t = [] \<longrightarrow> uTxData t = None)"

lemma tx_simps [simp]:
  "tx_left (ucall a s) = tx_left s" "tx_ok (ucall a s) = tx_ok s"
  "tx_left (s\<lparr>uRxRing := r\<rparr>) = tx_left s" "tx_ok (s\<lparr>uRxRing := r\<rparr>) = tx_ok s"
  by (auto simp: tx_left_def tx_ok_def split: option.splits)

lemma irq_rel_refl: "tx_ok s \<Longrightarrow> irq_rel [] s s"
  by (auto simp: irq_rel_def)

lemma irq_rel_trans:
  assumes "irq_rel bs s t" and "irq_rel cs t u"
  shows "irq_rel (bs @ cs) s u"
proof -
  obtain vs where "tx_bytes (uTrace t) = tx_bytes (uTrace s) @ vs" "tx_left s = vs @ tx_left t"
    using assms(1) unfolding irq_rel_def by blast
  moreover obtain ws where "tx_bytes (uTrace u) = tx_bytes (uTrace t) @ ws" "tx_left t = ws @ tx_left u"
    using assms(2) unfolding irq_rel_def by blast
  ultimately have left: "\<exists>xs. tx_bytes (uTrace u) = tx_bytes (uTrace s) @ xs \<and> tx_left s = xs @ tx_left u"
    and grow: "tx_left t \<noteq> [] \<Longrightarrow> tx_left s \<noteq> []"
    by simp_all
  note a = assms(1) [unfolded irq_rel_def] and b = assms(2) [unfolded irq_rel_def]
  have "uTransmitDone u \<longleftrightarrow> uTransmitDone s \<or> uTxData s \<noteq> None \<and> uTxData u = None" using a b by argo
  moreover have "uTxData u = None \<longrightarrow> uTxData s = None \<or> tx_left s \<noteq> []" using a b grow by argo
  moreover have "tx_left s \<noteq> [] \<and> tx_left u = [] \<longrightarrow> uTxData u = None" using a b by argo
  ultimately show ?thesis using a b left by (simp only: irq_rel_def fold_append comp_apply append_assoc) simp
qed

lemma irq_rel_tx_ok: "irq_rel bs s t \<Longrightarrow> tx_ok t"
  by (simp add: irq_rel_def)

lemma irq_rel_call:
  assumes "tx_ok s" and "a \<in> {TxIrqOff, ClearRxErr, UartEventPending}"
  shows "irq_rel [] s (ucall a s)"
  using assms by (auto simp: irq_rel_def)

lemma irq_rel_ok: "irq_rel bs s t \<Longrightarrow> uring_ok (uRxRing s) \<Longrightarrow> uart_ok t"
  using ur.puts_latest by (simp add: irq_rel_def uart_ok_def)

lemma irq_rel_size: "irq_rel bs s t \<Longrightarrow> uart_ok s \<Longrightarrow> rsize (uRxRing t) = rsize (uRxRing s)"
  using ur.puts_latest by (simp add: irq_rel_def uart_ok_def)

lemma send_byte_rel:
  assumes "tx_ok s" and "uTxDataSize s \<noteq> 0"
  shows "\<exists>t. send_byte s = Some t \<and> irq_rel [] s t"
proof -
  obtain xs where xs: "uTxData s = Some xs" "uTxDataSize s \<le> length xs"
    using assms by (cases "uTxData s") (auto simp: tx_ok_def)
  then obtain c cs where c: "xs = c # cs" using assms(2) by (cases xs) auto
  obtain k where k: "uTxDataSize s = Suc k" using assms(2) not0_implies_Suc by blast
  show ?thesis
    using xs c k by (cases k) (auto simp: send_byte_def irq_rel_def tx_left_def tx_ok_def Let_def)
qed

text \<open>How many readings report a received byte; a handler takes at most that many.\<close>

definition rx_flags :: "reading list \<Rightarrow> nat" where
  "rx_flags rs = length (filter RXNOTEMPTY rs)"

lemma rx_flags_simps [simp]: "rx_flags [] = 0" "rx_flags (r # rs) = of_bool (RXNOTEMPTY r) + rx_flags rs"
  by (simp_all add: rx_flags_def)

lemma rd_reg_Some: "rd_reg rs = Some (a, rs') \<longleftrightarrow> rs = a # rs'"
  by (cases rs) auto

lemma irq_rx_rel:
  assumes "irq_rx rs s = Some (rs', t)" and "tx_ok s"
  shows "\<exists>bs. irq_rel bs s t \<and> length bs + rx_flags rs' \<le> rx_flags rs \<and> uTxDataSize t = uTxDataSize s"
  using assms unfolding irq_rx_def
  by (auto simp: rd_reg_Some irq_rel_refl irq_rel_def Let_def split: bind_splits if_splits
      intro: exI [of _ "[_]"] exI [of _ "[]"])

lemma irq_spurious_rel:
  assumes "irq_spurious rs s = Some (rs', t)" and "tx_ok s"
  shows "irq_rel [] s t \<and> rx_flags rs' \<le> rx_flags rs \<and> uTxDataSize t = uTxDataSize s"
  using assms unfolding irq_spurious_def
  by (auto simp: rd_reg_Some irq_rel_refl irq_rel_call split: bind_splits if_splits)

lemma irq_tx_rel:
  assumes "irq_tx send rs s = Some (send', rs', t)" and "tx_ok s" and "send \<longleftrightarrow> uTxDataSize s \<noteq> 0"
  shows "irq_rel [] s t \<and> rx_flags rs' \<le> rx_flags rs \<and> (send' \<longleftrightarrow> uTxDataSize t \<noteq> 0)"
  using assms send_byte_rel [of s] unfolding irq_tx_def
  by (auto simp: rd_reg_Some irq_rel_refl split: bind_splits if_splits)

lemma irq_goes_on_flags: "irq_goes_on send rs = Some (go, rs') \<Longrightarrow> rx_flags rs' \<le> rx_flags rs"
  unfolding irq_goes_on_def by (auto simp: rd_reg_Some split: bind_splits if_splits)

lemma irqLoop_rel:
  "irqLoop send rs s = Some t \<Longrightarrow> tx_ok s \<Longrightarrow> send \<longleftrightarrow> uTxDataSize s \<noteq> 0 \<Longrightarrow> \<exists>bs. irq_rel bs s t \<and> length bs \<le> rx_flags rs"
proof (induction rule: irqLoop.raw_induct [rotated 1, consumes 1])
  case (1 loop send rs s t)
  obtain go rs1 where g: "irq_goes_on send rs = Some (go, rs1)" using 1(2) by (auto split: bind_splits)
  show ?case
  proof (cases go)
    case False
    then show ?thesis using 1(2,3) g irq_rel_refl by (auto intro: exI [of _ "[]"])
  next
    case True
    obtain rs2 s2 where a: "irq_rx rs1 s = Some (rs2, s2)" using 1(2) g True by (auto split: bind_splits)
    obtain rs3 s3 where b: "irq_spurious rs2 s2 = Some (rs3, s3)" using 1(2) g True a by (auto split: bind_splits)
    obtain send' rs4 s4 where c: "irq_tx send rs3 s3 = Some (send', rs4, s4)" using 1(2) g True a b by (auto split: bind_splits)
    have l: "loop send' rs4 s4 = Some t" using 1(2) g True a b c by simp
    obtain bs where bs: "irq_rel bs s s2" "length bs + rx_flags rs2 \<le> rx_flags rs1" "uTxDataSize s2 = uTxDataSize s"
      using irq_rx_rel [OF a 1(3)] by blast
    have r3: "irq_rel [] s2 s3" "rx_flags rs3 \<le> rx_flags rs2" "uTxDataSize s3 = uTxDataSize s2"
      using irq_spurious_rel [OF b] bs(1) by (simp_all add: irq_rel_def)
    have r4: "irq_rel [] s3 s4" "rx_flags rs4 \<le> rx_flags rs3" "send' \<longleftrightarrow> uTxDataSize s4 \<noteq> 0"
      using irq_tx_rel [OF c] r3 bs(3) 1(4) by (simp_all add: irq_rel_def)
    obtain cs where cs: "irq_rel cs s4 t" "length cs \<le> rx_flags rs4"
      using 1(1) [OF l _ r4(3)] r4(1) irq_rel_tx_ok by blast
    have "irq_rel (bs @ cs) s t"
      using irq_rel_trans [OF irq_rel_trans [OF irq_rel_trans [OF bs(1) r3(1)] r4(1)] cs(1)] by simp
    moreover have "length (bs @ cs) \<le> rx_flags rs" using irq_goes_on_flags [OF g] bs(2) r3(2) r4(2) cs(2) by simp
    ultimately show ?thesis by blast
  qed
qed

lemma handler_rel:
  assumes "USART0_IRQHandler rs s = Some t" and "tx_ok s"
  shows "\<exists>bs. irq_rel bs s t \<and> length bs \<le> rx_flags rs"
proof -
  obtain a rs1 where a: "rs = a # rs1" using assms(1) by (cases rs) (auto simp: USART0_IRQHandler_def)
  obtain rs2 s2 u where u: "irqLoop (uTxDataSize s \<noteq> 0) rs2 s2 = Some u" "t = ucall UartEventPending u"
    and s2: "s2 = s \<or> s2 = ucall ClearRxErr s" and f: "rx_flags rs2 \<le> rx_flags rs1"
    using assms(1) a by (auto simp: USART0_IRQHandler_def rd_reg_Some Let_def split: bind_splits if_splits)
  have r2: "irq_rel [] s s2" using s2 assms(2) irq_rel_call irq_rel_refl by auto
  have ok2: "tx_ok s2" and z: "uTxDataSize s2 = uTxDataSize s" using r2 s2 by (auto simp: irq_rel_def)
  obtain bs where bs: "irq_rel bs s2 u" "length bs \<le> rx_flags rs2" using irqLoop_rel [OF u(1) ok2] z by auto
  have "irq_rel [] u t" unfolding u(2) using bs(1) by (intro irq_rel_call) (auto simp: irq_rel_def)
  then have "irq_rel bs s t" using irq_rel_trans [OF irq_rel_trans [OF r2 bs(1)]] by fastforce
  with bs(2) f a show ?thesis by (auto intro!: exI [of _ bs])
qed

section \<open>The handler returns\<close>

text \<open>
  A round of the handler reads at most seven registers, so ten readings in a row with no byte received and no room to
  send end it wherever they start.
\<close>

definition quiet :: "reading \<Rightarrow> bool" where
  "quiet r \<longleftrightarrow> \<not> RXNOTEMPTY r \<and> \<not> TXNOTFULL r"

definition ends_quiet :: "reading list \<Rightarrow> bool" where
  "ends_quiet rs \<longleftrightarrow> 10 \<le> length rs \<and> list_all quiet (drop (length rs - 10) rs)"

definition settles :: "reading list \<Rightarrow> bool" where
  "settles rs \<longleftrightarrow> (\<exists>xs qs. rs = xs @ qs \<and> list_all quiet qs \<and> 2 \<le> length qs \<and> (xs \<noteq> [] \<longrightarrow> 10 \<le> length qs))"

lemma settles_drop:
  assumes "list_all quiet qs" and "10 \<le> length qs" and "k \<le> 8"
  shows "settles (drop k (xs @ qs))"
proof (cases "k \<le> length xs")
  case True
  then have "drop k (xs @ qs) = drop k xs @ qs" by simp
  then show ?thesis using assms unfolding settles_def by (intro exI [of _ "drop k xs"] exI [of _ qs]) simp
next
  case False
  let ?d = "drop (k - length xs) qs"
  have "drop k (xs @ qs) = [] @ ?d" "list_all quiet ?d" "2 \<le> length ?d"
    using False assms by (auto simp: list_all_iff dest: in_set_dropD)
  then show ?thesis unfolding settles_def by blast
qed

lemma ends_quiet_split: "ends_quiet rs \<Longrightarrow> \<exists>xs qs. rs = xs @ qs \<and> list_all quiet qs \<and> length qs = 10"
  unfolding ends_quiet_def by (intro exI [of _ "take (length rs - 10) rs"] exI [of _ "drop (length rs - 10) rs"]) auto

lemma rd_reg_drop: "1 \<le> length rs \<Longrightarrow> rd_reg rs = Some (hd rs, drop 1 rs)"
  by (cases rs) auto

lemma irq_goes_on_reads: "2 \<le> length rs \<Longrightarrow> \<exists>go k. k \<le> 2 \<and> irq_goes_on send rs = Some (go, drop k rs)"
  by (cases "RXNOTEMPTY (hd rs)"; cases send)
     (auto simp: irq_goes_on_def rd_reg_drop numeral_2_eq_2 intro: exI [of _ 1] exI [of _ 2])

lemma irq_rx_reads: "2 \<le> length rs \<Longrightarrow> \<exists>k t. k \<le> 2 \<and> irq_rx rs s = Some (drop k rs, t)"
  by (cases "RXNOTEMPTY (hd rs)")
     (auto simp: irq_rx_def rd_reg_drop Let_def numeral_2_eq_2 intro: exI [of _ 1] exI [of _ 2])

lemma irq_spurious_reads: "2 \<le> length rs \<Longrightarrow> \<exists>k t. k \<le> 2 \<and> irq_spurious rs s = Some (drop k rs, t)"
  by (cases "uTxDataSize s = 0"; cases "TXNOTFULL (hd rs)")
     (auto simp: irq_spurious_def rd_reg_drop numeral_2_eq_2 intro: exI [of _ 0] exI [of _ 1] exI [of _ 2])

lemma irq_tx_reads:
  assumes "1 \<le> length rs" and "tx_ok s" and "send \<longleftrightarrow> uTxDataSize s \<noteq> 0"
  shows "\<exists>k send' t. k \<le> 1 \<and> irq_tx send rs s = Some (send', drop k rs, t)"
  using assms send_byte_rel [of s]
  by (cases send; cases "TXNOTFULL (hd rs)") (auto simp: irq_tx_def rd_reg_drop intro: exI [of _ 0] exI [of _ 1])

lemma quiet_stops: "list_all quiet qs \<Longrightarrow> 2 \<le> length qs \<Longrightarrow> \<exists>rs. irq_goes_on send qs = Some (False, rs)"
  by (cases qs; cases "tl qs") (auto simp: irq_goes_on_def quiet_def)

lemma irqLoop_returns:
  "settles rs \<Longrightarrow> tx_ok s \<Longrightarrow> send \<longleftrightarrow> uTxDataSize s \<noteq> 0 \<Longrightarrow> \<exists>t. irqLoop send rs s = Some t"
proof (induction "length rs" arbitrary: rs s send rule: less_induct)
  case less
  obtain xs qs where q: "rs = xs @ qs" "list_all quiet qs" "2 \<le> length qs" "xs \<noteq> [] \<longrightarrow> 10 \<le> length qs"
    using less(2) unfolding settles_def by blast
  show ?case
  proof (cases "xs = []")
    case True
    then show ?thesis using quiet_stops [OF q(2,3), of send] q(1) by (auto simp: irqLoop.simps [of send qs s])
  next
    case False
    then have len: "11 \<le> length rs" using q by (cases xs) auto
    obtain go k1 where g: "k1 \<le> 2" "irq_goes_on send rs = Some (go, drop k1 rs)" using irq_goes_on_reads [of rs send] len by auto
    have l1: "2 \<le> length (drop k1 rs)" using len g(1) by simp
    obtain k2 s2 where a: "k2 \<le> 2" "irq_rx (drop k1 rs) s = Some (drop k2 (drop k1 rs), s2)"
      using irq_rx_reads [OF l1, of s] by blast
    have l2: "2 \<le> length (drop (k2 + k1) rs)" using len g(1) a(1) by simp
    obtain k3 s3 where b: "k3 \<le> 2" "irq_spurious (drop (k2 + k1) rs) s2 = Some (drop k3 (drop (k2 + k1) rs), s3)"
      using irq_spurious_reads [OF l2, of s2] by blast
    have r2: "tx_ok s2" "uTxDataSize s2 = uTxDataSize s" using irq_rx_rel [OF a(2) less(3)] irq_rel_tx_ok by auto
    have r3: "tx_ok s3" "uTxDataSize s3 = uTxDataSize s" using irq_spurious_rel [OF b(2) r2(1)] r2(2) irq_rel_tx_ok by auto
    have l3: "1 \<le> length (drop (k3 + (k2 + k1)) rs)" using len g(1) a(1) b(1) by simp
    obtain k4 send' s4 where c: "k4 \<le> 1" "irq_tx send (drop (k3 + (k2 + k1)) rs) s3 = Some (send', drop k4 (drop (k3 + (k2 + k1)) rs), s4)"
      using irq_tx_reads [OF l3 r3(1), of send] r3(2) less(4) by auto
    have r4: "tx_ok s4" "send' \<longleftrightarrow> uTxDataSize s4 \<noteq> 0" using irq_tx_rel [OF c(2) r3(1)] r3(2) less(4) irq_rel_tx_ok by auto
    let ?k = "k4 + (k3 + (k2 + k1))"
    have "settles (drop ?k rs)" unfolding q(1) using q False g(1) a(1) b(1) c(1) by (intro settles_drop) auto
    moreover have "length (drop ?k rs) < length rs" if go
    proof -
      have "0 < k1" using g that by (cases k1) (auto simp: irq_goes_on_def rd_reg_Some split: bind_splits if_splits)
      then show ?thesis using len by simp
    qed
    ultimately have "\<exists>t. irqLoop send' (drop ?k rs) s4 = Some t" if go using less(1) r4 that by blast
    then show ?thesis using g(2) a(2) b(2) c(2) by (cases go) (auto simp: irqLoop.simps [of send rs s])
  qed
qed

lemma handler_returns:
  assumes "ends_quiet rs" and "tx_ok s"
  shows "\<exists>bs t. USART0_IRQHandler rs s = Some t \<and> irq_rel bs s t \<and> length bs \<le> rx_flags rs"
proof -
  obtain xs qs where q: "rs = xs @ qs" "list_all quiet qs" "length qs = 10" using ends_quiet_split [OF assms(1)] by blast
  have len: "10 \<le> length rs" using q by simp
  have d: "settles (drop k rs)" if "k \<le> 8" for k unfolding q(1) using q that by (intro settles_drop) auto
  have 1: "\<exists>t. irqLoop (uTxDataSize s \<noteq> 0) (drop 1 rs) s = Some t" using irqLoop_returns [OF d [of 1] assms(2)] by simp
  have 2: "\<exists>t. irqLoop (uTxDataSize s \<noteq> 0) (drop 2 rs) (ucall ClearRxErr s) = Some t"
    using irqLoop_returns [OF d [of 2], of "ucall ClearRxErr s"] assms(2) by simp
  have "\<exists>t. USART0_IRQHandler rs s = Some t"
    using 1 2 len by (cases "RXERR (hd rs)") (auto simp: USART0_IRQHandler_def rd_reg_drop Let_def numeral_2_eq_2)
  then show ?thesis using handler_rel [OF _ assms(2)] by blast
qed

lemma irqs_return:
  "list_all ends_quiet is \<Longrightarrow> tx_ok s \<Longrightarrow>
   \<exists>bs t. take_irqs is s = Some t \<and> irq_rel bs s t \<and> length bs \<le> sum_list (map rx_flags is)"
proof (induction "is" arbitrary: s)
  case Nil
  then show ?case using irq_rel_refl by (auto intro: exI [of _ "[]"])
next
  case (Cons i "is")
  then obtain bs s1 where 1: "USART0_IRQHandler i s = Some s1" "irq_rel bs s s1" "length bs \<le> rx_flags i"
    using handler_returns [of i s] by auto
  then obtain cs t where 2: "take_irqs is s1 = Some t" "irq_rel cs s1 t" "length cs \<le> sum_list (map rx_flags is)"
    using Cons irq_rel_tx_ok by fastforce
  then show ?case using 1 irq_rel_trans [OF 1(2) 2(2)] by (auto intro!: exI [of _ "bs @ cs"])
qed

lemma irqs_rel: "take_irqs is s = Some t \<Longrightarrow> tx_ok s \<Longrightarrow> \<exists>bs. irq_rel bs s t"
proof (induction "is" arbitrary: s)
  case Nil
  then show ?case using irq_rel_refl by auto
next
  case (Cons i "is")
  then obtain s1 where s1: "USART0_IRQHandler i s = Some s1" "take_irqs is s1 = Some t" by (auto split: bind_splits)
  then obtain bs where "irq_rel bs s s1" using handler_rel Cons(3) by blast
  with s1(2) Cons(1) [of s1] irq_rel_tx_ok irq_rel_trans show ?case by blast
qed

section \<open>Receiving\<close>

text \<open>The bytes that the interrupts of a turn may bring.\<close>

definition turn_flags :: "(reading list list \<times> reading list list) list \<Rightarrow> nat" where
  "turn_flags irqs = sum_list (map (\<lambda>(is1, is2). sum_list (map rx_flags is1) + sum_list (map rx_flags is2)) irqs)"

definition turn_quiet :: "(reading list list \<times> reading list list) list \<Rightarrow> bool" where
  "turn_quiet irqs = list_all (\<lambda>(is1, is2). list_all ends_quiet is1 \<and> list_all ends_quiet is2) irqs"

lemma irq_rel_fits:
  assumes "irq_rel bs s t" and "uart_ok s" and "rcount (uRxRing s) + length bs \<le> rsize (uRxRing s)"
  shows "uq (uRxRing t) = uq (uRxRing s) @ bs"
  using assms ur.puts_fit [of "uRxRing s" bs] by (simp add: irq_rel_def uart_ok_def)

definition round_irqs :: "(reading list list \<times> reading list list) list \<Rightarrow> reading list list \<times> reading list list" where
  "round_irqs irqs = (case irqs of [] \<Rightarrow> ([], []) | i # _ \<Rightarrow> i)"

lemma round_irqs_facts:
  assumes "turn_quiet irqs" and "round_irqs irqs = (is1, is2)"
  shows "list_all ends_quiet is1" "list_all ends_quiet is2" "turn_quiet (tl irqs)"
    "turn_flags irqs = sum_list (map rx_flags is1) + sum_list (map rx_flags is2) + turn_flags (tl irqs)"
  using assms by (cases irqs; auto simp: turn_quiet_def turn_flags_def round_irqs_def)+

definition same_side :: "k32_uart \<Rightarrow> k32_uart \<Rightarrow> bool" where
  "same_side s t \<longleftrightarrow> handed_on (uTrace t) = handed_on (uTrace s) \<and> send_dones (uTrace t) = send_dones (uTrace s) \<and>
     uInitialized t = uInitialized s \<and> uTxFlush t = uTxFlush s \<and>
     (uTransmitDone t \<longleftrightarrow> uTransmitDone s \<or> uTxData s \<noteq> None \<and> uTxData t = None) \<and> (uTxData s = None \<longrightarrow> uTxData t = None)"

lemma same_side_rel: "irq_rel bs s t \<Longrightarrow> same_side s t"
  by (simp add: irq_rel_def same_side_def)

lemma same_side_trans: "same_side s t \<Longrightarrow> same_side t u \<Longrightarrow> same_side s u"
  unfolding same_side_def by auto

lemma same_side_ring [simp]: "same_side (s\<lparr>uRxRing := r\<rparr>) t \<longleftrightarrow> same_side s t"
  by (simp add: same_side_def)

lemma receiveLoop_all:
  "turn_quiet irqs \<Longrightarrow> uart_ok s \<Longrightarrow> length rx + rcount (uRxRing s) + turn_flags irqs \<le> rsize (uRxRing s) \<Longrightarrow>
   rsize (uRxRing s) + 2 \<le> fuel + length rx \<Longrightarrow>
   \<exists>bs t. receiveLoop irqs fuel rx s = Some (rx @ uq (uRxRing s) @ bs, t) \<and> uart_ok t \<and> uq (uRxRing t) = [] \<and>
     rsize (uRxRing t) = rsize (uRxRing s) \<and> rx_bytes (uTrace t) = rx_bytes (uTrace s) @ bs \<and> same_side s t"
proof (induction fuel arbitrary: irqs rx s)
  case 0
  then show ?case by simp
next
  case (Suc fuel)
  obtain is1 is2 where i: "round_irqs irqs = (is1, is2)" by force
  note q = round_irqs_facts [OF Suc(2) i]
  have ok: "tx_ok s" "uring_ok (uRxRing s)" using Suc(3) by (simp_all add: uart_ok_def)
  obtain bs1 s1 where 1: "take_irqs is1 s = Some s1" "irq_rel bs1 s s1" "length bs1 \<le> sum_list (map rx_flags is1)"
    using irqs_return [OF q(1) ok(1)] by blast
  have uq1: "uq (uRxRing s1) = uq (uRxRing s) @ bs1" using irq_rel_fits [OF 1(2) Suc(3)] Suc(4) q(4) 1(3) by simp
  have ok1: "uart_ok s1" "rsize (uRxRing s1) = rsize (uRxRing s)"
    using irq_rel_ok [OF 1(2) ok(2)] irq_rel_size [OF 1(2) Suc(3)] by simp_all
  have rx1: "rx_bytes (uTrace s1) = rx_bytes (uTrace s) @ bs1" using 1(2) by (simp add: irq_rel_def)
  have loop: "receiveLoop irqs (Suc fuel) rx s =
      (case uart_PopRxRingBuffer (uRxRing s1) of
            (None, r) \<Rightarrow> Some (rx, s1)
          | (Some p, r) \<Rightarrow>
              do { s \<leftarrow> take_irqs is2 (s1\<lparr>uRxRing := r\<rparr>);
                   if length rx < rsize (uRxRing s)
                   then receiveLoop (tl irqs) fuel (rx @ [urBuffer (uRxRing s) ! unat p]) s
                   else None })"
    using i 1(1) by (simp add: round_irqs_def Let_def)
  obtain po r where po: "uart_PopRxRingBuffer (uRxRing s1) = (po, r)" by force
  have rok: "uring_ok (uRxRing s1)" using ok1(1) by (simp add: uart_ok_def)
  show ?case
  proof (cases po)
    case None
    then have "uq (uRxRing s1) = []" using pop_None [OF rok, of r] po by simp
    then show ?thesis using loop po None uq1 ok1 rx1 same_side_rel [OF 1(2)] by auto
  next
    case (Some p)
    note pop = pop_Some [OF rok po [unfolded Some]]
    let ?s = "s1\<lparr>uRxRing := r\<rparr>" and ?c = "urBuffer (uRxRing s1) ! unat p"
    have oks: "uart_ok ?s" "tx_ok ?s" using ok1(1) pop(1) by (simp_all add: uart_ok_def)
    have cnt: "Suc (rcount r) = rcount (uRxRing s) + length bs1" using pop(3) uq1 by (metis length_Cons length_append length_uq)
    obtain bs2 s2 where 2: "take_irqs is2 ?s = Some s2" "irq_rel bs2 ?s s2" "length bs2 \<le> sum_list (map rx_flags is2)"
      using irqs_return [OF q(2) oks(2)] by blast
    have sum: "length rx + rcount (uRxRing s) + length bs1 + length bs2 + turn_flags (tl irqs) \<le> rsize (uRxRing s)"
      using Suc(4) q(4) 1(3) 2(3) by simp
    have uq2: "uq (uRxRing s2) = uq r @ bs2" using irq_rel_fits [OF 2(2) oks(1)] sum cnt pop(2) ok1(2) by simp
    have ok2: "uart_ok s2" "rsize (uRxRing s2) = rsize (uRxRing s)"
      using irq_rel_ok [OF 2(2)] irq_rel_size [OF 2(2) oks(1)] pop(1,2) ok1(2) by simp_all
    have "uRxRing s2 = fold uart_PushRxRingBuffer bs2 r" using 2(2) by (simp add: irq_rel_def)
    then have c: "urBuffer (uRxRing s2) ! unat p = ?c"
      using slot_safe [OF pop(1), of bs2 p] pop(2,4,5) sum cnt ok1(2) by simp
    have rx2: "rx_bytes (uTrace s2) = rx_bytes (uTrace s1) @ bs2" using 2(2) by (simp add: irq_rel_def)
    have cnt2: "rcount (uRxRing s2) = rcount r + length bs2" using uq2 by (metis length_append length_uq)
    obtain bs3 t where t: "receiveLoop (tl irqs) fuel (rx @ [?c]) s2 = Some ((rx @ [?c]) @ uq (uRxRing s2) @ bs3, t)"
      "uart_ok t" "uq (uRxRing t) = []" "rsize (uRxRing t) = rsize (uRxRing s2)" "rx_bytes (uTrace t) = rx_bytes (uTrace s2) @ bs3" "same_side s2 t"
      using Suc(1) [OF q(3) ok2(1), of "rx @ [?c]"] sum cnt cnt2 ok2(2) Suc(5) by auto
    have "uq (uRxRing s) @ bs1 @ bs2 @ bs3 = ?c # uq (uRxRing s2) @ bs3" using uq1 uq2 pop(3) by simp
    moreover have "same_side s t"
      using same_side_trans [OF same_side_rel [OF 1(2)] same_side_trans [OF _ t(6)]] same_side_rel [OF 2(2)] by simp
    moreover have "length rx < rsize (uRxRing s2)" using sum cnt ok2(2) by simp
    ultimately show ?thesis using loop po Some 2(1) c t rx1 rx2 ok2(2) by (intro exI [of _ "bs1 @ bs2 @ bs3"] exI [of _ t]) simp
  qed
qed

text \<open>What OpenThread sends from a callback is a buffer of at least the length it gives.\<close>

definition send_ok :: "bytes option \<Rightarrow> u16 \<Rightarrow> bool" where
  "send_ok b l \<longleftrightarrow> (case b of None \<Rightarrow> False | Some xs \<Rightarrow> unat l \<le> length xs)"

definition react_ok :: "uart_react \<Rightarrow> bool" where
  "react_ok react \<longleftrightarrow> (\<forall>tr. \<forall>(b, l) \<in> set (react tr). send_ok b l)"

lemma send_facts:
  "uRxRing (snd (k32_otPlatUartSend b l s)) = uRxRing s" "uInitialized (snd (k32_otPlatUartSend b l s)) = uInitialized s"
  "uTxFlush (snd (k32_otPlatUartSend b l s)) = uTxFlush s" "uTransmitDone (snd (k32_otPlatUartSend b l s)) = uTransmitDone s"
  "rx_bytes (uTrace (snd (k32_otPlatUartSend b l s))) = rx_bytes (uTrace s)"
  "handed_on (uTrace (snd (k32_otPlatUartSend b l s))) = handed_on (uTrace s)"
  "send_dones (uTrace (snd (k32_otPlatUartSend b l s))) = send_dones (uTrace s)"
  "send_ok b l \<Longrightarrow> tx_ok s \<Longrightarrow> tx_ok (snd (k32_otPlatUartSend b l s))"
  by (auto simp: k32_otPlatUartSend_def send_ok_def tx_ok_def split: option.splits)

lemma sends_facts:
  fixes sends :: "(bytes option \<times> u16) list" and s :: k32_uart
  defines "t \<equiv> fold (\<lambda>(b, l) s. snd (k32_otPlatUartSend b l s)) sends s"
  shows "uRxRing t = uRxRing s \<and> uInitialized t = uInitialized s \<and> uTxFlush t = uTxFlush s \<and> uTransmitDone t = uTransmitDone s \<and>
    rx_bytes (uTrace t) = rx_bytes (uTrace s) \<and> handed_on (uTrace t) = handed_on (uTrace s) \<and>
    send_dones (uTrace t) = send_dones (uTrace s) \<and> ((\<forall>(b, l) \<in> set sends. send_ok b l) \<and> tx_ok s \<longrightarrow> tx_ok t)"
  unfolding t_def by (induction sends arbitrary: s) (auto simp: send_facts split_beta)

lemma react_facts [simp]:
  "uRxRing (react_sends react s) = uRxRing s" "uInitialized (react_sends react s) = uInitialized s"
  "uTxFlush (react_sends react s) = uTxFlush s" "uTransmitDone (react_sends react s) = uTransmitDone s"
  "rx_bytes (uTrace (react_sends react s)) = rx_bytes (uTrace s)" "handed_on (uTrace (react_sends react s)) = handed_on (uTrace s)"
  "send_dones (uTrace (react_sends react s)) = send_dones (uTrace s)"
  "react_ok react \<Longrightarrow> tx_ok s \<Longrightarrow> tx_ok (react_sends react s)"
  using sends_facts [of "react (uTrace s)" s] by (simp_all add: react_sends_def react_ok_def)

lemma tx_ok_flags [simp]: "tx_ok (s\<lparr>uTransmitDone := d\<rparr>) = tx_ok s" "tx_ok (s\<lparr>uTxFlush := f\<rparr>) = tx_ok s"
  by (simp_all add: tx_ok_def split: option.split)

lemma process_turn:
  assumes "uInitialized s" and "uart_ok s" and "react_ok react" and "turn_quiet irqs"
    and "rcount (uRxRing s) + turn_flags irqs \<le> rsize (uRxRing s)"
  shows "\<exists>cs t. K32WUartProcess react irqs s = Some t \<and> handed_on (uTrace t) = handed_on (uTrace s) @ [uq (uRxRing s) @ cs] \<and>
    rx_bytes (uTrace t) = rx_bytes (uTrace s) @ cs \<and> uq (uRxRing t) = [] \<and> uart_ok t \<and> uInitialized t \<and> uTxFlush t = uTxFlush s \<and>
    send_dones (uTrace t) = send_dones (uTrace s) + of_bool (uTransmitDone s \<and> \<not> uTxFlush s)"
proof -
  let ?s = "K32WProcessTransmit react s"
  have s: "uRxRing ?s = uRxRing s" "uart_ok ?s" "handed_on (uTrace ?s) = handed_on (uTrace s)" "rx_bytes (uTrace ?s) = rx_bytes (uTrace s)"
    "uInitialized ?s" "uTxFlush ?s = uTxFlush s" "send_dones (uTrace ?s) = send_dones (uTrace s) + of_bool (uTransmitDone s \<and> \<not> uTxFlush s)"
    using assms(1-3) by (simp_all add: K32WProcessTransmit_def txDone_def uart_ok_def)
  obtain bs t where t: "receiveLoop irqs (rsize (uRxRing s) + 2) [] ?s = Some (uq (uRxRing s) @ bs, t)" "uart_ok t" "uq (uRxRing t) = []"
    "rx_bytes (uTrace t) = rx_bytes (uTrace s) @ bs" "same_side ?s t"
    using receiveLoop_all [OF assms(4) s(2), of "[]" "rsize (uRxRing s) + 2"] assms(5) s(1,4) by auto
  show ?thesis
    using t s assms(1,3) by (auto simp: K32WUartProcess_def K32WProcessReceive_def same_side_def uart_ok_def)
qed


text \<open>A send of no bytes is accepted and then blocks the port: no interrupt ends it, and every later send is refused.\<close>

lemma k32_uart_empty_send_blocks:
  assumes "uTxData s = None" and "tx_ok s"
  shows "fst (k32_otPlatUartSend (Some b) 0 s) = OT_ERROR_NONE"
    and "take_irqs is (snd (k32_otPlatUartSend (Some b) 0 s)) = Some t \<Longrightarrow> k32_otPlatUartSend b' l t = (OT_ERROR_BUSY, t)"
proof -
  let ?s = "snd (k32_otPlatUartSend (Some b) 0 s)"
  have s: "uTxData ?s = Some b" "tx_left ?s = []" "tx_ok ?s" using assms by (simp_all add: k32_otPlatUartSend_def tx_left_def tx_ok_def)
  show "fst (k32_otPlatUartSend (Some b) 0 s) = OT_ERROR_NONE" using assms by (simp add: k32_otPlatUartSend_def)
  assume "take_irqs is ?s = Some t"
  then obtain bs where "irq_rel bs ?s t" using irqs_rel s(3) by blast
  then have "uTxData t \<noteq> None" using s(1,2) by (auto simp: irq_rel_def)
  then show "k32_otPlatUartSend b' l t = (OT_ERROR_BUSY, t)" by (simp add: k32_otPlatUartSend_def)
qed

text \<open>A port that was just enabled, and the registers of an interrupt that brings one byte.\<close>

definition fresh_uart :: "nat \<Rightarrow> k32_uart" where
  "fresh_uart n = snd (k32_otPlatUartEnable True (k32_uart_boot n))"

definition idle_reg :: reading where
  "idle_reg = \<lparr>RXERR = False, RXNOTEMPTY = False, TXNOTFULL = False, TXEMPTY = False, FIFORD = 0\<rparr>"

definition byte_irq :: "u8 \<Rightarrow> reading list" where
  "byte_irq c = [idle_reg, idle_reg\<lparr>RXNOTEMPTY := True\<rparr>, idle_reg\<lparr>RXNOTEMPTY := True\<rparr>, idle_reg\<lparr>FIFORD := c\<rparr>] @ replicate 10 idle_reg"

lemma fresh_uart_ok: "0 < n \<Longrightarrow> n \<le> 256 \<Longrightarrow> uart_ok (fresh_uart n)"
  by (simp add: fresh_uart_def k32_otPlatUartEnable_def k32_uart_boot_def uart_ok_def uring_ok_def tx_ok_def Let_def
      uart_ResetRxRingBuffer_def OT_PLAT_UART_RX_BUFFER_SIZE_def)

text \<open>
  Characters that keep arriving while the main loop empties the ring overflow the array on its stack: here a ring of two
  with two characters and one more in each of the first two rounds.
\<close>

lemma k32_uart_receive_overflow:
  "K32WProcessReceive (\<lambda>_. []) [([], [byte_irq 3]), ([], [byte_irq 4])]
     (the (take_irqs [byte_irq 1, byte_irq 2] (fresh_uart 2))) = None"
  by code_simp

section \<open>The counter of the serial manager build\<close>

text \<open>A history of sends, with the answer of the serial manager, and of its transmit callbacks.\<close>

datatype sm_event = SmSend u8 | SmTxCb

fun sm_run :: "sm_event list \<Rightarrow> sm_uart \<Rightarrow> sm_uart" where
  "sm_run [] s = s"
| "sm_run (SmSend st # es) s = sm_run es (snd (sm_otPlatUartSend st s))"
| "sm_run (SmTxCb # es) s = sm_run es (SerialMngr_TxCbApp s)"

fun sm_pending :: "sm_event list \<Rightarrow> nat \<Rightarrow> nat" where
  "sm_pending [] n = n"
| "sm_pending (SmSend st # es) n = sm_pending es (if st = 0 then n + 1 else n)"
| "sm_pending (SmTxCb # es) n = sm_pending es (n - 1)"

lemma sm_TxCnt_fields:
  "smTxCnt (snd (sm_otPlatUartSend st s)) = (if st = 0 then smTxCnt s + 1 else smTxCnt s)"
  "smTxCnt (SerialMngr_TxCbApp s) = (if smTxCnt s \<noteq> 0 then smTxCnt s - 1 else 0)"
  by (simp_all add: sm_otPlatUartSend_def SerialMngr_TxCbApp_def sm_txDone_def smcall_def Let_def)

text \<open>The 8-bit counter is the number of accepted and unfinished transmissions while that stays below 256.\<close>

lemma sm_TxCnt_exact:
  "unat (smTxCnt s) = n \<Longrightarrow> \<forall>k \<le> length es. sm_pending (take k es) n < 256 \<Longrightarrow> unat (smTxCnt (sm_run es s)) = sm_pending es n"
proof (induction es arbitrary: s n)
  case (Cons e es)
  have all: "\<forall>k \<le> length es. sm_pending (take (Suc k) (e # es)) n < 256" using Cons(3) by auto
  show ?case
  proof (cases e)
    case (SmSend st)
    have "(if st = 0 then n + 1 else n) < 256" using all [rule_format, of 0] SmSend by simp
    then have "unat (smTxCnt (snd (sm_otPlatUartSend st s))) = (if st = 0 then n + 1 else n)"
      using Cons(2) by (auto simp: sm_TxCnt_fields unat_word_ariths)
    then show ?thesis using Cons(1) all SmSend by simp
  next
    case SmTxCb
    have "unat (smTxCnt (SerialMngr_TxCbApp s)) = n - 1"
      using Cons(2) by (auto simp: sm_TxCnt_fields unat_eq_zero unat_minus_one)
    then show ?thesis using Cons(1) all SmTxCb by simp
  qed
qed simp

section \<open>Properties\<close>

text \<open>
  C19. The serial port hands on the latest characters in order: after any interrupts, each of which returns once the
  hardware is quiet, the ring holds the last characters received, as many as it has room for. As long as these and the
  characters that arrive during the next turn of the main loop fit together into the array on its stack, the turn
  returns and hands on all of them as one buffer, nothing lost, repeated or swapped, and leaves the ring empty; it may be
  interrupted before each pop and between a pop and the read of the character. When they do not fit, the turn leaves the
  array: \<open>k32_uart_receive_overflow\<close>.
\<close>

theorem k32_uart_hands_on_latest:
  assumes "uInitialized s" and "uart_ok s" and "react_ok react" and "list_all ends_quiet is"
  shows "\<exists>bs s1. take_irqs is s = Some s1 \<and> rx_bytes (uTrace s1) = rx_bytes (uTrace s) @ bs \<and>
    uq (uRxRing s1) = latest (OT_PLAT_UART_RX_BUFFER_SIZE (uRxRing s)) (uq (uRxRing s) @ bs) \<and>
    (\<forall>irqs. turn_quiet irqs \<and> length (uq (uRxRing s1)) + turn_flags irqs \<le> OT_PLAT_UART_RX_BUFFER_SIZE (uRxRing s) \<longrightarrow>
       (\<exists>cs t. K32WUartProcess react irqs s1 = Some t \<and> rx_bytes (uTrace t) = rx_bytes (uTrace s) @ bs @ cs \<and>
          handed_on (uTrace t) = handed_on (uTrace s) @ [uq (uRxRing s1) @ cs] \<and> uq (uRxRing t) = []))"
proof -
  have ok: "tx_ok s" "uring_ok (uRxRing s)" using assms(2) by (simp_all add: uart_ok_def)
  obtain bs s1 where 1: "take_irqs is s = Some s1" "irq_rel bs s s1" using irqs_return [OF assms(4) ok(1)] by blast
  have r: "uRxRing s1 = fold uart_PushRxRingBuffer bs (uRxRing s)" "rx_bytes (uTrace s1) = rx_bytes (uTrace s) @ bs"
    "handed_on (uTrace s1) = handed_on (uTrace s)" "uInitialized s1"
    using 1(2) assms(1) by (simp_all add: irq_rel_def)
  have ok1: "uart_ok s1" "rsize (uRxRing s1) = rsize (uRxRing s)"
    using irq_rel_ok [OF 1(2) ok(2)] irq_rel_size [OF 1(2) assms(2)] by simp_all
  have "\<exists>cs t. K32WUartProcess react irqs s1 = Some t \<and> rx_bytes (uTrace t) = rx_bytes (uTrace s) @ bs @ cs \<and>
      handed_on (uTrace t) = handed_on (uTrace s) @ [uq (uRxRing s1) @ cs] \<and> uq (uRxRing t) = []"
    if "turn_quiet irqs \<and> length (uq (uRxRing s1)) + turn_flags irqs \<le> rsize (uRxRing s)" for irqs
    using process_turn [OF r(4) ok1(1) assms(3), of irqs] that ok1(2) r(2,3) by auto
  moreover have "uq (uRxRing s1) = latest (rsize (uRxRing s)) (uq (uRxRing s) @ bs)"
    using ur.puts_latest [OF ok(2), of bs] r(1) by simp
  ultimately show ?thesis using 1(1) r(2) by blast
qed

theorem k32_uart_hands_on_latest_witness:
  "\<exists>bs s1. take_irqs [byte_irq 7, byte_irq 8, byte_irq 9] (fresh_uart 2) = Some s1 \<and>
    rx_bytes (uTrace s1) = rx_bytes (uTrace (fresh_uart 2)) @ bs \<and>
    uq (uRxRing s1) = latest (OT_PLAT_UART_RX_BUFFER_SIZE (uRxRing (fresh_uart 2))) (uq (uRxRing (fresh_uart 2)) @ bs)"
  using k32_uart_hands_on_latest [of "fresh_uart 2" "\<lambda>_. []" "[byte_irq 7, byte_irq 8, byte_irq 9]"] fresh_uart_ok [of 2]
  by (simp add: react_ok_def byte_irq_def ends_quiet_def quiet_def idle_reg_def numeral_eq_Suc)
     (auto simp: fresh_uart_def k32_otPlatUartEnable_def k32_uart_boot_def Let_def)





end
