(* ===== verification/K32w0_Spi.thy ===== *)
theory K32w0_Spi
  imports OtNxp_Prelude
begin

text \<open>
  \<^verbatim>\<open>src/k32w0/platform/spi_slave.c\<close>: the SPI slave of the radio co-processor. A DMA channel writes what the host sends
  round and round into \<open>spiRxBuffer\<close>; the main loop looks at the number of bytes that the channel has left, waits until it
  stops changing, skips idle bytes and takes one frame of a five-byte header and data out of the ring. The memory that
  the DMA writes is a field of the state, the number of bytes it has left is an argument of the operations that read it,
  and so is the answer of the completion callback. Calls to the hardware and to OpenThread are appended to the trace.
  \<open>None\<close> is an assertion that fires or a write outside the input buffer. Indices into the ring and the counters of the loops
  stay below 1024 and are natural numbers.
\<close>

section \<open>State\<close>

definition SPI_RX_RING_BUFFER :: nat where "SPI_RX_RING_BUFFER = 1023"

datatype eSpiTransactionState = SPI_TRANSACTION_DONE | SPI_TRANSACTION_IN_PROGRESS

datatype spi_call =
    SpiHwInit | SpiTx "bytes option" u16 | SpiIntPulse
  | SpiComplete "bytes option" u16 "bytes option" u16 nat | SpiProcess

record k32_spi =
  sOutputBuf :: "bytes option"
  sOutputBufLen :: u16
  sInputBuf :: "bytes option"
  sInputBufLen :: u16
  sCallbacks :: bool
  firstBoot :: bool
  transactionState :: eSpiTransactionState
  nbBusyStateDuringSpiTrans :: u32
  spiRxBuffer :: bytes
  rxIn :: nat
  RemainingBytesGlobal :: u32
  spiTrace :: "spi_call list"

definition k32_spi_boot :: k32_spi where
  "k32_spi_boot = \<lparr>sOutputBuf = None, sOutputBufLen = 0, sInputBuf = None, sInputBufLen = 0, sCallbacks = False, firstBoot = True,
     transactionState = SPI_TRANSACTION_DONE, nbBusyStateDuringSpiTrans = 0, spiRxBuffer = replicate SPI_RX_RING_BUFFER 0, rxIn = 0,
     RemainingBytesGlobal = of_nat SPI_RX_RING_BUFFER, spiTrace = []\<rparr>"

definition spicall :: "spi_call \<Rightarrow> k32_spi \<Rightarrow> k32_spi" where
  "spicall a s = s\<lparr>spiTrace := spiTrace s @ [a]\<rparr>"

section \<open>Operations\<close>

definition spiCheckRxSate :: "u32 \<Rightarrow> k32_spi \<Rightarrow> k32_spi" where
  "spiCheckRxSate RemainingBytes s =
     (if RemainingBytesGlobal s \<noteq> RemainingBytes
      then s\<lparr>transactionState := SPI_TRANSACTION_IN_PROGRESS, RemainingBytesGlobal := RemainingBytes\<rparr>
      else s\<lparr>transactionState := SPI_TRANSACTION_DONE\<rparr>)"

definition prepareTxBuffers :: "bytes option \<Rightarrow> u16 \<Rightarrow> bool \<Rightarrow> k32_spi \<Rightarrow> k32_spi" where
  "prepareTxBuffers aOutputBuf aOutputBufLen aRequestTransactionFlag s =
     (let s1 = spicall (SpiTx aOutputBuf aOutputBufLen) s in if aRequestTransactionFlag then spicall SpiIntPulse s1 else s1)"

definition ring_up :: "nat \<Rightarrow> nat" where
  "ring_up r = (if r + 1 \<ge> SPI_RX_RING_BUFFER then 0 else r + 1)"

definition ring_down :: "nat \<Rightarrow> nat" where
  "ring_down r = (if r = 0 then SPI_RX_RING_BUFFER - 1 else r - 1)"

definition nbBytesReceived :: "u32 \<Rightarrow> nat \<Rightarrow> nat" where
  "nbBytesReceived remaining rx =
     (let RemainingBytes = (if remaining = 1024 then 0 else remaining);
          n = unat (of_nat SPI_RX_RING_BUFFER - RemainingBytes)
      in if n \<ge> rx then n - rx else n + (SPI_RX_RING_BUFFER - rx))"

text \<open>Skipping bytes \<^verbatim>\<open>0x00\<close> and \<^verbatim>\<open>0xFF\<close>: the new position and the number of bytes left.\<close>

fun skipLoop :: "bytes \<Rightarrow> nat \<Rightarrow> nat \<Rightarrow> nat \<Rightarrow> nat \<times> nat" where
  "skipLoop buf 0 r left = (r, left)"
| "skipLoop buf (Suc n) r left =
     (if buf ! r \<noteq> 0 \<and> buf ! r \<noteq> 0xFF then (r, left) else skipLoop buf n (ring_up r) (left - 1))"

text \<open>
  The loop over the bytes of a frame: position, input buffer and whether the callback is due. The size of the data is in
  the fourth and fifth byte.
\<close>

function parseLoop :: "bytes \<Rightarrow> nat \<Rightarrow> nat \<Rightarrow> nat \<Rightarrow> nat \<Rightarrow> u16 \<Rightarrow> bytes option \<Rightarrow> bool \<Rightarrow> (nat \<times> bytes option \<times> bool) option" where
  "parseLoop buf left savedInputBufLen i r spiPacketDataSize inp processCallback =
     (if i < left
      then do { inp \<leftarrow> (if i < savedInputBufLen
                          then Option.bind inp (\<lambda>xs. map_option Some (wr_bytes i [buf ! r] xs)) else Some inp);
                let size = spiPacketDataSize + (if i = 3 then ucast (buf ! r) else if i = 4 then push_bit 8 (ucast (buf ! r)) else 0);
                if i = 4 \<and> left < unat size + 5
                then Some (ring_down (ring_down (ring_down (ring_down r))), inp, processCallback)
                else if i \<ge> 4 \<and> i = unat size + 4 then Some (ring_up r, inp, True)
                else parseLoop buf left savedInputBufLen (Suc i) (ring_up r) size inp (processCallback \<or> i + 1 = savedInputBufLen) }
      else Some (r, inp, processCallback))"
  by pat_completeness auto

termination parseLoop by (relation "measure (\<lambda>(buf, left, saved, i, r, size, inp, cb). left - i)") auto

declare parseLoop.simps [simp del]

text \<open>The end of \<^verbatim>\<open>K32WSpiSlaveProcess\<close> when a frame is there; \<open>again\<close> is the answer of the completion callback.\<close>

definition spi_complete :: "bool \<Rightarrow> nat \<Rightarrow> k32_spi \<Rightarrow> k32_spi option" where
  "spi_complete again transLen s =
     do { inp \<leftarrow> (if nbBusyStateDuringSpiTrans s \<ge> 3
                  then Option.bind (sInputBuf s) (\<lambda>xs. map_option Some (wr_bytes 1 [0, 0] xs)) else Some (sInputBuf s));
          let s = s\<lparr>sInputBuf := inp, nbBusyStateDuringSpiTrans := 0\<rparr>;
          let s = spicall (SpiComplete (sOutputBuf s) (sOutputBufLen s) inp (sInputBufLen s) transLen) s;
          Some (if again then spicall SpiProcess s else s) }"

definition K32WSpiSlaveProcess :: "u32 \<Rightarrow> bool \<Rightarrow> k32_spi \<Rightarrow> k32_spi option" where
  "K32WSpiSlaveProcess remaining again s =
     (if \<not> sCallbacks s then Some s
      else let s = spiCheckRxSate remaining s in
        if transactionState s = SPI_TRANSACTION_IN_PROGRESS then Some s
        else let n = nbBytesReceived (RemainingBytesGlobal s) (rxIn s);
                 (r, left) = skipLoop (spiRxBuffer s) n (rxIn s) n;
                 s = s\<lparr>rxIn := r\<rparr>
             in if left \<ge> 5
                then do { (r, inp, cb) \<leftarrow> parseLoop (spiRxBuffer s) left (unat (sInputBufLen s)) 0 r 0 (sInputBuf s) False;
                          let s = s\<lparr>rxIn := r, sInputBuf := inp\<rparr>;
                          if cb then spi_complete again left s else Some s }
                else Some s)"

text \<open>The two callbacks are asserted not to be null, so one flag says that they are set.\<close>

definition otPlatSpiSlaveEnable :: "k32_spi \<Rightarrow> otError \<times> k32_spi" where
  "otPlatSpiSlaveEnable s =
     (if sCallbacks s then (OT_ERROR_ALREADY, s) else (OT_ERROR_NONE, (spicall SpiHwInit s)\<lparr>sCallbacks := True\<rparr>))"

definition otPlatSpiSlavePrepareTransaction ::
  "u32 \<Rightarrow> bytes option \<Rightarrow> u16 \<Rightarrow> bytes option \<Rightarrow> u16 \<Rightarrow> bool \<Rightarrow> k32_spi \<Rightarrow> (otError \<times> k32_spi) option" where
  "otPlatSpiSlavePrepareTransaction remaining aOutputBuf aOutputBufLen aInputBuf aInputBufLen aRequestTransactionFlag s =
     (if \<not> sCallbacks s then None
      else let s1 = spiCheckRxSate remaining s in
        Some (if transactionState s1 = SPI_TRANSACTION_IN_PROGRESS
          then (let s2 = (if firstBoot s1 \<and> aRequestTransactionFlag then spicall SpiIntPulse s1 else s1)
                in (OT_ERROR_BUSY, s2\<lparr>nbBusyStateDuringSpiTrans := nbBusyStateDuringSpiTrans s2 + 1, firstBoot := False\<rparr>))
          else (let s2 = prepareTxBuffers aOutputBuf aOutputBufLen aRequestTransactionFlag s1;
                    s3 = (if aOutputBuf \<noteq> None then s2\<lparr>sOutputBuf := aOutputBuf, sOutputBufLen := aOutputBufLen\<rparr> else s2);
                    s4 = (if aInputBuf \<noteq> None then s3\<lparr>sInputBuf := aInputBuf, sInputBufLen := aInputBufLen\<rparr> else s3)
                in (OT_ERROR_NONE, s4\<lparr>firstBoot := False\<rparr>))))"

section \<open>The ring as a list\<close>

definition ring_read :: "bytes \<Rightarrow> nat \<Rightarrow> nat \<Rightarrow> bytes" where
  "ring_read buf r n = map (\<lambda>j. buf ! ((r + j) mod SPI_RX_RING_BUFFER)) [0..<n]"

lemma length_ring_read [simp]: "length (ring_read buf r n) = n"
  by (simp add: ring_read_def)

lemma ring_up_mod: "r < SPI_RX_RING_BUFFER \<Longrightarrow> ring_up r = (r + 1) mod SPI_RX_RING_BUFFER"
  by (auto simp: ring_up_def mod_if)

lemma ring_up_at: "ring_up ((r + i) mod SPI_RX_RING_BUFFER) = (r + Suc i) mod SPI_RX_RING_BUFFER"
  using ring_up_mod [of "(r + i) mod SPI_RX_RING_BUFFER"] by (simp add: SPI_RX_RING_BUFFER_def mod_simps)

lemma ring_down_at: "ring_down ((r + Suc i) mod SPI_RX_RING_BUFFER) = (r + i) mod SPI_RX_RING_BUFFER"
  by (simp add: ring_down_def SPI_RX_RING_BUFFER_def mod_Suc)

definition idle_byte :: "u8 \<Rightarrow> bool" where
  "idle_byte c \<longleftrightarrow> c = 0 \<or> c = 0xFF"

lemma skipLoop_idle:
  "r < SPI_RX_RING_BUFFER \<Longrightarrow> ring_read buf r n = zs @ f # fs \<Longrightarrow> list_all idle_byte zs \<Longrightarrow> \<not> idle_byte f \<Longrightarrow> n \<le> left \<Longrightarrow>
   skipLoop buf n r left = ((r + length zs) mod SPI_RX_RING_BUFFER, left - length zs)"
proof (induction n arbitrary: r zs left)
  case (Suc n)
  have "ring_read buf r (Suc n) = buf ! (r mod SPI_RX_RING_BUFFER) # ring_read buf (ring_up r) n"
    unfolding ring_read_def ring_up_mod [OF Suc(2)] upt_conv_Cons [OF zero_less_Suc]
    by (simp add: map_Suc_upt [symmetric] comp_def mod_simps del: upt_Suc)
  then have h: "zs @ f # fs = buf ! r # ring_read buf (ring_up r) n" using Suc(2,3) by simp
  have up: "ring_up r < SPI_RX_RING_BUFFER" by (simp add: ring_up_def SPI_RX_RING_BUFFER_def)
  show ?case
  proof (cases zs)
    case Nil
    then show ?thesis using h Suc(2,5) by (auto simp: idle_byte_def)
  next
    case (Cons z ys)
    then have "skipLoop buf n (ring_up r) (left - 1) = ((ring_up r + length ys) mod SPI_RX_RING_BUFFER, left - 1 - length ys)"
      using Suc(1) [OF up, of ys "left - 1"] h Suc(4-6) by simp
    then show ?thesis using Cons h Suc(4) ring_up_mod [OF Suc(2)] by (auto simp: idle_byte_def mod_simps)
  qed
qed (simp add: ring_read_def)

end
