(* ===== verification/K32w0_Spi_Props.thy ===== *)
theory K32w0_Spi_Props
  imports K32w0_Spi
begin

text \<open>
  One turn of the SPI slave takes one frame out of the ring: a complete frame is handed on byte for byte and the
  position moves behind it, an incomplete one is left where it is.
\<close>

section \<open>One frame\<close>

text \<open>The size of the data of a frame, from its header.\<close>

definition frame_size :: "bytes \<Rightarrow> nat" where
  "frame_size fs = unat (fs ! 3) + 256 * unat (fs ! 4)"

text \<open>What the loop has added up before byte \<open>i\<close>.\<close>

definition size_at :: "bytes \<Rightarrow> nat \<Rightarrow> u16" where
  "size_at fs i = (if i \<le> 3 then 0 else if i = 4 then ucast (fs ! 3) else ucast (fs ! 3) + push_bit 8 (ucast (fs ! 4)))"

definition filled :: "nat \<Rightarrow> bytes \<Rightarrow> bytes \<Rightarrow> nat \<Rightarrow> bytes" where
  "filled saved old fs i = take (min i saved) fs @ drop (min i saved) old"

lemma unat_wide: "unat (ucast (a :: u8) :: u16) = unat a"
proof -
  have "unat a < 2 ^ LENGTH(8)" by (rule unsigned_less)
  then show ?thesis by (simp add: unsigned_ucast_eq take_bit_nat_eq_self)
qed

lemma unat_size: "unat (ucast (a :: u8) + push_bit 8 (ucast (b :: u8)) :: u16) = unat a + 256 * unat b"
proof -
  have "unat a < 2 ^ LENGTH(8)" "unat b < 2 ^ LENGTH(8)" by (rule unsigned_less)+
  then have b: "unat a < 256" "unat b < 256" by simp_all
  have "unat (push_bit 8 (ucast b) :: u16) = 256 * unat b"
    using b(2) by (simp add: push_bit_eq_mult unat_word_ariths unat_wide)
  then show ?thesis using b by (simp add: unat_word_ariths unat_wide)
qed

lemma size_at_done: "5 \<le> i \<Longrightarrow> unat (size_at fs i) = frame_size fs"
  by (simp add: size_at_def frame_size_def unat_size)

lemma size_step:
  "size_at fs i + (if i = 3 then ucast (fs ! i) else if i = 4 then push_bit 8 (ucast (fs ! i)) else 0) = size_at fs (Suc i)"
  by (auto simp: size_at_def)

lemma filled_step:
  assumes "i < length fs" and "saved \<le> length old"
  shows "(if i < saved then Option.bind (Some (filled saved old fs i)) (\<lambda>xs. map_option Some (wr_bytes i [fs ! i] xs))
      else Some (Some (filled saved old fs i))) = Some (Some (filled saved old fs (Suc i)))"
  using assms by (auto simp: filled_def wr_bytes_def min_def take_Suc_conv_app_nth Suc_le_eq)

text \<open>One round, on the list of the bytes that are left.\<close>

lemma parse_step:
  assumes "i < left" and "saved \<le> length old" and "fs = ring_read buf r left"
  shows "parseLoop buf left saved i ((r + i) mod SPI_RX_RING_BUFFER) (size_at fs i) (Some (filled saved old fs i)) cb =
    (if i = 4 \<and> left < frame_size fs + 5 then Some (r mod SPI_RX_RING_BUFFER, Some (filled saved old fs 5), cb)
     else if 4 \<le> i \<and> i = frame_size fs + 4 then Some ((r + Suc i) mod SPI_RX_RING_BUFFER, Some (filled saved old fs (Suc i)), True)
     else parseLoop buf left saved (Suc i) ((r + Suc i) mod SPI_RX_RING_BUFFER) (size_at fs (Suc i)) (Some (filled saved old fs (Suc i))) (cb \<or> i + 1 = saved))"
proof -
  have c: "buf ! ((r + i) mod SPI_RX_RING_BUFFER) = fs ! i" using assms(1,3) by (simp add: ring_read_def)
  have "i < length fs" using assms(1,3) by simp
  note f = filled_step [OF this assms(2)]
  have sz: "unat (size_at fs (Suc i)) = frame_size fs" if "4 \<le> i" using size_at_done that by simp
  have down: "ring_down (ring_down (ring_down (ring_down ((r + 4) mod SPI_RX_RING_BUFFER)))) = r mod SPI_RX_RING_BUFFER"
    using ring_down_at [of r 3] ring_down_at [of r 2] ring_down_at [of r 1] ring_down_at [of r 0] by (simp add: eval_nat_numeral)
  show ?thesis
    unfolding parseLoop.simps [of buf left saved i] c f size_step
    using assms(1) sz down by (cases "i = 4"; cases "4 \<le> i") (auto simp: Let_def ring_up_at)
qed


lemma parse_incomplete:
  assumes "saved \<le> length old" and "fs = ring_read buf r left" and "left < frame_size fs + 5" and "5 \<le> left" and "5 \<le> saved"
  shows "parseLoop buf left saved 0 (r mod SPI_RX_RING_BUFFER) 0 (Some old) False =
    Some (r mod SPI_RX_RING_BUFFER, Some (filled saved old fs 5), False)"
proof -
  have step: "parseLoop buf left saved i ((r + i) mod SPI_RX_RING_BUFFER) (size_at fs i) (Some (filled saved old fs i)) False =
      parseLoop buf left saved (Suc i) ((r + Suc i) mod SPI_RX_RING_BUFFER) (size_at fs (Suc i)) (Some (filled saved old fs (Suc i))) False" if "i < 4" for i
    using parse_step [of i left saved old fs buf r False] assms that by simp
  have "parseLoop buf left saved 4 ((r + 4) mod SPI_RX_RING_BUFFER) (size_at fs 4) (Some (filled saved old fs 4)) False =
      Some (r mod SPI_RX_RING_BUFFER, Some (filled saved old fs 5), False)"
    using parse_step [of 4 left saved old fs buf r False] assms by simp
  then show ?thesis using step [of 0] step [of 1] step [of 2] step [of 3] by (simp add: eval_nat_numeral size_at_def filled_def)
qed

section \<open>One turn\<close>

text \<open>
  The bytes that wait in the ring, given what the DMA channel has left: idle bytes, then the bytes \<open>fs\<close>, of which the first
  is not idle. The channel has stopped since the last look.
\<close>

definition spi_waiting :: "u32 \<Rightarrow> bytes \<Rightarrow> bytes \<Rightarrow> k32_spi \<Rightarrow> bool" where
  "spi_waiting remaining zs fs s \<longleftrightarrow> sCallbacks s \<and> RemainingBytesGlobal s = remaining \<and> rxIn s < SPI_RX_RING_BUFFER \<and>
     ring_read (spiRxBuffer s) (rxIn s) (nbBytesReceived remaining (rxIn s)) = zs @ fs \<and> list_all idle_byte zs \<and> fs \<noteq> [] \<and> \<not> idle_byte (hd fs)"

lemma ring_read_split:
  assumes "ring_read buf r n = zs @ fs"
  shows "n = length zs + length fs" and "ring_read buf ((r + length zs) mod SPI_RX_RING_BUFFER) (length fs) = fs"
proof -
  show n: "n = length zs + length fs" using arg_cong [OF assms, of length] by simp
  have "fs = drop (length zs) (ring_read buf r n)" using assms by simp
  also have "\<dots> = ring_read buf ((r + length zs) mod SPI_RX_RING_BUFFER) (length fs)"
    unfolding n by (intro nth_equalityI) (simp_all add: ring_read_def mod_simps add.assoc)
  finally show "ring_read buf ((r + length zs) mod SPI_RX_RING_BUFFER) (length fs) = fs" ..
qed

lemma spi_turn:
  assumes "spi_waiting remaining zs fs s" and "5 \<le> length fs"
  shows "K32WSpiSlaveProcess remaining again s =
    do { (r, inp, cb) \<leftarrow> parseLoop (spiRxBuffer s) (length fs) (unat (sInputBufLen s)) 0 ((rxIn s + length zs) mod SPI_RX_RING_BUFFER) 0 (sInputBuf s) False;
         let s = s\<lparr>transactionState := SPI_TRANSACTION_DONE, rxIn := r, sInputBuf := inp\<rparr>;
         if cb then spi_complete again (length fs) s else Some s }"
proof -
  have w: "sCallbacks s" "RemainingBytesGlobal s = remaining" "rxIn s < SPI_RX_RING_BUFFER" "list_all idle_byte zs" "fs = hd fs # tl fs" "\<not> idle_byte (hd fs)"
    "ring_read (spiRxBuffer s) (rxIn s) (nbBytesReceived remaining (rxIn s)) = zs @ fs"
    using assms(1) by (auto simp: spi_waiting_def)
  let ?n = "nbBytesReceived remaining (rxIn s)"
  have n: "?n = length zs + length fs" using ring_read_split(1) [OF w(7)] .
  have "skipLoop (spiRxBuffer s) ?n (rxIn s) ?n = ((rxIn s + length zs) mod SPI_RX_RING_BUFFER, ?n - length zs)"
    using skipLoop_idle [OF w(3), of "spiRxBuffer s" ?n zs "hd fs" "tl fs" ?n] w(4-7) by simp
  then show ?thesis using w(1,2) assms(2) n by (simp add: K32WSpiSlaveProcess_def spiCheckRxSate_def Let_def)
qed

text \<open>An enabled slave with an input buffer of eight bytes, whose DMA has written \<open>bs\<close>.\<close>

definition sample_spi :: "bytes \<Rightarrow> k32_spi" where
  "sample_spi bs = k32_spi_boot\<lparr>sCallbacks := True, sInputBuf := Some (replicate 8 0), sInputBufLen := 8,
     spiRxBuffer := bs @ replicate (SPI_RX_RING_BUFFER - length bs) 0, RemainingBytesGlobal := of_nat (SPI_RX_RING_BUFFER - length bs)\<rparr>"

lemma upto_7: "[0..<7] = [0, 1, 2, 3, 4, 5, 6 :: nat]"
  by (simp add: eval_nat_numeral)

lemma sample_spi_waiting:
  "spi_waiting 1016 [0] [0x42, 0, 0, 1, 0, 9] (sample_spi [0, 0x42, 0, 0, 1, 0, 9])"
  "spi_waiting 1016 [0] [0x42, 0, 0, 2, 0, 9] (sample_spi [0, 0x42, 0, 0, 2, 0, 9])"
  by (simp_all add: spi_waiting_def sample_spi_def k32_spi_boot_def SPI_RX_RING_BUFFER_def nbBytesReceived_def ring_read_def idle_byte_def upto_7)

section \<open>Properties\<close>



text \<open>
  An incomplete frame is left alone: when fewer bytes than its header announces are there, the turn returns without
  a callback and with the position at the first byte of the frame, so that a later turn sees the whole frame; only the
  five header bytes have been copied to the input buffer.
\<close>

theorem k32_spi_incomplete_frame_waits:
  assumes "spi_waiting remaining zs fs s" and "5 \<le> length fs" and "length fs < frame_size fs + 5" and "5 \<le> unat (sInputBufLen s)"
    and "sInputBuf s = Some old" and "unat (sInputBufLen s) \<le> length old"
  shows "\<exists>t. K32WSpiSlaveProcess remaining again s = Some t \<and> spiTrace t = spiTrace s \<and>
    rxIn t = (rxIn s + length zs) mod SPI_RX_RING_BUFFER \<and> sInputBuf t = Some (take 5 fs @ drop 5 old)"
proof -
  let ?r = "(rxIn s + length zs) mod SPI_RX_RING_BUFFER" and ?l = "unat (sInputBufLen s)"
  have fs: "ring_read (spiRxBuffer s) ?r (length fs) = fs"
    using ring_read_split(2) [of "spiRxBuffer s"] assms(1) by (auto simp: spi_waiting_def)
  have "parseLoop (spiRxBuffer s) (length fs) ?l 0 ?r 0 (Some old) False = Some (?r, Some (filled ?l old fs 5), False)"
    using parse_incomplete [OF assms(6) fs [symmetric] assms(3,2,4)] by simp
  moreover have "filled ?l old fs 5 = take 5 fs @ drop 5 old" using assms(4) by (simp add: filled_def min_def)
  ultimately show ?thesis using spi_turn [OF assms(1,2), of again] assms(5) by simp
qed

theorem k32_spi_incomplete_frame_waits_witness:
  "\<exists>t. K32WSpiSlaveProcess 1016 False (sample_spi [0, 0x42, 0, 0, 2, 0, 9]) = Some t \<and> spiTrace t = [] \<and> rxIn t = 1"
  using k32_spi_incomplete_frame_waits [OF sample_spi_waiting(2), of "replicate 8 0" False]
  by (auto simp: frame_size_def sample_spi_def k32_spi_boot_def SPI_RX_RING_BUFFER_def)

end
