(* ===== verification/K32w0_System.thy ===== *)
theory K32w0_System
  imports K32w0_Radio_Props K32w0_Alarm K32w0_Uart_Props K32w0_Spi_Props "HOL-Library.Sublist"
begin

text \<open>
  \<^verbatim>\<open>src/k32w0/platform/system.c\<close> and \<^verbatim>\<open>misc.c\<close> there: start-up, one turn of the main loop over the drivers of the platform,
  the nesting of disabled interrupts, the calibration of the oscillators and the reason of a reset. The configuration
  macros are a record; the answer of the SDK's \<^verbatim>\<open>FRO..._CompleteCalibration\<close> is an argument.
\<close>

section \<open>Nested interrupt locks\<close>

record irq_lock =
  gInterruptDisableCount :: u32
  irqEnabled :: bool

definition irq_boot :: irq_lock where
  "irq_boot = \<lparr>gInterruptDisableCount = 0, irqEnabled = True\<rparr>"

definition OSA_InterruptEnable :: "irq_lock \<Rightarrow> irq_lock" where
  "OSA_InterruptEnable s =
     (if gInterruptDisableCount s > 0
      then let s1 = s\<lparr>gInterruptDisableCount := gInterruptDisableCount s - 1\<rparr>
           in if gInterruptDisableCount s1 = 0 then s1\<lparr>irqEnabled := True\<rparr> else s1
      else s)"

definition OSA_InterruptDisable :: "irq_lock \<Rightarrow> irq_lock" where
  "OSA_InterruptDisable s =
     (let s1 = s\<lparr>irqEnabled := False\<rparr> in s1\<lparr>gInterruptDisableCount := gInterruptDisableCount s1 + 1\<rparr>)"

text \<open>A sequence of calls, \<open>True\<close> being a disable, and the depth of the nesting it leaves.\<close>

fun irq_calls :: "bool list \<Rightarrow> irq_lock \<Rightarrow> irq_lock" where
  "irq_calls [] s = s"
| "irq_calls (b # bs) s = irq_calls bs (if b then OSA_InterruptDisable s else OSA_InterruptEnable s)"

fun irq_depth :: "bool list \<Rightarrow> nat \<Rightarrow> nat" where
  "irq_depth [] d = d"
| "irq_depth (b # bs) d = irq_depth bs (if b then d + 1 else d - 1)"

definition irq_at :: "nat \<Rightarrow> irq_lock" where
  "irq_at d = \<lparr>gInterruptDisableCount = of_nat d, irqEnabled = (d = 0)\<rparr>"

lemma of_nat_eq_0_u32: "d < 2 ^ 32 \<Longrightarrow> (of_nat d :: u32) = 0 \<longleftrightarrow> d = 0"
  by (simp add: word_of_nat_eq_0_iff dvd_imp_le nat_dvd_not_less) (metis gcd_nat.extremum nat_dvd_not_less neq0_conv)

lemma irq_disable_at: "OSA_InterruptDisable (irq_at d) = irq_at (Suc d)"
  by (simp add: OSA_InterruptDisable_def irq_at_def Let_def)

lemma irq_enable_at:
  assumes "d < 2 ^ 32"
  shows "OSA_InterruptEnable (irq_at d) = irq_at (d - 1)"
proof (cases d)
  case (Suc e)
  then show ?thesis
    using of_nat_eq_0_u32 [of d] of_nat_eq_0_u32 [of e] assms
    by (simp add: OSA_InterruptEnable_def irq_at_def Let_def word_gt_0)
qed (simp add: OSA_InterruptEnable_def irq_at_def)

lemma irq_calls_at: "d + length (filter id bs) < 2 ^ 32 \<Longrightarrow> irq_calls bs (irq_at d) = irq_at (irq_depth bs d)"
proof (induction bs arbitrary: d)
  case (Cons b bs)
  have "irq_calls bs (irq_at (if b then d + 1 else d - 1)) = irq_at (irq_depth bs (if b then d + 1 else d - 1))"
    by (rule Cons.IH) (use Cons.prems in auto)
  then show ?case using Cons.prems by (cases b) (simp_all add: irq_disable_at irq_enable_at)
qed simp

section \<open>Calibration of the oscillators\<close>

datatype fro = FRO32K | FRO48M

record fro_config =
  gClkUseFro32K :: bool
  gPWR_CpuClk_48MHz :: bool
  FRO32K_CALIBRATION_LOOPS :: u32
  FRO48M_CALIBRATION_LOOPS :: u32

definition mFroCalibFuncTable :: "fro_config \<Rightarrow> (fro \<times> u32) list" where
  "mFroCalibFuncTable c =
     (if gClkUseFro32K c then [(FRO32K, FRO32K_CALIBRATION_LOOPS c)] else []) @
     (if gPWR_CpuClk_48MHz c then [(FRO48M, FRO48M_CALIBRATION_LOOPS c)] else [])"

datatype fro_call = FroStart fro | FroComplete fro u32

record fro_state =
  bCalibStarted :: bool
  u32ProcessLoopCounts :: u32
  indexOfCalibration :: u8
  froTrace :: "fro_call list"

definition fro_boot :: fro_state where
  "fro_boot = \<lparr>bCalibStarted = False, u32ProcessLoopCounts = 0, indexOfCalibration = 0, froTrace = []\<rparr>"

text \<open>\<open>None\<close> is a read outside the table; \<open>freqComp\<close> is what \<^verbatim>\<open>pfFroCompleteCalibration\<close> answers if it is called.\<close>

definition K32WFroCalibration :: "fro_config \<Rightarrow> u32 \<Rightarrow> fro_state \<Rightarrow> fro_state option" where
  "K32WFroCalibration c freqComp s =
     (let i = unat (indexOfCalibration s); tab = mFroCalibFuncTable c in
      if i < length tab
      then let (f, calibrationLoops) = tab ! i in
        Some (if \<not> bCalibStarted s \<and> u32ProcessLoopCounts s \<ge> calibrationLoops
          then s\<lparr>froTrace := froTrace s @ [FroStart f], bCalibStarted := True\<rparr>
          else if bCalibStarted s
          then (let s1 = s\<lparr>froTrace := froTrace s @ [FroComplete f freqComp]\<rparr>
                in if freqComp \<noteq> 0
                   then (let s2 = s1\<lparr>bCalibStarted := False, u32ProcessLoopCounts := 0, indexOfCalibration := indexOfCalibration s1 + 1\<rparr>
                         in if unat (indexOfCalibration s2) \<ge> length tab then s2\<lparr>indexOfCalibration := 0\<rparr> else s2)
                   else s1)
          else s\<lparr>u32ProcessLoopCounts := u32ProcessLoopCounts s + 1\<rparr>)
      else None)"

text \<open>Successive turns of the main loop, with the answers they get.\<close>

fun fro_turns :: "fro_config \<Rightarrow> u32 list \<Rightarrow> fro_state \<Rightarrow> fro_state option" where
  "fro_turns c [] s = Some s"
| "fro_turns c (w # ws) s = Option.bind (K32WFroCalibration c w s) (fro_turns c ws)"

lemma fro_turns_append: "fro_turns c (us @ ws) s = Option.bind (fro_turns c us s) (fro_turns c ws)"
  by (induction us arbitrary: s) (simp_all split: Option.bind_split)

lemma table_small: "length (mFroCalibFuncTable c) \<le> 2"
  by (simp add: mFroCalibFuncTable_def)

text \<open>The state with calibration \<open>i\<close> next and \<open>n\<close> turns counted.\<close>

definition fro_counting :: "nat \<Rightarrow> nat \<Rightarrow> fro_call list \<Rightarrow> fro_state" where
  "fro_counting i n tr = \<lparr>bCalibStarted = False, u32ProcessLoopCounts = of_nat n, indexOfCalibration = of_nat i, froTrace = tr\<rparr>"

definition fro_started :: "nat \<Rightarrow> u32 \<Rightarrow> fro_call list \<Rightarrow> fro_state" where
  "fro_started i n tr = \<lparr>bCalibStarted = True, u32ProcessLoopCounts = n, indexOfCalibration = of_nat i, froTrace = tr\<rparr>"

lemma index_small:
  assumes "i < length (mFroCalibFuncTable c)"
  shows "unat (of_nat i :: u8) = i" "unat (of_nat i + 1 :: u8) = Suc i"
proof -
  have "i < 2" using assms table_small [of c] by linarith
  then show "unat (of_nat i :: u8) = i" "unat (of_nat i + 1 :: u8) = Suc i" by (auto simp: less_2_cases_iff)
qed

lemma fro_counts:
  assumes "i < length (mFroCalibFuncTable c)" and "mFroCalibFuncTable c ! i = (f, l)" and "n + length ws \<le> unat l"
  shows "fro_turns c ws (fro_counting i n tr) = Some (fro_counting i (n + length ws) tr)"
  using assms(3)
proof (induction ws arbitrary: n)
  case (Cons w ws)
  have "n < unat l" using Cons.prems by simp
  moreover have "unat l < 2 ^ LENGTH(32)" by (rule unsigned_less)
  ultimately have "unat (of_nat n :: u32) = n" by (simp add: unat_of_nat)
  then have "\<not> l \<le> of_nat n" using \<open>n < unat l\<close> by (simp add: word_le_nat_alt)
  then have "K32WFroCalibration c w (fro_counting i n tr) = Some (fro_counting i (Suc n) tr)"
    using assms(1,2) index_small [OF assms(1)] by (simp add: K32WFroCalibration_def fro_counting_def Let_def add.commute)
  then show ?case using Cons by simp
qed simp

lemma fro_starts:
  assumes "i < length (mFroCalibFuncTable c)" and "mFroCalibFuncTable c ! i = (f, l)"
  shows "K32WFroCalibration c w (fro_counting i (unat l) tr) = Some (fro_started i l (tr @ [FroStart f]))"
  using assms index_small [OF assms(1)] by (simp add: K32WFroCalibration_def fro_counting_def fro_started_def Let_def)

lemma fro_polls:
  assumes "i < length (mFroCalibFuncTable c)" and "mFroCalibFuncTable c ! i = (f, l)"
  shows "fro_turns c (replicate p 0) (fro_started i n tr) = Some (fro_started i n (tr @ replicate p (FroComplete f 0)))"
proof (induction p arbitrary: tr)
  case (Suc p)
  have "K32WFroCalibration c 0 (fro_started i n tr) = Some (fro_started i n (tr @ [FroComplete f 0]))"
    using assms index_small [OF assms(1)] by (simp add: K32WFroCalibration_def fro_started_def Let_def)
  then show ?case using Suc [of "tr @ [FroComplete f 0]"] by simp
qed simp

lemma fro_completes:
  assumes "i < length (mFroCalibFuncTable c)" and "mFroCalibFuncTable c ! i = (f, l)" and "w \<noteq> 0"
  shows "K32WFroCalibration c w (fro_started i n tr) =
    Some (fro_counting (Suc i mod length (mFroCalibFuncTable c)) 0 (tr @ [FroComplete f w]))"
proof -
  have "Suc i mod length (mFroCalibFuncTable c) = (if Suc i \<ge> length (mFroCalibFuncTable c) then 0 else Suc i)"
    using assms(1) by (auto simp: mod_if)
  then show ?thesis using assms index_small [OF assms(1)]
    by (simp add: K32WFroCalibration_def fro_started_def fro_counting_def Let_def add.commute)
qed

section \<open>Start-up and the reason of a reset\<close>

datatype sys_call = BOARD_InitSPI1Pins | hardware_init | BOARD_InitPins | otPlatRandomInit | MEM_Init
  | CallSettingsInit | CallAlarmInit | CallRadioInit | K32WLogInit

text \<open>The causes the SDK tells apart, as bits of a mask; \<open>resetMasks\<close> are the constants of the SDK.\<close>

datatype reset_cause = RESET_POR | RESET_SYS_REQ | RESET_SW_REQ | RESET_WDT | RESET_EXT_PIN | RESET_BOR | RESET_WAKE_DEEP_PD | RESET_WAKE_PD

datatype otPlatResetReason =
    OT_PLAT_RESET_REASON_POWER_ON | OT_PLAT_RESET_REASON_EXTERNAL | OT_PLAT_RESET_REASON_SOFTWARE | OT_PLAT_RESET_REASON_FAULT
  | OT_PLAT_RESET_REASON_ASSERT | OT_PLAT_RESET_REASON_OTHER | OT_PLAT_RESET_REASON_WATCHDOG

definition otPlatGetResetReason :: "(reset_cause \<Rightarrow> u32) \<Rightarrow> u32 \<Rightarrow> otPlatResetReason" where
  "otPlatGetResetReason resetMasks cause =
     (let has = (\<lambda>c. and cause (resetMasks c) \<noteq> 0) in
      if has RESET_POR then OT_PLAT_RESET_REASON_POWER_ON
      else if has RESET_SYS_REQ \<or> has RESET_SW_REQ then OT_PLAT_RESET_REASON_SOFTWARE
      else if has RESET_WDT then OT_PLAT_RESET_REASON_WATCHDOG
      else if has RESET_EXT_PIN then OT_PLAT_RESET_REASON_EXTERNAL
      else if has RESET_BOR then OT_PLAT_RESET_REASON_FAULT
      else if has RESET_WAKE_DEEP_PD \<or> has RESET_WAKE_PD then OT_PLAT_RESET_REASON_ASSERT
      else OT_PLAT_RESET_REASON_OTHER)"

text \<open>With one bit per cause, a reset by one cause is reported by the reason of that cause.\<close>

lemma reset_reason_single:
  assumes "\<And>c d. and (resetMasks c) (resetMasks d) \<noteq> 0 \<longleftrightarrow> c = d"
  shows "otPlatGetResetReason resetMasks (resetMasks RESET_WDT) = OT_PLAT_RESET_REASON_WATCHDOG"
    and "otPlatGetResetReason resetMasks (resetMasks RESET_EXT_PIN) = OT_PLAT_RESET_REASON_EXTERNAL"
    and "otPlatGetResetReason resetMasks (resetMasks RESET_BOR) = OT_PLAT_RESET_REASON_FAULT"
    and "otPlatGetResetReason resetMasks (resetMasks RESET_SW_REQ) = OT_PLAT_RESET_REASON_SOFTWARE"
  by (simp_all add: otPlatGetResetReason_def Let_def assms)

section \<open>The main loop\<close>

record k32_sys =
  sysUart :: k32_uart
  sysRadio :: k32_radio
  sysAlarm :: k32_alarm
  sysSpi :: k32_spi
  sysFro :: fro_state
  sysTrace :: "sys_call list"

text \<open>The build: which parts are compiled in.\<close>

record k32_build =
  OT_PLAT_SPI_SUPPORT :: bool
  OT_PLAT_BOARD_INIT :: bool
  LOG_OUTPUT_PLATFORM_DEFINED :: bool
  cPWR_FullPowerDownMode :: bool
  froConfig :: fro_config

definition k32_otSysInit :: "k32_build \<Rightarrow> string list \<Rightarrow> k32_sys \<Rightarrow> k32_sys" where
  "k32_otSysInit b argv s =
     s\<lparr>sysTrace := sysTrace s @
         (if OT_PLAT_SPI_SUPPORT b then [BOARD_InitSPI1Pins] else []) @
         (if OT_PLAT_BOARD_INIT b \<and> \<not> (length argv = 1 \<and> hd argv = ''app'')
          then [hardware_init, BOARD_InitPins, otPlatRandomInit, MEM_Init] else []) @
         [CallSettingsInit, CallAlarmInit, CallRadioInit] @ (if LOG_OUTPUT_PLATFORM_DEFINED b then [K32WLogInit] else []),
       sysAlarm := K32WAlarmInit (sysAlarm s), sysRadio := K32WRadioInit (sysRadio s)\<rparr>"

text \<open>
  What the drivers meet in one turn: interrupts, readings of the hardware and the reactions of OpenThread. The serial port
  is interrupted anywhere in \<^verbatim>\<open>K32WUartProcess\<close> (\<open>uartIrqs\<close>) and while the other drivers run (\<open>uartLater\<close>); as these
  do not touch its state, the latter are taken at the end of the turn. The interrupts of the MAC during the
  turn are part of \<open>radioMac\<close>.
\<close>

record k32_turn =
  uartReact :: uart_react
  uartIrqs :: "(reading list list \<times> reading list list) list"
  uartLater :: "reading list list"
  radioMac :: k32_mac
  alarmEnv :: k32_env
  alarmFired :: "k32_act \<Rightarrow> k32_alarm \<Rightarrow> k32_alarm"
  spiRemaining :: u32
  spiAgain :: bool
  froFreqComp :: u32

definition fro_built :: "k32_build \<Rightarrow> bool" where
  "fro_built b \<longleftrightarrow> (gClkUseFro32K (froConfig b) \<or> gPWR_CpuClk_48MHz (froConfig b)) \<and> \<not> cPWR_FullPowerDownMode b"

definition k32_otSysProcessDrivers :: "k32_build \<Rightarrow> k32_turn \<Rightarrow> k32_sys \<Rightarrow> k32_sys option" where
  "k32_otSysProcessDrivers b w s =
     do { u \<leftarrow> K32WUartProcess (uartReact w) (uartIrqs w) (sysUart s);
          let s = s\<lparr>sysUart := u\<rparr>;
          r \<leftarrow> K32WRadioProcess (radioMac w) (sysRadio s);
          let s = s\<lparr>sysRadio := r\<rparr>;
          let s = s\<lparr>sysAlarm := K32WAlarmProcess (alarmEnv w) (alarmFired w) (sysAlarm s)\<rparr>;
          p \<leftarrow> (if OT_PLAT_SPI_SUPPORT b then K32WSpiSlaveProcess (spiRemaining w) (spiAgain w) (sysSpi s) else Some (sysSpi s));
          let s = s\<lparr>sysSpi := p\<rparr>;
          f \<leftarrow> (if fro_built b then K32WFroCalibration (froConfig b) (froFreqComp w) (sysFro s) else Some (sysFro s));
          let s = s\<lparr>sysFro := f\<rparr>;
          u \<leftarrow> take_irqs (uartLater w) (sysUart s);
          Some (s\<lparr>sysUart := u\<rparr>) }"

section \<open>The SPI slave always returns\<close>

lemma parseLoop_returns:
  "saved \<le> length xs \<Longrightarrow> \<exists>r' xs' cb'. parseLoop buf left saved i r sz (Some xs) cb = Some (r', Some xs', cb') \<and> length xs' = length xs"
proof (induction "left - i" arbitrary: i r sz xs cb)
  case 0
  then show ?case by (simp add: parseLoop.simps)
next
  case (Suc n)
  define xs1 where "xs1 = (if i < saved then take i xs @ [buf ! r] @ drop (i + 1) xs else xs)"
  have 1: "length xs1 = length xs" using Suc.prems by (auto simp: xs1_def)
  have w: "(if i < saved then Option.bind (Some xs) (\<lambda>xs. map_option Some (wr_bytes i [buf ! r] xs)) else Some (Some xs)) = Some (Some xs1)"
    using Suc.prems by (auto simp: xs1_def wr_bytes_def)
  have "\<exists>r' xs' cb'. parseLoop buf left saved (Suc i) (ring_up r) sz (Some xs1) c = Some (r', Some xs', cb') \<and> length xs' = length xs" for sz c
    using Suc.hyps(1) [of "Suc i" xs1] Suc.hyps(2) Suc.prems 1 by simp
  then show ?case unfolding parseLoop.simps [of buf left saved i] w using 1 by (auto simp: Let_def)
qed

definition spi_buffer_ok :: "k32_spi \<Rightarrow> bool" where
  "spi_buffer_ok s \<longleftrightarrow> \<not> sCallbacks s \<or> (case sInputBuf s of None \<Rightarrow> False | Some xs \<Rightarrow> unat (sInputBufLen s) \<le> length xs \<and> 3 \<le> length xs)"

lemma spi_complete_ok:
  assumes "sInputBuf s = Some xs" and "unat (sInputBufLen s) \<le> length xs" and "3 \<le> length xs"
  shows "\<exists>t. spi_complete again n s = Some t \<and> spi_buffer_ok t"
  using assms by (auto simp: spi_complete_def spi_buffer_ok_def spicall_def wr_bytes_def Let_def)

lemma spi_returns:
  assumes "spi_buffer_ok s"
  shows "\<exists>t. K32WSpiSlaveProcess remaining again s = Some t \<and> spi_buffer_ok t"
proof (cases "sCallbacks s \<and> RemainingBytesGlobal s = remaining")
  case True
  let ?n = "nbBytesReceived remaining (rxIn s)"
  obtain xs where xs: "sInputBuf s = Some xs" "unat (sInputBufLen s) \<le> length xs" "3 \<le> length xs"
    using assms True by (auto simp: spi_buffer_ok_def split: option.splits)
  obtain r left where k: "skipLoop (spiRxBuffer s) ?n (rxIn s) ?n = (r, left)" by fastforce
  obtain r' xs' cb where p: "parseLoop (spiRxBuffer s) left (unat (sInputBufLen s)) 0 r 0 (Some xs) False = Some (r', Some xs', cb)" "length xs' = length xs"
    using parseLoop_returns [OF xs(2)] by blast
  let ?s = "s\<lparr>transactionState := SPI_TRANSACTION_DONE, rxIn := r', sInputBuf := Some xs'\<rparr>"
  have "\<exists>t. (if cb then spi_complete again left ?s else Some ?s) = Some t \<and> spi_buffer_ok t"
    using spi_complete_ok [of ?s xs' again left] xs p(2) by (simp add: spi_buffer_ok_def)
  then show ?thesis using True k p(1) xs
    by (simp add: K32WSpiSlaveProcess_def spiCheckRxSate_def Let_def) (simp add: spi_buffer_ok_def)
next
  case False
  then show ?thesis using assms by (auto simp: K32WSpiSlaveProcess_def spiCheckRxSate_def spi_buffer_ok_def split: option.splits)
qed

section \<open>One turn of each driver\<close>

definition fro_ok :: "fro_config \<Rightarrow> fro_state \<Rightarrow> bool" where
  "fro_ok c s \<longleftrightarrow> unat (indexOfCalibration s) < length (mFroCalibFuncTable c)"

lemma fro_returns:
  assumes "fro_ok c s"
  shows "\<exists>t. K32WFroCalibration c w s = Some t \<and> fro_ok c t"
  using assms by (auto simp: K32WFroCalibration_def fro_ok_def Let_def split: prod.split)

text \<open>What \<^verbatim>\<open>K32WAlarmProcess\<close> has to report.\<close>

definition alarms_due :: "k32_env \<Rightarrow> k32_alarm \<Rightarrow> k32_act list" where
  "alarms_due env s =
     (if kEventFired s then [if diagMode env then K32DiagAlarmFired else K32MilliFired] else []) @
     (if sMicroEventFired s then [K32MicroFired] else [])"

lemma alarm_reports:
  assumes "\<forall>a x. prefix (kacts x) (kacts (onFired a x))"
  shows "subseq (kacts s @ alarms_due env s) (kacts (K32WAlarmProcess env onFired s))"
proof -
  have r: "subseq (us @ [a]) (kacts (onFired a (kemit a x)))" if "subseq us (kacts x)" for us a x
  proof -
    have "subseq (us @ [a]) (kacts x @ [a])" using that by simp
    then show ?thesis using prefix_imp_subseq [of "kacts x @ [a]" "kacts (onFired a (kemit a x))"] assms
      by (metis kemit_def k32_alarm.select_convs(3) k32_alarm.surjective k32_alarm.update_convs(3) subseq_order.trans)
  qed
  show ?thesis
    using r [of "kacts s" "s\<lparr>kEventFired := False, sMicroEventFired := False\<rparr>" K32MicroFired]
      r [OF r [of "kacts s" "s\<lparr>kEventFired := False, sMicroEventFired := False\<rparr>"], of _ K32MicroFired]
      r [of "kacts s" "s\<lparr>kEventFired := False, sMicroEventFired := False\<rparr>"]
    by (simp add: K32WAlarmProcess_def alarms_due_def Let_def)
qed

text \<open>The invariant of the platform between turns, and what is assumed of the surroundings of a turn.\<close>

definition k32_sys_ok :: "k32_build \<Rightarrow> k32_sys \<Rightarrow> bool" where
  "k32_sys_ok b s \<longleftrightarrow> uInitialized (sysUart s) \<and> uart_ok (sysUart s) \<and> k32_inv (sysRadio s) \<and> in_order (sysRadio s) \<and>
     (OT_PLAT_SPI_SUPPORT b \<longrightarrow> spi_buffer_ok (sysSpi s)) \<and> (fro_built b \<longrightarrow> fro_ok (froConfig b) (sysFro s))"

definition turn_ok :: "(k32_call list \<Rightarrow> nat) \<Rightarrow> nat \<Rightarrow> k32_turn \<Rightarrow> k32_sys \<Rightarrow> bool" where
  "turn_ok T B w s \<longleftrightarrow> react_ok (uartReact w) \<and> turn_quiet (uartIrqs w) \<and> list_all ends_quiet (uartLater w) \<and>
     length (uq (uRxRing (sysUart s))) + turn_flags (uartIrqs w) \<le> OT_PLAT_UART_RX_BUFFER_SIZE (uRxRing (sysUart s)) \<and>
     clock_law (radioMac w) T \<and> burst_ends (radioMac w) B \<and> reacts (radioMac w) \<and>
     (\<forall>a x. prefix (kacts x) (kacts (alarmFired w a x)))"

lemma radio_turn:
  assumes "clock_law env T" and "burst_ends env B" and "reacts env" and "k32_inv s" and "in_order s"
  shows "\<exists>t. K32WRadioProcess env s = Some t \<and> k32_inv t \<and> in_order t \<and> kq (kRxRing t) = [] \<and> kState t \<noteq> K32_RX_DISABLED"
proof -
  obtain t where t: "K32WRadioProcess env s = Some t" using k32_step_ends [OF assms, of EvProcess] by auto
  from radio_process [OF assms(3,4) t] assms(5) t show ?thesis by blast
qed

section \<open>Properties\<close>

text \<open>
  C8. One turn of the main loop of k32w0 serves every driver and returns, provided that the characters waiting in the
  serial port and those arriving while it is read fit together into the array on the stack, that the interrupts of
  the turn end, the MAC clock advances and OpenThread's reactions keep to the interface. Then the
  characters waiting in the serial port and those arriving while it is read are handed on as one buffer, its ring
  holds the latest of those that arrive later in the turn, every received frame has been reported and the
  receiver runs, every expired alarm has been reported, the SPI slave returns, and the calibration does its step. When
  the characters do not fit, the turn leaves the array: \<open>k32_uart_receive_overflow\<close>.
\<close>

theorem k32_turn_serves_drivers:
  assumes "k32_sys_ok b s" and "turn_ok T B w s"
  shows "\<exists>t cs ds. k32_otSysProcessDrivers b w s = Some t \<and> k32_sys_ok b t \<and>
    rx_bytes (uTrace (sysUart t)) = rx_bytes (uTrace (sysUart s)) @ cs @ ds \<and>
    handed_on (uTrace (sysUart t)) = handed_on (uTrace (sysUart s)) @ [uq (uRxRing (sysUart s)) @ cs] \<and>
    uq (uRxRing (sysUart t)) = latest (OT_PLAT_UART_RX_BUFFER_SIZE (uRxRing (sysUart t))) ds \<and>
    delivered (kTrace (sysRadio t)) = queued (kTrace (sysRadio t)) \<and> kq (kRxRing (sysRadio t)) = [] \<and> kState (sysRadio t) \<noteq> K32_RX_DISABLED \<and>
    subseq (kacts (sysAlarm s) @ alarms_due (alarmEnv w) (sysAlarm s)) (kacts (sysAlarm t))"
proof -
  obtain cs u where u: "K32WUartProcess (uartReact w) (uartIrqs w) (sysUart s) = Some u" "uart_ok u" "uInitialized u" "uq (uRxRing u) = []"
    "rx_bytes (uTrace u) = rx_bytes (uTrace (sysUart s)) @ cs" "handed_on (uTrace u) = handed_on (uTrace (sysUart s)) @ [uq (uRxRing (sysUart s)) @ cs]"
    using process_turn [of "sysUart s" "uartReact w" "uartIrqs w"] assms by (auto simp: k32_sys_ok_def turn_ok_def)
  obtain ds v where v: "take_irqs (uartLater w) u = Some v" "irq_rel ds u v"
    using irqs_return [of "uartLater w" u] assms(2) u(2) by (auto simp: turn_ok_def uart_ok_def)
  have ok: "uart_ok v" "uInitialized v" "rx_bytes (uTrace v) = rx_bytes (uTrace u) @ ds" "handed_on (uTrace v) = handed_on (uTrace u)"
    using v(2) u(2,3) irq_rel_ok [OF v(2)] by (simp_all add: irq_rel_def uart_ok_def)
  have later: "uq (uRxRing v) = latest (OT_PLAT_UART_RX_BUFFER_SIZE (uRxRing v)) ds"
    using ur.puts_latest [of "uRxRing u" ds] v(2) u(2,4) by (simp add: irq_rel_def uart_ok_def)
  obtain r where r: "K32WRadioProcess (radioMac w) (sysRadio s) = Some r" "k32_inv r" "in_order r" "kq (kRxRing r) = []" "kState r \<noteq> K32_RX_DISABLED"
    using radio_turn [of "radioMac w" T B "sysRadio s"] assms by (auto simp: k32_sys_ok_def turn_ok_def)
  obtain p where p: "(if OT_PLAT_SPI_SUPPORT b then K32WSpiSlaveProcess (spiRemaining w) (spiAgain w) (sysSpi s) else Some (sysSpi s)) = Some p"
    "OT_PLAT_SPI_SUPPORT b \<longrightarrow> spi_buffer_ok p"
    using spi_returns [of "sysSpi s" "spiRemaining w" "spiAgain w"] assms(1)
    by (cases "OT_PLAT_SPI_SUPPORT b") (auto simp: k32_sys_ok_def)
  obtain f where f: "(if fro_built b then K32WFroCalibration (froConfig b) (froFreqComp w) (sysFro s) else Some (sysFro s)) = Some f"
    "fro_built b \<longrightarrow> fro_ok (froConfig b) f"
    using fro_returns [of "froConfig b" "sysFro s" "froFreqComp w"] assms(1)
    by (cases "fro_built b") (auto simp: k32_sys_ok_def)
  let ?t = "s\<lparr>sysUart := v, sysRadio := r, sysAlarm := K32WAlarmProcess (alarmEnv w) (alarmFired w) (sysAlarm s), sysSpi := p, sysFro := f\<rparr>"
  have "k32_otSysProcessDrivers b w s = Some ?t"
    unfolding k32_otSysProcessDrivers_def Let_def using u(1) r(1) p(1) f(1) v(1) by (simp cong: if_cong split del: if_split)
  moreover have "k32_sys_ok b ?t" using ok r p f by (simp add: k32_sys_ok_def)
  moreover have "subseq (kacts (sysAlarm s) @ alarms_due (alarmEnv w) (sysAlarm s)) (kacts (sysAlarm ?t))"
    using alarm_reports assms(2) by (simp add: turn_ok_def)
  ultimately show ?thesis using u ok later r by (intro exI [of _ ?t] exI [of _ cs] exI [of _ ds]) (simp add: in_order_def)
qed

text \<open>A platform right after its drivers were enabled, and a turn in which nothing happens.\<close>

definition sample_build :: k32_build where
  "sample_build = \<lparr>OT_PLAT_SPI_SUPPORT = True, OT_PLAT_BOARD_INIT = True, LOG_OUTPUT_PLATFORM_DEFINED = False, cPWR_FullPowerDownMode = False,
     froConfig = \<lparr>gClkUseFro32K = True, gPWR_CpuClk_48MHz = True, FRO32K_CALIBRATION_LOOPS = 500, FRO48M_CALIBRATION_LOOPS = 500\<rparr>\<rparr>"

definition sample_sys :: k32_sys where
  "sample_sys = \<lparr>sysUart = fresh_uart 2, sysRadio = k32_on, sysAlarm = set_event otTimer k32_alarm_boot,
     sysSpi = sample_spi [0, 0x42, 0, 0, 1, 0, 9], sysFro = fro_boot, sysTrace = []\<rparr>"

definition sample_turn :: k32_turn where
  "sample_turn = \<lparr>uartReact = \<lambda>_. [], uartIrqs = [], uartLater = [byte_irq 7], radioMac = k32_sample_mac,
     alarmEnv = \<lparr>TMR_ConvertUsToTicks = id, WTIMER1_MAX_VALUE = 0, diagMode = False\<rparr>, alarmFired = \<lambda>_ x. x, spiRemaining = 1016, spiAgain = False, froFreqComp = 0\<rparr>"

lemma sample_sys_ok: "k32_sys_ok sample_build sample_sys"
proof -
  have "uInitialized (fresh_uart 2)" by (simp add: fresh_uart_def k32_otPlatUartEnable_def k32_uart_boot_def Let_def)
  then show ?thesis using fresh_uart_ok [of 2] k32_on_inv
    by (simp add: k32_sys_ok_def sample_build_def sample_sys_def spi_buffer_ok_def sample_spi_def fro_ok_def fro_boot_def mFroCalibFuncTable_def)
qed

lemma sample_turn_ok: "turn_ok length 0 sample_turn sample_sys"
  using k32_sample_laws uring_okD(4) [of "uRxRing (fresh_uart 2)"] fresh_uart_ok [of 2]
  by (simp add: turn_ok_def sample_turn_def sample_sys_def react_ok_def turn_quiet_def turn_flags_def uart_ok_def
      byte_irq_def ends_quiet_def quiet_def idle_reg_def numeral_eq_Suc)

theorem k32_turn_serves_drivers_witness:
  "\<exists>t. k32_otSysProcessDrivers sample_build sample_turn sample_sys = Some t \<and> k32_sys_ok sample_build t \<and> subseq [K32MilliFired] (kacts (sysAlarm t))"
  using k32_turn_serves_drivers [OF sample_sys_ok sample_turn_ok]
  by (auto simp: sample_sys_def sample_turn_def set_event_def alarms_due_def k32_alarm_boot_def)

text \<open>
  Interrupt locks nest: after any sequence of \<^verbatim>\<open>OSA_InterruptDisable\<close> and \<^verbatim>\<open>OSA_InterruptEnable\<close> with fewer than \<open>2 ^ 32\<close>
  disables, the counter is the depth of the nesting, superfluous enables not counted, and interrupts are enabled
  exactly at depth zero: an inner section never enables the interrupts of an outer one.
\<close>

theorem k32_interrupt_locks_nest:
  assumes "length (filter id bs) < 2 ^ 32"
  shows "irq_calls bs irq_boot = \<lparr>gInterruptDisableCount = of_nat (irq_depth bs 0), irqEnabled = (irq_depth bs 0 = 0)\<rparr>"
  using irq_calls_at [of 0 bs] assms by (simp add: irq_at_def irq_boot_def)

theorem k32_interrupt_locks_nest_witness:
  "irq_calls [True, True, False] irq_boot = \<lparr>gInterruptDisableCount = 1, irqEnabled = False\<rparr>"
  using k32_interrupt_locks_nest [of "[True, True, False]"] by simp

text \<open>
  The oscillators are calibrated in turn. From the begin of a period, the main loop counts the turns of the entry,
  starts its calibration in the turn after, asks once per turn until the answer is not zero, and then is at
  the begin of the period of the next entry of the table, the first one after the last.
\<close>

theorem k32_calibration_period:
  assumes "i < length (mFroCalibFuncTable c)" and "mFroCalibFuncTable c ! i = (f, l)" and "length ws = unat l + 1" and "w \<noteq> 0"
  shows "fro_turns c (ws @ replicate p 0 @ [w])
      \<lparr>bCalibStarted = False, u32ProcessLoopCounts = 0, indexOfCalibration = of_nat i, froTrace = tr\<rparr> =
    Some \<lparr>bCalibStarted = False, u32ProcessLoopCounts = 0, indexOfCalibration = of_nat (Suc i mod length (mFroCalibFuncTable c)),
      froTrace = tr @ [FroStart f] @ replicate p (FroComplete f 0) @ [FroComplete f w]\<rparr>"
proof -
  have "ws \<noteq> []" using assms(3) by auto
  then obtain us v where ws: "ws = us @ [v]" by (meson rev_exhaust)
  have "fro_turns c us (fro_counting i 0 tr) = Some (fro_counting i (unat l) tr)"
    using fro_counts [OF assms(1,2), of 0 us tr] assms(3) ws by simp
  then have "fro_turns c ws (fro_counting i 0 tr) = Some (fro_started i l (tr @ [FroStart f]))"
    using fro_starts [OF assms(1,2), of v tr] by (simp add: ws fro_turns_append)
  then have "fro_turns c (ws @ replicate p 0 @ [w]) (fro_counting i 0 tr) =
      Some (fro_counting (Suc i mod length (mFroCalibFuncTable c)) 0 ((tr @ [FroStart f]) @ replicate p (FroComplete f 0) @ [FroComplete f w]))"
    using fro_polls [OF assms(1,2), of p l "tr @ [FroStart f]"] fro_completes [OF assms(1,2,4), of l]
    by (simp add: fro_turns_append)
  then show ?thesis by (simp add: fro_counting_def)
qed

theorem k32_calibration_period_witness:
  "fro_turns \<lparr>gClkUseFro32K = True, gPWR_CpuClk_48MHz = True, FRO32K_CALIBRATION_LOOPS = 2, FRO48M_CALIBRATION_LOOPS = 2\<rparr> [0, 0, 0, 0, 7] fro_boot =
    Some \<lparr>bCalibStarted = False, u32ProcessLoopCounts = 0, indexOfCalibration = 1, froTrace = [FroStart FRO32K, FroComplete FRO32K 0, FroComplete FRO32K 7]\<rparr>"
  using k32_calibration_period [of 0 "\<lparr>gClkUseFro32K = True, gPWR_CpuClk_48MHz = True, FRO32K_CALIBRATION_LOOPS = 2, FRO48M_CALIBRATION_LOOPS = 2\<rparr>"
      FRO32K 2 "[0, 0, 0]" 7 1 "[]"]
  by (simp add: mFroCalibFuncTable_def fro_boot_def)

end
