(* ===== verification/Alarm_Freertos.thy ===== *)
theory Alarm_Freertos
  imports OtNxp_Prelude
begin

text \<open>
  \<^verbatim>\<open>src/common/alarm_freertos.c\<close>: the millisecond alarm on a FreeRTOS software timer. Of FreeRTOS the model keeps the
  tick at which the timer expires, while it is active, and takes the tick count as an argument of the calls that read
  it; \<open>tickMs\<close> is \<^verbatim>\<open>portTICK_PERIOD_MS\<close>. Every operation runs under the mutex of the driver.
\<close>

section \<open>State and operations\<close>

datatype rtos_act = TaskletsSignalPending | RtosMilliFired | RtosDiagAlarmFired

record rtos_alarm =
  alarmFired :: bool
  is_initialized :: bool
  alarmTimer :: "u32 option"
  facts :: "rtos_act list"

definition rtos_alarm_boot :: rtos_alarm where
  "rtos_alarm_boot = \<lparr>alarmFired = False, is_initialized = False, alarmTimer = None, facts = []\<rparr>"

definition femit :: "rtos_act \<Rightarrow> rtos_alarm \<Rightarrow> rtos_alarm" where
  "femit a s = s\<lparr>facts := facts s @ [a]\<rparr>"

definition ALARM_TIMER_MS_2_TICKS :: "u32 \<Rightarrow> u32 \<Rightarrow> u32" where
  "ALARM_TIMER_MS_2_TICKS tickMs ms = ms div tickMs"

definition ALARM_TIMER_TICKS_2_MS :: "u32 \<Rightarrow> u32 \<Rightarrow> u64" where
  "ALARM_TIMER_TICKS_2_MS tickMs ticks = ucast ticks * ucast tickMs"

definition alarmTimerCallback :: "rtos_alarm \<Rightarrow> rtos_alarm" where
  "alarmTimerCallback s = femit TaskletsSignalPending (s\<lparr>alarmFired := True\<rparr>)"

text \<open>The timer that expires is a one-shot timer and becomes inactive.\<close>

definition rtos_timer_expires :: "rtos_alarm \<Rightarrow> rtos_alarm" where
  "rtos_timer_expires s = alarmTimerCallback (s\<lparr>alarmTimer := None\<rparr>)"

text \<open>The kernel objects are created or the assertion stops the device: \<open>created\<close>.\<close>

definition rtos_otPlatAlarmInit :: "bool \<Rightarrow> rtos_alarm \<Rightarrow> rtos_alarm option" where
  "rtos_otPlatAlarmInit created s =
     (if is_initialized s then Some s else if created then Some (s\<lparr>alarmTimer := None, is_initialized := True\<rparr>) else None)"

definition rtos_otPlatAlarmMilliGetNow :: "u32 \<Rightarrow> u32 \<Rightarrow> u32" where
  "rtos_otPlatAlarmMilliGetNow tickMs ticks = ucast (ALARM_TIMER_TICKS_2_MS tickMs ticks)"

definition rtos_otPlatTimeGet :: "u32 \<Rightarrow> u32 \<Rightarrow> u64" where
  "rtos_otPlatTimeGet tickMs ticks = ALARM_TIMER_TICKS_2_MS tickMs ticks * 1000"

definition rtos_otPlatAlarmMilliStop :: "bool \<Rightarrow> rtos_alarm \<Rightarrow> rtos_alarm option" where
  "rtos_otPlatAlarmMilliStop created s = do { s1 \<leftarrow> rtos_otPlatAlarmInit created s; Some (s1\<lparr>alarmTimer := None\<rparr>) }"

definition rtos_otPlatAlarmDeinit :: "bool \<Rightarrow> rtos_alarm \<Rightarrow> rtos_alarm option" where
  "rtos_otPlatAlarmDeinit created s =
     do { s1 \<leftarrow> rtos_otPlatAlarmMilliStop created s; Some (s1\<lparr>alarmTimer := None, is_initialized := False\<rparr>) }"

definition rtos_otPlatAlarmMilliStartAt :: "bool \<Rightarrow> u32 \<Rightarrow> u32 \<Rightarrow> u32 \<Rightarrow> u32 \<Rightarrow> rtos_alarm \<Rightarrow> rtos_alarm option" where
  "rtos_otPlatAlarmMilliStartAt created tickMs ticks aT0 aDt s =
     do { s1 \<leftarrow> rtos_otPlatAlarmInit created s;
          let now = rtos_otPlatAlarmMilliGetNow tickMs ticks;
          if aT0 + aDt > now
          then (let startTimer = (case alarmTimer s1 of
                      Some expiry \<Rightarrow> (let nextExpiryTime = ucast (ALARM_TIMER_TICKS_2_MS tickMs expiry) :: u32
                                       in aT0 + aDt < nextExpiryTime)
                    | None \<Rightarrow> True)
                in Some (if startTimer
                         then s1\<lparr>alarmTimer := Some (ticks + ALARM_TIMER_MS_2_TICKS tickMs (aT0 + aDt - now))\<rparr>
                         else s1))
          else Some (alarmTimerCallback s1) }"

text \<open>\<open>diag\<close> is the answer of \<^verbatim>\<open>otPlatDiagModeGet\<close>.\<close>

definition rtos_otPlatAlarmProcess :: "bool \<Rightarrow> rtos_alarm \<Rightarrow> rtos_alarm" where
  "rtos_otPlatAlarmProcess diag s =
     (if alarmFired s then femit (if diag then RtosDiagAlarmFired else RtosMilliFired) (s\<lparr>alarmFired := False\<rparr>) else s)"

section \<open>Never late\<close>




section \<open>Properties\<close>




text \<open>
  Past the wrap of the 32-bit milliseconds the comparison of times is wrong: a deadline whose sum wraps is taken to have
  passed, and the alarm is pending at once although all of its delay is left.
\<close>

lemma rtos_alarm_wraps:
  assumes "is_initialized s" and "aT0 = rtos_otPlatAlarmMilliGetNow tickMs ticks" and "2 ^ 32 \<le> unat aT0 + unat aDt"
  shows "\<exists>t. rtos_otPlatAlarmMilliStartAt created tickMs ticks aT0 aDt s = Some t \<and> alarmFired t"
proof -
  have "unat aDt < 2 ^ 32" "unat aT0 < 2 ^ 32" using unsigned_less [of aDt] unsigned_less [of aT0] by simp_all
  then have "unat (aT0 + aDt) = unat aT0 + unat aDt - 2 ^ 32" using assms(3) by (simp add: unat_word_ariths mod_if)
  then have "\<not> aT0 + aDt > aT0" using \<open>unat aDt < 2 ^ 32\<close> by (simp add: word_less_nat_alt)
  then show ?thesis using assms(1,2)
    by (simp add: rtos_otPlatAlarmMilliStartAt_def rtos_otPlatAlarmInit_def alarmTimerCallback_def femit_def)
qed

end
