(* ===== verification/Token_Bucket.thy ===== *)
theory Token_Bucket
  imports OtNxp_Prelude
begin

text \<open>
  \<^verbatim>\<open>src/common/lwip/token_bucket.c\<close>: the token bucket that limits the traffic from lwIP into the Thread network.
  Tokens are kept in thousandths in 32 bits; a FreeRTOS timer refills the bucket. Every operation runs under the
  mutex of the bucket and is one step. The locale \<open>rate_limiter\<close> holds the accounting argument.
\<close>

section \<open>Operations\<close>

record otTokenBucket =
  rate :: u32
  tokens :: u32
  increment :: u32

text \<open>FreeRTOS: the tick rate and whether the kernel objects can be created and the timer started.\<close>

record tb_env =
  configTICK_RATE_HZ :: u32
  xSemaphoreCreateMutex :: bool
  xTimerCreate :: bool
  xTimerStart :: bool

definition TO_FRACTIONS :: "u32 \<Rightarrow> u32" where "TO_FRACTIONS val = val * 1000"
definition MAX_RATE :: u32 where "MAX_RATE = 0xFFFFFFFF div 1000"

definition timerPeriodTicks :: "tb_env \<Rightarrow> u32 \<Rightarrow> u32" where
  "timerPeriodTicks env r = (let t = configTICK_RATE_HZ env div r in if t = 0 then 1 else t)"

definition otTokenBucketInit :: "tb_env \<Rightarrow> u32 \<Rightarrow> otTokenBucket option" where
  "otTokenBucketInit env r =
     (if r = 0 \<or> \<not> r \<le> MAX_RATE \<or> \<not> xSemaphoreCreateMutex env then None
      else (let rt = TO_FRACTIONS r; perSecond = configTICK_RATE_HZ env div timerPeriodTicks env r in
            if perSecond = 0 \<or> \<not> xTimerCreate env \<or> \<not> xTimerStart env then None
            else Some \<lparr>rate = rt, tokens = rt, increment = rt div perSecond\<rparr>))"

definition otTokenBucketTake :: "otTokenBucket \<Rightarrow> u32 \<Rightarrow> (u32 \<times> otTokenBucket) option" where
  "otTokenBucketTake aBucket n =
     (if \<not> n \<le> MAX_RATE then None
      else (let fractionsToTake = TO_FRACTIONS n in
            if fractionsToTake \<le> tokens aBucket then Some (n, aBucket\<lparr>tokens := tokens aBucket - fractionsToTake\<rparr>)
            else Some (0, aBucket)))"

definition otTokenBucketCanTake :: "otTokenBucket \<Rightarrow> u32 \<Rightarrow> bool option" where
  "otTokenBucketCanTake aBucket n = (if \<not> n \<le> MAX_RATE then None else Some (TO_FRACTIONS n \<le> tokens aBucket))"

text \<open>The timer callback; its first assignment stores the sum in the bucket as well.\<close>

definition otTokenBucketCallback :: "otTokenBucket \<Rightarrow> otTokenBucket" where
  "otTokenBucketCallback aBucket =
     (if tokens aBucket \<noteq> rate aBucket
      then (let b = aBucket\<lparr>tokens := tokens aBucket + increment aBucket\<rparr>; newTokens = tokens b in
            if newTokens < tokens b then b\<lparr>tokens := rate b\<rparr>
            else if newTokens \<ge> rate b then b\<lparr>tokens := rate b\<rparr>
            else b\<lparr>tokens := newTokens\<rparr>)
      else aBucket)"

section \<open>Accounting\<close>






section \<open>The bucket is a limiter\<close>






section \<open>Properties\<close>


definition tb_sample_env :: tb_env where
  "tb_sample_env = \<lparr>configTICK_RATE_HZ = 1000, xSemaphoreCreateMutex = True, xTimerCreate = True, xTimerStart = True\<rparr>"


text \<open>
  The overflow check of the refill never fires: the sum is compared with itself. Where tokens and increment
  exceed 32 bits, a nearly full bucket is left nearly empty instead of full.
\<close>

theorem token_bucket_refill_overflows:
  assumes "tokens b < rate b" and "increment b \<le> rate b" and "2 ^ 32 \<le> unat (tokens b) + unat (increment b)"
  shows "unat (tokens (otTokenBucketCallback b)) = unat (tokens b) + unat (increment b) - 2 ^ 32 \<and>
    tokens (otTokenBucketCallback b) < tokens b"
proof -
  have lt: "unat (tokens b) < 2 ^ 32" "unat (increment b) < 2 ^ 32" using unsigned_less [of "tokens b"] unsigned_less [of "increment b"] by simp_all
  then have sum: "unat (tokens b + increment b) = unat (tokens b) + unat (increment b) - 2 ^ 32"
    using assms(3) by (simp add: unat_word_ariths mod_if)
  then have "tokens b + increment b < tokens b" "\<not> rate b \<le> tokens b + increment b"
    using lt assms by (simp_all add: word_less_nat_alt word_le_nat_alt)
  then show ?thesis using assms(1) sum by (auto simp: otTokenBucketCallback_def Let_def)
qed

theorem token_bucket_refill_overflows_witness:
  "\<exists>b b1. otTokenBucketInit tb_sample_env 4294967 = Some b \<and> otTokenBucketTake b 1 = Some (1, b1) \<and>
    tokens b1 = 4294966000 \<and> rate b1 = 4294967000 \<and> unat (tokens (otTokenBucketCallback b1)) = 4293671"
proof -
  define b1 where "b1 = \<lparr>rate = 4294967000, tokens = 4294966000, increment = 4294967 :: u32\<rparr>"
  have "\<exists>b. otTokenBucketInit tb_sample_env 4294967 = Some b \<and> otTokenBucketTake b 1 = Some (1, b1)"
    unfolding b1_def by (intro exI [of _ "\<lparr>rate = 4294967000, tokens = 4294967000, increment = 4294967 :: u32\<rparr>"]) code_simp
  moreover have "unat (tokens (otTokenBucketCallback b1)) = 4293671"
    using token_bucket_refill_overflows [of b1] by (simp add: b1_def)
  ultimately show ?thesis by (auto simp: b1_def)
qed

end
