(* ===== verification/Log_Ring.thy ===== *)
theory Log_Ring
  imports Printf_Numbers
begin

text \<open>
  \<^verbatim>\<open>src/common/logging.c\<close>: a log message is formatted into one buffer, closed with an end of line and either sent at once
  or put, behind a length of two bytes, into a ring that a low-priority task empties. The mutex makes each ring
  operation one step. The size of the ring is a macro of the build and here the length of its buffer. \<open>None\<close> is an access
  outside an array. The arguments of \<^verbatim>\<open>vsnprintf\<close> are given by the text they format to, \<open>None\<close> being a format error.
\<close>

section \<open>The ring\<close>

record log_ring =
  lgBuffer :: bytes
  lgIn :: u32
  lgOut :: u32
  space_left :: u32

definition LOG_RING_BUFFER_SIZE :: "log_ring \<Rightarrow> u32" where
  "LOG_RING_BUFFER_SIZE ring = of_nat (length (lgBuffer ring))"

definition RingInit :: "log_ring \<Rightarrow> log_ring" where
  "RingInit ring = ring\<lparr>lgIn := 0, lgOut := 0, space_left := LOG_RING_BUFFER_SIZE ring\<rparr>"

fun consumeLoop :: "nat \<Rightarrow> log_ring \<Rightarrow> bytes \<Rightarrow> bytes \<times> log_ring" where
  "consumeLoop 0 ring got = (got, ring)"
| "consumeLoop (Suc n) ring got =
     (let c = lgBuffer ring ! unat (lgOut ring);
          r1 = ring\<lparr>lgOut := lgOut ring + 1\<rparr>;
          r2 = (if lgOut r1 = LOG_RING_BUFFER_SIZE r1 then r1\<lparr>lgOut := 0\<rparr> else r1)
      in consumeLoop n (r2\<lparr>space_left := space_left r2 + 1\<rparr>) (got @ [c]))"

definition RingLogConsume :: "log_ring \<Rightarrow> bytes \<Rightarrow> u16 \<Rightarrow> (u16 \<times> log_ring \<times> bytes) option" where
  "RingLogConsume ring pBufferOut bufferOutSize =
     (if LOG_RING_BUFFER_SIZE ring - space_left ring = 0 then Some (0, ring, pBufferOut)
      else let nbByteToRead = push_bit 8 (ucast (lgBuffer ring ! unat (lgOut ring))) +
                 ucast (lgBuffer ring ! unat ((lgOut ring + 1) mod LOG_RING_BUFFER_SIZE ring)) :: u32
        in if nbByteToRead > ucast bufferOutSize then Some (0, ring, pBufferOut)
           else case consumeLoop (unat nbByteToRead) (ring\<lparr>lgOut := (lgOut ring + 2) mod LOG_RING_BUFFER_SIZE ring\<rparr>) [] of
             (got, r) \<Rightarrow> do { out \<leftarrow> wr_bytes 0 got pBufferOut; Some (ucast nbByteToRead, r, out) })"

fun addLoop :: "bytes \<Rightarrow> log_ring \<Rightarrow> log_ring" where
  "addLoop [] ring = ring"
| "addLoop (x # xs) ring =
     (let r1 = ring\<lparr>lgBuffer := (lgBuffer ring)[unat (lgIn ring) := x], lgIn := lgIn ring + 1\<rparr>;
          r2 = (if lgIn r1 = LOG_RING_BUFFER_SIZE r1 then r1\<lparr>lgIn := 0\<rparr> else r1)
      in addLoop xs (r2\<lparr>space_left := space_left r2 - 1\<rparr>))"

definition RingLogAdd :: "log_ring \<Rightarrow> bytes \<Rightarrow> u16 \<Rightarrow> (bool \<times> log_ring) option" where
  "RingLogAdd ring pData sz =
     (if space_left ring \<ge> ucast sz + 2
      then do { xs \<leftarrow> rd_bytes 0 (unat sz) pData;
                let r1 = ring\<lparr>lgBuffer := (lgBuffer ring)[unat (lgIn ring) := ucast (drop_bit 8 sz)]\<rparr>;
                let r2 = r1\<lparr>lgBuffer := (lgBuffer r1)[unat ((lgIn r1 + 1) mod LOG_RING_BUFFER_SIZE r1) := ucast sz]\<rparr>;
                let r3 = r2\<lparr>lgIn := (lgIn r2 + 2) mod LOG_RING_BUFFER_SIZE r2\<rparr>;
                Some (True, addLoop xs r3) }
      else Some (False, ring))"

section \<open>Messages\<close>

definition LOG_BUFFER_SIZE :: nat where "LOG_BUFFER_SIZE = 256"
definition EOL_CHARS :: bytes where "EOL_CHARS = [13, 10, 0]"
definition EOL_CHARS_LEN :: int where "EOL_CHARS_LEN = 3"

record log_build =
  LOG_BUFFER_ENABLED :: bool
  MULTICORE_LOGGING_ENABLED :: bool

record log_sys =
  sTxBuffer :: bytes
  logRingBuffer :: log_ring
  dumpNotified :: bool
  logSent :: "bytes list"

text \<open>\<^verbatim>\<open>multicore_send_data\<close> gets a length, \<^verbatim>\<open>PRINTF("%s", ...)\<close> prints up to the first zero.\<close>

definition log_output :: "log_build \<Rightarrow> nat \<Rightarrow> bytes \<Rightarrow> bytes option" where
  "log_output b len buf =
     (if MULTICORE_LOGGING_ENABLED b then rd_bytes 0 len buf
      else if 0 \<in> set buf then Some (takeWhile (\<lambda>c. c \<noteq> 0) buf) else None)"

definition vsnprintf :: "bytes option \<Rightarrow> int \<Rightarrow> int \<Rightarrow> bytes \<Rightarrow> (int \<times> bytes) option" where
  "vsnprintf txt off maxSize buf =
     (case txt of None \<Rightarrow> Some (- 1, buf)
      | Some t \<Rightarrow> map_option (Pair (int (length t))) (wr_bytes (nat off) (take (nat maxSize - 1) t @ [0]) buf))"

definition print_stamp :: "u32 \<Rightarrow> bytes" where
  "print_stamp w = map of_char (''['' @ print_u (unat w) @ '']'')"

text \<open>\<open>stamp\<close> is the value of the timer in builds with \<^verbatim>\<open>LOG_32K_TICK_TIMESTAMP_ENABLED\<close>.\<close>

definition otPlatLogImpl :: "log_build \<Rightarrow> u32 option \<Rightarrow> bytes option \<Rightarrow> log_sys \<Rightarrow> log_sys option" where
  "otPlatLogImpl b stamp txt s =
     do { let maxSize = int LOG_BUFFER_SIZE - EOL_CHARS_LEN;
          (len, buf) \<leftarrow> (case stamp of None \<Rightarrow> Some (0, sTxBuffer s) | Some w \<Rightarrow> vsnprintf (Some (print_stamp w)) 0 maxSize (sTxBuffer s));
          let maxSize = (if stamp = None then maxSize else maxSize - len);
          (n, buf) \<leftarrow> vsnprintf txt len maxSize buf;
          let len = len + n;
          let s = s\<lparr>sTxBuffer := buf\<rparr>;
          if len \<ge> 0
          then do { buf \<leftarrow> wr_bytes (nat len) EOL_CHARS buf;
                    let s = s\<lparr>sTxBuffer := buf\<rparr>;
                    let len = len + EOL_CHARS_LEN;
                    if LOG_BUFFER_ENABLED b
                    then do { (added, r) \<leftarrow> RingLogAdd (logRingBuffer s) buf (of_int len);
                              Some (s\<lparr>logRingBuffer := r, dumpNotified := dumpNotified s \<or> added\<rparr>) }
                    else do { out \<leftarrow> log_output b (nat len) buf; Some (s\<lparr>logSent := logSent s @ [out]\<rparr>) } }
          else Some s }"

text \<open>The inner loop of the dump task; \<open>logBuffer\<close> is the array on its stack.\<close>

partial_function (option) dumpLoop :: "log_build \<Rightarrow> log_ring \<Rightarrow> bytes \<Rightarrow> bytes list \<Rightarrow> (log_ring \<times> bytes list) option" where
  "dumpLoop b ring logBuffer sent =
     do { (logBufferSize, ring, logBuffer) \<leftarrow> RingLogConsume ring logBuffer (of_nat LOG_BUFFER_SIZE);
          if logBufferSize = 0 then Some (ring, sent)
          else do { out \<leftarrow> log_output b (unat logBufferSize) logBuffer;
                    dumpLoop b ring logBuffer (sent @ [out]) } }"

definition otPlatLogDumpTask :: "log_build \<Rightarrow> bytes \<Rightarrow> log_sys \<Rightarrow> log_sys option" where
  "otPlatLogDumpTask b logBuffer s =
     do { (r, sent) \<leftarrow> dumpLoop b (logRingBuffer s) logBuffer [];
          Some (s\<lparr>logRingBuffer := r, dumpNotified := False, logSent := logSent s @ sent\<rparr>) }"

section \<open>Bytes around the ring\<close>

definition around :: "bytes \<Rightarrow> nat \<Rightarrow> nat \<Rightarrow> bytes" where
  "around buf p n = map (\<lambda>j. buf ! ((p + j) mod length buf)) [0..<n]"

lemma length_around [simp]: "length (around buf p n) = n"
  by (simp add: around_def)

lemma around_add: "around buf p (m + n) = around buf p m @ around buf ((p + m) mod length buf) n"
proof -
  have "around buf p (m + n) = around buf p m @ map (\<lambda>j. buf ! ((p + j) mod length buf)) [m..<m + n]"
    unfolding around_def by (subst upt_add_eq_append) simp_all
  also have "map (\<lambda>j. buf ! ((p + j) mod length buf)) [m..<m + n] = around buf ((p + m) mod length buf) n"
    by (rule nth_equalityI) (simp_all add: around_def mod_add_left_eq add.assoc)
  finally show ?thesis .
qed

lemma around_mod: "around buf (p mod length buf) n = around buf p n"
  by (simp add: around_def mod_simps)

lemma places_differ:
  assumes "j < n" and "n < N"
  shows "(p + j) mod N \<noteq> (p + n) mod (N :: nat)"
proof
  assume "(p + j) mod N = (p + n) mod N"
  then have "N dvd (p + n) - (p + j)" using assms mod_eq_dvd_iff_nat [of "p + j" "p + n" N] by simp
  then show False using assms nat_dvd_not_less [of "n - j" N] by simp
qed

lemma around_put:
  assumes "n < length buf"
  shows "around (buf[(p + n) mod length buf := x]) p (Suc n) = around buf p n @ [x]"
proof (rule nth_equalityI)
  fix j assume "j < length (around (buf[(p + n) mod length buf := x]) p (Suc n))"
  then have "j < n \<or> j = n" by auto
  moreover have "(p + n) mod length buf < length buf" by (rule mod_less_divisor) (use assms in linarith)
  ultimately show "around (buf[(p + n) mod length buf := x]) p (Suc n) ! j = (around buf p n @ [x]) ! j"
    using places_differ [OF _ assms, of j p] by (auto simp: around_def nth_append simp del: upt_Suc)
qed simp

section \<open>Ring operations on lists of logs\<close>

definition log_entry :: "bytes \<Rightarrow> bytes" where
  "log_entry xs = ucast (drop_bit 8 (of_nat (length xs) :: u16)) # ucast (of_nat (length xs) :: u16) # xs"

definition log_bytes :: "bytes list \<Rightarrow> nat" where
  "log_bytes q = length (concat (map log_entry q))"

text \<open>
  The ring holds the logs \<open>q\<close>, oldest first. The code counts their contents and not their length fields as occupied; the
  entries themselves fit.
\<close>

definition ring_holds :: "log_ring \<Rightarrow> bytes list \<Rightarrow> bool" where
  "ring_holds r q \<longleftrightarrow> (let N = length (lgBuffer r) in
     2 \<le> N \<and> N < 2 ^ 31 \<and> unat (lgIn r) < N \<and> unat (lgOut r) < N \<and> log_bytes q \<le> N \<and>
     unat (lgIn r) = (unat (lgOut r) + log_bytes q) mod N \<and>
     around (lgBuffer r) (unat (lgOut r)) (log_bytes q) = concat (map log_entry q) \<and>
     unat (space_left r) = N - length (concat q))"

lemma wrap_inc:
  assumes "unat (i :: u32) < N" and "N < 2 ^ 31"
  shows "unat (if i + 1 = of_nat N then 0 else i + 1) = (unat i + 1) mod N"
proof -
  have N: "unat (of_nat N :: u32) = N" using assms by (simp add: unat_of_nat)
  have 1: "unat (i + 1) = unat i + 1" using assms by (simp add: unat_word_ariths)
  have "i + 1 = of_nat N \<longleftrightarrow> unat i + 1 = N" using N 1 by (metis word_unat_eq_iff)
  then show ?thesis using 1 assms by auto
qed

lemma skip_mod:
  assumes "unat (i :: u32) < N" and "N < 2 ^ 31"
  shows "unat ((i + 1) mod of_nat N) = (unat i + 1) mod N" "unat ((i + 2) mod of_nat N) = (unat i + 2) mod N"
proof -
  have "unat (of_nat N :: u32) = N" using assms by (simp add: unat_of_nat)
  moreover have "unat (i + 1) = unat i + 1" "unat (i + 2) = unat i + 2" using assms by (simp_all add: unat_word_ariths)
  ultimately show "unat ((i + 1) mod of_nat N) = (unat i + 1) mod N" "unat ((i + 2) mod of_nat N) = (unat i + 2) mod N"
    by (simp_all add: unat_mod)
qed

lemma unat_widen: "unat (ucast (a :: u8) :: u32) = unat a" "unat (ucast (b :: u16) :: u32) = unat b"
proof -
  have "unat a < 2 ^ LENGTH(8)" "unat b < 2 ^ LENGTH(16)" by (rule unsigned_less)+
  then show "unat (ucast a :: u32) = unat a" "unat (ucast b :: u32) = unat b" by (simp_all add: unsigned_ucast_eq take_bit_eq_mod)
qed

lemma log_header: "push_bit 8 (ucast (ucast (drop_bit 8 w) :: u8)) + ucast (ucast w :: u8) = (ucast (w :: u16) :: u32)"
proof -
  have w: "unat w < 2 ^ LENGTH(16)" by (rule unsigned_less)
  then have h: "unat (ucast (drop_bit 8 w) :: u8) = unat w div 256" "unat (ucast w :: u8) = unat w mod 256"
    by (simp_all add: unsigned_ucast_eq take_bit_eq_mod drop_bit_eq_div unat_div)
  have "unat (push_bit 8 (ucast (ucast (drop_bit 8 w) :: u8)) :: u32) = 256 * (unat w div 256)"
    using h(1) w by (simp add: push_bit_eq_mult unat_word_ariths unat_widen)
  then have "unat (push_bit 8 (ucast (ucast (drop_bit 8 w) :: u8)) + ucast (ucast w :: u8) :: u32) = unat w"
    using h(2) w by (simp add: unat_word_ariths unat_widen)
  then show ?thesis by (simp add: word_unat_eq_iff unat_widen)
qed

text \<open>What writing \<open>xs\<close> at the write position does, seen from a position \<open>p\<close> that lies \<open>n\<close> bytes before it.\<close>

definition written :: "nat \<Rightarrow> nat \<Rightarrow> bytes \<Rightarrow> log_ring \<Rightarrow> log_ring \<Rightarrow> bool" where
  "written p n xs r t \<longleftrightarrow> length (lgBuffer t) = length (lgBuffer r) \<and> lgOut t = lgOut r \<and>
     unat (lgIn t) = (p + n + length xs) mod length (lgBuffer r) \<and>
     around (lgBuffer t) p (n + length xs) = around (lgBuffer r) p n @ xs"

lemma written_trans: "written p n xs r t \<Longrightarrow> written p (n + length xs) ys t u \<Longrightarrow> written p n (xs @ ys) r u"
  by (simp add: written_def add.assoc)

lemma addLoop_effect:
  assumes "length (lgBuffer r) < 2 ^ 31" and "n + length xs \<le> length (lgBuffer r)" and "unat (lgIn r) = (p + n) mod length (lgBuffer r)"
    and "length xs \<le> unat (space_left r)"
  shows "written p n xs r (addLoop xs r) \<and> unat (space_left (addLoop xs r)) = unat (space_left r) - length xs"
  using assms
proof (induction xs arbitrary: r n)
  case Nil
  then show ?case by (simp add: written_def)
next
  case (Cons x xs)
  let ?N = "length (lgBuffer r)"
  define t where "t = r\<lparr>lgBuffer := (lgBuffer r)[unat (lgIn r) := x],
      lgIn := (if lgIn r + 1 = of_nat ?N then 0 else lgIn r + 1), space_left := space_left r - 1\<rparr>"
  have step: "addLoop (x # xs) r = addLoop xs t" by (simp add: t_def LOG_RING_BUFFER_SIZE_def Let_def)
  have "0 < ?N" using Cons.prems(2) by auto
  then have "unat (lgIn r) < ?N" using Cons.prems(3) by simp
  then have i: "unat (lgIn t) = (p + n + 1) mod ?N"
    using wrap_inc [of "lgIn r" ?N] Cons.prems by (simp add: t_def mod_simps)
  have w: "written p n [x] r t"
    using i around_put [of n "lgBuffer r" p x] Cons.prems by (simp add: written_def t_def)
  have sp: "unat (space_left t) = unat (space_left r) - 1"
  proof -
    have "space_left r \<noteq> 0" by (rule notI) (use Cons.prems(4) in simp)
    then show ?thesis using unat_minus_one [of "space_left r"] by (simp add: t_def)
  qed
  have "written p (n + 1) xs t (addLoop xs t) \<and> unat (space_left (addLoop xs t)) = unat (space_left t) - length xs"
    by (rule Cons.IH) (use Cons.prems sp i in \<open>simp_all add: t_def\<close>)
  then show ?case using written_trans [OF w, of xs "addLoop xs t"] sp step by simp
qed

lemma consumeLoop_effect:
  assumes "length (lgBuffer r) < 2 ^ 31" and "unat (lgOut r) < length (lgBuffer r)"
  shows "\<exists>o'. consumeLoop n r got = (got @ around (lgBuffer r) (unat (lgOut r)) n, r\<lparr>lgOut := o', space_left := space_left r + of_nat n\<rparr>) \<and>
    unat o' = (unat (lgOut r) + n) mod length (lgBuffer r)"
  using assms
proof (induction n arbitrary: r got)
  case 0
  then show ?case by (intro exI [of _ "lgOut r"]) (simp add: around_def)
next
  case (Suc n)
  let ?N = "length (lgBuffer r)" and ?c = "lgBuffer r ! unat (lgOut r)"
  define o1 where "o1 = (if lgOut r + 1 = of_nat ?N then 0 else lgOut r + 1)"
  have o1: "unat o1 = (unat (lgOut r) + 1) mod ?N" using wrap_inc [of "lgOut r" ?N] Suc.prems by (simp add: o1_def)
  define t where "t = r\<lparr>lgOut := o1, space_left := space_left r + 1\<rparr>"
  have step: "consumeLoop (Suc n) r got = consumeLoop n t (got @ [?c])" by (simp add: t_def o1_def LOG_RING_BUFFER_SIZE_def Let_def)
  have "unat (lgOut t) < length (lgBuffer t)" unfolding t_def using o1 Suc.prems(2) by simp (metis mod_less_divisor less_nat_zero_code neq0_conv)
  then obtain o' where o': "consumeLoop n t (got @ [?c]) = ((got @ [?c]) @ around (lgBuffer r) (unat o1) n, t\<lparr>lgOut := o', space_left := space_left t + of_nat n\<rparr>)"
    "unat o' = (unat o1 + n) mod ?N"
    using Suc.IH [of t "got @ [?c]"] Suc.prems(1) by (auto simp: t_def)
  have "around (lgBuffer r) (unat (lgOut r)) (1 + n) = [?c] @ around (lgBuffer r) (unat o1) n"
    using around_add [of "lgBuffer r" "unat (lgOut r)" 1 n] Suc.prems(2) o1 by (simp add: around_def)
  then show ?case unfolding step o'(1) using o'(2) o1 by (intro exI [of _ o']) (simp add: t_def mod_simps)
qed

lemma length_log_entry [simp]: "length (log_entry xs) = length xs + 2"
  by (simp add: log_entry_def)

lemma log_bytes_simps [simp]: "log_bytes [] = 0" "log_bytes (x # q) = length x + 2 + log_bytes q" "log_bytes (q @ q') = log_bytes q + log_bytes q'"
  by (simp_all add: log_bytes_def)

lemma log_bytes_ge: "length (concat q) + 2 * length q = log_bytes q"
  by (induction q) simp_all

lemma ring_holdsD:
  assumes "ring_holds r q"
  shows "2 \<le> length (lgBuffer r)" "length (lgBuffer r) < 2 ^ 31" "unat (lgOut r) < length (lgBuffer r)" "log_bytes q \<le> length (lgBuffer r)"
    "unat (lgIn r) = (unat (lgOut r) + log_bytes q) mod length (lgBuffer r)"
    "around (lgBuffer r) (unat (lgOut r)) (log_bytes q) = concat (map log_entry q)"
    "unat (space_left r) = length (lgBuffer r) - length (concat q)" "unat (lgIn r) < length (lgBuffer r)"
  using assms by (simp_all add: ring_holds_def Let_def)

text \<open>The test of \<^verbatim>\<open>RingLogAdd\<close> in terms of the logs in the ring.\<close>

lemma add_test:
  assumes "ring_holds r q"
  shows "space_left r \<ge> ucast (sz :: u16) + 2 \<longleftrightarrow> length (concat q) + unat sz + 2 \<le> length (lgBuffer r)"
proof -
  have "unat sz < 2 ^ LENGTH(16)" by (rule unsigned_less)
  then have "unat (ucast sz + 2 :: u32) = unat sz + 2" by (simp add: unat_word_ariths unat_widen)
  then show ?thesis using ring_holdsD(4,7) [OF assms] log_bytes_ge [of q] by (auto simp: word_le_nat_alt)
qed

lemma add_refused:
  "ring_holds r q \<Longrightarrow> length (lgBuffer r) < length (concat q) + unat sz + 2 \<Longrightarrow> RingLogAdd r pData sz = Some (False, r)"
  using add_test [of r q sz] by (simp add: RingLogAdd_def)

lemma add_holds:
  assumes h: "ring_holds r q" and "unat sz \<le> length pData" and fits: "log_bytes q + unat sz + 2 \<le> length (lgBuffer r)"
  shows "\<exists>t. RingLogAdd r pData sz = Some (True, t) \<and> ring_holds t (q @ [take (unat sz) pData]) \<and> length (lgBuffer t) = length (lgBuffer r)"
proof -
  note d = ring_holdsD [OF h]
  let ?N = "length (lgBuffer r)" and ?p = "unat (lgOut r)" and ?n = "log_bytes q" and ?xs = "take (unat sz) pData"
  let ?h = "ucast (drop_bit 8 sz) :: u8" and ?l = "ucast sz :: u8"
  define t where "t = r\<lparr>lgBuffer := (lgBuffer r)[unat (lgIn r) := ?h, unat ((lgIn r + 1) mod of_nat ?N) := ?l], lgIn := (lgIn r + 2) mod of_nat ?N\<rparr>"
  have add: "RingLogAdd r pData sz = Some (True, addLoop ?xs t)"
    using add_test [OF h, of sz] fits log_bytes_ge [of q] assms(2) by (simp add: RingLogAdd_def rd_bytes_def t_def LOG_RING_BUFFER_SIZE_def Let_def)
  have i: "unat ((lgIn r + 1) mod of_nat ?N) = (?p + Suc ?n) mod ?N" "unat ((lgIn r + 2) mod of_nat ?N) = (?p + (?n + 2)) mod ?N"
    using skip_mod [OF d(8,2)] d(5) by (simp_all add: mod_simps)
  have w1: "around (lgBuffer t) ?p (?n + 2) = around (lgBuffer r) ?p ?n @ [?h, ?l]"
    using around_put [of ?n "lgBuffer r" ?p ?h] around_put [of "Suc ?n" "(lgBuffer r)[(?p + ?n) mod ?N := ?h]" ?p ?l] fits i d(5)
    by (simp add: t_def)
  have w: "written ?p ?n [?h, ?l] r t" using w1 i by (simp add: written_def t_def)
  have e: "written ?p (?n + 2) ?xs t (addLoop ?xs t) \<and> unat (space_left (addLoop ?xs t)) = unat (space_left t) - length ?xs"
    by (rule addLoop_effect) (use d fits i assms(2) log_bytes_ge [of q] in \<open>simp_all add: t_def\<close>)
  have "written ?p ?n ([?h, ?l] @ ?xs) r (addLoop ?xs t)" using written_trans [OF w] e by simp
  moreover have "[?h, ?l] @ ?xs = log_entry ?xs" using assms(2) by (simp add: log_entry_def min_def)
  ultimately have u: "written ?p ?n (log_entry ?xs) r (addLoop ?xs t)" by simp
  have "0 < ?N" using d(1) by linarith
  then have "unat (lgIn (addLoop ?xs t)) < ?N" using u by (simp add: written_def)
  moreover have "unat (space_left (addLoop ?xs t)) = ?N - length (concat (q @ [?xs]))" using e d(7) by (simp add: t_def)
  ultimately have "ring_holds (addLoop ?xs t) (q @ [?xs])"
    using u d(1-6) fits assms(2) unfolding ring_holds_def written_def Let_def by (simp add: min_def add.assoc)
  then show ?thesis using add e by (auto simp: written_def t_def)
qed

lemma used_iff:
  assumes "ring_holds r q"
  shows "LOG_RING_BUFFER_SIZE r - space_left r = 0 \<longleftrightarrow> concat q = []"
proof -
  note d = ring_holdsD [OF assms]
  have "unat (LOG_RING_BUFFER_SIZE r) = length (lgBuffer r)" using d(2) by (simp add: LOG_RING_BUFFER_SIZE_def unat_of_nat)
  moreover have "length (concat q) \<le> length (lgBuffer r)" using d(4) log_bytes_ge [of q] by linarith
  ultimately have "unat (LOG_RING_BUFFER_SIZE r) = unat (space_left r) \<longleftrightarrow> length (concat q) = 0" using d(7) by linarith
  then show ?thesis by (simp only: word_unat_eq_iff [symmetric] length_0_conv right_minus_eq)
qed

lemma consume_empty: "ring_holds r [] \<Longrightarrow> RingLogConsume r out cap = Some (0, r, out)"
  using used_iff [of r "[]"] by (simp add: RingLogConsume_def)

lemma consume_holds:
  assumes h: "ring_holds r (x # q)" and x: "0 < length x" "length x \<le> unat (cap :: u16)" and "unat cap \<le> length out"
  shows "\<exists>t. RingLogConsume r out cap = Some (of_nat (length x), t, x @ drop (length x) out) \<and> ring_holds t q"
proof -
  note d = ring_holdsD [OF h]
  let ?N = "length (lgBuffer r)" and ?p = "unat (lgOut r)" and ?w = "of_nat (length x) :: u16"
  have "unat cap < 2 ^ LENGTH(16)" by (rule unsigned_less)
  then have w: "unat ?w = length x" using x by (simp add: unat_of_nat)
  have "log_bytes (x # q) = 2 + (length x + log_bytes q)" by simp
  then have "around (lgBuffer r) ?p 2 @ around (lgBuffer r) ((?p + 2) mod ?N) (length x) @ around (lgBuffer r) ((?p + 2 + length x) mod ?N) (log_bytes q) =
      [ucast (drop_bit 8 ?w), ucast ?w] @ x @ concat (map log_entry q)"
    using d(6) around_add [of "lgBuffer r" ?p 2 "length x + log_bytes q"] around_add [of "lgBuffer r" "(?p + 2) mod ?N" "length x" "log_bytes q"]
    by (simp only: mod_add_left_eq) (simp add: log_entry_def)
  then have s2: "around (lgBuffer r) ?p 2 = [ucast (drop_bit 8 ?w), ucast ?w]"
    "around (lgBuffer r) ((?p + 2) mod ?N) (length x) = x" "around (lgBuffer r) ((?p + 2 + length x) mod ?N) (log_bytes q) = concat (map log_entry q)"
    by (subst (asm) append_eq_append_conv; simp)+
  then have b: "lgBuffer r ! ?p = ucast (drop_bit 8 ?w)" "lgBuffer r ! unat ((lgOut r + 1) mod of_nat ?N) = ucast ?w"
    using d(3) skip_mod(1) [OF d(3,2)] by (simp_all add: around_def numeral_2_eq_2)
  let ?r = "r\<lparr>lgOut := (lgOut r + 2) mod of_nat ?N\<rparr>"
  have o2: "unat (lgOut ?r) = (?p + 2) mod ?N" using skip_mod(2) [OF d(3,2)] by simp
  moreover have N0: "0 < ?N" using d(1) by linarith
  ultimately obtain o' where c: "consumeLoop (length x) ?r [] = (x, ?r\<lparr>lgOut := o', space_left := space_left r + of_nat (length x)\<rparr>)"
    "unat o' = (?p + 2 + length x) mod ?N"
    using consumeLoop_effect [of ?r "length x" "[]"] d(2) s2(2) by (auto simp: mod_simps add.assoc)
  have "concat (x # q) \<noteq> []" using x by auto
  then have ne: "LOG_RING_BUFFER_SIZE r - space_left r \<noteq> 0" using used_iff [OF h] by simp
  have nb: "push_bit 8 (ucast (lgBuffer r ! ?p)) + ucast (lgBuffer r ! unat ((lgOut r + 1) mod LOG_RING_BUFFER_SIZE r)) = (ucast ?w :: u32)"
    using b log_header [of ?w] by (simp only: LOG_RING_BUFFER_SIZE_def)
  have u: "unat (ucast ?w :: u32) = length x" "\<not> (ucast ?w :: u32) > ucast cap"
    using w x(2) by (simp_all add: unat_widen word_less_nat_alt)
  have n: "ucast (ucast ?w :: u32) = ?w" by (rule bit_word_eqI) (auto simp: bit_simps)
  have "RingLogConsume r out cap = Some (?w, ?r\<lparr>lgOut := o', space_left := space_left r + of_nat (length x)\<rparr>, x @ drop (length x) out)"
    unfolding RingLogConsume_def nb Let_def using ne u n c(1) x(2) assms(4) by (simp add: LOG_RING_BUFFER_SIZE_def wr_bytes_def)
  moreover have "ring_holds (?r\<lparr>lgOut := o', space_left := space_left r + of_nat (length x)\<rparr>) q"
  proof -
    have "length (concat (x # q)) \<le> ?N" using d(4) log_bytes_ge [of "x # q"] by linarith
    then have "unat (space_left r + of_nat (length x)) = ?N - length (concat q)"
      using d(2,7) by (simp add: unat_word_ariths unat_of_nat)
    moreover have "unat o' < ?N" using c(2) N0 by simp
    moreover have "unat (lgIn r) = (unat o' + log_bytes q) mod ?N" using d(5) c(2) by (simp add: mod_simps add.commute add.left_commute)
    ultimately show ?thesis using d s2(3) c(2) by (simp add: ring_holds_def Let_def)
  qed
  ultimately show ?thesis by blast
qed

section \<open>Messages on their way\<close>

text \<open>The text of a message with its time stamp, and what is sent for it.\<close>

definition stamp_text :: "u32 option \<Rightarrow> bytes" where
  "stamp_text stamp = (case stamp of None \<Rightarrow> [] | Some w \<Rightarrow> print_stamp w)"

definition sent_for :: "log_build \<Rightarrow> bytes \<Rightarrow> bytes" where
  "sent_for b t = t @ (if MULTICORE_LOGGING_ENABLED b then EOL_CHARS else [13, 10])"

lemma length_stamp: "length (stamp_text stamp) \<le> 12"
proof (cases stamp)
  case (Some w)
  have "unat w < 2 ^ LENGTH(32)" by (rule unsigned_less)
  then show ?thesis using Some length_print_u [of "unat w" 9] by (simp add: stamp_text_def print_stamp_def)
qed (simp add: stamp_text_def)

lemma put_text:
  assumes "length buf = 256" and "length st + length t \<le> 252"
  shows "vsnprintf (Some t) (int (length st)) (253 - int (length st)) (st @ drop (length st) buf) =
    Some (int (length t), st @ t @ 0 # drop (length st + length t + 1) buf)"
  using assms by (simp add: vsnprintf_def wr_bytes_def add.commute)

lemma put_stamp:
  assumes "length buf = 256"
  shows "\<exists>buf'. length buf' = 256 \<and>
    (case stamp of None \<Rightarrow> Some (0, buf) | Some w \<Rightarrow> vsnprintf (Some (print_stamp w)) 0 253 buf) =
      Some (int (length (stamp_text stamp)), stamp_text stamp @ drop (length (stamp_text stamp)) buf')"
proof (cases stamp)
  case (Some w)
  let ?st = "print_stamp w"
  have l: "length ?st \<le> 12" using length_stamp [of stamp] Some by (simp add: stamp_text_def)
  show ?thesis
    using Some assms l by (intro exI [of _ "?st @ 0 # drop (length ?st + 1) buf"]) (simp add: stamp_text_def vsnprintf_def wr_bytes_def)
qed (use assms in \<open>auto simp: stamp_text_def\<close>)

lemma log_written:
  assumes "length (sTxBuffer s) = 256" and "length (stamp_text stamp) + length t \<le> 252"
  shows "\<exists>rest. length rest = 253 - (length (stamp_text stamp) + length t) \<and>
    otPlatLogImpl b stamp (Some t) s =
      (let buf = stamp_text stamp @ t @ EOL_CHARS @ rest; n = length (stamp_text stamp) + length t + 3; s = s\<lparr>sTxBuffer := buf\<rparr> in
       if LOG_BUFFER_ENABLED b
       then do { (added, r) \<leftarrow> RingLogAdd (logRingBuffer s) buf (of_nat n); Some (s\<lparr>logRingBuffer := r, dumpNotified := dumpNotified s \<or> added\<rparr>) }
       else do { out \<leftarrow> log_output b n buf; Some (s\<lparr>logSent := logSent s @ [out]\<rparr>) })"
proof -
  let ?st = "stamp_text stamp" and ?n = "length (stamp_text stamp) + length t"
  obtain buf' where buf': "length buf' = 256"
    "(case stamp of None \<Rightarrow> Some (0, sTxBuffer s) | Some w \<Rightarrow> vsnprintf (Some (print_stamp w)) 0 253 (sTxBuffer s)) =
      Some (int (length ?st), ?st @ drop (length ?st) buf')"
    using put_stamp [OF assms(1)] by blast
  have m: "(if stamp = None then 253 else 253 - int (length ?st)) = 253 - int (length ?st)" by (simp add: stamp_text_def)
  have w: "wr_bytes (nat (int ?n)) EOL_CHARS (?st @ t @ 0 # drop (?n + 1) buf') = Some (?st @ t @ EOL_CHARS @ drop (?n + 3) buf')"
    unfolding nat_int using buf'(1) assms(2) by (simp add: wr_bytes_def EOL_CHARS_def numeral_3_eq_3 add.commute)
  have k: "int 256 - 3 = 253" "int (length ?st) + int (length t) = int ?n" "int ?n + 3 = int (?n + 3)" by simp_all
  show ?thesis
    unfolding otPlatLogImpl_def Let_def LOG_BUFFER_SIZE_def EOL_CHARS_LEN_def k(1) buf'(2) bind.bind_lunit prod.case m put_text [OF buf'(1) assms(2)] k(2) w
    by (intro exI [of _ "drop (?n + 3) buf'"]) (use buf'(1) in \<open>simp add: k(3) del: of_nat_add\<close>)
qed

lemma sent_from_buffer:
  assumes "0 \<notin> set t" and "n = length t + 3"
  shows "log_output b n (t @ EOL_CHARS @ rest) = Some (sent_for b t)"
proof -
  have "takeWhile (\<lambda>c. c \<noteq> 0) (t @ EOL_CHARS @ rest) = t @ [13, 10]"
    using assms(1) by (subst takeWhile_append2) (auto simp: EOL_CHARS_def)
  then show ?thesis using assms(2) by (simp add: log_output_def sent_for_def rd_bytes_def EOL_CHARS_def)
qed

lemma log_queued:
  assumes "LOG_BUFFER_ENABLED b" and "length (sTxBuffer s) = 256" and "length (stamp_text stamp) + length t \<le> 252"
    and "ring_holds (logRingBuffer s) q" and "log_bytes q + length (stamp_text stamp) + length t + 5 \<le> length (lgBuffer (logRingBuffer s))"
  shows "\<exists>u. otPlatLogImpl b stamp (Some t) s = Some u \<and> ring_holds (logRingBuffer u) (q @ [stamp_text stamp @ t @ EOL_CHARS]) \<and>
    length (sTxBuffer u) = 256 \<and> length (lgBuffer (logRingBuffer u)) = length (lgBuffer (logRingBuffer s)) \<and> logSent u = logSent s \<and> dumpNotified u"
proof -
  let ?n = "length (stamp_text stamp) + length t + 3"
  obtain rest where r: "length rest = 253 - (length (stamp_text stamp) + length t)" and e: "otPlatLogImpl b stamp (Some t) s =
      do { (added, r) \<leftarrow> RingLogAdd (logRingBuffer s) (stamp_text stamp @ t @ EOL_CHARS @ rest) (of_nat ?n);
           Some (s\<lparr>sTxBuffer := stamp_text stamp @ t @ EOL_CHARS @ rest, logRingBuffer := r, dumpNotified := dumpNotified s \<or> added\<rparr>) }"
    using log_written [OF assms(2,3), of b] assms(1) by (auto simp: Let_def)
  have n: "unat (of_nat ?n :: u16) = ?n" using assms(3) by (intro unat_of_nat_u16) simp
  have "take ?n (stamp_text stamp @ t @ EOL_CHARS @ rest) = stamp_text stamp @ t @ EOL_CHARS" by (simp add: EOL_CHARS_def)
  then obtain u where "RingLogAdd (logRingBuffer s) (stamp_text stamp @ t @ EOL_CHARS @ rest) (of_nat ?n) = Some (True, u)"
      "ring_holds u (q @ [stamp_text stamp @ t @ EOL_CHARS])" "length (lgBuffer u) = length (lgBuffer (logRingBuffer s))"
    using add_holds [OF assms(4), of "of_nat ?n" "stamp_text stamp @ t @ EOL_CHARS @ rest"] assms(5) n by (auto simp: EOL_CHARS_def)
  then show ?thesis using e r assms(3) by (simp add: EOL_CHARS_def)
qed

lemma dump_all:
  assumes "ring_holds r (map (\<lambda>t. t @ EOL_CHARS) q)" and "\<forall>t \<in> set q. length t \<le> 252 \<and> 0 \<notin> set t" and "length logBuffer = 256"
  shows "\<exists>u. dumpLoop b r logBuffer sent = Some (u, sent @ map (sent_for b) q) \<and> ring_holds u []"
  using assms
proof (induction q arbitrary: r logBuffer sent)
  case Nil
  then show ?case by (simp add: dumpLoop.simps consume_empty)
next
  case (Cons t q)
  have c: "unat (of_nat LOG_BUFFER_SIZE :: u16) = 256" by (simp add: LOG_BUFFER_SIZE_def)
  have eol: "EOL_CHARS \<noteq> []" by (simp add: EOL_CHARS_def)
  have l: "length (t @ EOL_CHARS) = length t + 3" "length t \<le> 252" using Cons.prems(2) by (simp_all add: EOL_CHARS_def)
  obtain u where u: "RingLogConsume r logBuffer (of_nat LOG_BUFFER_SIZE) = Some (of_nat (length t + 3), u, (t @ EOL_CHARS) @ drop (length t + 3) logBuffer)"
      "ring_holds u (map (\<lambda>t. t @ EOL_CHARS) q)"
    using consume_holds [of r "t @ EOL_CHARS" "map (\<lambda>t. t @ EOL_CHARS) q" "of_nat LOG_BUFFER_SIZE" logBuffer] Cons.prems(1,3) c l eol
    by auto
  have n: "unat (of_nat (length t + 3) :: u16) = length t + 3" using l(2) by (intro unat_of_nat_u16) simp
  then have "(of_nat (length t + 3) :: u16) \<noteq> 0" by (metis add_is_0 unat_0 zero_neq_numeral)
  moreover have "log_output b (length t + 3) ((t @ EOL_CHARS) @ drop (length t + 3) logBuffer) = Some (sent_for b t)"
    using sent_from_buffer [of t "length t + 3"] Cons.prems(2) by simp
  ultimately have "dumpLoop b r logBuffer sent = dumpLoop b u ((t @ EOL_CHARS) @ drop (length t + 3) logBuffer) (sent @ [sent_for b t])"
    using u(1) n by (simp add: dumpLoop.simps [of b r] del: of_nat_add)
  then show ?case
    using Cons.IH [OF u(2), of "(t @ EOL_CHARS) @ drop (length t + 3) logBuffer" "sent @ [sent_for b t]"] Cons.prems(2,3) l by (simp add: EOL_CHARS_def)
qed

text \<open>Messages logged one after the other.\<close>

fun log_all :: "log_build \<Rightarrow> (u32 option \<times> bytes) list \<Rightarrow> log_sys \<Rightarrow> log_sys option" where
  "log_all b [] s = Some s"
| "log_all b ((stamp, t) # ms) s = Option.bind (otPlatLogImpl b stamp (Some t) s) (log_all b ms)"

definition message :: "u32 option \<times> bytes \<Rightarrow> bytes" where
  "message m = stamp_text (fst m) @ snd m"

lemma all_queued:
  assumes "LOG_BUFFER_ENABLED b" and "length (sTxBuffer s) = 256" and "\<forall>m \<in> set ms. length (message m) \<le> 252"
    and "ring_holds (logRingBuffer s) q" and "log_bytes q + (\<Sum>m \<leftarrow> ms. length (message m) + 5) \<le> length (lgBuffer (logRingBuffer s))"
  shows "\<exists>u. log_all b ms s = Some u \<and> ring_holds (logRingBuffer u) (q @ map (\<lambda>m. message m @ EOL_CHARS) ms) \<and> logSent u = logSent s"
  using assms(2-)
proof (induction ms arbitrary: s q)
  case (Cons m ms)
  obtain stamp t where m: "m = (stamp, t)" by fastforce
  obtain u where u: "otPlatLogImpl b stamp (Some t) s = Some u" "ring_holds (logRingBuffer u) (q @ [message m @ EOL_CHARS])"
      "length (sTxBuffer u) = 256" "length (lgBuffer (logRingBuffer u)) = length (lgBuffer (logRingBuffer s))" "logSent u = logSent s"
    using log_queued [OF assms(1) Cons.prems(1), of stamp t q] Cons.prems by (auto simp: m message_def)
  show ?case
    using Cons.IH [OF u(3) _ u(2)] Cons.prems u by (auto simp: m EOL_CHARS_def)
qed auto

section \<open>Properties\<close>

text \<open>
  Log messages come out complete and in order. When the messages, with five bytes each for length field and end of
  line, fit into the ring, wherever its positions are, then logging them returns, the dump task returns, has sent every
  message once, in order and followed by its end of line, and leaves the ring empty.
\<close>

theorem log_messages_dumped:
  assumes "LOG_BUFFER_ENABLED b" and "length (sTxBuffer s) = LOG_BUFFER_SIZE" and "length logBuffer = LOG_BUFFER_SIZE"
    and "\<forall>m \<in> set ms. length (message m) \<le> 252 \<and> 0 \<notin> set (message m)"
    and "ring_holds (logRingBuffer s) []" and "(\<Sum>m \<leftarrow> ms. length (message m) + 5) \<le> length (lgBuffer (logRingBuffer s))"
  shows "\<exists>t u. log_all b ms s = Some t \<and> otPlatLogDumpTask b logBuffer t = Some u \<and>
    logSent u = logSent s @ map (\<lambda>m. sent_for b (message m)) ms \<and> ring_holds (logRingBuffer u) []"
proof -
  obtain t where t: "log_all b ms s = Some t" "ring_holds (logRingBuffer t) (map (\<lambda>m. message m @ EOL_CHARS) ms)" "logSent t = logSent s"
    using all_queued [of b s ms "[]"] assms by (auto simp: LOG_BUFFER_SIZE_def)
  have "ring_holds (logRingBuffer t) (map (\<lambda>t. t @ EOL_CHARS) (map message ms))" using t(2) by (simp add: comp_def)
  then obtain r where "dumpLoop b (logRingBuffer t) logBuffer [] = Some (r, map (sent_for b) (map message ms))" "ring_holds r []"
    using dump_all [of "logRingBuffer t" "map message ms" logBuffer b "[]"] assms(3,4) by (auto simp: LOG_BUFFER_SIZE_def)
  then show ?thesis using t by (simp add: otPlatLogDumpTask_def comp_def)
qed

definition sample_log :: log_sys where
  "sample_log = \<lparr>sTxBuffer = replicate 256 0, logRingBuffer = RingInit \<lparr>lgBuffer = replicate 16 0, lgIn = 0, lgOut = 0, space_left = 0\<rparr>,
     dumpNotified = False, logSent = []\<rparr>"

lemma sample_log_empty: "ring_holds (logRingBuffer sample_log) []"
  by (simp add: sample_log_def RingInit_def ring_holds_def LOG_RING_BUFFER_SIZE_def around_def)

theorem log_messages_dumped_witness:
  "\<exists>t u. log_all \<lparr>LOG_BUFFER_ENABLED = True, MULTICORE_LOGGING_ENABLED = False\<rparr> [(None, [72, 105]), (None, [33])] sample_log = Some t \<and>
    otPlatLogDumpTask \<lparr>LOG_BUFFER_ENABLED = True, MULTICORE_LOGGING_ENABLED = False\<rparr> (replicate 256 1) t = Some u \<and>
    logSent u = [[72, 105, 13, 10], [33, 13, 10]]"
  using log_messages_dumped [of "\<lparr>LOG_BUFFER_ENABLED = True, MULTICORE_LOGGING_ENABLED = False\<rparr>" sample_log "replicate 256 1"
      "[(None, [72, 105]), (None, [33])]"] sample_log_empty
  by (auto simp: LOG_BUFFER_SIZE_def sample_log_def message_def stamp_text_def sent_for_def RingInit_def)

text \<open>
  The ring overwrites itself: the length fields are not counted as used space, so that in a ring of eight bytes a third log
  of one byte is accepted although the first two take six and it takes three more. It destroys the length field of the
  first one, after which nothing comes out any more.
\<close>

lemma log_ring_overwrites:
  "do { (a, r) \<leftarrow> RingLogAdd (RingInit \<lparr>lgBuffer = replicate 8 0, lgIn = 0, lgOut = 0, space_left = 0\<rparr>) [7] 1;
        (b, r) \<leftarrow> RingLogAdd r [8] 1;
        (c, r) \<leftarrow> RingLogAdd r [9] 1;
        (n, r, out) \<leftarrow> RingLogConsume r [0, 0, 0, 0, 0, 0, 0, 0, 0, 0] 10;
        Some (a, b, c, n, take 1 out) } = Some (True, True, True, 0, [0])"
  by code_simp

text \<open>
  A log message leaves the buffer it is formatted into exactly if it is longer than 253 bytes: \<^verbatim>\<open>vsnprintf\<close> returns
  the length the text would have without truncation, and the end of line is copied behind that length.
\<close>

theorem log_message_bounds:
  assumes "length (sTxBuffer s) = LOG_BUFFER_SIZE"
  shows "(\<exists>u. otPlatLogImpl b stamp (Some t) s = Some u) \<longleftrightarrow> length (stamp_text stamp) + length t \<le> 253"
proof -
  let ?k = "length (stamp_text stamp)" and ?n = "length (stamp_text stamp) + length t"
  obtain buf' where buf': "length buf' = 256"
    "(case stamp of None \<Rightarrow> Some (0, sTxBuffer s) | Some w \<Rightarrow> vsnprintf (Some (print_stamp w)) 0 253 (sTxBuffer s)) =
      Some (int ?k, stamp_text stamp @ drop ?k buf')"
    using put_stamp [of "sTxBuffer s" stamp] assms unfolding LOG_BUFFER_SIZE_def by blast
  define buf1 where "buf1 = stamp_text stamp @ drop ?k buf'"
  note 1 = buf'(2) [folded buf1_def]
  have l: "length buf1 = 256" using buf'(1) length_stamp [of stamp] by (simp add: buf1_def)
  have m: "(if stamp = None then 253 else 253 - int ?k) = 253 - int ?k" by (simp add: stamp_text_def)
  have "?k + length (take (nat (253 - int ?k) - 1) t @ [0]) \<le> length buf1" using l length_stamp [of stamp] by simp
  then obtain buf2 where w: "wr_bytes ?k (take (nat (253 - int ?k) - 1) t @ [0]) buf1 = Some buf2" unfolding wr_bytes_def by auto
  then have 2: "length buf2 = 256" "vsnprintf (Some t) (int ?k) (253 - int ?k) buf1 = Some (int (length t), buf2)"
    using wr_bytes_length [OF w] l by (simp_all add: vsnprintf_def)
  have k: "int 256 - 3 = 253" "int ?k + int (length t) = int ?n" "int ?n + 3 = int (?n + 3)" "nat (int ?n) = ?n" "nat (int (?n + 3)) = ?n + 3" by simp_all
  have e: "otPlatLogImpl b stamp (Some t) s = Option.bind (wr_bytes ?n EOL_CHARS buf2) (\<lambda>buf.
      if LOG_BUFFER_ENABLED b
      then do { (added, r) \<leftarrow> RingLogAdd (logRingBuffer s) buf (of_nat (?n + 3)); Some (s\<lparr>sTxBuffer := buf, logRingBuffer := r, dumpNotified := dumpNotified s \<or> added\<rparr>) }
      else do { out \<leftarrow> log_output b (?n + 3) buf; Some (s\<lparr>sTxBuffer := buf, logSent := logSent s @ [out]\<rparr>) })"
    unfolding otPlatLogImpl_def Let_def LOG_BUFFER_SIZE_def EOL_CHARS_LEN_def k(1) 1 bind.bind_lunit prod.case m 2(2) k(2-5)
    by (simp add: k(3) cong: if_cong del: of_nat_add)
  show ?thesis
  proof (cases "?n \<le> 253")
    case True
    then obtain buf where buf: "wr_bytes ?n EOL_CHARS buf2 = Some buf" "length buf = 256" "0 \<in> set buf" using 2(1) by (auto simp: wr_bytes_def EOL_CHARS_def)
    have "unat (of_nat (?n + 3) :: u16) = ?n + 3" using True by (intro unat_of_nat_u16) simp
    then have "\<exists>p. RingLogAdd (logRingBuffer s) buf (of_nat (?n + 3)) = Some p" using buf(2) True by (auto simp: RingLogAdd_def rd_bytes_def Let_def)
    moreover have "\<exists>out. log_output b (?n + 3) buf = Some out" using buf True by (simp add: log_output_def rd_bytes_def)
    ultimately show ?thesis using e buf(1) True by (auto split: prod.splits)
  next
    case False
    then show ?thesis using e 2(1) by (simp add: wr_bytes_def EOL_CHARS_def)
  qed
qed

theorem log_message_bounds_witness:
  "\<not> (\<exists>u. otPlatLogImpl \<lparr>LOG_BUFFER_ENABLED = True, MULTICORE_LOGGING_ENABLED = False\<rparr> None (Some (replicate 254 65)) sample_log = Some u)"
  using log_message_bounds [of sample_log "\<lparr>LOG_BUFFER_ENABLED = True, MULTICORE_LOGGING_ENABLED = False\<rparr>" None "replicate 254 65"]
  by (simp add: sample_log_def LOG_BUFFER_SIZE_def stamp_text_def)

end
