(* ===== verification/Spec2Isabelle.thy ===== *)
theory Spec2Isabelle
  imports Ram_Storage Flash_Nvm Flash_Littlefs Nbu_Settings Flash_Pdm_Persist Mcxw_Radio_Reports Mcxw_Radio_Time Mcxw_System
    K32w0_Alarm K32w0_Radio_Frames Flash_Nvs K32w0_Flash_Props K32w0_System Alarm_Freertos Token_Bucket Log_Ring
begin

text \<open>
  \<^bold>\<open>Verification of ot-nxp, the OpenThread platform layer for NXP devices.\<close>

  The repository implements the \<^verbatim>\<open>otPlat...\<close> interface that OpenThread calls: non-volatile settings, the IEEE
  802.15.4 radio, alarms, the serial port and the main loop that serves them. This development models the settings
  backends, the drivers and main loops of the mcxw and the k32w0 platforms, the FreeRTOS alarm, the rate
  limiter of the lwIP interface and the log output, and proves what OpenThread relies on. Paths below are relative to
  the root of the repository.

  \<^bold>\<open>Conventions.\<close> Structs are records, enums are datatypes, machine integers are words of their width. A function
  that may stop on an assertion, leave a buffer or loop forever returns an \<open>option\<close>, \<open>None\<close> being "does not return
  normally"; a property of the form \<open>f x = Some y\<close> therefore includes safety and termination. What a driver does to
  the outside (PHY requests, votes against low power, callbacks into OpenThread) is appended to a list in its state.
  Code outside the repository (file systems, the PDM, the PHY, the timer and serial managers, FreeRTOS, OpenThread's
  callbacks) is a record of functions or an argument, with what the sources rely on as named hypotheses
  (\<open>fs_documented\<close>, \<open>pdm_documented\<close>, \<open>realloc_documented\<close>, \<open>callbacks_call_api\<close> and so on) that the witnesses meet.

  \<^bold>\<open>Prelude and contracts.\<close>
  \<^item> \<open>OtNxp_Prelude\<close>: words, error codes, byte memory with bounds, little-endian fields.
  \<^item> \<open>Block_Codec\<close>: the key-length-value blocks of \<^verbatim>\<open>src/common/ram_storage.h\<close> with encoder, decoder and round trip.
  \<^item> \<open>Settings_Spec\<close>: the contract of the settings interface: the abstract store, the step relation
    \<open>settings_step\<close> with the outcomes a call may have, whose mode says what a delete at an index other than 0 and -1
    does (nothing in \<open>Ram_Storage\<close>, removal of that value in the TLV buffers), and the locale \<open>settings_store\<close> with the client lemmas (runs
    refine the store, keys are isolated, read back after write). Every backend interprets it.
  \<^item> \<open>Settings_Persist\<close>: the file system as a parameter and the write-behind protocol between handlers and idle task,
    as a step relation and the locale \<open>write_behind\<close>.
  \<^item> \<open>Bounded_Fifo\<close>: the locale of a bounded queue, interpreted by the receive ring.
  \<^item> \<open>Latest_Queue\<close>: the locale of a queue that overwrites its oldest element, interpreted by the k32w0 serial port.
  \<^item> \<open>Wakeup_Flag\<close>: the locale of an interrupt flag with a vote against low power, interpreted by both alarms and the
    serial port.

  \<^bold>\<open>Settings.\<close>
  \<^item> \<open>Ram_Storage\<close>: \<^verbatim>\<open>src/common/ram_storage.c\<close>. Add, get, set and delete on a block buffer in RAM; refinement of the
    store, exact results of get, and the behaviours the code has beyond the contract (index ignored by delete, values
    dropped by a failed set, 16-bit length that wraps).
  \<^item> \<open>Settings_Tlv\<close>: the TLV buffer shared by \<^verbatim>\<open>flash_nvm.c\<close>, \<^verbatim>\<open>flash_fsa.c\<close> and \<^verbatim>\<open>flash_littlefs.c\<close>. The byte loops of
    \<^verbatim>\<open>moveData\<close> are a memmove; exact effect of set and delete; the capacity that get ignores.
  \<^item> \<open>Flash_Nvm\<close>, \<open>Flash_Fsa\<close>, \<open>Flash_Littlefs\<close>: the three backends of \<^verbatim>\<open>src/common\<close> over that buffer: settings survive a
    power cycle after any calls and one idle run, and no update is lost when handlers run between the pieces of
    the idle save.
  \<^item> \<open>Nbu_Settings\<close>: \<^verbatim>\<open>src/mcxw/mcxw72_nbu/settings.c\<close> and the settings services of \<^verbatim>\<open>system.c\<close> there: the radio core keeps its
    settings through the main core; write-through, and when the spin on the shared flag ends.
  \<^item> \<open>Pdm_Glue\<close>, \<open>Pdm_Queue\<close>, \<open>Pdm_Store\<close>: \<^verbatim>\<open>src/k32w0/platform/pdm_ram_storage_glue.c\<close> in the configuration with dynamic
    memory and saving in the idle task: the save queue as a list, segments saved and loaded byte for byte, what a full
    queue and a shrinking buffer do.
  \<^item> \<open>Flash_Pdm\<close>, \<open>Flash_Pdm_Persist\<close>: \<^verbatim>\<open>src/k32w0/platform/flash_pdm.c\<close>: the handlers refine the store with one save
    request in the queue, and settings survive a power cycle; what happens to an emptied store, to a new key that
    does not fit and to the calibration data of the radio.
  \<^item> \<open>Printf_Numbers\<close>, \<open>Flash_Nvs\<close>: \<^verbatim>\<open>src/common/flash_nvs.c\<close> over the settings subsystem of Zephyr, which is the parameter
    \<open>nvs_env\<close> with the hypotheses \<open>zephyr_documented\<close> and \<open>nvs_reliable\<close>. The backend keeps one named entry per value and does
    not meet the contract of the others, so its calls refine numbered slots; reads are exact, and the theory shows
    how an add after a delete overwrites a value.

  \<^bold>\<open>The mcxw platform.\<close>
  \<^item> \<open>Mcxw_Rx_Ring\<close>: the lockless receive ring of \<^verbatim>\<open>src/mcxw/platform/radio.c\<close>: a step relation that interleaves the PHY
    context and the main loop; nothing is lost, duplicated or reordered, and whole operations are a bounded queue.
  \<^item> \<open>Mcxw_Radio\<close>: the driver itself, one definition per call and indication. \<open>Mcxw_Radio_Ops\<close>: runs of the driver and the
    locales \<open>ledger_invariant\<close> and \<open>vote_invariant\<close>. \<open>Mcxw_Radio_Buffers\<close>: every PHY buffer is freed exactly once.
    \<open>Mcxw_Radio_Reports\<close>: every transmission and frame is reported once. \<open>Mcxw_Radio_Power\<close>: votes are balanced.
    \<open>Mcxw_Radio_Time\<close>: CSL phase, sample times and time stamps under wrap-around.
  \<^item> \<open>Mcxw_Alarm\<close>: \<^verbatim>\<open>src/mcxw/platform/alarm.c\<close>: the 64-bit time follows the 32-bit counter, alarms are set for exactly
    their deadline, each pending alarm is reported once.
  \<^item> \<open>Mcxw_Uart\<close>: \<^verbatim>\<open>src/mcxw/platform/uart.c\<close>: the receive path, interleaved with its interrupt, loses no byte and no
    wake-up; the flush returns.
  \<^item> \<open>Mcxw_System\<close>: \<^verbatim>\<open>src/mcxw/platform/system.c\<close>: the main loop over the three drivers and their common count of votes
    against low power: the device sleeps exactly when nothing waits.

  \<^bold>\<open>The k32w0 platform.\<close> The radio of \<^verbatim>\<open>src/k32w0/platform/radio.c\<close> is in six theories.
  \<^item> \<open>K32w0_Src_Match\<close>: the two tables of children with waiting frames; the locale \<open>match_table\<close>, a multiset of bounded size,
    which both tables implement.
  \<^item> \<open>K32w0_Rx_Ring\<close>: the receive ring with 16-bit indices, carried over to the ring of mcxw by \<open>as8\<close>.
  \<^item> \<open>K32w0_Radio\<close>: state, calls, interrupt handler, main loop and the callbacks the MAC makes while it receives. The MAC
    library, the clock and OpenThread's frame helpers are the record \<open>k32_mac\<close>, whose answers may depend on everything that
    happened before; OpenThread's reaction to a callback is a list of calls, and interrupts are taken in the waits,
    inside the callbacks and between the steps of the main loop.
  \<^item> \<open>K32w0_Radio_Run\<close>: the invariant \<open>k32_inv\<close> and its preservation, operation by operation.
  \<^item> \<open>K32w0_Radio_Props\<close>: no frame is lost, reordered or overwritten; the main loop drains the ring; votes against low power
    match the state; every call returns. How OpenThread uses the driver is \<open>uses\<close>: it enables only a disabled radio, and for
    the votes it also puts the radio to sleep before it disables it. The other hypotheses are \<open>reacts\<close> (callbacks do not reset the driver), \<open>clock_law\<close> (the MAC
    clock advances) and \<open>burst_ends\<close> (interrupts do not arrive forever); what a reset inside a callback and a disable
    without sleep do is proved as well.
  \<^item> \<open>K32w0_Radio_Frames\<close>: the frame-pending answer from the header of a frame to its report, the report of a transmission, power, air time and CCA settings,
    under \<open>frame_laws\<close> and injectivity of the 64-bit reader of addresses.
  \<^item> \<open>Latest_Queue\<close>, \<open>K32w0_Uart\<close>, \<open>K32w0_Uart_Ring\<close>, \<open>K32w0_Uart_Props\<close>: the serial port of \<^verbatim>\<open>src/k32w0/platform/uart.c\<close>. The ring
    overwrites its oldest character, which is the locale \<open>latest_queue\<close>; the interrupt handler is run on the list of values
    its register accesses will read, and returns on every list that \<open>ends_quiet\<close>. Characters are handed on in order,
    transmissions go out byte for byte and are reported once, the flush returns.
  \<^item> \<open>K32w0_Flash\<close>, \<open>K32w0_Flash_Props\<close>: \<^verbatim>\<open>src/k32w0/platform/flash.c\<close>. The flash driver of the SDK is \<open>flash_dev\<close>; \<open>flash_documented\<close>
    says what its calls do to the cells, \<open>flash_reliable\<close> that they do not fail. Exact effect of writes and reads inside the
    storage region (\<open>in_region\<close>), with the bytes that a write erases and a read does not deliver.
  \<^item> \<open>K32w0_Spi\<close>, \<open>K32w0_Spi_Props\<close>: \<^verbatim>\<open>src/k32w0/platform/spi_slave.c\<close>. The ring that the DMA fills is read as a list; \<open>spi_waiting\<close>
    says which idle bytes and frame bytes wait in it. A complete frame is handed on exactly, an incomplete one waits.
  \<^item> \<open>K32w0_System\<close>: \<^verbatim>\<open>src/k32w0/platform/system.c\<close> and \<^verbatim>\<open>misc.c\<close>. Nested interrupt locks, the calibration cycle of the
    oscillators, and the main loop: under \<open>turn_ok\<close>, which collects what the drivers assume, one turn serves every driver and
    keeps their invariants (\<open>k32_sys_ok\<close>), so turns can be repeated.

  \<^bold>\<open>Other drivers.\<close>
  \<^item> \<open>K32w0_Alarm\<close>: \<^verbatim>\<open>src/k32w0/platform/alarm.c\<close>: the decision on a circle of 32-bit times and the deadline that is armed.
  \<^item> \<open>Alarm_Freertos\<close>: \<^verbatim>\<open>src/common/alarm_freertos.c\<close>: the alarm is never late, below the wrap of the 32-bit milliseconds.
  \<^item> \<open>Token_Bucket\<close>: \<^verbatim>\<open>src/common/lwip/token_bucket.c\<close>: the locale \<open>rate_limiter\<close> and the bound on granted tokens.
  \<^item> \<open>Log_Ring\<close>: \<^verbatim>\<open>src/common/logging.c\<close>: messages that fit into the log ring come out complete and in order, the exact
    length up to which a message stays inside its buffer, and how the ring overwrites itself.

  \<^bold>\<open>Loops, bounds and fuel.\<close> Cursor loops whose step length comes from memory are \<open>partial_function (option)\<close>, so that a
  block of length that never advances would be \<open>None\<close>; the properties state that they return. Counted loops are
  structural. The decoder \<open>dec\<close> of \<open>Block_Codec\<close> uses the length of its input as fuel, which is enough because every
  block takes four bytes or more. Spins on hardware (\<^verbatim>\<open>plat_settings_save\<close>, the flush of the serial port) take a stream of
  observations and return if and only if, or as soon as, one of them ends the wait. Hypotheses such as \<open>length v + 4 < 65536\<close>
  and the segment bound of \<open>fp_platform\<close> mark where 16-bit lengths would wrap; what happens beyond is stated where the
  code reaches it.

  \<^bold>\<open>Not modelled.\<close> Vendored code, examples and board files; the border router glue, the lwIP interface besides its token
  bucket, the NCP and Spinel transports; diagnostics, entropy and crypto calls; of the k32w0 radio the delays of the
  RCP build, coexistence and the stubs the application overrides; encryption of the PDM and its static-memory variant; clock, pin and log-port setup. A handler that holds a
  mutex is one step; where handlers and interrupts interleave without one, the steps are those of the code, with two
  exceptions: a turn of the main loop of mcxw, the radio's included, is one step between indications and interrupts (its
  receive ring and serial port are also shown step by step), and the interrupts of the k32w0 serial port during the other
  drivers of a turn are taken at its end. Of \<^verbatim>\<open>src/mcxw/platform/system.c\<close> the build with \<^verbatim>\<open>USE_RTOS\<close> is modelled. The serial
  port of mcxw is modelled from the moment \<^verbatim>\<open>otPlatUartEnabled\<close> is set.

  \<^bold>\<open>Plan.\<close> The two platforms with drivers of their own are covered. What is left is the glue to third-party stacks: the
  transports to a radio co-processor, the lwIP interface and the border router.
\<close>

end
